(* ===== verification/Prelude.thy ===== *)
theory Prelude
  imports "HOL-Library.Word"
begin

text \<open>
  Shared vocabulary of the development: the machine types of the C sources, the faults that
  stand for undefined behaviour, the reads and writes of C buffers, and the generic lemmas on
  lists and words that the components share.

  A C object of type \<open>uint8_t[n]\<close> or \<open>char[n]\<close> is a \<open>byte list\<close>. A pointer that is read as a
  string or with \<open>memcpy\<close> is the list of bytes found in memory from that pointer on, so a read
  that needs more bytes than are there is the value \<open>Inl ReadOverrun\<close>, and a write past the
  end of the destination is \<open>Inl WriteOverrun\<close>.
\<close>

unbundle bit_operations_syntax

section \<open>Types\<close>

type_synonym byte = "8 word"
type_synonym u32 = "32 word"
type_synonym u64 = "64 word"

datatype fault = NullDeref | ReadOverrun | WriteOverrun

type_synonym 'a res = "fault + 'a"

named_theorems width \<open>lengths of the byte arrays the operations build\<close>
named_theorems c_mem \<open>behaviour of the C memory operations\<close>

section \<open>Sequencing\<close>

fun bind_r :: "'e + 'a \<Rightarrow> ('a \<Rightarrow> 'e + 'b) \<Rightarrow> 'e + 'b" where
  "bind_r (Inl e) k = Inl e"
| "bind_r (Inr x) k = k x"

lemma bind_r_Inr_iff: "bind_r r k = Inr y \<longleftrightarrow> (\<exists>x. r = Inr x \<and> k x = Inr y)"
  by (cases r) auto

lemma bind_r_assoc: "bind_r (bind_r r k) l = bind_r r (\<lambda>x. bind_r (k x) l)"
  by (cases r) auto

lemma bind_r_cong [fundef_cong]:
  "r = r' \<Longrightarrow> (\<And>x. r' = Inr x \<Longrightarrow> k x = k' x) \<Longrightarrow> bind_r r k = bind_r r' k'"
  by (cases r') simp_all

section \<open>C buffers\<close>

text \<open>\<open>memcpy\<close> of \<open>n\<close> bytes out of the memory \<open>mem\<close>.\<close>

definition rd :: "nat \<Rightarrow> byte list \<Rightarrow> byte list res" where
  "rd n mem = (if n \<le> length mem then Inr (take n mem) else Inl ReadOverrun)"

text \<open>The write of \<open>bs\<close> at the start of the object \<open>dest\<close>.\<close>

definition wr :: "byte list \<Rightarrow> byte list \<Rightarrow> byte list res" where
  "wr dest bs = (if length bs \<le> length dest then Inr (bs @ drop (length bs) dest)
                 else Inl WriteOverrun)"

text \<open>\<open>strlen\<close>: the distance to the first NUL byte.\<close>

fun strlen :: "byte list \<Rightarrow> nat res" where
  "strlen [] = Inl ReadOverrun"
| "strlen (b # bs) = (if b = 0 then Inr 0 else bind_r (strlen bs) (\<lambda>n. Inr (Suc n)))"

lemma rd_ok [c_mem]: "n \<le> length mem \<Longrightarrow> rd n mem = Inr (take n mem)"
  by (simp add: rd_def)

lemma rd_exact [c_mem]: "length bs = n \<Longrightarrow> rd n (bs @ rest) = Inr bs"
  by (simp add: rd_def)

lemma wr_ok [c_mem]: "length bs \<le> length dest \<Longrightarrow> wr dest bs = Inr (bs @ drop (length bs) dest)"
  by (simp add: wr_def)

lemma wr_length: "wr dest bs = Inr d \<Longrightarrow> length d = length dest"
  by (auto simp: wr_def split: if_splits)

lemma strlen_Inr_iff:
  "strlen mem = Inr n \<longleftrightarrow> n < length mem \<and> mem ! n = 0 \<and> 0 \<notin> set (take n mem)"
proof (induction mem arbitrary: n)
  case Nil
  then show ?case by simp
next
  case (Cons b bs)
  then show ?case by (cases n) (auto simp: bind_r_Inr_iff)
qed

lemma strlen_terminated [c_mem]: "0 \<notin> set s \<Longrightarrow> strlen (s @ 0 # rest) = Inr (length s)"
  by (induction s) auto

lemma strlen_append [c_mem]:
  "0 \<notin> set s \<Longrightarrow> strlen (s @ mem) = bind_r (strlen mem) (\<lambda>n. Inr (length s + n))"
  by (induction s) (auto simp: bind_r_assoc, (cases "strlen mem"; simp)+)

lemma strlen_no_nul [c_mem]: "0 \<notin> set s \<Longrightarrow> strlen s = Inl ReadOverrun"
  by (induction s) auto

section \<open>Lists\<close>

lemma length_16_expand:
  assumes "length v = 16"
  shows "v = [v ! 0, v ! 1, v ! 2, v ! 3, v ! 4, v ! 5, v ! 6, v ! 7,
              v ! 8, v ! 9, v ! 10, v ! 11, v ! 12, v ! 13, v ! 14, v ! 15]"
  using assms by (auto simp: numeral_eq_Suc length_Suc_conv)

lemma length_concat_const: "(\<And>x. x \<in> set xs \<Longrightarrow> length (f x) = k) \<Longrightarrow>
  length (concat (map f xs)) = k * length xs"
  by (induction xs) auto

lemma map2_nth_upt:
  "n \<le> length xs \<Longrightarrow> n \<le> length ys \<Longrightarrow>
   map (\<lambda>i. f (xs ! i) (ys ! i)) [0..<n] = map2 f (take n xs) (take n ys)"
  by (rule nth_equalityI) auto

lemma list_update_swap_ne: "i \<noteq> j \<Longrightarrow> xs[i := x, j := y] = xs[j := y, i := x]"
  by (rule list_update_swap)

section \<open>Words\<close>

lemma unat_u32_less [simp]: "unat (w :: u32) < 4294967296"
  using unsigned_less [of w, where ?'a = nat] by simp

lemma unat_byte_less [simp]: "unat (b :: byte) < 256"
  using unsigned_less [of b, where ?'a = nat] by simp

lemma xor_cancel_right [simp]: "((a :: 'a::len word) XOR b) XOR b = a"
  by (simp add: xor.assoc)

lemma map2_xor_cancel:
  "length m \<le> length k \<Longrightarrow> map2 (XOR) (map2 (XOR) m k) k = (m :: byte list)"
  by (induction m k rule: list_induct2') auto

lemma map2_xor_zeros: "length k \<le> n \<Longrightarrow> map2 (XOR) (replicate n 0) k = (k :: byte list)"
  by (rule nth_equalityI) auto

lemma map2_xor_zeros_right:
  "length m \<le> n \<Longrightarrow> map2 (XOR) m (replicate n 0) = (m :: byte list)"
  by (rule nth_equalityI) auto

end
