(* ===== verification/Forro.thy ===== *)
theory Forro
  imports Prelude
begin

text \<open>
  The Forro14 stream cipher, \<open>forro_cipher/src/forro/ref/forro.c\<close> and its header: the
  little-endian accessors, the quarter round \<open>Q\<close>, the block function \<open>forro\<close>, the three set-up
  functions and the encryption loop. The context \<open>stream_ctx\<close> is the record with the sixteen
  words; \<open>wf_ctx\<close> is its type invariant. The trusted application (\<open>optee_dra/dra/ta/forro.c\<close>)
  carries a copy of the same file, and the tracing variant is in the theory \<open>Forro_Debug\<close>.
\<close>

section \<open>The header: little-endian accessors and the context\<close>

definition U8TO32_LITTLE :: "byte list \<Rightarrow> u32" where
  "U8TO32_LITTLE p = ucast (p ! 0) OR push_bit 8 (ucast (p ! 1))
     OR push_bit 16 (ucast (p ! 2)) OR push_bit 24 (ucast (p ! 3))"

definition U32TO8_LITTLE :: "u32 \<Rightarrow> byte list" where
  "U32TO8_LITTLE v = [ucast v, ucast (drop_bit 8 v), ucast (drop_bit 16 v), ucast (drop_bit 24 v)]"

definition SIGMA_const :: "byte list" where
  "SIGMA_const = map of_char ''voltadaasabranca''"

record stream_ctx =
  state :: "u32 list"

definition wf_ctx :: "stream_ctx \<Rightarrow> bool" where
  "wf_ctx x \<longleftrightarrow> length (state x) = 16"

text \<open>The assignment \<open>x->state[i] = v\<close>.\<close>

definition set_word :: "nat \<Rightarrow> u32 \<Rightarrow> stream_ctx \<Rightarrow> stream_ctx" where
  "set_word i v x = x\<lparr>state := (state x)[i := v]\<rparr>"

section \<open>The block function\<close>

definition rounds :: nat where
  "rounds = 7"

definition ROTL :: "u32 \<Rightarrow> nat \<Rightarrow> u32" where
  "ROTL a b = push_bit b a OR drop_bit (32 - b) a"

text \<open>
  The macro \<open>Q(a, b, c, d, e)\<close>: twelve assignments in sequence, each to one of the five words.
  Every use in the sources names five different words.
\<close>

fun quarter :: "u32 \<times> u32 \<times> u32 \<times> u32 \<times> u32 \<Rightarrow> u32 \<times> u32 \<times> u32 \<times> u32 \<times> u32" where
  "quarter (a, b, c, d, e) =
    (let d = d + e; c = c XOR d; b = b + c; b = ROTL b 10;
         a = a + b; e = e XOR a; d = d + e; d = ROTL d 27;
         c = c + d; b = b XOR c; a = a + b; a = ROTL a 8
     in (a, b, c, d, e))"

definition Q :: "nat \<Rightarrow> nat \<Rightarrow> nat \<Rightarrow> nat \<Rightarrow> nat \<Rightarrow> u32 list \<Rightarrow> u32 list" where
  "Q ia ib ic jd ie v =
    (case quarter (v ! ia, v ! ib, v ! ic, v ! jd, v ! ie) of
       (a, b, c, d, e) \<Rightarrow> v[ia := a, ib := b, ic := c, jd := d, ie := e])"

definition forro_round :: "u32 list \<Rightarrow> u32 list" where
  "forro_round v =
    (let v = Q 0 4 8 12 3 v;
         v = Q 1 5 9 13 0 v;
         v = Q 2 6 10 14 1 v;
         v = Q 3 7 11 15 2 v;
         v = Q 0 5 10 15 3 v;
         v = Q 1 6 11 12 0 v;
         v = Q 2 7 8 13 1 v
     in Q 3 4 9 14 2 v)"

definition forro :: "u32 list \<Rightarrow> byte list" where
  "forro init =
    (let state_vector = (forro_round ^^ rounds) init;
         state_vector = map2 (+) init state_vector
     in concat (map U32TO8_LITTLE state_vector))"

section \<open>Key, IV and verifier set-up\<close>

definition forro_keysetup :: "stream_ctx \<Rightarrow> byte list \<Rightarrow> stream_ctx" where
  "forro_keysetup x key =
    (let x = set_word 0 (U8TO32_LITTLE (drop 0 key)) x;
         x = set_word 1 (U8TO32_LITTLE (drop 4 key)) x;
         x = set_word 2 (U8TO32_LITTLE (drop 8 key)) x;
         x = set_word 3 (U8TO32_LITTLE (drop 12 key)) x;
         x = set_word 6 (U8TO32_LITTLE (drop 0 SIGMA_const)) x;
         x = set_word 7 (U8TO32_LITTLE (drop 4 SIGMA_const)) x;
         x = set_word 8 (U8TO32_LITTLE (drop 16 key)) x;
         x = set_word 9 (U8TO32_LITTLE (drop 20 key)) x;
         x = set_word 10 (U8TO32_LITTLE (drop 24 key)) x;
         x = set_word 11 (U8TO32_LITTLE (drop 28 key)) x;
         x = set_word 14 (U8TO32_LITTLE (drop 8 SIGMA_const)) x
     in set_word 15 (U8TO32_LITTLE (drop 12 SIGMA_const)) x)"

definition forro_ivsetup :: "stream_ctx \<Rightarrow> byte list \<Rightarrow> stream_ctx" where
  "forro_ivsetup x iv =
    (let x = set_word 4 0 x;
         x = set_word 5 0 x;
         x = set_word 12 (U8TO32_LITTLE (drop 0 iv)) x
     in set_word 13 (U8TO32_LITTLE (drop 4 iv)) x)"

definition forro_versetup :: "stream_ctx \<Rightarrow> byte list \<Rightarrow> byte list \<Rightarrow> stream_ctx" where
  "forro_versetup x configuracao_rodada configuracao_dispositivo =
    (let x = set_word 4 (U8TO32_LITTLE (drop 0 configuracao_rodada)) x;
         x = set_word 5 (U8TO32_LITTLE (drop 4 configuracao_rodada)) x;
         x = set_word 6 (U8TO32_LITTLE (drop 0 configuracao_dispositivo)) x;
         x = set_word 7 (U8TO32_LITTLE (drop 4 configuracao_dispositivo)) x;
         x = set_word 12 (U8TO32_LITTLE (drop 8 configuracao_rodada)) x;
         x = set_word 13 (U8TO32_LITTLE (drop 12 configuracao_rodada)) x;
         x = set_word 14 (U8TO32_LITTLE (drop 8 configuracao_dispositivo)) x
     in set_word 15 (U8TO32_LITTLE (drop 12 configuracao_dispositivo)) x)"

section \<open>The encryption loop\<close>

text \<open>
  The block counter: word 4 is incremented, with a carry into word 5 when it wraps to zero.
\<close>

definition next_ctx :: "stream_ctx \<Rightarrow> stream_ctx" where
  "next_ctx x =
    (let x = set_word 4 (state x ! 4 + 1) x
     in if state x ! 4 = 0 then set_word 5 (state x ! 5 + 1) x else x)"

function encrypt_loop :: "stream_ctx \<Rightarrow> byte list \<Rightarrow> u32 \<Rightarrow> stream_ctx \<times> byte list" where
  "encrypt_loop x m bytes =
    (let output = forro (state x); x' = next_ctx x in
     if bytes \<le> 64 then (x', map (\<lambda>i. m ! i XOR output ! i) [0..<unat bytes])
     else (case encrypt_loop x' (drop 64 m) (bytes - 64) of
             (x'', c) \<Rightarrow> (x'', map (\<lambda>i. m ! i XOR output ! i) [0..<64] @ c)))"
  by pat_completeness auto
termination
proof (relation "measure (\<lambda>(x, m, bytes). unat bytes)", goal_cases)
  case 1
  then show ?case by simp
next
  case (2 x m bytes ks x')
  then have "64 < bytes" by simp
  then have "unat (bytes - 64) = unat bytes - 64" and "64 < unat bytes"
    by (simp_all add: unat_sub word_le_nat_alt word_less_nat_alt)
  then show ?case by simp
qed

declare encrypt_loop.simps [simp del]

text \<open>
  \<open>forro_encrypt_bytes\<close>: no work for a zero count; otherwise the loop reads \<open>bytes\<close> bytes of the
  message, which must be there.
\<close>

definition forro_encrypt_bytes :: "stream_ctx \<Rightarrow> byte list \<Rightarrow> u32 \<Rightarrow> (stream_ctx \<times> byte list) res" where
  "forro_encrypt_bytes x m bytes =
    (if bytes = 0 then Inr (x, [])
     else if length m < unat bytes then Inl ReadOverrun
     else Inr (encrypt_loop x m bytes))"

definition forro_decrypt_bytes :: "stream_ctx \<Rightarrow> byte list \<Rightarrow> u32 \<Rightarrow> (stream_ctx \<times> byte list) res" where
  "forro_decrypt_bytes x c bytes = forro_encrypt_bytes x c bytes"

definition forro_keystream_bytes :: "stream_ctx \<Rightarrow> u32 \<Rightarrow> (stream_ctx \<times> byte list) res" where
  "forro_keystream_bytes x bytes =
    (let stream = replicate (unat bytes) 0 in forro_encrypt_bytes x stream bytes)"

section \<open>Little-endian words and rotations\<close>

lemma less_4_cases: "(k :: nat) < 4 \<Longrightarrow> k = 0 \<or> k = 1 \<or> k = 2 \<or> k = 3"
  by linarith

lemma bit_byte: "bit (b :: byte) k \<Longrightarrow> k < 8"
  by (drule bit_imp_le_length) simp

lemma bit_U8TO32: "bit (U8TO32_LITTLE p) n \<longleftrightarrow>
  (if n < 8 then bit (p ! 0) n else if n < 16 then bit (p ! 1) (n - 8)
   else if n < 24 then bit (p ! 2) (n - 16) else n < 32 \<and> bit (p ! 3) (n - 24))"
    unfolding U8TO32_LITTLE_def
    by (simp only: bit_or_iff bit_push_bit_iff bit_ucast_iff possible_bit_word) (auto dest: bit_byte)

lemma length_U32TO8 [width]: "length (U32TO8_LITTLE v) = 4"
  by (simp add: U32TO8_LITTLE_def)

lemma U32TO8_nth: "k < 4 \<Longrightarrow> U32TO8_LITTLE v ! k = ucast (drop_bit (8 * k) v)"
  by (drule less_4_cases) (auto simp: U32TO8_LITTLE_def)

lemma bit_U32TO8: "k < 4 \<Longrightarrow> bit (U32TO8_LITTLE v ! k) n \<longleftrightarrow> n < 8 \<and> bit v (8 * k + n)"
  by (simp only: U32TO8_nth bit_ucast_iff bit_drop_bit_eq possible_bit_word comp_def) auto

lemma U8TO32_cong: 
  "(\<And>k. k < 4 \<Longrightarrow> p ! k = q ! k) \<Longrightarrow> U8TO32_LITTLE p = U8TO32_LITTLE q"
  by (simp add: U8TO32_LITTLE_def)

lemma U8TO32_U32TO8 [simp]: "U8TO32_LITTLE (U32TO8_LITTLE v @ rest) = v"
proof (rule bit_word_eqI)
  fix n assume "n < LENGTH(32)"
  then have n: "n < 32" by simp
  have nth: "(U32TO8_LITTLE v @ rest) ! k = U32TO8_LITTLE v ! k" if "k < 4" for k
    using that by (simp add: nth_append width)
  show "bit (U8TO32_LITTLE (U32TO8_LITTLE v @ rest)) n = bit v n"
    unfolding bit_U8TO32 using n by (simp only: nth bit_U32TO8) (auto simp: nth bit_U32TO8)
qed

lemma U32TO8_U8TO32: 
  assumes "length p = 4" shows "U32TO8_LITTLE (U8TO32_LITTLE p) = p"
proof (rule nth_equalityI)
  show "length (U32TO8_LITTLE (U8TO32_LITTLE p)) = length p"
    using assms by (simp add: U32TO8_LITTLE_def)
next
  fix k assume "k < length (U32TO8_LITTLE (U8TO32_LITTLE p))"
  then have k: "k < 4" by (simp add: U32TO8_LITTLE_def)
  show "U32TO8_LITTLE (U8TO32_LITTLE p) ! k = p ! k"
  proof (rule bit_word_eqI)
    fix n assume "n < LENGTH(8)"
    then show "bit (U32TO8_LITTLE (U8TO32_LITTLE p) ! k) n = bit (p ! k) n"
      using less_4_cases [OF k] by (auto simp: bit_U32TO8 bit_U8TO32)
  qed
qed

lemma ROTL_word_rotl: "b < 32 \<Longrightarrow> ROTL a b = word_rotl b a"
proof (rule bit_word_eqI)
  fix n assume b: "b < 32" and "n < LENGTH(32)"
  then have n: "n < 32" by simp
  have "(n + (32 - b)) mod 32 = (if b \<le> n then n - b else 32 + n - b)"
    using b n by (auto simp: mod_if)
  moreover have "\<not> bit a (32 + n - b)" if "b \<le> n"
     using that by (auto dest!: bit_imp_le_length)
  ultimately show "bit (ROTL a b) n = bit (word_rotl b a) n"
    using b n unfolding ROTL_def
    by (auto simp: bit_or_iff bit_push_bit_iff bit_drop_bit_eq bit_word_rotl_iff)
qed

section \<open>Lengths and the type invariant\<close>

lemma length_Q [width]: "length (Q ia ib ic jd ie v) = length v"
  by (simp add: Q_def split: prod.splits)

lemma length_forro_round [width]: "length (forro_round v) = length v"
  by (simp add: forro_round_def Let_def width)

lemma length_round_pow [width]: "length ((forro_round ^^ n) v) = length v"
  by (induction n) (auto simp: width)

lemma length_forro: "length (forro v) = 4 * length v"
  by (simp add: forro_def Let_def length_concat_const [where k = 4] width)

lemma length_forro_16 [width]: "length v = 16 \<Longrightarrow> length (forro v) = 64"
  by (simp add: length_forro)

lemma state_set_word [simp]: "state (set_word i v x) = (state x)[i := v]"
  by (simp add: set_word_def)

lemma wf_set_word [simp]: "wf_ctx (set_word i v x) = wf_ctx x"
  by (simp add: wf_ctx_def)

lemma wf_keysetup: "wf_ctx (forro_keysetup x key) = wf_ctx x"
  by (simp add: forro_keysetup_def Let_def)

lemma wf_ivsetup: "wf_ctx (forro_ivsetup x iv) = wf_ctx x"
  by (simp add: forro_ivsetup_def Let_def)

lemma wf_versetup: "wf_ctx (forro_versetup x cr cd) = wf_ctx x"
  by (simp add: forro_versetup_def Let_def)

lemma wf_next_ctx: "wf_ctx (next_ctx x) = wf_ctx x"
  by (simp add: next_ctx_def Let_def)

lemmas wf_setups = wf_keysetup wf_ivsetup wf_versetup wf_next_ctx

section \<open>What the set-ups leave in the state\<close>

lemma list_16E:
  assumes "length v = 16"
  obtains v0 v1 v2 v3 v4 v5 v6 v7 v8 v9 v10 v11 v12 v13 v14 v15 where
    "v = [v0, v1, v2, v3, v4, v5, v6, v7, v8, v9, v10, v11, v12, v13, v14, v15]"
  using length_16_expand [OF assms] by blast

lemma state_keysetup:
  assumes "wf_ctx x"
  shows "state (forro_keysetup x key) =
    [U8TO32_LITTLE key, U8TO32_LITTLE (drop 4 key), U8TO32_LITTLE (drop 8 key),
     U8TO32_LITTLE (drop 12 key), state x ! 4, state x ! 5,
     U8TO32_LITTLE SIGMA_const, U8TO32_LITTLE (drop 4 SIGMA_const),
     U8TO32_LITTLE (drop 16 key), U8TO32_LITTLE (drop 20 key), U8TO32_LITTLE (drop 24 key),
     U8TO32_LITTLE (drop 28 key), state x ! 12, state x ! 13,
     U8TO32_LITTLE (drop 8 SIGMA_const), U8TO32_LITTLE (drop 12 SIGMA_const)]"
  using assms unfolding wf_ctx_def
  by (elim list_16E) (simp add: forro_keysetup_def Let_def)

lemma state_versetup:
  assumes "wf_ctx x"
  shows "state (forro_versetup x cr cd) =
    [state x ! 0, state x ! 1, state x ! 2, state x ! 3,
     U8TO32_LITTLE cr, U8TO32_LITTLE (drop 4 cr), U8TO32_LITTLE cd, U8TO32_LITTLE (drop 4 cd),
     state x ! 8, state x ! 9, state x ! 10, state x ! 11,
     U8TO32_LITTLE (drop 8 cr), U8TO32_LITTLE (drop 12 cr),
     U8TO32_LITTLE (drop 8 cd), U8TO32_LITTLE (drop 12 cd)]"
  using assms unfolding wf_ctx_def
  by (elim list_16E) (simp add: forro_versetup_def Let_def)

lemma state_ivsetup:
  assumes "wf_ctx x"
  shows "state (forro_ivsetup x iv) =
    [state x ! 0, state x ! 1, state x ! 2, state x ! 3, 0, 0, state x ! 6, state x ! 7,
     state x ! 8, state x ! 9, state x ! 10, state x ! 11,
     U8TO32_LITTLE iv, U8TO32_LITTLE (drop 4 iv), state x ! 14, state x ! 15]"
  using assms unfolding wf_ctx_def
  by (elim list_16E) (simp add: forro_ivsetup_def Let_def)

section \<open>The block function is built on a permutation\<close>

fun quarter_inv :: "u32 \<times> u32 \<times> u32 \<times> u32 \<times> u32 \<Rightarrow> u32 \<times> u32 \<times> u32 \<times> u32 \<times> u32" where
  "quarter_inv (a, b, c, d, e) =
    (let a = word_rotr 8 a; a = a - b; b = b XOR c; c = c - d;
         d = word_rotr 27 d; d = d - e; e = e XOR a; a = a - b;
         b = word_rotr 10 b; b = b - c; c = c XOR d; d = d - e
     in (a, b, c, d, e))"

lemma quarter_inv_quarter: "quarter_inv (quarter w) = w"
  by (cases w) (simp add: Let_def ROTL_word_rotl)

lemma quarter_quarter_inv: "quarter (quarter_inv w) = w"
  by (cases w) (simp add: Let_def ROTL_word_rotl)

definition Q_inv :: "nat \<Rightarrow> nat \<Rightarrow> nat \<Rightarrow> nat \<Rightarrow> nat \<Rightarrow> u32 list \<Rightarrow> u32 list" where
  "Q_inv ia ib ic jd ie v =
    (case quarter_inv (v ! ia, v ! ib, v ! ic, v ! jd, v ! ie) of
       (a, b, c, d, e) \<Rightarrow> v[ia := a, ib := b, ic := c, jd := d, ie := e])"

lemma length_Q_inv [width]: "length (Q_inv ia ib ic jd ie v) = length v"
  by (simp add: Q_inv_def split: prod.splits)

lemma read_back_5:
  fixes a b c d e :: u32
  assumes "distinct [ia, ib, ic, jd, ie]" "set [ia, ib, ic, jd, ie] \<subseteq> {..<length v}"
    and "w = v[ia := a, ib := b, ic := c, jd := d, ie := e]"
  shows "w ! ia = a" "w ! ib = b" "w ! ic = c" "w ! jd = d" "w ! ie = e"
    "w[ia := v ! ia, ib := v ! ib, ic := v ! ic, jd := v ! jd, ie := v ! ie] = v"
proof -
  show "w ! ia = a" "w ! ib = b" "w ! ic = c" "w ! jd = d" "w ! ie = e"
    using assms by (auto simp: nth_list_update)
  show "w[ia := v ! ia, ib := v ! ib, ic := v ! ic, jd := v ! jd, ie := v ! ie] = v"
    using assms by (intro nth_equalityI) (auto simp: nth_list_update)
qed

lemma Q_inv_Q:
  assumes "distinct [ia, ib, ic, jd, ie]" "set [ia, ib, ic, jd, ie] \<subseteq> {..<length v}"
  shows "Q_inv ia ib ic jd ie (Q ia ib ic jd ie v) = v"
proof -
  obtain a b c d e where q: "quarter (v ! ia, v ! ib, v ! ic, v ! jd, v ! ie) = (a, b, c, d, e)"
    by (cases "quarter (v ! ia, v ! ib, v ! ic, v ! jd, v ! ie)") auto
  then have "quarter_inv (a, b, c, d, e) = (v ! ia, v ! ib, v ! ic, v ! jd, v ! ie)"
    by (metis quarter_inv_quarter)
  then show ?thesis
    using read_back_5 [OF assms refl, of a b c d e] q by (simp add: Q_def Q_inv_def del: quarter_inv.simps quarter.simps)
qed

lemma Q_Q_inv:
  assumes "distinct [ia, ib, ic, jd, ie]" "set [ia, ib, ic, jd, ie] \<subseteq> {..<length v}"
  shows "Q ia ib ic jd ie (Q_inv ia ib ic jd ie v) = v"
proof -
  obtain a b c d e where q: "quarter_inv (v ! ia, v ! ib, v ! ic, v ! jd, v ! ie) = (a, b, c, d, e)"
    by (cases "quarter_inv (v ! ia, v ! ib, v ! ic, v ! jd, v ! ie)") auto
  then have "quarter (a, b, c, d, e) = (v ! ia, v ! ib, v ! ic, v ! jd, v ! ie)"
    by (metis quarter_quarter_inv)
  then show ?thesis
    using read_back_5 [OF assms refl, of a b c d e] q by (simp add: Q_def Q_inv_def del: quarter_inv.simps quarter.simps)
qed

definition forro_round_inv :: "u32 list \<Rightarrow> u32 list" where
  "forro_round_inv v =
    (let v = Q_inv 3 4 9 14 2 v;
         v = Q_inv 2 7 8 13 1 v;
         v = Q_inv 1 6 11 12 0 v;
         v = Q_inv 0 5 10 15 3 v;
         v = Q_inv 3 7 11 15 2 v;
         v = Q_inv 2 6 10 14 1 v;
         v = Q_inv 1 5 9 13 0 v
     in Q_inv 0 4 8 12 3 v)"

lemma length_forro_round_inv [width]: "length (forro_round_inv v) = length v"
  by (simp add: forro_round_inv_def Let_def width)

lemma round_inv_round: "length v = 16 \<Longrightarrow> forro_round_inv (forro_round v) = v"
  by (simp add: forro_round_def forro_round_inv_def Let_def Q_inv_Q width)

lemma round_round_inv: "length v = 16 \<Longrightarrow> forro_round (forro_round_inv v) = v"
  by (simp add: forro_round_def forro_round_inv_def Let_def Q_Q_inv width)

lemma round_bij: "bij_betw forro_round {v. length v = 16} {v. length v = 16}"
  by (rule bij_betw_byWitness [where f' = forro_round_inv])
    (auto simp: round_inv_round round_round_inv width)

lemma rounds_bij: "bij_betw (forro_round ^^ n) {v. length v = 16} {v. length v = 16}"
proof (induction n)
  case 0
  show ?case by (simp only: funpow.simps bij_betw_id)
next
  case (Suc n)
  then show ?case by (simp only: funpow.simps) (rule bij_betw_trans [OF _ round_bij])
qed


section \<open>The interface of a block-wise stream cipher\<close>

text \<open>
  Byte \<open>i\<close> of the key stream of a generator with a 64-byte \<open>block\<close> per state.
\<close>

definition ks_byte :: "('s \<Rightarrow> byte list) \<Rightarrow> ('s \<Rightarrow> 's) \<Rightarrow> 's \<Rightarrow> nat \<Rightarrow> byte" where
  "ks_byte block step s i = block ((step ^^ (i div 64)) s) ! (i mod 64)"

text \<open>
  The contract of an encryption loop over such a generator: the last block and every full block
  before it. Both builds of the cipher (plain and tracing) provide it.
\<close>

locale block_stream =
  fixes block :: "'s \<Rightarrow> byte list"
    and step :: "'s \<Rightarrow> 's"
    and enc :: "'s \<Rightarrow> byte list \<Rightarrow> u32 \<Rightarrow> 's \<times> byte list"
  assumes enc_last: "n \<le> 64 \<Longrightarrow>
      enc s m n = (step s, map (\<lambda>i. m ! i XOR block s ! i) [0..<unat n])"
    and enc_more: "64 < n \<Longrightarrow>
      enc s m n = (fst (enc (step s) (drop 64 m) (n - 64)),
        map (\<lambda>i. m ! i XOR block s ! i) [0..<64] @ snd (enc (step s) (drop 64 m) (n - 64)))"
begin

lemma ks_byte_low: "i < 64 \<Longrightarrow> ks_byte block step s i = block s ! i"
  by (simp add: ks_byte_def)

lemma ks_byte_step: "ks_byte block step (step s) i = ks_byte block step s (64 + i)"
proof -
  have "(64 + i) div 64 = Suc (i div 64)" by simp
  then show ?thesis by (simp add: ks_byte_def funpow_swap1)
qed

lemma enc_closed:
  "0 < n \<Longrightarrow> unat n \<le> length m \<Longrightarrow>
   enc s m n = ((step ^^ ((unat n + 63) div 64)) s,
                map (\<lambda>i. m ! i XOR ks_byte block step s i) [0..<unat n])"
proof (induction n arbitrary: s m rule: measure_induct_rule [where f = unat])
  case (less n)
  show ?case
  proof (cases "n \<le> 64")
    case True
    with less.prems have le: "unat n \<le> 64" "0 < unat n"
      by (simp_all add: word_le_nat_alt unat_gt_0)
    then have "(unat n + 63) div 64 = 1" by linarith
    with True le show ?thesis by (simp add: enc_last ks_byte_low cong: map_cong)
  next
    case False
    then have "64 < n" by simp
    then have n: "unat (n - 64) = unat n - 64" "64 < unat n" "0 < n - 64"
      by (simp_all add: unat_sub word_le_nat_alt word_less_nat_alt)
    let ?s = "step s" and ?m = "drop 64 m"
    have "enc ?s ?m (n - 64) = ((step ^^ ((unat (n - 64) + 63) div 64)) ?s,
        map (\<lambda>i. ?m ! i XOR ks_byte block step ?s i) [0..<unat (n - 64)])"
      using n less.prems by (intro less.IH) auto
    moreover have "(unat n + 63) div 64 = Suc ((unat n - 64 + 63) div 64)"
      using n by linarith
    moreover have "map (\<lambda>i. m ! i XOR block s ! i) [0..<64] @
        map (\<lambda>i. ?m ! i XOR ks_byte block step ?s i) [0..<unat n - 64] =
        map (\<lambda>i. m ! i XOR ks_byte block step s i) [0..<unat n]"
      using n less.prems
      by (intro nth_equalityI) (auto simp: nth_append ks_byte_low ks_byte_step)
    ultimately show ?thesis
      using \<open>64 < n\<close> n by (simp add: enc_more funpow_swap1)
  qed
qed

lemma enc_length: "0 < n \<Longrightarrow> unat n \<le> length m \<Longrightarrow> length (snd (enc s m n)) = unat n"
  by (simp add: enc_closed)

lemma enc_twice:
  assumes "0 < n" "unat n \<le> length m"
  shows "snd (enc s (snd (enc s m n)) n) = take (unat n) m"
  using assms by (intro nth_equalityI) (simp_all add: enc_closed)

lemma enc_steps: "0 < n \<Longrightarrow> unat n \<le> length m \<Longrightarrow>
  fst (enc s m n) = (step ^^ ((unat n + 63) div 64)) s"
  by (simp add: enc_closed)

lemma enc_xor_keystream:
  assumes "0 < n" "unat n \<le> length m"
  shows "snd (enc s m n) = map2 (XOR) (take (unat n) m) (snd (enc s (replicate (unat n) 0) n))"
  using assms by (intro nth_equalityI) (simp_all add: enc_closed)

lemma enc_resume:
  assumes "unat a mod 64 = 0" "0 < a" "0 < b" "unat a + unat b < 2 ^ 32"
    and "unat a + unat b \<le> length m"
  shows "enc s m (a + b) =
    (let (s', c) = enc s m a; (s'', c') = enc s' (drop (unat a) m) b in (s'', c @ c'))"
proof -
  have ab: "unat (a + b) = unat a + unat b" using assms(4) by (simp add: unat_word_ariths)
  have a: "0 < unat a" "0 < unat b" using assms by (simp_all add: unat_gt_0)
  then have pos: "0 < a + b" using ab by (simp add: word_less_nat_alt)
  obtain k where k: "unat a = 64 * k" using assms(1) by auto
  have *: "ks_byte block step ((step ^^ k) s) i = ks_byte block step s (64 * k + i)" for i
  proof -
    have "(step ^^ (i div 64)) ((step ^^ k) s) = (step ^^ (i div 64 + k)) s"
      by (simp add: funpow_add)
    then show ?thesis by (simp add: ks_byte_def add.commute)
  qed
  have "(64 * k + 63) div 64 = k" and "(64 * k + unat b + 63) div 64 = (unat b + 63) div 64 + k"
    by simp_all
  moreover have "map (\<lambda>i. m ! i XOR ks_byte block step s i) [0..<64 * k + unat b] =
      map (\<lambda>i. m ! i XOR ks_byte block step s i) [0..<64 * k] @
      map (\<lambda>i. drop (64 * k) m ! i XOR ks_byte block step ((step ^^ k) s) i) [0..<unat b]"
    using assms(5) k by (intro nth_equalityI) (auto simp: nth_append *)
  moreover have "enc s m (a + b) = ((step ^^ ((unat a + unat b + 63) div 64)) s,
      map (\<lambda>i. m ! i XOR ks_byte block step s i) [0..<unat a + unat b])"
    using enc_closed [OF pos, of m s] assms(5) ab by simp
  moreover have "enc s m a = ((step ^^ ((unat a + 63) div 64)) s,
      map (\<lambda>i. m ! i XOR ks_byte block step s i) [0..<unat a])"
    using enc_closed [OF assms(2), of m s] assms(5) by simp
  moreover have "enc (((step ^^ k)) s) (drop (unat a) m) b =
     ((step ^^ ((unat b + 63) div 64)) ((step ^^ k) s),
      map (\<lambda>i. drop (unat a) m ! i XOR ks_byte block step ((step ^^ k) s) i) [0..<unat b])"
    using enc_closed [OF assms(3), of "drop (unat a) m"] assms(5) by simp
  ultimately show ?thesis
    unfolding k by (simp add: funpow_add)
qed

end

section \<open>The reference build provides the interface\<close>

interpretation fs: block_stream "\<lambda>x. forro (state x)" next_ctx encrypt_loop
proof
  fix n :: u32 and s m
  show "encrypt_loop s m n = (next_ctx s, map (\<lambda>i. m ! i XOR forro (state s) ! i) [0..<unat n])"
    if "n \<le> 64" using that by (subst encrypt_loop.simps) simp
  show "encrypt_loop s m n = (fst (encrypt_loop (next_ctx s) (drop 64 m) (n - 64)),
        map (\<lambda>i. m ! i XOR forro (state s) ! i) [0..<64] @
        snd (encrypt_loop (next_ctx s) (drop 64 m) (n - 64)))"
    if "64 < n"
  proof -
    from that have "\<not> n \<le> 64" by simp
    then show ?thesis by (subst encrypt_loop.simps) (simp add: Let_def split_beta)
  qed
qed


section \<open>The block counter\<close>

definition counter :: "stream_ctx \<Rightarrow> nat" where
  "counter x = unat (state x ! 4) + 2 ^ 32 * unat (state x ! 5)"

lemma two_words_less:
  "(a :: nat) < 4294967296 \<Longrightarrow> b < 4294967296 \<Longrightarrow> a + 4294967296 * b < 18446744073709551616"
  by linarith

lemma counter_less: "counter x < 2 ^ 64"
  using two_words_less [OF unat_u32_less unat_u32_less] by (simp add: counter_def)

lemma counter_next:
  assumes "wf_ctx x"
  shows "counter (next_ctx x) = (counter x + 1) mod 2 ^ 64"
proof -
  let ?a = "state x ! 4" and ?b = "state x ! 5"
  have len: "length (state x) = 16" using assms by (simp add: wf_ctx_def)
  have sum: "unat (w + 1) = (unat w + 1) mod 4294967296" for w :: u32
    using unat_word_ariths(1) [of w 1] by simp
  show ?thesis
  proof (cases "?a + 1 = 0")
    case True
    then have "?a = - 1" by (simp add: eq_neg_iff_add_eq_0)
    then have a: "unat ?a = 4294967295"
      by (simp add: unsigned_minus_1_eq_mask mask_eq_exp_minus_1)
    have "counter (next_ctx x) = 4294967296 * unat (?b + 1)"
      using True len by (simp add: next_ctx_def counter_def Let_def)
    also have "\<dots> = (4294967296 * (unat ?b + 1)) mod (4294967296 * 4294967296)"
      unfolding sum by (rule mult_mod_right)
    also have "4294967296 * (unat ?b + 1) = counter x + 1"
      using a by (simp add: counter_def)
    finally show ?thesis by simp
  next
    case False
    have "unat (?a + 1) \<noteq> 0" using False unat_eq_0 by blast
    then have "unat ?a + 1 \<noteq> 4294967296" unfolding sum by auto
    then have less: "unat ?a + 1 < 4294967296" using unat_u32_less [of ?a] by linarith
    then have "unat (?a + 1) = unat ?a + 1" unfolding sum by simp
    then have "counter (next_ctx x) = counter x + 1"
      using False len by (simp add: next_ctx_def counter_def Let_def)
    moreover have "counter x + 1 < 2 ^ 64"
      using two_words_less [OF less unat_u32_less [of ?b]] by (simp add: counter_def)
    ultimately show ?thesis by simp
  qed
qed

lemma counter_steps:
  "wf_ctx x \<Longrightarrow> wf_ctx ((next_ctx ^^ k) x) \<and> counter ((next_ctx ^^ k) x) = (counter x + k) mod 2 ^ 64"
proof (induction k)
  case 0
  then show ?case using counter_less [of x] by simp
next
  case (Suc k)
  then show ?case by (simp add: counter_next wf_next_ctx mod_simps del: power_Suc)
qed

lemma next_ctx_other: "i \<noteq> 4 \<Longrightarrow> i \<noteq> 5 \<Longrightarrow> state (next_ctx x) ! i = state x ! i"
  by (simp add: next_ctx_def Let_def)

lemma next_ctx_steps_other:
  "i \<noteq> 4 \<Longrightarrow> i \<noteq> 5 \<Longrightarrow> state ((next_ctx ^^ k) x) ! i = state x ! i"
  by (induction k) (auto simp: next_ctx_other)

lemma forro_encrypt_bytes_ok:
  "0 < n \<Longrightarrow> unat n \<le> length m \<Longrightarrow> forro_encrypt_bytes x m n = Inr (encrypt_loop x m n)"
  by (auto simp: forro_encrypt_bytes_def)

section \<open>Properties\<close>

text \<open>The seven rounds of the block function are a permutation of the sixteen-word states
  (every quarter round can be undone), so no key or round identifier is collapsed before the
  feed-forward addition.\<close>

lemma forro_rounds_permute:
  "bij_betw (forro_round ^^ rounds) {v. length v = 16} {v. length v = 16}"
  by (rule rounds_bij)

text \<open>C14: decrypting with the same starting context inverts encryption for every byte count, leaves
  the same context, and the ciphertext has exactly the requested length.\<close>

theorem forro_decrypt_encrypt:
  assumes "0 < n" "unat n \<le> length m"
  shows "\<exists>x' c. forro_encrypt_bytes x m n = Inr (x', c) \<and> length c = unat n
    \<and> forro_decrypt_bytes x c n = Inr (x', take (unat n) m)"
proof -
  obtain x' c where e: "encrypt_loop x m n = (x', c)" by fastforce
  then have c: "length c = unat n" using fs.enc_length [OF assms, of x] by simp
  have "encrypt_loop x c n = (x', take (unat n) m)"
    using fs.enc_twice [OF assms, of x] fs.enc_steps [OF assms, of x]
      fs.enc_steps [OF assms(1), of c x] e c by (simp add: prod_eq_iff)
  then show ?thesis
    using e c assms by (auto simp: forro_decrypt_bytes_def forro_encrypt_bytes_ok)
qed

theorem forro_decrypt_encrypt_witness:
  "(0 :: u32) < 2 \<and> (\<exists>x' c. forro_encrypt_bytes \<lparr>state = replicate 16 0\<rparr> [7, 9] 2 = Inr (x', c)
    \<and> length c = 2 \<and> forro_decrypt_bytes \<lparr>state = replicate 16 0\<rparr> c 2 = Inr (x', [7, 9]))"
  using forro_decrypt_encrypt [of 2 "[7, 9]" "\<lparr>state = replicate 16 0\<rparr>"] by simp

text \<open>A message may be encrypted in pieces: if the first piece is a whole number of blocks,
  continuing with the returned context gives the bytes and the context of one call.\<close>

lemma forro_encrypt_resume:
  assumes "unat a mod 64 = 0" "0 < a" "0 < b" "unat a + unat b < 2 ^ 32"
    and "unat a + unat b \<le> length m"
  shows "forro_encrypt_bytes x m (a + b) =
    bind_r (forro_encrypt_bytes x m a) (\<lambda>(x', c).
    bind_r (forro_encrypt_bytes x' (drop (unat a) m) b) (\<lambda>(x'', c').
      Inr (x'', c @ c')))"
proof -
  have "unat (a + b) = unat a + unat b" using assms(4) by (simp add: unat_word_ariths)
  moreover have "0 < unat a" using assms(2) by (simp add: unat_gt_0)
  ultimately have "0 < a + b" by (simp add: word_less_nat_alt)
  then show ?thesis
    using fs.enc_resume [OF assms, of x] assms \<open>unat (a + b) = _\<close>
    by (simp add: forro_encrypt_bytes_ok Let_def split: prod.splits)
qed

text \<open>C15: encrypting \<open>n\<close> bytes advances the 64-bit block counter (words 4 and 5, little end first)
  by the number of blocks used, modulo \<open>2 ^ 64\<close>, and changes no other word.\<close>

theorem forro_encrypt_counter:
  assumes "wf_ctx x" "0 < n" "unat n \<le> length m"
  shows "\<exists>x' c. forro_encrypt_bytes x m n = Inr (x', c) \<and> wf_ctx x'
    \<and> counter x' = (counter x + (unat n + 63) div 64) mod 2 ^ 64
    \<and> (\<forall>i. i \<noteq> 4 \<and> i \<noteq> 5 \<longrightarrow> state x' ! i = state x ! i)"
proof -
  obtain x' c where e: "encrypt_loop x m n = (x', c)" by fastforce
  then have "x' = (next_ctx ^^ ((unat n + 63) div 64)) x"
    using fs.enc_steps [OF assms(2,3), of x] by simp
  then show ?thesis
    using e assms counter_steps [OF assms(1)]
    by (auto simp: forro_encrypt_bytes_ok next_ctx_steps_other)
qed

theorem forro_encrypt_counter_witness:
  "\<exists>x' c. forro_encrypt_bytes \<lparr>state = replicate 16 0\<rparr> (replicate 65 0) 65 = Inr (x', c)
    \<and> counter x' = 2"
  using forro_encrypt_counter [of "\<lparr>state = replicate 16 0\<rparr>" 65 "replicate 65 0"]
  by (auto simp: wf_ctx_def counter_def)

end
