(* ===== verification/Forro_TA.thy ===== *)
theory Forro_TA
  imports Forro
begin

text \<open>
  The copy of the cipher in the trusted application, \<open>optee_dra/dra/ta/forro.c\<close>, closer to the
  machine than \<open>Forro\<close>: the loops over the arrays are written out, with what the arrays on the stack
  held before as parameters, and message and output are two addresses in one memory, as
  \<open>forro_keystream_bytes\<close> passes the same address for both. The theorem at the end is the refinement
  that lets the other theories use the functions of \<open>Forro\<close> for both copies.
\<close>

section \<open>The block function with its loops\<close>

text \<open>\<open>for (i = 0; i < n; i++) v[i] = f(i, v[i])\<close>.\<close>

definition for_update :: "nat \<Rightarrow> (nat \<Rightarrow> 'a \<Rightarrow> 'a) \<Rightarrow> 'a list \<Rightarrow> 'a list" where
  "for_update n f v = foldl (\<lambda>v i. v[i := f i (v ! i)]) v [0..<n]"

text \<open>\<open>for (i = 0; i < n; i++) U32TO8_LITTLE(out + 4 * i, v[i])\<close>.\<close>

definition for_store :: "nat \<Rightarrow> u32 list \<Rightarrow> byte list \<Rightarrow> byte list" where
  "for_store n v out = foldl (\<lambda>out i. take (4 * i) out @ U32TO8_LITTLE (v ! i) @ drop (4 * i + 4) out) out [0..<n]"

definition ta_forro :: "u32 list \<Rightarrow> byte list \<Rightarrow> u32 list \<Rightarrow> byte list" where
  "ta_forro stack out init =
    (let state_vector = for_update 16 (\<lambda>i _. init ! i) stack;
         state_vector = foldl (\<lambda>v _. forro_round v) state_vector [0..<rounds];
         state_vector = for_update 16 (\<lambda>i w. init ! i + w) state_vector
     in for_store 16 state_vector out)"

section \<open>The set-up functions\<close>

definition ta_versetup :: "stream_ctx \<Rightarrow> byte list \<Rightarrow> nat \<Rightarrow> nat \<Rightarrow> stream_ctx" where
  "ta_versetup x mem configuracao_rodada configuracao_dispositivo =
    forro_versetup x (drop configuracao_rodada mem) (drop configuracao_dispositivo mem)"

definition ta_keysetup :: "stream_ctx \<Rightarrow> byte list \<Rightarrow> nat \<Rightarrow> stream_ctx" where
  "ta_keysetup x mem key = forro_keysetup x (drop key mem)"

definition ta_ivsetup :: "stream_ctx \<Rightarrow> byte list \<Rightarrow> nat \<Rightarrow> stream_ctx" where
  "ta_ivsetup x mem iv = forro_ivsetup x (drop iv mem)"

section \<open>Encryption in memory\<close>

text \<open>\<open>for (; i < n; ++i) c[i] = m[i] ^ output[i]\<close> with \<open>k\<close> passes left.\<close>

fun xor_bytes :: "byte list \<Rightarrow> nat \<Rightarrow> nat \<Rightarrow> nat \<Rightarrow> nat \<Rightarrow> byte list \<Rightarrow> byte list res" where
  "xor_bytes output' m c i 0 mem = Inr mem"
| "xor_bytes output' m c i (Suc k) mem =
    (if length mem \<le> m + i then Inl ReadOverrun
     else if length mem \<le> c + i then Inl WriteOverrun
     else xor_bytes output' m c (Suc i) k (mem[c + i := mem ! (m + i) XOR output' ! i]))"

text \<open>The \<open>for (;;)\<close> of \<open>forro_encrypt_bytes\<close>: the array of the block keeps its content between passes.\<close>

function ta_loop :: "u32 list \<Rightarrow> byte list \<Rightarrow> stream_ctx \<Rightarrow> byte list \<Rightarrow> nat \<Rightarrow> nat \<Rightarrow> u32
    \<Rightarrow> (stream_ctx \<times> byte list) res" where
  "ta_loop stack out x mem m c bytes =
    (let output' = ta_forro stack out (state x);
         x = set_word 4 (state x ! 4 + 1) x;
         x = (if state x ! 4 = 0 then set_word 5 (state x ! 5 + 1) x else x) in
     if bytes \<le> 64 then bind_r (xor_bytes output' m c 0 (unat bytes) mem) (\<lambda>mem. Inr (x, mem))
     else bind_r (xor_bytes output' m c 0 64 mem) (\<lambda>mem.
       ta_loop stack output' x mem (m + 64) (c + 64) (bytes - 64)))"
  by pat_completeness auto
termination
proof (relation "measure (\<lambda>(stack, out, x, mem, m, c, bytes). unat bytes)", goal_cases)
  case (2 stack out x mem m c bytes)
  then have "64 < bytes" by simp
  then have "unat (bytes - 64) = unat bytes - 64" and "64 < unat bytes"
    by (simp_all add: unat_sub word_le_nat_alt word_less_nat_alt)
  then show ?case by simp
qed simp

declare ta_loop.simps [simp del]

definition ta_encrypt_bytes :: "u32 list \<Rightarrow> byte list \<Rightarrow> stream_ctx \<Rightarrow> byte list \<Rightarrow> nat \<Rightarrow> nat \<Rightarrow> u32
    \<Rightarrow> (stream_ctx \<times> byte list) res" where
  "ta_encrypt_bytes stack out x mem m c bytes =
    (if bytes = 0 then Inr (x, mem) else ta_loop stack out x mem m c bytes)"

definition ta_decrypt_bytes :: "u32 list \<Rightarrow> byte list \<Rightarrow> stream_ctx \<Rightarrow> byte list \<Rightarrow> nat \<Rightarrow> nat \<Rightarrow> u32
    \<Rightarrow> (stream_ctx \<times> byte list) res" where
  "ta_decrypt_bytes stack out x mem c m bytes = ta_encrypt_bytes stack out x mem c m bytes"

definition ta_keystream_bytes :: "u32 list \<Rightarrow> byte list \<Rightarrow> stream_ctx \<Rightarrow> byte list \<Rightarrow> nat \<Rightarrow> u32
    \<Rightarrow> (stream_ctx \<times> byte list) res" where
  "ta_keystream_bytes stack out x mem stream bytes =
    (if length mem < stream + unat bytes then Inl WriteOverrun
     else let mem = take stream mem @ replicate (unat bytes) 0 @ drop (stream + unat bytes) mem in
       ta_encrypt_bytes stack out x mem stream stream bytes)"

section \<open>The loops over arrays\<close>

lemma for_update_closed:
  "n \<le> length v \<Longrightarrow> for_update n f v = map (\<lambda>i. f i (v ! i)) [0..<n] @ drop n v"
proof (induction n)
  case (Suc n)
  then have "for_update (Suc n) f v = (map (\<lambda>i. f i (v ! i)) [0..<n] @ drop n v)[n := f n (v ! n)]"
    by (simp add: for_update_def nth_append)
  also have "\<dots> = map (\<lambda>i. f i (v ! i)) [0..<Suc n] @ drop (Suc n) v"
    using Suc.prems by (simp add: list_update_append Cons_nth_drop_Suc [symmetric])
  finally show ?case .
qed (simp add: for_update_def)

lemma for_store_closed:
  "4 * n \<le> length out \<Longrightarrow> n \<le> length v \<Longrightarrow>
   for_store n v out = concat (map U32TO8_LITTLE (take n v)) @ drop (4 * n) out"
proof (induction n)
  case (Suc n)
  let ?pre = "concat (map U32TO8_LITTLE (take n v))"
  have "length ?pre = 4 * n" using Suc.prems by (subst length_concat_const [where k = 4]) (simp_all add: width)
  then show ?case
    using Suc by (simp add: for_store_def take_Suc_conv_app_nth)
qed (simp add: for_store_def)

lemma foldl_const_funpow: "foldl (\<lambda>v _. f v) v [0..<n] = (f ^^ n) v"
  by (induction n) simp_all

lemma ta_forro_eq:
  assumes "length stack = 16" "length out = 64" "length init = 16"
  shows "ta_forro stack out init = forro init"
proof -
  have copy: "for_update 16 (\<lambda>i _. init ! i) stack = init"
    using assms(1,3) by (subst for_update_closed) (auto simp del: upt_rec_numeral intro: nth_equalityI)
  let ?v = "(forro_round ^^ rounds) init"
  have l: "length ?v = 16" using assms(3) by (simp add: width)
  then have "for_update 16 (\<lambda>i w. init ! i + w) ?v = map2 (+) init ?v"
    using assms(3) by (subst for_update_closed) (auto simp del: upt_rec_numeral intro: nth_equalityI)
  moreover have "for_store 16 (map2 (+) init ?v) out = concat (map U32TO8_LITTLE (map2 (+) init ?v))"
    using assms(2,3) l by (subst for_store_closed) simp_all
  ultimately show ?thesis
    by (simp add: ta_forro_def forro_def copy foldl_const_funpow Let_def)
qed

section \<open>The loop over the message\<close>

definition xored :: "byte list \<Rightarrow> (nat \<Rightarrow> byte) \<Rightarrow> nat \<Rightarrow> nat \<Rightarrow> nat \<Rightarrow> byte list" where
  "xored mem k m c n = take c mem @ map (\<lambda>i. mem ! (m + i) XOR k i) [0..<n] @ drop (c + n) mem"

lemma nth_xored: "c + n \<le> length mem \<Longrightarrow> j < length mem \<Longrightarrow>
  xored mem k m c n ! j = (if c \<le> j \<and> j < c + n then mem ! (m + (j - c)) XOR k (j - c) else mem ! j)"
  by (auto simp: xored_def nth_append)

lemma length_xored: "c + n \<le> length mem \<Longrightarrow> length (xored mem k m c n) = length mem"
  by (simp add: xored_def)

lemma xor_bytes_steps:
  assumes "m + (i + k) \<le> length mem" "c + (i + k) \<le> length mem" "c \<le> m \<or> m + (i + k) \<le> c"
  shows "xor_bytes out m c i k (xored mem ((!) out) m c i) = Inr (xored mem ((!) out) m c (i + k))"
  using assms
proof (induction k arbitrary: i)
  case (Suc k)
  let ?x = "xored mem ((!) out) m c i"
  have l: "length ?x = length mem" using Suc.prems(2) by (simp add: length_xored)
  have "?x ! (m + i) = mem ! (m + i)" using Suc.prems by (subst nth_xored) auto
  then have "?x[c + i := ?x ! (m + i) XOR out ! i] = xored mem ((!) out) m c (Suc i)"
    using Suc.prems l by (intro nth_equalityI) (auto simp: nth_xored length_xored nth_list_update less_Suc_eq)
  then show ?case using Suc.IH [of "Suc i"] Suc.prems l by simp
qed simp

lemma xor_bytes_ok:
  "m + k \<le> length mem \<Longrightarrow> c + k \<le> length mem \<Longrightarrow> c \<le> m \<or> m + k \<le> c \<Longrightarrow>
   xor_bytes out m c 0 k mem = Inr (xored mem ((!) out) m c k)"
  using xor_bytes_steps [of m 0 k mem c out] by (simp add: xored_def)

abbreviation key_byte :: "stream_ctx \<Rightarrow> nat \<Rightarrow> byte" where
  "key_byte \<equiv> ks_byte (\<lambda>x. forro (state x)) next_ctx"

lemma ta_loop_ok:
  assumes "length stack = 16" "length out = 64" "wf_ctx x" "0 < n"
    and "m + unat n \<le> length mem" "c + unat n \<le> length mem" "c \<le> m \<or> m + unat n \<le> c"
  shows "ta_loop stack out x mem m c n =
    Inr ((next_ctx ^^ ((unat n + 63) div 64)) x, xored mem (key_byte x) m c (unat n))"
  using assms(2-)
proof (induction n arbitrary: out x mem m c rule: measure_induct_rule [where f = unat])
  case (less n)
  have block: "ta_forro stack out (state x) = forro (state x)"
    using assms(1) less.prems(1,2) by (intro ta_forro_eq) (simp_all add: wf_ctx_def)
  have low: "xored mem ((!) (forro (state x))) m c k = xored mem (key_byte x) m c k" if "k \<le> 64" for k
    using that by (simp add: xored_def fs.ks_byte_low cong: map_cong)
  show ?case
  proof (cases "n \<le> 64")
    case True
    then have le: "unat n \<le> 64" "0 < unat n" using less.prems(3) by (simp_all add: word_le_nat_alt unat_gt_0)
    then have "(unat n + 63) div 64 = 1" by linarith
    then show ?thesis
      using True less.prems(4-6) le low
      by (subst ta_loop.simps) (simp add: block xor_bytes_ok next_ctx_def Let_def)
  next
    case False
    then have "64 < n" by simp
    then have n: "unat (n - 64) = unat n - 64" "64 < unat n" "0 < n - 64"
      by (simp_all add: unat_sub word_le_nat_alt word_less_nat_alt)
    let ?mem = "xored mem (key_byte x) m c 64"
    have l: "length ?mem = length mem" using less.prems(5) n by (simp add: length_xored)
    have "ta_loop stack out x mem m c n =
        ta_loop stack (forro (state x)) (next_ctx x) ?mem (m + 64) (c + 64) (n - 64)"
      using False less.prems(4-6) n low
      by (subst ta_loop.simps) (auto simp: block xor_bytes_ok next_ctx_def Let_def)
    also have "\<dots> = Inr ((next_ctx ^^ ((unat (n - 64) + 63) div 64)) (next_ctx x),
        xored ?mem (key_byte (next_ctx x)) (m + 64) (c + 64) (unat (n - 64)))"
      using less.prems n l wf_next_ctx [of x]
      by (intro less.IH) (auto simp: length_forro wf_ctx_def)
    also have "xored ?mem (key_byte (next_ctx x)) (m + 64) (c + 64) (unat (n - 64)) =
        xored mem (key_byte x) m c (unat n)"
      using less.prems(4-6) n l
      by (intro nth_equalityI) (auto simp: nth_xored length_xored fs.ks_byte_step)
    also have "(next_ctx ^^ ((unat (n - 64) + 63) div 64)) (next_ctx x) =
        (next_ctx ^^ ((unat n + 63) div 64)) x"
    proof -
      have "(unat n + 63) div 64 = Suc ((unat n - 64 + 63) div 64)" using n by linarith
      then show ?thesis using n by (simp add: funpow_swap1)
    qed
    finally show ?thesis .
  qed
qed

text \<open>C13: the cipher of the trusted application, working in memory, computes what the reference cipher
  computes, whatever the arrays on its stack held before, for every placement of the output that does
  not start inside the message behind its first byte; in particular in place, as for the key stream.
  No byte outside the output changes.\<close>

theorem ta_encrypt_refines:
  assumes "length stack = 16" "length out = 64" "wf_ctx x" "0 < n"
    and "m + unat n \<le> length mem" "c + unat n \<le> length mem" "c \<le> m \<or> m + unat n \<le> c"
  shows "\<exists>x' t. forro_encrypt_bytes x (drop m mem) n = Inr (x', t) \<and> length t = unat n \<and>
    ta_encrypt_bytes stack out x mem m c n = Inr (x', take c mem @ t @ drop (c + unat n) mem)"
proof -
  have "encrypt_loop x (drop m mem) n = ((next_ctx ^^ ((unat n + 63) div 64)) x,
      map (\<lambda>i. drop m mem ! i XOR key_byte x i) [0..<unat n])"
    using assms(4,5) by (intro fs.enc_closed) simp_all
  moreover have "map (\<lambda>i. drop m mem ! i XOR key_byte x i) [0..<unat n] =
      map (\<lambda>i. mem ! (m + i) XOR key_byte x i) [0..<unat n]"
    using assms(5) by (auto intro!: nth_equalityI)
  ultimately show ?thesis
    using ta_loop_ok [OF assms] assms(4,5)
    by (auto simp: ta_encrypt_bytes_def forro_encrypt_bytes_ok xored_def)
qed

theorem ta_encrypt_refines_witness:
  "\<exists>x' t. forro_encrypt_bytes \<lparr>state = replicate 16 0\<rparr> [1, 2] 2 = Inr (x', t) \<and>
    ta_encrypt_bytes (replicate 16 5) (replicate 64 6) \<lparr>state = replicate 16 0\<rparr> [9, 1, 2] 1 0 2 =
      Inr (x', t @ [2])"
  using ta_encrypt_refines [of "replicate 16 5" "replicate 64 6" "\<lparr>state = replicate 16 0\<rparr>" 2 1 "[9, 1, 2]" 0]
  by (auto simp: wf_ctx_def)

end
