(* ===== verification/CLib.thy ===== *)
theory CLib
  imports Prelude
begin

text \<open>
  The part of the C standard library that the sources use on strings: \<open>strtoul\<close> and \<open>atoi\<close>,
  the conversions \<open>%02x\<close>, \<open>%.*s\<close> and \<open>%32c\<close>, and the argument vector. A C string is given by
  the memory from its first character on; it ends at the first NUL byte.
\<close>

section \<open>Characters\<close>

definition bytes_of :: "string \<Rightarrow> byte list" where
  "bytes_of s = map of_char s"

definition cstr :: "byte list \<Rightarrow> byte list" where
  "cstr mem = takeWhile (\<lambda>b. b \<noteq> 0) mem"

definition isspace :: "byte \<Rightarrow> bool" where
  "isspace b \<longleftrightarrow> b = 32 \<or> (9 \<le> b \<and> b \<le> 13)"

text \<open>The value of an alphanumeric character as a digit (letters from 10 on, both cases).\<close>

definition digit_val :: "byte \<Rightarrow> nat option" where
  "digit_val b =
    (if 48 \<le> b \<and> b \<le> 57 then Some (unat b - 48)
     else if 97 \<le> b \<and> b \<le> 122 then Some (unat b - 87)
     else if 65 \<le> b \<and> b \<le> 90 then Some (unat b - 55)
     else None)"

definition is_digit :: "nat \<Rightarrow> byte \<Rightarrow> bool" where
  "is_digit base b = (case digit_val b of None \<Rightarrow> False | Some d \<Rightarrow> d < base)"

definition dval :: "byte \<Rightarrow> nat" where
  "dval b = (case digit_val b of None \<Rightarrow> 0 | Some d \<Rightarrow> d)"

section \<open>Numbers from strings\<close>

text \<open>
  \<open>strtoul(s, NULL, base)\<close>: white space, an optional sign, an optional \<open>0x\<close> prefix in base 16,
  then the longest run of digits. Out of range is \<open>ULONG_MAX\<close>; a minus sign negates in
  \<open>unsigned long\<close>; no digits give 0.
\<close>

fun split_sign :: "byte list \<Rightarrow> bool \<times> byte list" where
  "split_sign (b # s) = (if b = 45 then (True, s) else if b = 43 then (False, s) else (False, b # s))"
| "split_sign [] = (False, [])"

fun skip_0x :: "nat \<Rightarrow> byte list \<Rightarrow> byte list" where
  "skip_0x base (z # x # d # s) =
    (if base = 16 \<and> z = 48 \<and> (x = 120 \<or> x = 88) \<and> is_digit 16 d then d # s else z # x # d # s)"
| "skip_0x base s = s"

definition digits_value :: "nat \<Rightarrow> byte list \<Rightarrow> nat" where
  "digits_value base s = foldl (\<lambda>acc d. acc * base + dval d) 0 (takeWhile (is_digit base) s)"

definition strtoul :: "nat \<Rightarrow> byte list \<Rightarrow> u64" where
  "strtoul base mem =
    (case split_sign (dropWhile isspace (cstr mem)) of (neg, s) \<Rightarrow>
      let v = digits_value base (skip_0x base s) in
      if 2 ^ 64 \<le> v then - 1 else if neg then - of_nat v else of_nat v)"

text \<open>\<open>atoi\<close>, for values in range.\<close>

definition atoi :: "byte list \<Rightarrow> int" where
  "atoi mem =
    (case split_sign (dropWhile isspace (cstr mem)) of (neg, s) \<Rightarrow>
      let v = int (digits_value 10 s) in if neg then - v else v)"

section \<open>Strings from bytes\<close>

definition hex_digit :: "nat \<Rightarrow> byte" where
  "hex_digit n = of_nat (if n < 10 then 48 + n else 87 + n)"

text \<open>The two characters that \<open>%02x\<close> prints for a \<open>uint8_t\<close>.\<close>

definition print_02x :: "byte \<Rightarrow> byte list" where
  "print_02x b = [hex_digit (unat b div 16), hex_digit (unat b mod 16)]"

text \<open>\<open>%.*s\<close>: at most \<open>n\<close> characters, and none past a NUL; fewer than \<open>n\<close> bytes of memory
  with no NUL is a read past the end.\<close>

definition print_str :: "nat \<Rightarrow> byte list \<Rightarrow> byte list res" where
  "print_str n mem =
    (if n \<le> length mem \<or> 0 \<in> set mem then Inr (take n (cstr mem)) else Inl ReadOverrun)"

text \<open>\<open>snprintf(buf, size, ...)\<close> stores at most \<open>size - 1\<close> characters of the text.\<close>

definition snprintf :: "nat \<Rightarrow> byte list \<Rightarrow> byte list" where
  "snprintf sz txt = take (sz - 1) txt"

text \<open>\<open>argv[k]\<close>: the vector ends in a null pointer.\<close>

definition arg :: "nat \<Rightarrow> byte list list \<Rightarrow> byte list res" where
  "arg k argv = (if k < length argv then Inr (argv ! k) else Inl NullDeref)"

lemma arg_ok [c_mem]: "k < length argv \<Longrightarrow> arg k argv = Inr (argv ! k)"
  by (simp add: arg_def)

lemma cstr_no_nul [c_mem]: "0 \<notin> set s \<Longrightarrow> cstr s = s"
  unfolding cstr_def by (auto simp: takeWhile_eq_all_conv)

lemma print_str_exact [c_mem]: "length s = n \<Longrightarrow> 0 \<notin> set s \<Longrightarrow> print_str n s = Inr s"
  by (simp add: print_str_def cstr_no_nul)

section \<open>Hexadecimal digits\<close>

lemma is_digit_16_iff: "is_digit 16 b \<longleftrightarrow> 48 \<le> b \<and> b \<le> 57 \<or> 97 \<le> b \<and> b \<le> 102 \<or> 65 \<le> b \<and> b \<le> 70"
  by (auto simp: is_digit_def digit_val_def word_le_nat_alt split: if_splits)

lemma is_digit_16_ne: "is_digit 16 b \<Longrightarrow> b \<noteq> 0 \<and> \<not> isspace b \<and> b \<noteq> 45 \<and> b \<noteq> 43"
  by (auto simp: is_digit_16_iff isspace_def word_le_nat_alt)

lemma dval_less_16: "is_digit 16 b \<Longrightarrow> dval b < 16"
  by (auto simp: is_digit_def dval_def split: option.splits)

lemma less_16_set: "(n :: nat) < 16 \<Longrightarrow> n \<in> {0, 1, 2, 3, 4, 5, 6, 7, 8, 9, 10, 11, 12, 13, 14, 15}"
  by (simp only: insert_iff empty_iff) presburger

lemma hex_digit_is_digit: "n < 16 \<Longrightarrow> is_digit 16 (hex_digit n)"
  by (drule less_16_set, simp only: insert_iff empty_iff)
    (elim disjE; simp add: hex_digit_def is_digit_16_iff)

lemma dval_hex_digit: "n < 16 \<Longrightarrow> dval (hex_digit n) = n"
  by (drule less_16_set, simp only: insert_iff empty_iff)
    (elim disjE; simp add: hex_digit_def dval_def digit_val_def)

lemma digits_value_pair:
  "is_digit 16 a \<Longrightarrow> is_digit 16 b \<Longrightarrow> digits_value 16 [a, b] = 16 * dval a + dval b"
  by (simp add: digits_value_def)

lemma strtoul_pair:
  assumes "is_digit 16 a" "is_digit 16 b"
  shows "strtoul 16 [a, b, 0] = of_nat (16 * dval a + dval b)"
proof -
  have "16 * dval a + dval b < 2 ^ 64"
    using dval_less_16 [OF assms(1)] dval_less_16 [OF assms(2)] by simp
  then show ?thesis
    using assms is_digit_16_ne [OF assms(1)] is_digit_16_ne [OF assms(2)] digits_value_pair [OF assms]
    by (simp add: strtoul_def cstr_def)
qed

end
