(* ===== verification/Hexcodec.thy ===== *)
theory Hexcodec
  imports CLib
begin

text \<open>
  The hexadecimal text that the tools use inside, and its byte order. Every tool carries its own
  copy of \<open>swapEndian\<close>, \<open>hexstring_to_byte_array\<close> and \<open>byte_array_to_hexstring\<close>; they are modelled
  here once, from \<open>tools/src/verifica_p4dra_rede.c\<close>, whose copies are the ones all others repeat.
  The trusted application and the proof calculator have an older \<open>hexstring_to_byte_array\<close> without
  the length argument: it calls \<open>strlen\<close>, and is \<open>hexstring_to_byte_array_z\<close>.

  \<open>wire_put\<close> and \<open>wire_get\<close> are the two directions that every tool composes from them; the locale
  \<open>wire_codec\<close> states what the protocol relies on.
\<close>

section \<open>The conversions\<close>

text \<open>One pass of the loop of \<open>hexstring_to_byte_array\<close>: two characters and a NUL to \<open>strtoul\<close>.\<close>

definition hex_pair :: "byte \<Rightarrow> byte \<Rightarrow> byte" where
  "hex_pair a b = ucast (strtoul 16 [a, b, 0])"

fun hex_pairs :: "byte list \<Rightarrow> byte list" where
  "hex_pairs (a # b # s) = hex_pair a b # hex_pairs s"
| "hex_pairs _ = []"

text \<open>
  \<open>hexstring_to_byte_array(byte_array, hexstring, len)\<close>: \<open>dest\<close> is the old content of the array,
  \<open>mem\<close> the memory at the string.
\<close>

definition hexstring_to_byte_array :: "byte list \<Rightarrow> byte list \<Rightarrow> nat \<Rightarrow> byte list res" where
  "hexstring_to_byte_array dest mem len =
    (let byte_array_len = len div 2 in
     bind_r (rd (2 * byte_array_len) mem) (\<lambda>s. wr dest (hex_pairs s)))"

text \<open>The copy that takes the length from \<open>strlen\<close>.\<close>

definition hexstring_to_byte_array_z :: "byte list \<Rightarrow> byte list \<Rightarrow> byte list res" where
  "hexstring_to_byte_array_z dest mem =
    bind_r (strlen mem) (\<lambda>len. hexstring_to_byte_array dest mem len)"

text \<open>
  The heap as the sources see it: for a request of \<open>n\<close> bytes, \<open>None\<close> is a null pointer, and
  \<open>Some u\<close> a block with \<open>u\<close> bytes before the next live data (\<open>n \<le> u\<close>).
\<close>

type_synonym heap = "nat \<Rightarrow> nat option"

text \<open>
  \<open>byte_array_to_hexstring\<close> allocates \<open>2 * array_size\<close> bytes and runs one \<open>sprintf(..., "%02x", ...)\<close>
  per byte; each writes two characters and a NUL, so the last one needs byte \<open>2 * array_size\<close>.
\<close>

definition byte_array_to_hexstring :: "heap \<Rightarrow> byte list \<Rightarrow> nat \<Rightarrow> byte list option res" where
  "byte_array_to_hexstring malloc array array_size =
    (case malloc (array_size * 2) of
       None \<Rightarrow> Inr None
     | Some u \<Rightarrow>
         bind_r (rd array_size array) (\<lambda>bs.
           if bs \<noteq> [] \<and> u < array_size * 2 + 1 then Inl WriteOverrun
           else Inr (Some (concat (map print_02x bs)))))"

text \<open>
  \<open>swapEndian(saida, tamanho)\<close>: a copy of the text, then one pass per eight characters that stores
  the four pairs in the opposite order. A last group of fewer than eight reads past the copy.
\<close>

fun swap_groups :: "byte list \<Rightarrow> byte list res" where
  "swap_groups [] = Inr []"
| "swap_groups (t0 # t1 # t2 # t3 # t4 # t5 # t6 # t7 # temp) =
     bind_r (swap_groups temp) (\<lambda>r. Inr (t6 # t7 # t4 # t5 # t2 # t3 # t0 # t1 # r))"
| "swap_groups _ = Inl ReadOverrun"

definition swapEndian :: "byte list \<Rightarrow> nat \<Rightarrow> byte list res" where
  "swapEndian saida tamanho =
    bind_r (rd tamanho saida) (\<lambda>temp.
    bind_r (swap_groups temp) (\<lambda>r. Inr (r @ drop tamanho saida)))"

section \<open>Pure counterparts\<close>

text \<open>Exchange of the four bytes of every word, on bytes and on hexadecimal text.\<close>

fun swap_bytes :: "byte list \<Rightarrow> byte list" where
  "swap_bytes (a # b # c # d # s) = d # c # b # a # swap_bytes s"
| "swap_bytes s = s"

fun swap_hex :: "byte list \<Rightarrow> byte list" where
  "swap_hex (t0 # t1 # t2 # t3 # t4 # t5 # t6 # t7 # s) =
     t6 # t7 # t4 # t5 # t2 # t3 # t0 # t1 # swap_hex s"
| "swap_hex s = s"

definition hex_text :: "byte list \<Rightarrow> byte list" where
  "hex_text bs = concat (map print_02x bs)"

text \<open>Text of \<open>n\<close> words as \<open>%02x\<close> prints it: lower-case digits.\<close>

definition lower_hex :: "byte \<Rightarrow> bool" where
  "lower_hex b \<longleftrightarrow> 48 \<le> b \<and> b \<le> 57 \<or> 97 \<le> b \<and> b \<le> 102"

lemma length_hex_pairs [width]: "length (hex_pairs s) = length s div 2"
  by (induction s rule: hex_pairs.induct) auto

lemma length_hex_text [width]: "length (hex_text bs) = 2 * length bs"
  by (simp add: hex_text_def length_concat_const [where k = 2] print_02x_def)

lemma length_swap_bytes [width]: "length (swap_bytes s) = length s"
  by (induction s rule: swap_bytes.induct) auto

lemma length_swap_hex [width]: "length (swap_hex s) = length s"
  by (induction s rule: swap_hex.induct) auto

lemma set_swap_hex: "set (swap_hex s) = set s"
  by (induction s rule: swap_hex.induct) auto

lemma swap_bytes_swap_bytes [simp]: "swap_bytes (swap_bytes s) = s"
  by (induction s rule: swap_bytes.induct) auto

lemma swap_hex_swap_hex [simp]: "swap_hex (swap_hex s) = s"
  by (induction s rule: swap_hex.induct) auto

lemma swap_groups_swap_hex: "length s mod 8 = 0 \<Longrightarrow> swap_groups s = Inr (swap_hex s)"
  by (induction s rule: swap_groups.induct) auto

lemma swap_groups_fault: "length s mod 8 \<noteq> 0 \<Longrightarrow> swap_groups s = Inl ReadOverrun"
  by (induction s rule: swap_groups.induct) auto

lemma swapEndian_ok [c_mem]:
  "n mod 8 = 0 \<Longrightarrow> length s = n \<Longrightarrow> swapEndian s n = Inr (swap_hex s)"
  by (simp add: swapEndian_def c_mem swap_groups_swap_hex)

text \<open>The text beyond the swapped prefix stays.\<close>

lemma swapEndian_prefix [c_mem]:
  "n mod 8 = 0 \<Longrightarrow> length s = n \<Longrightarrow> swapEndian (s @ rest) n = Inr (swap_hex s @ rest)"
  by (simp add: swapEndian_def c_mem swap_groups_swap_hex)

lemma hex_pair_digits:
  assumes "is_digit 16 a" "is_digit 16 b"
  shows "hex_pair a b = of_nat (16 * dval a + dval b)"
proof -
  have "16 * dval a + dval b < 2 ^ 64"
    using dval_less_16 [OF assms(1)] dval_less_16 [OF assms(2)] by simp
  then have "take_bit LENGTH(64) (16 * dval a + dval b) = 16 * dval a + dval b"
    by (intro take_bit_nat_eq_self) simp
  then show ?thesis
    unfolding hex_pair_def strtoul_pair [OF assms] unsigned_of_nat by (simp only:)
qed

lemma hex_pair_print [simp]:
  "hex_pair (hex_digit (unat b div 16)) (hex_digit (unat b mod 16)) = b"
proof -
  have "unat b div 16 < 16" using unat_byte_less [of b] by linarith
  then show ?thesis
    by (simp add: hex_pair_digits hex_digit_is_digit dval_hex_digit del: of_nat_add of_nat_mult)
qed

lemma hex_pairs_hex_text [simp]: "hex_pairs (hex_text bs) = bs"
  by (induction bs) (auto simp: hex_text_def print_02x_def)

lemma hex_text_inject [simp]: "hex_text a = hex_text b \<longleftrightarrow> a = b"
  by (metis hex_pairs_hex_text)

lemma hex_pairs_swap: "length s mod 8 = 0 \<Longrightarrow> hex_pairs (swap_hex s) = swap_bytes (hex_pairs s)"
  by (induction s rule: swap_hex.induct) auto

lemma swap_hex_text: "length bs mod 4 = 0 \<Longrightarrow> swap_hex (hex_text bs) = hex_text (swap_bytes bs)"
  by (induction bs rule: swap_bytes.induct) (auto simp: hex_text_def print_02x_def)

lemma hex_digit_lower: "n < 16 \<Longrightarrow> lower_hex (hex_digit n)"
  by (drule less_16_set, simp only: insert_iff empty_iff)
    (elim disjE; simp add: hex_digit_def lower_hex_def)

lemma hex_text_lower: "list_all lower_hex (hex_text bs)"
proof -
  have "unat (b :: byte) div 16 < 16" for b using unat_byte_less [of b] by linarith
  then show ?thesis
    by (induction bs) (auto simp: hex_text_def print_02x_def hex_digit_lower)
qed

lemma lower_hex_is_digit: "lower_hex b \<Longrightarrow> is_digit 16 b"
  by (auto simp: lower_hex_def is_digit_16_iff)

lemma lower_hex_nonzero: "list_all lower_hex s \<Longrightarrow> 0 \<notin> set s"
  by (induction s) (auto simp: lower_hex_def)

lemma lower_hex_digit: "lower_hex b \<Longrightarrow> hex_digit (dval b) = b"
  unfolding word_unat_eq_iff
  by (auto simp: lower_hex_def hex_digit_def dval_def digit_val_def word_le_nat_alt unat_of_nat)

lemma print_hex_pair:
  assumes "lower_hex a" "lower_hex b"
  shows "print_02x (hex_pair a b) = [a, b]"
proof -
  have d: "is_digit 16 a" "is_digit 16 b" using assms by (auto intro: lower_hex_is_digit)
  have "16 * dval a + dval b < 256"
    using dval_less_16 [OF d(1)] dval_less_16 [OF d(2)] by linarith
  then have "unat (hex_pair a b) = 16 * dval a + dval b"
    by (simp only: hex_pair_digits [OF d] unat_of_nat) simp
  then show ?thesis
    using assms dval_less_16 [OF d(2)] by (simp add: print_02x_def lower_hex_digit)
qed

lemma hex_text_hex_pairs:
  "list_all lower_hex s \<Longrightarrow> even (length s) \<Longrightarrow> hex_text (hex_pairs s) = s"
  by (induction s rule: hex_pairs.induct) (auto simp: hex_text_def print_hex_pair)

section \<open>The wire format of a field\<close>

text \<open>
  A field that the program holds as hexadecimal text goes on the wire as
  \<open>swapEndian\<close> followed by \<open>hexstring_to_byte_array\<close>, and comes back as
  \<open>byte_array_to_hexstring\<close> followed by \<open>swapEndian\<close>.
\<close>

definition wire_put :: "byte list \<Rightarrow> byte list" where
  "wire_put h = hex_pairs (swap_hex h)"

definition wire_get :: "byte list \<Rightarrow> byte list" where
  "wire_get b = swap_hex (hex_text b)"

text \<open>The laws the protocol rests on; \<open>ok\<close> says which texts are field values.\<close>

locale wire_codec =
  fixes put :: "byte list \<Rightarrow> byte list"
    and get :: "byte list \<Rightarrow> byte list"
    and ok :: "byte list \<Rightarrow> bool"
  assumes get_put: "ok h \<Longrightarrow> length h mod 8 = 0 \<Longrightarrow> get (put h) = h"
    and put_get: "length b mod 4 = 0 \<Longrightarrow> put (get b) = b"
    and ok_get: "ok (get b)"
    and get_append: "length a mod 4 = 0 \<Longrightarrow> get (a @ b) = get a @ get b"
    and length_get: "length (get b) = 2 * length b"
    and length_put: "length h mod 8 = 0 \<Longrightarrow> length (put h) = length h div 2"
begin

lemma put_inject:
  assumes "ok h" "ok h'" "length h mod 8 = 0" "length h' mod 8 = 0"
  shows "put h = put h' \<longleftrightarrow> h = h'"
  using get_put [OF assms(1,3)] get_put [OF assms(2,4)] by metis

lemma get_inject:
  assumes "length b mod 4 = 0" "length b' mod 4 = 0"
  shows "get b = get b' \<longleftrightarrow> b = b'"
  using put_get [OF assms(1)] put_get [OF assms(2)] by metis

lemma take_get:
  assumes "n \<le> length b" "n mod 4 = 0"
  shows "take (2 * n) (get b) = get (take n b)"
proof -
  have "get (take n b @ drop n b) = get (take n b) @ get (drop n b)"
    using assms by (intro get_append) (simp add: min_def)
  then show ?thesis using assms by (simp add: length_get min_def)
qed

lemma drop_get:
  assumes "n \<le> length b" "n mod 4 = 0"
  shows "drop (2 * n) (get b) = get (drop n b)"
proof -
  have "get (take n b @ drop n b) = get (take n b) @ get (drop n b)"
    using assms by (intro get_append) (simp add: min_def)
  then show ?thesis using assms by (simp add: length_get min_def)
qed

lemma put_append:
  assumes "ok h" "ok h'" "length h mod 8 = 0" "length h' mod 8 = 0"
  shows "put (h @ h') = put h @ put h'"
proof -
  have l: "length (put h) mod 4 = 0" "length (put h') mod 4 = 0"
    using assms by (auto simp: length_put)
  then have "get (put h @ put h') = h @ h'"
    using assms by (simp add: get_append get_put)
  then have "put (h @ h') = put (get (put h @ put h'))" by simp
  also have "\<dots> = put h @ put h'" using l by (intro put_get) (simp add: mod_add_eq [symmetric])
  finally show ?thesis .
qed

end

lemma swap_hex_append: "length a mod 8 = 0 \<Longrightarrow> swap_hex (a @ b) = swap_hex a @ swap_hex b"
  by (induction a rule: swap_hex.induct) auto

lemma list_all_swap_hex [simp]: "list_all P (swap_hex s) = list_all P s"
  by (simp add: list_all_iff set_swap_hex)

interpretation wire: wire_codec wire_put wire_get "list_all lower_hex"
proof
  fix h b a :: "byte list"
  show "wire_get (wire_put h) = h" if "list_all lower_hex h" "length h mod 8 = 0"
  proof -
    have "even (length h)" using that(2) by presburger
    then show ?thesis
      using that by (simp add: wire_get_def wire_put_def hex_text_hex_pairs width)
  qed
  show "wire_put (wire_get b) = b"
    by (simp add: wire_get_def wire_put_def)
  show "list_all lower_hex (wire_get b)"
    by (simp add: wire_get_def hex_text_lower)
  show "wire_get (a @ b) = wire_get a @ wire_get b" if "length a mod 4 = 0"
  proof -
    have "length (hex_text a) mod 8 = 0" using that by (simp add: width) presburger
    then show ?thesis
      by (simp add: wire_get_def swap_hex_append flip: append_assoc)
        (simp add: hex_text_def swap_hex_append)
  qed
  show "length (wire_get b) = 2 * length b"
    by (simp add: wire_get_def width)
  show "length (wire_put h) = length h div 2"
    by (simp add: wire_put_def width)
qed

text \<open>The texts of little-endian words go out as the big-endian bytes of the same words.\<close>

lemma wire_put_hex_text: "length b mod 4 = 0 \<Longrightarrow> wire_put (hex_text b) = swap_bytes b"
  by (simp add: wire_put_def swap_hex_text)

lemma wire_get_swap_bytes: "length b mod 4 = 0 \<Longrightarrow> wire_get (swap_bytes b) = hex_text b"
  by (metis swap_bytes_swap_bytes swap_hex_text swap_hex_swap_hex wire_get_def)

section \<open>The C functions compute the wire format\<close>

text \<open>A heap that serves every request with at least one byte to spare.\<close>

definition roomy :: "heap \<Rightarrow> bool" where
  "roomy malloc \<longleftrightarrow> (\<forall>n. \<exists>u. malloc n = Some u \<and> n < u)"

lemma byte_array_to_hexstring_ok [c_mem]:
  "roomy malloc \<Longrightarrow> n \<le> length array \<Longrightarrow>
   byte_array_to_hexstring malloc array n = Inr (Some (hex_text (take n array)))"
  unfolding roomy_def byte_array_to_hexstring_def
  by (auto simp: c_mem hex_text_def dest!: spec [of _ "n * 2"])

lemma hexstring_to_byte_array_ok [c_mem]:
  "length mem = len \<Longrightarrow> len div 2 \<le> length dest \<Longrightarrow> even len \<Longrightarrow>
   hexstring_to_byte_array dest mem len = Inr (hex_pairs mem @ drop (len div 2) dest)"
  by (simp add: hexstring_to_byte_array_def c_mem width)

lemma hexstring_to_byte_array_full [c_mem]:
  "length mem = len \<Longrightarrow> len = 2 * length dest \<Longrightarrow>
   hexstring_to_byte_array dest mem len = Inr (hex_pairs mem)"
  by (simp add: hexstring_to_byte_array_def c_mem width)

lemma take_cstr_even:
  "hexstring_to_byte_array_z dest (s @ 0 # rest) = hexstring_to_byte_array dest (s @ 0 # rest) (length s)"
  if "0 \<notin> set s"
  using that by (simp add: hexstring_to_byte_array_z_def strlen_terminated)

lemma hexstring_to_byte_array_z_ok [c_mem]:
  "0 \<notin> set s \<Longrightarrow> length s = 2 * length dest \<Longrightarrow>
   hexstring_to_byte_array_z dest (s @ 0 # rest) = Inr (hex_pairs s)"
  by (simp add: take_cstr_even hexstring_to_byte_array_def rd_def wr_def width)

text \<open>
  The \<open>strlen\<close> version on a text that fills the array exactly, whatever follows it in memory
  (\<open>tail\<close>): correct when a NUL comes at once or after one more character, out of bounds otherwise.
\<close>

lemma hexstring_to_byte_array_z_tail:
  assumes "0 \<notin> set s" "length s = 2 * length dest"
  shows "hexstring_to_byte_array_z dest (s @ tail) =
    (case strlen tail of Inl f \<Rightarrow> Inl f
     | Inr k \<Rightarrow> if k \<le> 1 then Inr (hex_pairs s) else Inl WriteOverrun)"
proof (cases "strlen tail")
  case (Inl f)
  then show ?thesis using assms by (simp add: hexstring_to_byte_array_z_def strlen_append)
next
  case (Inr k)
  then have k: "k < length tail" by (simp add: strlen_Inr_iff)
  have z: "hexstring_to_byte_array_z dest (s @ tail) =
      bind_r (rd (2 * ((length s + k) div 2)) (s @ tail)) (\<lambda>t. wr dest (hex_pairs t))"
    using assms Inr by (simp add: hexstring_to_byte_array_z_def hexstring_to_byte_array_def strlen_append Let_def)
  show ?thesis
  proof (cases "k \<le> 1")
    case True
    then have "(length s + k) div 2 = length dest" using assms(2) by auto
    then show ?thesis using z assms True Inr by (simp add: rd_def wr_def width)
  next
    case False
    then have "length dest < (length s + k) div 2" using assms(2) by auto
    moreover have le: "2 * ((length s + k) div 2) \<le> length (s @ tail)" using k by simp
    moreover have "length (hex_pairs (take (2 * ((length s + k) div 2)) (s @ tail))) =
        (length s + k) div 2"
      using le unfolding length_hex_pairs length_take by (simp add: min_def)
    ultimately show ?thesis using z False Inr by (simp add: rd_def wr_def del: take_append length_append)
  qed
qed

end
