(* ===== verification/Attest.thy ===== *)
theory Attest
  imports Forro Hexcodec
begin

text \<open>
  The attestation proof. \<open>dra_state\<close> and \<open>dra_proof\<close> are the specification: sixteen words made of
  the key and of the round identifier, device identifier and nonce combined with the expected
  configuration, and the Forro block of that state. The proof calculator
  \<open>forro_cipher/src/forro/forro-args-dra.c\<close>, which the verifier runs as a separate process, is
  modelled with everything it reads from memory it never wrote.
\<close>

section \<open>Specification\<close>

definition dra_state :: "byte list \<Rightarrow> byte list \<Rightarrow> byte list \<Rightarrow> byte list \<Rightarrow> byte list \<Rightarrow> u32 list" where
  "dra_state key id_rodada nonce id_dispositivo conf =
    (let word = (\<lambda>p k. U8TO32_LITTLE (drop (4 * k) p)) in
     [word key 0, word key 1, word key 2, word key 3,
      word id_rodada 0 XOR word conf 0, word id_rodada 1 XOR word conf 1,
      word id_dispositivo 0 XOR word conf 2, word id_dispositivo 1 XOR word conf 3,
      word key 4, word key 5, word key 6, word key 7,
      word nonce 0 XOR word conf 4, word nonce 1 XOR word conf 5,
      word id_dispositivo 2 XOR word conf 6, word id_dispositivo 3 XOR word conf 7])"

definition dra_proof :: "byte list \<Rightarrow> byte list \<Rightarrow> byte list \<Rightarrow> byte list \<Rightarrow> byte list \<Rightarrow> byte list" where
  "dra_proof key id_rodada nonce id_dispositivo conf =
    forro (dra_state key id_rodada nonce id_dispositivo conf)"

lemma length_dra_state [width]: "length (dra_state k r n i c) = 16"
  by (simp add: dra_state_def Let_def)

lemma length_dra_proof [width]: "length (dra_proof k r n i c) = 64"
  by (simp add: dra_proof_def width)

section \<open>The configuration words\<close>

text \<open>
  The four loops that combine the expected configuration \<open>configuracao\<close> with the identifiers,
  the same in the proof calculator and in the trusted application.
\<close>

definition configuracao_rodada :: "byte list \<Rightarrow> byte list \<Rightarrow> byte list \<Rightarrow> byte list" where
  "configuracao_rodada id_rodada nonce configuracao =
    map (\<lambda>i. id_rodada ! i XOR configuracao ! i) [0..<8] @
    map (\<lambda>i. nonce ! i XOR configuracao ! (i + 16)) [0..<8]"

definition configuracao_dispositivo :: "byte list \<Rightarrow> byte list \<Rightarrow> byte list" where
  "configuracao_dispositivo id_dispositivo configuracao =
    map (\<lambda>i. id_dispositivo ! i XOR configuracao ! (i + 8)) [0..<8] @
    map (\<lambda>i. id_dispositivo ! (i + 8) XOR configuracao ! (i + 24)) [0..<8]"

lemma U8TO32_xor:
  assumes "\<And>k. k < 4 \<Longrightarrow> p ! k = q ! k XOR r ! k"
  shows "U8TO32_LITTLE p = U8TO32_LITTLE q XOR U8TO32_LITTLE r"
  using assms by (intro bit_word_eqI) (simp add: bit_U8TO32 bit_xor_iff)

lemma setup_dra_state:
  assumes "wf_ctx x" "length id_rodada = 8" "length nonce = 8" "length id_dispositivo = 16"
    "length conf = 32"
  shows "state (forro_versetup (forro_keysetup x key)
      (configuracao_rodada id_rodada nonce conf) (configuracao_dispositivo id_dispositivo conf)) =
    dra_state key id_rodada nonce id_dispositivo conf"
proof -
  let ?cr = "configuracao_rodada id_rodada nonce conf"
  let ?cd = "configuracao_dispositivo id_dispositivo conf"
  have cr: "?cr ! i = (if i < 8 then id_rodada ! i XOR conf ! i
      else nonce ! (i - 8) XOR conf ! (i + 8))" if "i < 16" for i
  proof -
    from that have "i - 8 < 8" "\<not> i < 8 \<Longrightarrow> i - 8 + 16 = i + 8" by auto
    then show ?thesis by (simp add: configuracao_rodada_def nth_append add.commute)
  qed
  have cd: "?cd ! i = id_dispositivo ! i XOR conf ! (if i < 8 then i + 8 else i + 16)"
    if "i < 16" for i
  proof -
    from that have "i - 8 < 8" "\<not> i < 8 \<Longrightarrow> i - 8 + 24 = i + 16 \<and> i - 8 + 8 = i" by auto
    then show ?thesis by (simp add: configuracao_dispositivo_def nth_append add.commute)
  qed
  have l: "length ?cr = 16" "length ?cd = 16"
    by (simp_all add: configuracao_rodada_def configuracao_dispositivo_def)
  have "U8TO32_LITTLE (drop 0 ?cr) = U8TO32_LITTLE id_rodada XOR U8TO32_LITTLE conf"
    "U8TO32_LITTLE (drop 4 ?cr) = U8TO32_LITTLE (drop 4 id_rodada) XOR U8TO32_LITTLE (drop 4 conf)"
    "U8TO32_LITTLE (drop 8 ?cr) = U8TO32_LITTLE nonce XOR U8TO32_LITTLE (drop 16 conf)"
    "U8TO32_LITTLE (drop 12 ?cr) = U8TO32_LITTLE (drop 4 nonce) XOR U8TO32_LITTLE (drop 20 conf)"
    "U8TO32_LITTLE (drop 0 ?cd) = U8TO32_LITTLE id_dispositivo XOR U8TO32_LITTLE (drop 8 conf)"
    "U8TO32_LITTLE (drop 4 ?cd) = U8TO32_LITTLE (drop 4 id_dispositivo) XOR U8TO32_LITTLE (drop 12 conf)"
    "U8TO32_LITTLE (drop 8 ?cd) = U8TO32_LITTLE (drop 8 id_dispositivo) XOR U8TO32_LITTLE (drop 24 conf)"
    "U8TO32_LITTLE (drop 12 ?cd) = U8TO32_LITTLE (drop 12 id_dispositivo) XOR U8TO32_LITTLE (drop 28 conf)"
    by (rule U8TO32_xor, simp add: assms l cr cd add.commute)+
  moreover have "wf_ctx (forro_keysetup x key)" using assms(1) by (simp add: wf_setups)
  ultimately show ?thesis
    using assms(1) by (simp add: state_versetup state_keysetup dra_state_def Let_def)
qed

section \<open>The proof calculator\<close>

text \<open>
  \<open>swapEndianChunk\<close> and \<open>swapEndian\<close> of \<open>forro-args-dra.c\<close> work on bytes, four at a time.
\<close>

definition swapEndianChunk :: "u32 \<Rightarrow> u32" where
  "swapEndianChunk value =
    (drop_bit 24 value AND 0xFF) OR (drop_bit 8 value AND 0xFF00) OR
    (push_bit 8 value AND 0xFF0000) OR (push_bit 24 value AND 0xFF000000)"

fun swapEndian_bytes :: "byte list \<Rightarrow> byte list res" where
  "swapEndian_bytes [] = Inr []"
| "swapEndian_bytes (i0 # i1 # i2 # i3 # input) =
    (let chunk = push_bit 24 (ucast i0) OR push_bit 16 (ucast i1) OR push_bit 8 (ucast i2) OR ucast i3;
         swappedChunk = swapEndianChunk chunk in
     bind_r (swapEndian_bytes input) (\<lambda>saida. Inr
      (ucast (drop_bit 24 swappedChunk AND 0xFF) # ucast (drop_bit 16 swappedChunk AND 0xFF) #
       ucast (drop_bit 8 swappedChunk AND 0xFF) # ucast (swappedChunk AND 0xFF) # saida)))"
| "swapEndian_bytes _ = Inl ReadOverrun"

text \<open>
  What \<open>main\<close> finds in memory that it has not written: the bytes after each of the five character
  arrays on its stack, the former content of the five byte arrays and of the context, and the block
  that \<open>malloc\<close> returns for the message (\<open>None\<close> for a null pointer).
\<close>

record cli_env =
  after_key_HEX :: "byte list"
  after_nonce_HEX :: "byte list"
  after_id_rodada_HEX :: "byte list"
  after_id_dispositivo_HEX :: "byte list"
  after_configuracao_HEX :: "byte list"
  old_key :: "byte list"
  old_nonce :: "byte list"
  old_id_rodada :: "byte list"
  old_id_dispositivo :: "byte list"
  old_configuracao :: "byte list"
  old_ctx :: "u32 list"
  mensagem_block :: "byte list option"
  cifrado_block :: "byte list option"

definition wf_cli_env :: "cli_env \<Rightarrow> bool" where
  "wf_cli_env e \<longleftrightarrow> length (old_key e) = 32 \<and> length (old_nonce e) = 8 \<and>
    length (old_id_rodada e) = 8 \<and> length (old_id_dispositivo e) = 16 \<and>
    length (old_configuracao e) = 32 \<and> length (old_ctx e) = 16 \<and>
    (\<forall>m. mensagem_block e = Some m \<longrightarrow> length m = 64) \<and>
    (\<forall>c. cifrado_block e = Some c \<longrightarrow> length c = 64)"

text \<open>
  One argument: \<open>memcpy\<close> of \<open>n\<close> characters into an array without room for a NUL, then the
  \<open>strlen\<close> version of the conversion, which runs on into the memory \<open>after\<close> the array.
\<close>

definition read_arg :: "nat \<Rightarrow> nat \<Rightarrow> byte list \<Rightarrow> byte list \<Rightarrow> byte list list \<Rightarrow> byte list res" where
  "read_arg k n old after argv =
    bind_r (arg k argv) (\<lambda>a.
    bind_r (rd n a) (\<lambda>hex. hexstring_to_byte_array_z old (hex @ after)))"

definition deref :: "'a option \<Rightarrow> 'a res" where
  "deref p = (case p of None \<Rightarrow> Inl NullDeref | Some x \<Rightarrow> Inr x)"

text \<open>The eight rows of \<open>div_bloco\<close> bytes that the program prints without line breaks.\<close>

definition print_blocos :: "nat \<Rightarrow> byte list \<Rightarrow> byte list" where
  "print_blocos div_bloco cifrado = concat (map (\<lambda>i. concat (map (\<lambda>k.
     print_02x (cifrado ! (div_bloco * i + k))) [0..<div_bloco])) [0..<8])"

text \<open>\<open>main\<close>: the standard output of the program, or the fault that stops it.\<close>

definition forro_args_dra_main :: "cli_env \<Rightarrow> byte list list \<Rightarrow> byte list res" where
  "forro_args_dra_main e argv =
    bind_r (read_arg 1 64 (old_key e) (after_key_HEX e) argv) (\<lambda>key.
    bind_r (read_arg 2 16 (old_nonce e) (after_nonce_HEX e) argv) (\<lambda>nonce.
    bind_r (read_arg 3 16 (old_id_rodada e) (after_id_rodada_HEX e) argv) (\<lambda>id_rodada.
    bind_r (read_arg 4 32 (old_id_dispositivo e) (after_id_dispositivo_HEX e) argv) (\<lambda>id_dispositivo.
    bind_r (read_arg 5 64 (old_configuracao e) (after_configuracao_HEX e) argv) (\<lambda>configuracao.
    let x = \<lparr>state = old_ctx e\<rparr>;
        x = forro_keysetup x key;
        cr = configuracao_rodada id_rodada nonce configuracao;
        cd = configuracao_dispositivo id_dispositivo configuracao;
        x = forro_versetup x cr cd in
    bind_r (deref (mensagem_block e)) (\<lambda>mensagem.
    bind_r (deref (cifrado_block e)) (\<lambda>_.
    bind_r (forro_encrypt_bytes x mensagem 64) (\<lambda>(x, cifrado).
      Inr (print_blocos (64 div 8) cifrado)))))))))"

lemma print_blocos_64: "length c = 64 \<Longrightarrow> print_blocos 8 c = hex_text c"
proof -
  assume l: "length c = 64"
  have "concat (map (\<lambda>i. concat (map (\<lambda>k. print_02x (c ! (8 * i + k))) [0..<8])) [0..<n]) =
      concat (map (\<lambda>j. print_02x (c ! j)) [0..<8 * n])" for n
  proof (induction n)
    case (Suc n)
    have "[0..<8 * Suc n] = [0..<8 * n] @ map ((+) (8 * n)) [0..<8]"
    proof -
      have "(+) (8 * n) = (\<lambda>i. i + 8 * n)" by auto
      then show ?thesis
        using upt_add_eq_append [of 0 "8 * n" 8] map_add_upt [of "8 * n" 8] by (simp add: add.commute)
    qed
    then show ?case using Suc by (simp add: comp_def del: upt_rec_numeral)
  qed simp
  from this [of 8] have "print_blocos 8 c = concat (map print_02x (map ((!) c) [0..<64]))"
    unfolding print_blocos_def by (simp add: comp_def del: upt_rec_numeral)
  also have "map ((!) c) [0..<64] = c" using l map_nth [of c] by (simp del: upt_rec_numeral)
  finally show ?thesis by (simp add: hex_text_def)
qed

section \<open>Byte order of the calculator\<close>

lemma byte_masks:
  "(0xFF :: u32) = mask 8" "(0xFF00 :: u32) = push_bit 8 (mask 8)"
  "(0xFF0000 :: u32) = push_bit 16 (mask 8)" "(0xFF000000 :: u32) = push_bit 24 (mask 8)"
  by (simp_all add: mask_eq_exp_minus_1 push_bit_eq_mult)

lemma bit_swapEndianChunk: "bit (swapEndianChunk v) n \<longleftrightarrow>
  (if n < 8 then bit v (n + 24) else if n < 16 then bit v (n + 8)
   else if n < 24 then bit v (n - 8) else n < 32 \<and> bit v (n - 24))"
proof -
  have "\<And>k. bit v k \<Longrightarrow> k < 32" by (drule bit_imp_le_length) simp
  then show ?thesis
    unfolding swapEndianChunk_def byte_masks
    by (simp only: bit_or_iff bit_and_iff bit_push_bit_iff bit_drop_bit_eq bit_mask_iff
        possible_bit_word comp_def) (auto simp: add.commute)
qed

lemma U32TO8_swapEndianChunk: "U32TO8_LITTLE (swapEndianChunk v) = rev (U32TO8_LITTLE v)"
proof (rule nth_equalityI)
  fix k assume "k < length (U32TO8_LITTLE (swapEndianChunk v))"
  then have k: "k < 4" by (simp add: width)
  show "U32TO8_LITTLE (swapEndianChunk v) ! k = rev (U32TO8_LITTLE v) ! k"
  proof (rule bit_word_eqI)
    fix n assume "n < LENGTH(8)"
    then show "bit (U32TO8_LITTLE (swapEndianChunk v) ! k) n = bit (rev (U32TO8_LITTLE v) ! k) n"
      using less_4_cases [OF k]
      by (elim disjE) (simp_all add: rev_nth width bit_U32TO8 bit_swapEndianChunk add.commute)
  qed
qed (simp add: width)

lemma ucast_low_byte: "ucast (x AND 0xFF :: u32) = (ucast x :: byte)"
  unfolding byte_masks
  by (rule bit_word_eqI) (simp only: bit_ucast_iff bit_and_iff bit_mask_iff, simp)

lemma swapEndian_bytes_ok: "length bs mod 4 = 0 \<Longrightarrow> swapEndian_bytes bs = Inr (swap_bytes bs)"
proof (induction bs rule: swapEndian_bytes.induct)
  case (2 i0 i1 i2 i3 s)
  let ?c = "push_bit 24 (ucast i0) OR push_bit 16 (ucast i1) OR push_bit 8 (ucast i2) OR ucast i3 :: u32"
  let ?w = "swapEndianChunk ?c"
  have c: "?c = U8TO32_LITTLE [i3, i2, i1, i0]"
    by (simp add: U8TO32_LITTLE_def or.commute or.left_commute)
  have "[ucast (drop_bit 24 ?w), ucast (drop_bit 16 ?w), ucast (drop_bit 8 ?w), ucast ?w] =
      rev (U32TO8_LITTLE ?w)"
    by (simp only: U32TO8_LITTLE_def rev.simps append.simps)
  also have "\<dots> = [i3, i2, i1, i0]"
    unfolding U32TO8_swapEndianChunk rev_rev_ident c by (rule U32TO8_U8TO32) simp
  finally have "[ucast (drop_bit 24 ?w), ucast (drop_bit 16 ?w), ucast (drop_bit 8 ?w), ucast ?w] =
      [i3, i2, i1, i0]" .
  moreover have "length s mod 4 = 0" using 2 by simp
  ultimately show ?case
    using 2 unfolding swapEndian_bytes.simps Let_def ucast_low_byte by simp
qed auto

text \<open>\<open>swapEndianChunk\<close> undoes itself and reverses the order of the four bytes.\<close>

lemma swapEndianChunk_involution:
  "swapEndianChunk (swapEndianChunk v) = v \<and> U32TO8_LITTLE (swapEndianChunk v) = rev (U32TO8_LITTLE v)"
proof
  show "swapEndianChunk (swapEndianChunk v) = v"
    by (rule bit_word_eqI) (auto simp: bit_swapEndianChunk)
qed (rule U32TO8_swapEndianChunk)

text \<open>The byte-wise \<open>swapEndian\<close> of the proof calculator and the text-wise \<open>swapEndian\<close> of the
  network tools are the same operation on the bytes that the text denotes.\<close>

lemma swapEndian_copies_agree:
  assumes "length h mod 8 = 0"
  shows "bind_r (swapEndian h (length h)) (\<lambda>h'. Inr (hex_pairs h')) = swapEndian_bytes (hex_pairs h)"
proof -
  have "length (hex_pairs h) mod 4 = 0" using assms unfolding length_hex_pairs by presburger
  then show ?thesis using assms by (simp add: swapEndian_ok swapEndian_bytes_ok hex_pairs_swap)
qed

section \<open>What the calculator prints\<close>

definition nul_soon :: "byte list \<Rightarrow> bool" where
  "nul_soon mem \<longleftrightarrow> (\<exists>k \<le> 1. strlen mem = Inr k)"

lemma read_arg_ok:
  assumes "k < length argv" "argv ! k = hex @ rest" "length hex = n" "n = 2 * length old"
    "0 \<notin> set hex" "nul_soon after"
  shows "read_arg k n old after argv = Inr (hex_pairs hex)"
proof -
  have "rd n (hex @ rest) = Inr hex" using assms(3) by (rule rd_exact)
  moreover obtain j where "strlen after = Inr j" "j \<le> 1"
    using assms(6) by (auto simp: nul_soon_def)
  ultimately show ?thesis
    using assms by (simp add: read_arg_def arg_def hexstring_to_byte_array_z_tail)
qed

text \<open>An argument that is the text \<open>0\<close> leaves the array as it was.\<close>

lemma read_arg_zero:
  assumes "k < length argv" "argv ! k = 48 # 0 # rest" "n \<le> length rest + 2" "2 \<le> n"
  shows "read_arg k n old after argv = Inr old"
proof -
  have "take n (48 # 0 # rest) = 48 # 0 # take (n - 2) rest"
    using assms(4) by (cases n; cases "n - 1") auto
  then show ?thesis
    using assms
    by (simp add: read_arg_def arg_def rd_def hexstring_to_byte_array_z_def
        hexstring_to_byte_array_def wr_def)
qed

text \<open>
  The five arguments as the caller passes them: NUL-free texts of the expected lengths, each
  followed in memory by whatever comes after it.
\<close>

definition cli_args :: "byte list list \<Rightarrow> byte list \<Rightarrow> byte list \<Rightarrow> byte list \<Rightarrow> byte list \<Rightarrow> bool" where
  "cli_args argv key nonce id_rodada id_dispositivo \<longleftrightarrow> length argv = 6 \<and>
    (\<exists>r1 r2 r3 r4. argv ! 1 = key @ r1 \<and> argv ! 2 = nonce @ r2 \<and> argv ! 3 = id_rodada @ r3 \<and>
      argv ! 4 = id_dispositivo @ r4) \<and>
    length key = 64 \<and> length nonce = 16 \<and> length id_rodada = 16 \<and> length id_dispositivo = 32 \<and>
    0 \<notin> set key \<and> 0 \<notin> set nonce \<and> 0 \<notin> set id_rodada \<and> 0 \<notin> set id_dispositivo"

definition cli_stack_ok :: "cli_env \<Rightarrow> bool" where
  "cli_stack_ok e \<longleftrightarrow> nul_soon (after_key_HEX e) \<and> nul_soon (after_nonce_HEX e) \<and>
    nul_soon (after_id_rodada_HEX e) \<and> nul_soon (after_id_dispositivo_HEX e)"

lemma encrypt_one_block:
  assumes "wf_ctx x" "length m = 64"
  shows "forro_encrypt_bytes x m 64 = Inr (next_ctx x, map2 (XOR) m (forro (state x)))"
proof -
  have "length (forro (state x)) = 64" using assms(1) by (simp add: wf_ctx_def width)
  then have "map (\<lambda>i. m ! i XOR forro (state x) ! i) [0..<64] = map2 (XOR) m (forro (state x))"
    using assms(2) by (subst map2_nth_upt) simp_all
  then show ?thesis using assms(2) by (simp add: forro_encrypt_bytes_def encrypt_loop.simps)
qed

lemma cli_output:
  assumes "wf_cli_env e" "cli_stack_ok e" "cli_args argv key nonce id_rodada id_dispositivo"
    "read_arg 5 64 (old_configuracao e) (after_configuracao_HEX e) argv = Inr conf"
    "length conf = 32" "mensagem_block e = Some m" "cifrado_block e = Some c"
  shows "forro_args_dra_main e argv = Inr (hex_text (map2 (XOR) m
    (dra_proof (hex_pairs key) (hex_pairs id_rodada) (hex_pairs nonce) (hex_pairs id_dispositivo) conf)))"
proof -
  from assms(3) obtain r1 r2 r3 r4 where a: "length argv = 6" "argv ! 1 = key @ r1"
      "argv ! 2 = nonce @ r2" "argv ! 3 = id_rodada @ r3" "argv ! 4 = id_dispositivo @ r4"
    and l: "length key = 64" "length nonce = 16" "length id_rodada = 16" "length id_dispositivo = 32"
      "0 \<notin> set key" "0 \<notin> set nonce" "0 \<notin> set id_rodada" "0 \<notin> set id_dispositivo"
    by (auto simp: cli_args_def)
  have "read_arg 1 64 (old_key e) (after_key_HEX e) argv = Inr (hex_pairs key)"
    "read_arg 2 16 (old_nonce e) (after_nonce_HEX e) argv = Inr (hex_pairs nonce)"
    "read_arg 3 16 (old_id_rodada e) (after_id_rodada_HEX e) argv = Inr (hex_pairs id_rodada)"
    "read_arg 4 32 (old_id_dispositivo e) (after_id_dispositivo_HEX e) argv = Inr (hex_pairs id_dispositivo)"
    using a l assms(1,2) by (auto intro!: read_arg_ok simp: wf_cli_env_def cli_stack_ok_def)
  moreover have wf: "wf_ctx \<lparr>state = old_ctx e\<rparr>"
    using assms(1) by (simp add: wf_ctx_def wf_cli_env_def)
  moreover have "length m = 64" using assms(1,6) by (simp add: wf_cli_env_def)
  ultimately show ?thesis
    using assms l
    by (simp add: forro_args_dra_main_def Let_def deref_def encrypt_one_block wf_setups
        setup_dra_state dra_proof_def print_blocos_64 width)
qed

text \<open>C11: with a complete set of hexadecimal arguments the calculator prints the message block
  combined with the attestation proof, so it prints the proof itself exactly when the block that
  \<open>malloc\<close> returned, and that the program never writes, holds only zeros.\<close>

theorem calculator_prints_proof_iff_zero_block:
  assumes "wf_cli_env e" "cli_stack_ok e" "cli_args argv key nonce id_rodada id_dispositivo"
    and "argv ! 5 = conf @ rest" "length conf = 64" "0 \<notin> set conf" "nul_soon (after_configuracao_HEX e)"
    and "mensagem_block e = Some m" "cifrado_block e = Some c"
  defines "proof \<equiv> dra_proof (hex_pairs key) (hex_pairs id_rodada) (hex_pairs nonce)
    (hex_pairs id_dispositivo) (hex_pairs conf)"
  shows "forro_args_dra_main e argv = Inr (hex_text (map2 (XOR) m proof)) \<and>
    (forro_args_dra_main e argv = Inr (hex_text proof) \<longleftrightarrow> m = replicate 64 0)"
proof -
  have "read_arg 5 64 (old_configuracao e) (after_configuracao_HEX e) argv = Inr (hex_pairs conf)"
    using assms(1,3-7) by (intro read_arg_ok) (auto simp: cli_args_def wf_cli_env_def)
  then have out: "forro_args_dra_main e argv = Inr (hex_text (map2 (XOR) m proof))"
    unfolding proof_def using assms by (intro cli_output) (auto simp: width)
  have lm: "length m = 64" using assms(1,8) by (simp add: wf_cli_env_def)
  have lp: "length proof = 64" by (simp add: proof_def width)
  have inj: "hex_text a = hex_text b \<longleftrightarrow> a = b" for a b
    by (metis hex_pairs_hex_text)
  have "map2 (XOR) m proof = proof \<longleftrightarrow> m = replicate 64 0"
  proof
    assume "map2 (XOR) m proof = proof"
    then have "map2 (XOR) (map2 (XOR) m proof) proof = map2 (XOR) proof proof" by simp
    then have "m = map2 (XOR) proof proof" using lm lp by (simp add: map2_xor_cancel)
    also have "\<dots> = replicate 64 0" using lp by (intro nth_equalityI) auto
    finally show "m = replicate 64 0" .
  next
    assume "m = replicate 64 0"
    then show "map2 (XOR) m proof = proof" using lp by (simp add: map2_xor_zeros)
  qed
  then show ?thesis using out inj by auto
qed

text \<open>Called the way the verifier calls it, with the text \<open>0\<close> as the configuration, the
  calculator never writes the configuration array: the proof it prints is the one for the bytes
  that were on its stack.\<close>

lemma calculator_zero_configuration_uses_stack:
  assumes "wf_cli_env e" "cli_stack_ok e" "cli_args argv key nonce id_rodada id_dispositivo"
    and "argv ! 5 = 48 # 0 # rest" "62 \<le> length rest"
    and "mensagem_block e = Some m" "cifrado_block e = Some c"
  shows "forro_args_dra_main e argv = Inr (hex_text (map2 (XOR) m
    (dra_proof (hex_pairs key) (hex_pairs id_rodada) (hex_pairs nonce) (hex_pairs id_dispositivo)
      (old_configuracao e))))"
proof -
  have "read_arg 5 64 (old_configuracao e) (after_configuracao_HEX e) argv = Inr (old_configuracao e)"
    using assms(3-5) by (intro read_arg_zero) (auto simp: cli_args_def)
  then show ?thesis
    using assms by (intro cli_output) (auto simp: wf_cli_env_def)
qed

lemma calculator_missing_arguments_fault:
  "forro_args_dra_main e [] = Inl NullDeref \<and> forro_args_dra_main e [p] = Inl NullDeref"
  by (simp add: forro_args_dra_main_def read_arg_def arg_def)

definition cli_env_example :: cli_env where
  "cli_env_example = \<lparr>after_key_HEX = [0], after_nonce_HEX = [0], after_id_rodada_HEX = [0],
    after_id_dispositivo_HEX = [0], after_configuracao_HEX = [0],
    old_key = replicate 32 0, old_nonce = replicate 8 0, old_id_rodada = replicate 8 0,
    old_id_dispositivo = replicate 16 0, old_configuracao = replicate 32 7, old_ctx = replicate 16 0,
    mensagem_block = Some (replicate 64 0), cifrado_block = Some (replicate 64 0)\<rparr>"

definition cli_argv_example :: "byte list \<Rightarrow> byte list list" where
  "cli_argv_example conf = [[0], replicate 64 49 @ [0], replicate 16 50 @ [0], replicate 16 51 @ [0],
    replicate 32 52 @ [0], conf]"

lemma cli_example:
  "wf_cli_env cli_env_example" "cli_stack_ok cli_env_example"
  "cli_args (cli_argv_example conf) (replicate 64 49) (replicate 16 50) (replicate 16 51) (replicate 32 52)"
  by (simp_all add: wf_cli_env_def cli_env_example_def cli_stack_ok_def nul_soon_def cli_args_def
      cli_argv_example_def exI [of _ 0])

theorem calculator_prints_proof_iff_zero_block_witness:
  "forro_args_dra_main cli_env_example (cli_argv_example (replicate 64 53 @ [0])) =
   Inr (hex_text (dra_proof (hex_pairs (replicate 64 49)) (hex_pairs (replicate 16 51))
     (hex_pairs (replicate 16 50)) (hex_pairs (replicate 32 52)) (hex_pairs (replicate 64 53))))"
  by (rule calculator_prints_proof_iff_zero_block [OF cli_example, of "replicate 64 53 @ [0]"
        "replicate 64 53" "[0]" "replicate 64 0" "replicate 64 0", THEN conjunct2, THEN iffD2])
    (simp_all add: cli_env_example_def cli_argv_example_def nul_soon_def exI [of _ 0])

end
