(* ===== verification/Forro_Debug.thy ===== *)
theory Forro_Debug
  imports Attest
begin

text \<open>
  The tracing build of the cipher, \<open>forro_cipher/src/forro/ref/forro-debug.c\<close>, which prints the state
  before every round, after every quarter round and after the two final loops, and the program
  \<open>forro_cipher/src/forro/forro-args.c\<close> that is linked with it. A print is an \<open>event\<close>;
  \<open>print_event\<close> is the text it puts on the standard output.
\<close>

section \<open>What the tracing build prints\<close>

datatype event =
    Inicio nat "u32 list"
  | Resultado nat nat "u32 list"
  | Soma "u32 list"
  | Conversao "u32 list"

fun print_dec :: "nat \<Rightarrow> byte list" where
  "print_dec n = (if n < 10 then [hex_digit n] else print_dec (n div 10) @ [hex_digit (n mod 10)])"

declare print_dec.simps [simp del]

definition print_08x :: "u32 \<Rightarrow> byte list" where
  "print_08x v = concat (map print_02x (rev (U32TO8_LITTLE v)))"

definition print_state_vector :: "u32 list \<Rightarrow> byte list" where
  "print_state_vector vector =
    concat (map (\<lambda>s.
      concat (map (\<lambda>t. bytes_of ''State['' @ print_dec (s + t) @ bytes_of '']: '' @
        print_08x (vector ! (s + t)) @ [9]) [0, 1, 2, 3]) @ [10]) [0, 4, 8, 12])"

fun print_event :: "event \<Rightarrow> byte list" where
  "print_event (Inicio i v) = bytes_of ''##Round: '' @ print_dec i @ bytes_of ''-inicio##'' @ [10] @ print_state_vector v"
| "print_event (Resultado i qr v) = bytes_of ''##Resultado: Round: '' @ print_dec i @ bytes_of ''-'' @
     print_dec qr @ bytes_of ''##'' @ [10] @ print_state_vector v"
| "print_event (Soma v) = bytes_of ''----RESULTADO - Soma com inicial----'' @ [10] @ print_state_vector v @ [10, 10]"
| "print_event (Conversao v) = bytes_of ''----RESULTADO - conversao para u8----'' @ [10] @ print_state_vector v @ [10, 10]"

section \<open>The block function with its trace\<close>

definition forro_debug_round :: "nat \<Rightarrow> u32 list \<Rightarrow> u32 list \<times> event list" where
  "forro_debug_round i v0 =
    (let v1 = Q 0 4 8 12 3 v0;
         v2 = Q 1 5 9 13 0 v1;
         v3 = Q 2 6 10 14 1 v2;
         v4 = Q 3 7 11 15 2 v3;
         v5 = Q 0 5 10 15 3 v4;
         v6 = Q 1 6 11 12 0 v5;
         v7 = Q 2 7 8 13 1 v6;
         v8 = Q 3 4 9 14 2 v7
     in (v8, [Inicio i v0, Resultado i 0 v1, Resultado i 1 v2, Resultado i 2 v3, Resultado i 3 v4,
              Resultado i 4 v5, Resultado i 5 v6, Resultado i 6 v7, Resultado i 7 v8]))"

fun forro_debug_rounds :: "nat list \<Rightarrow> u32 list \<Rightarrow> u32 list \<times> event list" where
  "forro_debug_rounds [] v = (v, [])"
| "forro_debug_rounds (i # is) v =
    (let (v, t) = forro_debug_round i v; (v, t') = forro_debug_rounds is v in (v, t @ t'))"

definition forro_debug :: "u32 list \<Rightarrow> byte list \<times> event list" where
  "forro_debug init =
    (let (state_vector, t) = forro_debug_rounds [0..<rounds] init;
         state_vector = map2 (+) init state_vector;
         out = concat (map U32TO8_LITTLE state_vector)
     in (out, t @ [Soma state_vector, Conversao state_vector]))"

function encrypt_loop_debug :: "stream_ctx \<Rightarrow> byte list \<Rightarrow> u32 \<Rightarrow> stream_ctx \<times> byte list \<times> event list" where
  "encrypt_loop_debug x m bytes =
    (let (ks, t) = forro_debug (state x); x' = next_ctx x in
     if bytes \<le> 64 then (x', map (\<lambda>i. m ! i XOR ks ! i) [0..<unat bytes], t)
     else (case encrypt_loop_debug x' (drop 64 m) (bytes - 64) of
             (x'', c, t') \<Rightarrow> (x'', map (\<lambda>i. m ! i XOR ks ! i) [0..<64] @ c, t @ t')))"
  by pat_completeness auto
termination
  by (relation "measure (\<lambda>(x, m, bytes). unat bytes)")
    (auto simp: unat_sub word_le_nat_alt word_less_nat_alt)

declare encrypt_loop_debug.simps [simp del]

definition encrypt_bytes_debug ::
    "stream_ctx \<Rightarrow> byte list \<Rightarrow> u32 \<Rightarrow> (stream_ctx \<times> byte list \<times> event list) res" where
  "encrypt_bytes_debug x m bytes =
    (if bytes = 0 then Inr (x, [], [])
     else if length m < unat bytes then Inl ReadOverrun
     else Inr (encrypt_loop_debug x m bytes))"

text \<open>The set-up functions and the two other entry points of the tracing build.\<close>

definition keysetup_debug :: "stream_ctx \<Rightarrow> byte list \<Rightarrow> stream_ctx" where
  "keysetup_debug x key = forro_keysetup x key"

definition ivsetup_debug :: "stream_ctx \<Rightarrow> byte list \<Rightarrow> stream_ctx" where
  "ivsetup_debug x iv = forro_ivsetup x iv"

definition versetup_debug :: "stream_ctx \<Rightarrow> byte list \<Rightarrow> byte list \<Rightarrow> stream_ctx" where
  "versetup_debug x conf_rodada conf_dispositivo = forro_versetup x conf_rodada conf_dispositivo"

definition decrypt_bytes_debug ::
    "stream_ctx \<Rightarrow> byte list \<Rightarrow> u32 \<Rightarrow> (stream_ctx \<times> byte list \<times> event list) res" where
  "decrypt_bytes_debug x c bytes = encrypt_bytes_debug x c bytes"

definition keystream_bytes_debug :: "stream_ctx \<Rightarrow> u32 \<Rightarrow> (stream_ctx \<times> byte list \<times> event list) res" where
  "keystream_bytes_debug x bytes =
    (let stream = replicate (unat bytes) 0 in encrypt_bytes_debug x stream bytes)"

section \<open>The traced program\<close>

text \<open>\<open>strncpy\<close>: the text up to its NUL, padded with zeros.\<close>

definition strncpy :: "nat \<Rightarrow> byte list \<Rightarrow> byte list res" where
  "strncpy n mem =
    (if n \<le> length mem \<or> 0 \<in> set mem
     then (let s = take n (cstr mem) in Inr (s @ replicate (n - length s) 0))
     else Inl ReadOverrun)"

text \<open>Hexadecimal output with a line break after every \<open>k\<close> bytes.\<close>

definition print_lines :: "nat \<Rightarrow> byte list \<Rightarrow> byte list" where
  "print_lines k bs =
    concat (map (\<lambda>i. print_02x (bs ! i) @ (if i mod k = k - 1 then [10] else [])) [0..<length bs])"

text \<open>
  \<open>main\<close> of \<open>forro-args.c\<close>. \<open>junk\<close> is the content of the block \<open>output_forro\<close>, which the program
  prints twice and never writes (the call that would fill it is commented out), and \<open>old\<close> the former
  content of the context. A null pointer from \<open>malloc\<close> is \<open>None\<close>.
\<close>

definition forro_args_output ::
    "byte list \<Rightarrow> byte list \<Rightarrow> byte list \<Rightarrow> event list \<Rightarrow> byte list \<Rightarrow> byte list \<Rightarrow> byte list" where
  "forro_args_output key iv mensagem t junk cifrado =
     bytes_of ''rodando Key Setup'' @ [10] @ bytes_of ''rodando IV Setup'' @ [10] @
     bytes_of ''Cifra da Mensagem'' @ [10] @ concat (map print_event t) @
     bytes_of ''Mensagem:'' @ [10] @ print_lines 16 mensagem @ [10] @
     bytes_of ''KEY:'' @ [10] @ print_lines 16 key @ [10] @
     bytes_of ''NONCE:'' @ [10] @ print_lines 8 iv @
     [10] @ bytes_of ''Resultado do estado:'' @ [10] @ print_lines 8 junk @ [10] @
     hex_text junk @ [10] @
     [10] @ bytes_of ''Cifrado:'' @ [10] @ print_lines 8 cifrado @ [10] @
     hex_text cifrado @ [10]"

definition forro_args_main :: "u32 list \<Rightarrow> byte list option \<Rightarrow> byte list list \<Rightarrow> byte list res" where
  "forro_args_main old output_forro argv =
    bind_r (bind_r (arg 1 argv) (strncpy 32)) (\<lambda>key.
    bind_r (bind_r (arg 2 argv) (strncpy 8)) (\<lambda>iv.
    bind_r (bind_r (arg 3 argv) (strncpy 64)) (\<lambda>mensagem.
    let x = \<lparr>state = old\<rparr>;
        x = forro_keysetup x key;
        x = forro_ivsetup x iv in
    bind_r (encrypt_bytes_debug x mensagem 64) (\<lambda>(x, cifrado, t).
    bind_r (deref output_forro) (\<lambda>junk.
      Inr (forro_args_output key iv mensagem t junk cifrado))))))"

section \<open>The trace does not change the result\<close>

lemma forro_debug_round_fst [simp]: "fst (forro_debug_round i v) = forro_round v"
  by (simp add: forro_debug_round_def forro_round_def Let_def)

lemma forro_debug_round_length: "length (snd (forro_debug_round i v)) = 9"
  by (simp add: forro_debug_round_def Let_def)

lemma forro_debug_rounds_fst: "fst (forro_debug_rounds is v) = (forro_round ^^ length is) v"
proof (induction "is" arbitrary: v)
  case (Cons i js)
  have "fst (forro_debug_rounds (i # js) v) = fst (forro_debug_rounds js (forro_round v))"
    by (simp add: Let_def split_beta)
  then show ?case using Cons by (simp add: funpow_swap1)
qed simp

lemma forro_debug_rounds_length: "length (snd (forro_debug_rounds is v)) = 9 * length is"
  by (induction "is" arbitrary: v) (auto simp: Let_def split_beta forro_debug_round_length)

lemma forro_debug_fst [simp]: "fst (forro_debug init) = forro init"
  by (simp add: forro_debug_def forro_def Let_def split_beta forro_debug_rounds_fst)

interpretation dbg: block_stream "\<lambda>x. fst (forro_debug (state x))" next_ctx
  "\<lambda>x m n. (fst (encrypt_loop_debug x m n), fst (snd (encrypt_loop_debug x m n)))"
proof
  fix n :: u32 and s m
  let ?e = "\<lambda>x m n. (fst (encrypt_loop_debug x m n), fst (snd (encrypt_loop_debug x m n)))"
  show "?e s m n = (next_ctx s, map (\<lambda>i. m ! i XOR fst (forro_debug (state s)) ! i) [0..<unat n])"
    if "n \<le> 64" using that by (simp add: encrypt_loop_debug.simps [of s m n] split_beta)
  show "?e s m n = (fst (?e (next_ctx s) (drop 64 m) (n - 64)),
      map (\<lambda>i. m ! i XOR fst (forro_debug (state s)) ! i) [0..<64] @
      snd (?e (next_ctx s) (drop 64 m) (n - 64)))"
    if "64 < n"
  proof -
    from that have "\<not> n \<le> 64" by simp
    then show ?thesis by (simp add: encrypt_loop_debug.simps [of s m n] Let_def split_beta)
  qed
qed

lemma rounds_trace_nth:
  "r < length is \<Longrightarrow> snd (forro_debug_rounds is v) ! (9 * r) = Inicio (is ! r) ((forro_round ^^ r) v)
   \<and> snd (forro_debug_rounds is v) ! (9 * r + 8) = Resultado (is ! r) 7 ((forro_round ^^ Suc r) v)"
proof (induction "is" arbitrary: v r)
  case (Cons i js)
  have t: "snd (forro_debug_rounds (i # js) v) =
      snd (forro_debug_round i v) @ snd (forro_debug_rounds js (forro_round v))"
    by (simp add: Let_def split_beta)
  have first: "snd (forro_debug_round i v) ! 0 = Inicio i v"
    "snd (forro_debug_round i v) ! 8 = Resultado i 7 (forro_round v)"
    by (simp_all add: forro_debug_round_def forro_round_def Let_def)
  show ?case
  proof (cases r)
    case 0
    then show ?thesis unfolding t using first by (simp add: nth_append forro_debug_round_length)
  next
    case (Suc q)
    have "9 * r - 9 = 9 * q" "9 * r + 8 - 9 = 9 * q + 8" "\<not> 9 * r < 9" "\<not> 9 * r + 8 < 9"
      using Suc by simp_all
    then show ?thesis
      unfolding t nth_append forro_debug_round_length
      using Cons.IH [of q "forro_round v"] Cons.prems Suc
      by (simp add: funpow_swap1 add.commute)
  qed
qed simp

lemma forro_debug_trace:
  "snd (forro_debug init) = snd (forro_debug_rounds [0..<7] init) @
     [Soma (map2 (+) init ((forro_round ^^ 7) init)), Conversao (map2 (+) init ((forro_round ^^ 7) init))]"
proof -
  have "fst (forro_debug_rounds [0..<7] init) = (forro_round ^^ 7) init"
    by (simp only: forro_debug_rounds_fst) simp
  then show ?thesis
    unfolding forro_debug_def rounds_def Let_def split_beta by simp
qed

text \<open>C22: the tracing build computes the same block, and its trace has 65 entries in which entry
  \<open>9 r\<close> is the state before round \<open>r\<close> and entry \<open>9 r + 8\<close> the state after its eighth quarter round.\<close>

theorem forro_debug_faithful:
  "fst (forro_debug init) = forro init \<and> length (snd (forro_debug init)) = 65 \<and>
   (\<forall>r < rounds. snd (forro_debug init) ! (9 * r) = Inicio r ((forro_round ^^ r) init) \<and>
     snd (forro_debug init) ! (9 * r + 8) = Resultado r 7 ((forro_round ^^ Suc r) init))"
proof (intro conjI allI impI)
  show "length (snd (forro_debug init)) = 65"
    unfolding forro_debug_trace by (simp add: forro_debug_rounds_length del: upt_rec_numeral)
  fix r assume "r < rounds"
  then have r: "r < 7" by (simp add: rounds_def)
  have "9 * r + 8 < length (snd (forro_debug_rounds [0..<7] init))"
    using r by (simp add: forro_debug_rounds_length del: upt_rec_numeral)
  then show "snd (forro_debug init) ! (9 * r) = Inicio r ((forro_round ^^ r) init)"
    "snd (forro_debug init) ! (9 * r + 8) = Resultado r 7 ((forro_round ^^ Suc r) init)"
    using rounds_trace_nth [of r "[0..<7]" init] r
    unfolding forro_debug_trace by (simp_all add: nth_append del: upt_rec_numeral funpow.simps)
qed simp

theorem forro_debug_faithful_witness:
  "snd (forro_debug (replicate 16 0)) ! 0 = Inicio 0 (replicate 16 0)"
  using forro_debug_faithful [of "replicate 16 0", THEN conjunct2, THEN conjunct2, rule_format, of 0]
  by (simp add: rounds_def)

text \<open>Encryption with the tracing build gives the context and the bytes of the plain build on
  every call, faults included.\<close>

lemma encrypt_bytes_debug_equiv:
  "bind_r (encrypt_bytes_debug x m n) (\<lambda>(x', c, t). Inr (x', c)) = forro_encrypt_bytes x m n"
proof (cases "n = 0 \<or> length m < unat n")
  case True
  then show ?thesis by (auto simp: encrypt_bytes_debug_def forro_encrypt_bytes_def)
next
  case False
  then have n: "0 < n" "unat n \<le> length m" by (auto simp: word_gt_0)
  have "(fst (encrypt_loop_debug x m n), fst (snd (encrypt_loop_debug x m n))) = encrypt_loop x m n"
    using dbg.enc_closed [OF n, of x] fs.enc_closed [OF n, of x] by simp
  then show ?thesis
    using False by (simp add: encrypt_bytes_debug_def forro_encrypt_bytes_def split_beta)
qed

lemma length_print_lines:
  "length bs = length bs' \<Longrightarrow> length (print_lines k bs) = length (print_lines k bs')"
  by (simp add: print_lines_def length_concat comp_def print_02x_def)

lemma forro_args_output_inject:
  "length j = length j' \<Longrightarrow>
   forro_args_output k i m t j c = forro_args_output k i m t j' c \<longleftrightarrow> j = j'"
  using length_print_lines [of j j' 8] length_hex_text [of j] length_hex_text [of j']
  by (auto simp: forro_args_output_def)

text \<open>The traced program prints the block that it never wrote: two runs that produce the same
  output started with the same bytes in it.\<close>

lemma forro_args_prints_unwritten_block:
  assumes "forro_args_main old (Some j) argv = Inr out" "forro_args_main old (Some j') argv = Inr out"
    and "length j = 64" "length j' = 64"
  shows "j = j'"
proof -
  from assms(1) obtain k i m x c t where
    "bind_r (arg 1 argv) (strncpy 32) = Inr k" "bind_r (arg 2 argv) (strncpy 8) = Inr i"
    "bind_r (arg 3 argv) (strncpy 64) = Inr m"
    "encrypt_bytes_debug (forro_ivsetup (forro_keysetup \<lparr>state = old\<rparr> k) i) m 64 = Inr (x, c, t)"
    by (auto simp: forro_args_main_def bind_r_Inr_iff Let_def)
  then have "forro_args_main old (Some b) argv = Inr (forro_args_output k i m t b c)" for b
    by (simp add: forro_args_main_def Let_def deref_def)
  then show ?thesis
    using assms forro_args_output_inject [of j j' k i m t c] by simp
qed

lemma strncpy_ok: "0 \<in> set mem \<Longrightarrow> \<exists>k. strncpy n mem = Inr k \<and> length k = n"
  by (auto simp: strncpy_def Let_def)

lemma encrypt_bytes_debug_64: "length m = 64 \<Longrightarrow>
  encrypt_bytes_debug x m 64 = Inr (encrypt_loop_debug x m 64)"
  by (simp add: encrypt_bytes_debug_def)

lemma forro_args_main_ok:
  assumes "length argv = 4" "\<forall>a \<in> set argv. 0 \<in> set a"
  shows "\<exists>out. forro_args_main old (Some j) argv = Inr out"
proof -
  have z: "0 \<in> set (argv ! i)" if "i < 4" for i using assms that by auto
  obtain k where k: "strncpy 32 (argv ! 1) = Inr k" using strncpy_ok [OF z [of 1]] by auto
  obtain i where i: "strncpy 8 (argv ! 2) = Inr i" using strncpy_ok [OF z [of 2]] by auto
  obtain m where m: "strncpy 64 (argv ! 3) = Inr m" "length m = 64"
    using strncpy_ok [OF z [of 3], of 64] by auto
  show ?thesis
    using assms(1) k i m
    by (simp add: forro_args_main_def arg_def Let_def deref_def encrypt_bytes_debug_64 split_beta)
qed

end
