(* ===== verification/Wire.thy ===== *)
theory Wire
  imports Attest
begin

text \<open>
  The packets. Every tool declares the same packed layouts: an Ethernet header with the protocol's
  Ethertype, \<open>p4dra_oper_h\<close>, and then one of the reply, verification or set-up headers. The
  structures are records here; their encoders and decoders provide the interface \<open>header\<close>, from which
  the round trips follow. \<open>put_field\<close> and \<open>hex_field\<close> are the two conversions every tool runs on a
  field of a header, with the heap they use.
\<close>

section \<open>Constants and structures\<close>

definition ETHERTYPE_CUSTOM :: nat where "ETHERTYPE_CUSTOM = 0x1234"
definition ID_DISPOSITIVO_LEN :: nat where "ID_DISPOSITIVO_LEN = 32"
definition CHAVE_LEN :: nat where "CHAVE_LEN = 64"
definition PROVA_LEN :: nat where "PROVA_LEN = 128"
definition NONCE_LEN :: nat where "NONCE_LEN = 16"
definition ID_RODADA_LEN :: nat where "ID_RODADA_LEN = 32"
definition ID_DISPOSITIVO_LEN_BYTES :: nat where "ID_DISPOSITIVO_LEN_BYTES = 16"
definition CHAVE_LEN_BYTES :: nat where "CHAVE_LEN_BYTES = 32"
definition PROVA_LEN_BYTES :: nat where "PROVA_LEN_BYTES = 64"
definition NONCE_LEN_BYTES :: nat where "NONCE_LEN_BYTES = 8"
definition ID_RODADA_LEN_BYTES :: nat where "ID_RODADA_LEN_BYTES = 16"
definition SNAP_LEN :: nat where "SNAP_LEN = 176"

lemmas lens = ETHERTYPE_CUSTOM_def ID_DISPOSITIVO_LEN_def CHAVE_LEN_def PROVA_LEN_def NONCE_LEN_def
  ID_RODADA_LEN_def ID_DISPOSITIVO_LEN_BYTES_def CHAVE_LEN_BYTES_def PROVA_LEN_BYTES_def
  NONCE_LEN_BYTES_def ID_RODADA_LEN_BYTES_def SNAP_LEN_def

record ether_header =
  ether_dhost :: "byte list"
  ether_shost :: "byte list"
  ether_type :: nat

record p4dra_oper_h =
  oper :: byte
  id_rodada :: "byte list"

record p4dra_reply_h =
  reply_id_dispositivo :: "byte list"
  reply_prova :: "byte list"

record p4dra_verificacao_h =
  verif_id_dispositivo :: "byte list"
  verif_verificacao :: "byte list"
  verif_prova :: "byte list"

record p4dra_setup_h =
  setup_chave :: "byte list"
  setup_id_dispositivo :: "byte list"

section \<open>Layout in memory\<close>

text \<open>\<open>ether_type\<close> is kept in host order; the packet has it in network order.\<close>

definition ether_bytes :: "ether_header \<Rightarrow> byte list" where
  "ether_bytes h = ether_dhost h @ ether_shost h @
     [of_nat (ether_type h div 256), of_nat (ether_type h mod 256)]"

definition read_ether :: "byte list \<Rightarrow> ether_header res" where
  "read_ether packet = bind_r (rd 14 packet) (\<lambda>b.
     Inr \<lparr>ether_dhost = take 6 b, ether_shost = take 6 (drop 6 b),
       ether_type = 256 * unat (b ! 12) + unat (b ! 13)\<rparr>)"

definition oper_bytes :: "p4dra_oper_h \<Rightarrow> byte list" where
  "oper_bytes h = oper h # id_rodada h"

definition read_oper :: "byte list \<Rightarrow> p4dra_oper_h res" where
  "read_oper b = bind_r (rd (1 + ID_RODADA_LEN_BYTES) b) (\<lambda>b.
     Inr \<lparr>oper = b ! 0, id_rodada = drop 1 b\<rparr>)"

definition reply_bytes :: "p4dra_reply_h \<Rightarrow> byte list" where
  "reply_bytes h = reply_id_dispositivo h @ reply_prova h"

definition read_reply :: "byte list \<Rightarrow> p4dra_reply_h res" where
  "read_reply b = bind_r (rd (ID_DISPOSITIVO_LEN_BYTES + PROVA_LEN_BYTES) b) (\<lambda>b.
     Inr \<lparr>reply_id_dispositivo = take ID_DISPOSITIVO_LEN_BYTES b,
       reply_prova = drop ID_DISPOSITIVO_LEN_BYTES b\<rparr>)"

definition verificacao_bytes :: "p4dra_verificacao_h \<Rightarrow> byte list" where
  "verificacao_bytes h = verif_id_dispositivo h @ verif_verificacao h @ verif_prova h"

definition read_verificacao :: "byte list \<Rightarrow> p4dra_verificacao_h res" where
  "read_verificacao b =
    bind_r (rd (ID_DISPOSITIVO_LEN_BYTES + PROVA_LEN_BYTES + PROVA_LEN_BYTES) b) (\<lambda>b.
     Inr \<lparr>verif_id_dispositivo = take ID_DISPOSITIVO_LEN_BYTES b,
       verif_verificacao = take PROVA_LEN_BYTES (drop ID_DISPOSITIVO_LEN_BYTES b),
       verif_prova = drop (ID_DISPOSITIVO_LEN_BYTES + PROVA_LEN_BYTES) b\<rparr>)"

definition setup_bytes :: "p4dra_setup_h \<Rightarrow> byte list" where
  "setup_bytes h = setup_chave h @ setup_id_dispositivo h"

definition read_setup :: "byte list \<Rightarrow> p4dra_setup_h res" where
  "read_setup b = bind_r (rd (CHAVE_LEN_BYTES + ID_DISPOSITIVO_LEN_BYTES) b) (\<lambda>b.
     Inr \<lparr>setup_chave = take CHAVE_LEN_BYTES b, setup_id_dispositivo = drop CHAVE_LEN_BYTES b\<rparr>)"

text \<open>The sizes of the arrays in the structures.\<close>

definition wf_ether :: "ether_header \<Rightarrow> bool" where
  "wf_ether h \<longleftrightarrow> length (ether_dhost h) = 6 \<and> length (ether_shost h) = 6 \<and> ether_type h < 65536"

definition wf_oper :: "p4dra_oper_h \<Rightarrow> bool" where
  "wf_oper h \<longleftrightarrow> length (id_rodada h) = 16"

definition wf_reply :: "p4dra_reply_h \<Rightarrow> bool" where
  "wf_reply h \<longleftrightarrow> length (reply_id_dispositivo h) = 16 \<and> length (reply_prova h) = 64"

definition wf_verificacao :: "p4dra_verificacao_h \<Rightarrow> bool" where
  "wf_verificacao h \<longleftrightarrow> length (verif_id_dispositivo h) = 16 \<and> length (verif_verificacao h) = 64 \<and>
     length (verif_prova h) = 64"

definition wf_setup :: "p4dra_setup_h \<Rightarrow> bool" where
  "wf_setup h \<longleftrightarrow> length (setup_chave h) = 32 \<and> length (setup_id_dispositivo h) = 16"

section \<open>The interface of a header\<close>

locale header =
  fixes enc :: "'h \<Rightarrow> byte list"
    and dec :: "byte list \<Rightarrow> 'h res"
    and ok :: "'h \<Rightarrow> bool"
    and n :: nat
  assumes length_enc: "ok h \<Longrightarrow> length (enc h) = n"
    and dec_enc: "ok h \<Longrightarrow> dec (enc h @ rest) = Inr h"
    and dec_long: "n \<le> length b \<Longrightarrow> \<exists>h. dec b = Inr h \<and> ok h \<and> enc h = take n b"
    and dec_short: "length b < n \<Longrightarrow> dec b = Inl ReadOverrun"
begin

lemma dec_exact: "ok h \<Longrightarrow> dec (enc h) = Inr h"
  using dec_enc [of h "[]"] by simp

lemma enc_inject: "ok h \<Longrightarrow> ok h' \<Longrightarrow> enc h = enc h' \<longleftrightarrow> h = h'"
  using dec_exact by (metis sum.inject(2))

lemma dec_at: "ok h \<Longrightarrow> length pre = k \<Longrightarrow> dec (drop k (pre @ enc h @ rest)) = Inr h"
  by (simp add: dec_enc)

lemma dec_Inr_iff: "dec b = Inr h \<longleftrightarrow> n \<le> length b \<and> ok h \<and> enc h = take n b"
proof
  assume d: "dec b = Inr h"
  then have "n \<le> length b" using dec_short [of b] by (cases "n \<le> length b") auto
  then show "n \<le> length b \<and> ok h \<and> enc h = take n b" using d dec_long [of b] by auto
next
  assume a: "n \<le> length b \<and> ok h \<and> enc h = take n b"
  then have "b = enc h @ drop n b" by simp
  then show "dec b = Inr h" using a dec_enc [of h "drop n b"] by simp
qed

end

interpretation ether: header ether_bytes read_ether wf_ether 14
proof
  fix h rest
  assume ok: "wf_ether h"
  show "length (ether_bytes h) = 14" using ok by (simp add: ether_bytes_def wf_ether_def)
  have u: "unat (of_nat (ether_type h div 256) :: byte) = ether_type h div 256"
    "unat (of_nat (ether_type h mod 256) :: byte) = ether_type h mod 256"
    using ok by (auto simp: wf_ether_def unat_of_nat)
  have "(ether_bytes h @ rest) = ether_dhost h @ ether_shost h @
      of_nat (ether_type h div 256) # of_nat (ether_type h mod 256) # rest"
    by (simp add: ether_bytes_def)
  then show "read_ether (ether_bytes h @ rest) = Inr h"
    using ok u by (simp add: read_ether_def rd_def wf_ether_def nth_append ether_bytes_def)
next
  fix b :: "byte list"
  assume l: "14 \<le> length b"
  let ?h = "\<lparr>ether_dhost = take 6 b, ether_shost = take 6 (drop 6 b),
    ether_type = 256 * unat (b ! 12) + unat (b ! 13)\<rparr>"
  have "read_ether b = Inr ?h" using l by (simp add: read_ether_def rd_def drop_take min_def)
  moreover have "wf_ether ?h"
  proof -
    have "256 * unat (b ! 12) + unat (b ! 13) < 65536"
      using unat_byte_less [of "b ! 12"] unat_byte_less [of "b ! 13"] by linarith
    then show ?thesis using l by (simp add: wf_ether_def)
  qed
  moreover have "ether_bytes ?h = take 14 b"
  proof -
    have "take 14 b = take 6 b @ take 8 (drop 6 b)" using take_add [of 6 8 b] by simp
    also have "take 8 (drop 6 b) = take 6 (drop 6 b) @ take 2 (drop 12 b)"
      using take_add [of 6 2 "drop 6 b"] by simp
    also have "take 2 (drop 12 b) = [b ! 12, b ! 13]"
      using l by (intro nth_equalityI) (auto simp: less_2_cases_iff)
    finally show ?thesis by (simp add: ether_bytes_def)
  qed
  ultimately show "\<exists>h. read_ether b = Inr h \<and> wf_ether h \<and> ether_bytes h = take 14 b" by blast
next
  fix b :: "byte list"
  assume "length b < 14"
  then show "read_ether b = Inl ReadOverrun" by (simp add: read_ether_def rd_def)
qed

interpretation oph: header oper_bytes read_oper wf_oper 17
proof
  fix b :: "byte list"
  assume l: "17 \<le> length b"
  then have "take 17 b = b ! 0 # drop 1 (take 17 b)" by (cases b) auto
  then show "\<exists>h. read_oper b = Inr h \<and> wf_oper h \<and> oper_bytes h = take 17 b"
    using l by (simp add: read_oper_def rd_def wf_oper_def oper_bytes_def lens)
qed (simp_all add: read_oper_def rd_def wf_oper_def oper_bytes_def lens)

interpretation rep: header reply_bytes read_reply wf_reply 80
proof
  fix b :: "byte list"
  assume "80 \<le> length b"
  then show "\<exists>h. read_reply b = Inr h \<and> wf_reply h \<and> reply_bytes h = take 80 b"
    using take_add [of 16 64 b]
    by (simp add: read_reply_def rd_def wf_reply_def reply_bytes_def lens drop_take)
qed (simp_all add: read_reply_def rd_def wf_reply_def reply_bytes_def lens)

interpretation ver: header verificacao_bytes read_verificacao wf_verificacao 144
proof
  fix b :: "byte list"
  assume "144 \<le> length b"
  then show "\<exists>h. read_verificacao b = Inr h \<and> wf_verificacao h \<and> verificacao_bytes h = take 144 b"
    using take_add [of 16 128 b] take_add [of 64 64 "drop 16 b"]
    by (simp add: read_verificacao_def rd_def wf_verificacao_def verificacao_bytes_def lens drop_take)
qed (simp_all add: read_verificacao_def rd_def wf_verificacao_def verificacao_bytes_def lens)

interpretation stp: header setup_bytes read_setup wf_setup 48
proof
  fix b :: "byte list"
  assume "48 \<le> length b"
  then show "\<exists>h. read_setup b = Inr h \<and> wf_setup h \<and> setup_bytes h = take 48 b"
    using take_add [of 32 16 b]
    by (simp add: read_setup_def rd_def wf_setup_def setup_bytes_def lens drop_take)
qed (simp_all add: read_setup_def rd_def wf_setup_def setup_bytes_def lens)

section \<open>Fields\<close>

text \<open>\<open>swapEndian\<close> and \<open>hexstring_to_byte_array\<close>: the text \<open>h\<close> of \<open>n\<close> characters into the bytes of a
  header.\<close>

definition put_field :: "byte list \<Rightarrow> nat \<Rightarrow> byte list res" where
  "put_field h n = bind_r (swapEndian h n) (\<lambda>h.
     hexstring_to_byte_array (replicate (n div 2) 0) h n)"

text \<open>\<open>byte_array_to_hexstring\<close> and \<open>swapEndian\<close>: \<open>n\<close> bytes of a header as text.\<close>

definition hex_field :: "heap \<Rightarrow> byte list \<Rightarrow> nat \<Rightarrow> byte list res" where
  "hex_field malloc b n = bind_r (byte_array_to_hexstring malloc b n) (\<lambda>p.
     bind_r (deref p) (\<lambda>h. swapEndian h (2 * n)))"

lemma put_field_ok [c_mem]:
  "length h = n \<Longrightarrow> n mod 8 = 0 \<Longrightarrow> put_field h n = Inr (wire_put h)"
  by (auto simp: put_field_def swapEndian_ok hexstring_to_byte_array_def rd_def wr_def width
      wire_put_def)

text \<open>A text with more memory behind it, as the line that a command printed.\<close>

lemma put_field_prefix [c_mem]:
  "length h = n \<Longrightarrow> n mod 8 = 0 \<Longrightarrow> put_field (h @ rest) n = Inr (wire_put h)"
  by (auto simp: put_field_def swapEndian_prefix hexstring_to_byte_array_def rd_def wr_def width
      wire_put_def)

lemma put_field_short: "length h < n \<Longrightarrow> put_field h n = Inl ReadOverrun"
  by (simp add: put_field_def swapEndian_def rd_def)

lemma hex_field_ok [c_mem]:
  assumes "roomy malloc" "length b = n" "n mod 4 = 0"
  shows "hex_field malloc b n = Inr (wire_get b)"
proof -
  have "2 * n mod 8 = 0" using assms(3) by presburger
  then show ?thesis
    using assms by (simp add: hex_field_def byte_array_to_hexstring_ok deref_def swapEndian_ok width
      wire_get_def)
qed

section \<open>Packets\<close>

definition create_custom_packet :: "byte list \<Rightarrow> byte list \<Rightarrow> byte list \<Rightarrow> byte list" where
  "create_custom_packet dest_mac src_mac hdr =
    ether_bytes \<lparr>ether_dhost = dest_mac, ether_shost = src_mac, ether_type = ETHERTYPE_CUSTOM\<rparr> @ hdr"

lemma length_create_custom_packet [width]:
  "length d = 6 \<Longrightarrow> length s = 6 \<Longrightarrow> length (create_custom_packet d s hdr) = 14 + length hdr"
  by (simp add: create_custom_packet_def ether_bytes_def)

lemma read_ether_packet [c_mem]:
  "length d = 6 \<Longrightarrow> length s = 6 \<Longrightarrow> read_ether (create_custom_packet d s hdr) =
    Inr \<lparr>ether_dhost = d, ether_shost = s, ether_type = ETHERTYPE_CUSTOM\<rparr>"
  unfolding create_custom_packet_def by (rule ether.dec_enc) (simp add: wf_ether_def lens)

lemma drop_ether_packet [c_mem]:
  "length d = 6 \<Longrightarrow> length s = 6 \<Longrightarrow> drop 14 (create_custom_packet d s hdr) = hdr"
  by (simp add: create_custom_packet_def ether_bytes_def)

section \<open>The process around a tool\<close>

text \<open>
  The operating system as the tools use it, on an unknown world: \<open>popen\<close> gives the standard output
  of a command whose output is read to its end (\<open>None\<close> for a null stream). \<open>popen_start\<close> is the same
  call where the caller neither reads the output nor waits: it says whether the command could be
  started, and what the command does to the world may come later. \<open>sendto\<close> says whether the packet left, \<open>malloc\<close> is the
  heap, and \<open>line_rest\<close> the bytes behind a line that \<open>getline\<close> stored.
\<close>

record 'w os =
  popen :: "byte list \<Rightarrow> 'w \<Rightarrow> byte list option \<times> 'w"
  popen_start :: "byte list \<Rightarrow> 'w \<Rightarrow> bool \<times> 'w"
  sendto :: "byte list \<Rightarrow> byte list \<Rightarrow> 'w \<Rightarrow> bool \<times> 'w"
  socket_ok :: "'w \<Rightarrow> bool"
  malloc :: heap
  line_rest :: "byte list"

text \<open>A process keeps the packets it sent, with the address given to \<open>sendto\<close>, and the commands it started.\<close>

record 'w proc =
  pw :: 'w
  sent :: "(byte list \<times> byte list) list"
  ran :: "byte list list"

datatype stop = Fault fault | Exit nat

definition fault_r :: "'a res \<Rightarrow> stop + 'a" where
  "fault_r r = (case r of Inl f \<Rightarrow> Inl (Fault f) | Inr x \<Rightarrow> Inr x)"

definition run_popen :: "'w os \<Rightarrow> byte list \<Rightarrow> 'w proc \<Rightarrow> stop + byte list \<times> 'w proc" where
  "run_popen os comando p = (case popen os comando (pw p) of
     (None, w) \<Rightarrow> Inl (Exit 1)
   | (Some out, w) \<Rightarrow> Inr (out, p\<lparr>pw := w, ran := ran p @ [comando]\<rparr>))"

definition run_start :: "'w os \<Rightarrow> byte list \<Rightarrow> 'w proc \<Rightarrow> stop + 'w proc" where
  "run_start os comando p = (case popen_start os comando (pw p) of
     (ok, w) \<Rightarrow> if ok then Inr (p\<lparr>pw := w, ran := ran p @ [comando]\<rparr>) else Inl (Exit 1))"

definition run_sendto :: "'w os \<Rightarrow> byte list \<Rightarrow> byte list \<Rightarrow> 'w proc \<Rightarrow> stop + 'w proc" where
  "run_sendto os addr packet p = (case sendto os addr packet (pw p) of
     (ok, w) \<Rightarrow> if ok then Inr (p\<lparr>pw := w, sent := sent p @ [(addr, packet)]\<rparr>) else Inl (Exit 1))"

text \<open>The buffer of \<open>getline\<close> on the output of a command: the first line with its line break and a
  NUL, or an unwritten buffer at end of file.\<close>

definition first_line :: "byte list \<Rightarrow> byte list" where
  "first_line out = takeWhile (\<lambda>c. c \<noteq> 10) out @ (if 10 \<in> set out then [10] else [])"

definition getline :: "'w os \<Rightarrow> byte list \<Rightarrow> byte list" where
  "getline os out = (if out = [] then line_rest os else first_line out @ 0 # line_rest os)"

lemma fault_r_simps [simp]: "fault_r (Inr x) = Inr x" "fault_r (Inl f) = Inl (Fault f)"
  by (simp_all add: fault_r_def)

lemma first_line_no_break: "10 \<notin> set out \<Longrightarrow> first_line out = out"
  by (auto simp: first_line_def intro: takeWhile_eq_all_conv [THEN iffD2])

lemma getline_text: "10 \<notin> set t \<Longrightarrow> t \<noteq> [] \<Longrightarrow> getline os t = t @ 0 # line_rest os"
  by (simp add: getline_def first_line_no_break)

text \<open>A run of the packets that a capture delivers: \<open>pcap_loop\<close> calls the handler on each in turn.\<close>

fun pcap_loop :: "(byte list \<Rightarrow> 's \<Rightarrow> stop + 's) \<Rightarrow> byte list list \<Rightarrow> 's \<Rightarrow> stop + 's" where
  "pcap_loop handler [] s = Inr s"
| "pcap_loop handler (packet # packets) s = bind_r (handler packet s) (pcap_loop handler packets)"

lemma pcap_loop_append:
  "pcap_loop h (ps @ qs) s = bind_r (pcap_loop h ps s) (pcap_loop h qs)"
proof (induction ps arbitrary: s)
  case (Cons p ps)
  then show ?case by (cases "h p s") simp_all
qed simp

lemma pcap_loop_invariant:
  assumes "pcap_loop h ps s = Inr s'" "I s" "\<And>p s s'. h p s = Inr s' \<Longrightarrow> I s \<Longrightarrow> I s'"
  shows "I s'"
  using assms(1,2) by (induction ps arbitrary: s) (auto simp: bind_r_Inr_iff assms(3))

section \<open>The capture library\<close>

text \<open>
  libpcap: whether each step of the set-up works, and the packets that the capture delivers for a
  snapshot length and a filter expression.
\<close>

record pcap =
  create_ok :: bool
  activate_ok :: bool
  compile_ok :: bool
  setfilter_ok :: bool
  captured :: "nat \<Rightarrow> byte list \<Rightarrow> byte list list"

definition filter_exp :: "byte list" where
  "filter_exp = bytes_of ''ether proto 0x1234''"

definition pcap_setup :: "pcap \<Rightarrow> bool" where
  "pcap_setup c \<longleftrightarrow> create_ok c \<and> activate_ok c \<and> compile_ok c \<and> setfilter_ok c"

text \<open>The two parameters in the round identifier: its first and its second sixteen characters.\<close>

definition param1_of :: "byte list \<Rightarrow> byte list" where
  "param1_of id_rodada_hex = map (\<lambda>i. id_rodada_hex ! i) [0..<NONCE_LEN]"

definition param2_of :: "byte list \<Rightarrow> byte list" where
  "param2_of id_rodada_hex = map (\<lambda>i. id_rodada_hex ! i) [NONCE_LEN..<ID_RODADA_LEN]"

lemma params_of_rodada:
  assumes "length h = 32"
  shows "param1_of h = take 16 h" "param2_of h = drop 16 h" "param1_of h @ param2_of h = h"
proof -
  show p: "param1_of h = take 16 h" "param2_of h = drop 16 h"
    using assms by (auto simp: param1_of_def param2_of_def lens simp del: upt_rec_numeral intro!: nth_equalityI)
  show "param1_of h @ param2_of h = h" unfolding p by (rule append_take_drop_id)
qed

end
