(* ===== verification/Prover.thy ===== *)
theory Prover
  imports Wire
begin

text \<open>
  The service on an attested host, \<open>optee_dra/dra_service/host/main.c\<close> (the file
  \<open>tools/src/le_p4dra_rede_optee.c\<close> has the same content). It waits for packets: a set-up packet
  gives the device its key and identifier, which go to the trusted application through the command
  \<open>optee_dra 1\<close>, which the service starts and does not wait for; a request makes it run \<open>optee_dra 3\<close> and send the proof that command prints.
  The global \<open>id_dispositivo_hex\<close> is a null pointer until the first set-up.
\<close>

section \<open>The handler\<close>

record 'w prover =
  pproc :: "'w proc"
  id_dispositivo_hex :: "byte list option"

definition envia_pacote_resposta :: "'w os \<Rightarrow> byte list \<Rightarrow> byte list \<Rightarrow> byte list \<Rightarrow> byte list option
    \<Rightarrow> byte list \<Rightarrow> 'w proc \<Rightarrow> stop + 'w proc" where
  "envia_pacote_resposta os dest_mac src_mac id_rodada_hex id_hex prova_hex p =
    bind_r (fault_r (bind_r (deref id_hex) (rd ID_DISPOSITIVO_LEN))) (\<lambda>id_dispositivo_hex_LE.
    bind_r (fault_r (put_field id_rodada_hex ID_RODADA_LEN)) (\<lambda>rodada.
    bind_r (fault_r (put_field id_dispositivo_hex_LE ID_DISPOSITIVO_LEN)) (\<lambda>id_dispositivo.
    bind_r (fault_r (put_field prova_hex PROVA_LEN)) (\<lambda>prova.
    if \<not> socket_ok os (pw p) then Inl (Exit 1)
    else
      let oper_hdr = \<lparr>oper = 2, id_rodada = rodada\<rparr>;
          reply_hdr = \<lparr>reply_id_dispositivo = id_dispositivo, reply_prova = prova\<rparr>;
          packet = create_custom_packet src_mac dest_mac (oper_bytes oper_hdr @ reply_bytes reply_hdr)
      in run_sendto os dest_mac packet p))))"

definition comando_prova :: "byte list \<Rightarrow> byte list \<Rightarrow> byte list res" where
  "comando_prova param1_hex param2_hex =
    bind_r (print_str NONCE_LEN param1_hex) (\<lambda>p1.
    bind_r (print_str NONCE_LEN param2_hex) (\<lambda>p2.
      Inr (snprintf 512 (bytes_of ''optee_dra 3 '' @ p1 @ bytes_of '' '' @ p2))))"

definition comando_setup :: "byte list \<Rightarrow> byte list \<Rightarrow> byte list res" where
  "comando_setup chave_hex id_hex =
    bind_r (print_str CHAVE_LEN chave_hex) (\<lambda>c.
    bind_r (print_str ID_DISPOSITIVO_LEN id_hex) (\<lambda>d.
      Inr (snprintf 512 (bytes_of ''optee_dra 1 '' @ c @ bytes_of '' '' @ d))))"

definition handle_pedido :: "'w os \<Rightarrow> ether_header \<Rightarrow> byte list \<Rightarrow> 'w prover \<Rightarrow> stop + 'w prover" where
  "handle_pedido os eth id_rodada_hex s =
    bind_r (fault_r (comando_prova (param1_of id_rodada_hex) (param2_of id_rodada_hex))) (\<lambda>comando.
    bind_r (run_popen os comando (pproc s)) (\<lambda>(out, p).
    let prova_hex = getline os out in
    bind_r (envia_pacote_resposta os (ether_dhost eth) (ether_shost eth) id_rodada_hex
      (id_dispositivo_hex s) prova_hex p) (\<lambda>p.
      Inr (s\<lparr>pproc := p\<rparr>))))"

definition handle_setup :: "'w os \<Rightarrow> byte list \<Rightarrow> 'w prover \<Rightarrow> stop + 'w prover" where
  "handle_setup os body s =
    bind_r (fault_r (read_setup body)) (\<lambda>setup_hdr.
    bind_r (fault_r (hex_field (malloc os) (setup_chave setup_hdr) CHAVE_LEN_BYTES)) (\<lambda>chave_hex.
    bind_r (fault_r (hex_field (malloc os) (setup_id_dispositivo setup_hdr) ID_DISPOSITIVO_LEN_BYTES))
      (\<lambda>id_hex.
    bind_r (fault_r (comando_setup chave_hex id_hex)) (\<lambda>comando.
    bind_r (run_start os comando (pproc s)) (\<lambda>p.
      Inr (s\<lparr>pproc := p, id_dispositivo_hex := Some id_hex\<rparr>))))))"

definition packet_handler :: "'w os \<Rightarrow> byte list \<Rightarrow> 'w prover \<Rightarrow> stop + 'w prover" where
  "packet_handler os packet s =
    bind_r (fault_r (read_ether packet)) (\<lambda>eth_header.
    if ether_type eth_header = ETHERTYPE_CUSTOM then
      bind_r (fault_r (read_oper (drop 14 packet))) (\<lambda>oper_hdr.
      bind_r (fault_r (hex_field (malloc os) (id_rodada oper_hdr) ID_RODADA_LEN_BYTES)) (\<lambda>id_rodada_hex.
      if oper oper_hdr = 1 then handle_pedido os eth_header id_rodada_hex s
      else if oper oper_hdr = 5 then handle_setup os (drop 17 (drop 14 packet)) s
      else Inr s))
    else Inr s)"

text \<open>\<open>main\<close>: the exit code and the state when the capture ends, for the process \<open>p\<close> at the start.\<close>

definition prover_main :: "'w os \<Rightarrow> pcap \<Rightarrow> byte list list \<Rightarrow> 'w proc \<Rightarrow> stop + nat \<times> 'w prover" where
  "prover_main os cap argv p =
    (let s = \<lparr>pproc = p, id_dispositivo_hex = None\<rparr> in
     if length argv < 2 then Inl (Exit 1)
     else if \<not> pcap_setup cap then Inr (2, s)
     else bind_r (pcap_loop (packet_handler os) (captured cap SNAP_LEN filter_exp) s) (\<lambda>s. Inr (0, s)))"

text \<open>The copy of the service in \<open>tools/src/le_p4dra_rede_optee.c\<close> has the same content.\<close>

definition optee_envia_pacote_resposta :: "'w os \<Rightarrow> byte list \<Rightarrow> byte list \<Rightarrow> byte list \<Rightarrow> byte list option
    \<Rightarrow> byte list \<Rightarrow> 'w proc \<Rightarrow> stop + 'w proc" where
  "optee_envia_pacote_resposta = envia_pacote_resposta"

definition optee_packet_handler :: "'w os \<Rightarrow> byte list \<Rightarrow> 'w prover \<Rightarrow> stop + 'w prover" where
  "optee_packet_handler = packet_handler"

definition optee_main :: "'w os \<Rightarrow> pcap \<Rightarrow> byte list list \<Rightarrow> 'w proc \<Rightarrow> stop + nat \<times> 'w prover" where
  "optee_main = prover_main"

section \<open>Packets of the protocol\<close>

text \<open>The packets the other parties build: a request of the controller and a set-up packet.\<close>

definition request_packet :: "byte list \<Rightarrow> byte list \<Rightarrow> byte list \<Rightarrow> byte list" where
  "request_packet dest src rodada = create_custom_packet dest src (oper_bytes \<lparr>oper = 1, id_rodada = rodada\<rparr>)"

definition setup_packet :: "byte list \<Rightarrow> byte list \<Rightarrow> byte list \<Rightarrow> byte list \<Rightarrow> byte list \<Rightarrow> byte list" where
  "setup_packet dest src rodada chave dispositivo = create_custom_packet dest src
    (oper_bytes \<lparr>oper = 5, id_rodada = rodada\<rparr> @
     setup_bytes \<lparr>setup_chave = chave, setup_id_dispositivo = dispositivo\<rparr>)"

definition reply_packet :: "byte list \<Rightarrow> byte list \<Rightarrow> byte list \<Rightarrow> byte list \<Rightarrow> byte list \<Rightarrow> byte list" where
  "reply_packet dest src rodada dispositivo prova = create_custom_packet dest src
    (oper_bytes \<lparr>oper = 2, id_rodada = rodada\<rparr> @
     reply_bytes \<lparr>reply_id_dispositivo = dispositivo, reply_prova = prova\<rparr>)"

text \<open>What the handler has decoded when it branches on the operation.\<close>

lemma packet_handler_decode:
  assumes "length d = 6" "length s = 6" "length r = 16" "roomy (malloc os)"
  shows "packet_handler os (create_custom_packet d s (oper_bytes \<lparr>oper = op, id_rodada = r\<rparr> @ body)) st =
    (if op = 1 then handle_pedido os \<lparr>ether_dhost = d, ether_shost = s, ether_type = ETHERTYPE_CUSTOM\<rparr>
       (wire_get r) st
     else if op = 5 then handle_setup os body st else Inr st)"
proof -
  have o: "read_oper (oper_bytes \<lparr>oper = op, id_rodada = r\<rparr> @ body) = Inr \<lparr>oper = op, id_rodada = r\<rparr>"
    by (rule oph.dec_enc) (simp add: wf_oper_def assms(3))
  have dr: "drop 17 (oper_bytes \<lparr>oper = op, id_rodada = r\<rparr> @ body) = body" for op
    using assms(3) by (simp add: oper_bytes_def)
  have h: "hex_field (malloc os) r ID_RODADA_LEN_BYTES = Inr (wire_get r)"
    using assms(3,4) by (intro hex_field_ok) (simp_all add: lens)
  show ?thesis
    unfolding packet_handler_def read_ether_packet [OF assms(1,2)] drop_ether_packet [OF assms(1,2)]
    using o h by (simp add: dr del: drop_drop drop_append)
qed

section \<open>The branches of the handler\<close>

definition cmd_setup :: "byte list \<Rightarrow> byte list \<Rightarrow> byte list" where
  "cmd_setup chave dispositivo = bytes_of ''optee_dra 1 '' @ chave @ bytes_of '' '' @ dispositivo"

definition cmd_prova :: "byte list \<Rightarrow> byte list" where
  "cmd_prova rodada = bytes_of ''optee_dra 3 '' @ take 16 rodada @ bytes_of '' '' @ drop 16 rodada"

lemma length_bytes_of [width]: "length (bytes_of s) = length s"
  by (simp add: bytes_of_def)

lemma length_wire_get [width]: "length (wire_get b) = 2 * length b"
  by (rule wire.length_get)

lemma length_wire_put [width]: "length h mod 8 = 0 \<Longrightarrow> length (wire_put h) = length h div 2"
  by (rule wire.length_put)

lemma wire_get_no_nul [c_mem]: "0 \<notin> set (wire_get b)"
  using wire.ok_get [of b] by (rule lower_hex_nonzero)

lemma comando_setup_ok:
  assumes "length c = 64" "length d = 32" "0 \<notin> set c" "0 \<notin> set d"
  shows "comando_setup c d = Inr (cmd_setup c d)"
  using assms
  by (simp add: comando_setup_def print_str_exact lens snprintf_def cmd_setup_def width)

lemma comando_prova_ok:
  assumes "length h = 32" "0 \<notin> set h"
  shows "comando_prova (param1_of h) (param2_of h) = Inr (cmd_prova h)"
proof -
  have "0 \<notin> set (take 16 h)" "0 \<notin> set (drop 16 h)"
    using assms(2) by (auto dest: in_set_takeD in_set_dropD)
  then show ?thesis
    using assms(1)
    by (simp add: comando_prova_def params_of_rodada print_str_exact lens snprintf_def cmd_prova_def width)
qed

lemma handle_setup_ok:
  assumes "roomy (malloc os)" "length chave = 32" "length dispositivo = 16"
    and "popen_start os (cmd_setup (wire_get chave) (wire_get dispositivo)) (pw (pproc st)) = (True, w)"
  shows "handle_setup os (setup_bytes \<lparr>setup_chave = chave, setup_id_dispositivo = dispositivo\<rparr>) st =
    Inr (st\<lparr>pproc := (pproc st)\<lparr>pw := w, ran := ran (pproc st) @
      [cmd_setup (wire_get chave) (wire_get dispositivo)]\<rparr>,
      id_dispositivo_hex := Some (wire_get dispositivo)\<rparr>)"
proof -
  have "read_setup (setup_bytes \<lparr>setup_chave = chave, setup_id_dispositivo = dispositivo\<rparr>) =
      Inr \<lparr>setup_chave = chave, setup_id_dispositivo = dispositivo\<rparr>"
    by (rule stp.dec_exact) (simp add: wf_setup_def assms)
  moreover have "hex_field (malloc os) chave CHAVE_LEN_BYTES = Inr (wire_get chave)"
    "hex_field (malloc os) dispositivo ID_DISPOSITIVO_LEN_BYTES = Inr (wire_get dispositivo)"
    using assms by (simp_all add: hex_field_ok lens)
  moreover have "comando_setup (wire_get chave) (wire_get dispositivo) =
      Inr (cmd_setup (wire_get chave) (wire_get dispositivo))"
    using assms(2,3) by (intro comando_setup_ok) (simp_all add: width c_mem)
  ultimately show ?thesis
    using assms(4) by (simp add: handle_setup_def run_start_def)
qed

lemma resposta_ok:
  assumes "length rodada = 16" "length idh = 32" "length prova = 128"
    and "socket_ok os (pw p)" "sendto os d (reply_packet s d rodada (wire_put idh) (wire_put prova)) (pw p)
      = (True, w)"
  shows "envia_pacote_resposta os d s (wire_get rodada) (Some idh) (prova @ rest) p =
    Inr (p\<lparr>pw := w, sent := sent p @ [(d, reply_packet s d rodada (wire_put idh) (wire_put prova))]\<rparr>)"
proof -
  have "put_field (wire_get rodada) ID_RODADA_LEN = Inr rodada"
    using assms(1) wire.put_get [of rodada] by (simp add: put_field_ok lens width)
  moreover have "put_field idh ID_DISPOSITIVO_LEN = Inr (wire_put idh)"
    "put_field (prova @ rest) PROVA_LEN = Inr (wire_put prova)"
    using assms(2,3) by (simp_all add: put_field_ok put_field_prefix lens)
  moreover have "rd ID_DISPOSITIVO_LEN idh = Inr idh"
    using assms(2) by (simp add: rd_def lens)
  ultimately show ?thesis
    using assms(4,5)
    by (simp add: envia_pacote_resposta_def deref_def Let_def run_sendto_def reply_packet_def)
qed

section \<open>Properties of the service\<close>

lemma setup_step:
  assumes "roomy (malloc os)" "length d = 6" "length s = 6" "length r = 16"
    and "list_all lower_hex chave" "list_all lower_hex dispositivo"
    and "length chave = 64" "length dispositivo = 32"
    and "popen_start os (cmd_setup chave dispositivo) (pw (pproc st)) = (True, w)"
  shows "packet_handler os (setup_packet d s r (wire_put chave) (wire_put dispositivo)) st =
    Inr (st\<lparr>pproc := (pproc st)\<lparr>pw := w, ran := ran (pproc st) @ [cmd_setup chave dispositivo]\<rparr>,
      id_dispositivo_hex := Some dispositivo\<rparr>)"
proof -
  have g: "wire_get (wire_put chave) = chave" "wire_get (wire_put dispositivo) = dispositivo"
    using assms(5-8) by (simp_all add: wire.get_put)
  have "length (wire_put chave) = 32" "length (wire_put dispositivo) = 16"
    using assms(7,8) by (simp_all add: width)
  then show ?thesis
    unfolding setup_packet_def
    using packet_handler_decode [OF assms(2,3,4), of os 5] assms(1,9)
      handle_setup_ok [of os "wire_put chave" "wire_put dispositivo" st w]
    by (simp add: g)
qed

text \<open>A set-up packet starts \<open>optee_dra 1\<close> with the key and the identifier as the sender held them
  (both byte-order conversions undone) and makes that identifier the one of all later replies.\<close>

lemma prover_setup:
  assumes "roomy (malloc os)" "length d = 6" "length s = 6" "length r = 16"
    and "list_all lower_hex chave" "list_all lower_hex dispositivo"
    and "length chave = 64" "length dispositivo = 32"
    and "popen_start os (cmd_setup chave dispositivo) (pw (pproc st)) = (True, w)"
  shows "packet_handler os (setup_packet d s r (wire_put chave) (wire_put dispositivo)) st =
    Inr (st\<lparr>pproc := (pproc st)\<lparr>pw := w, ran := ran (pproc st) @ [cmd_setup chave dispositivo]\<rparr>,
      id_dispositivo_hex := Some dispositivo\<rparr>)"
  using assms by (rule setup_step)

lemma request_step:
  assumes "roomy (malloc os)" "length d = 6" "length s = 6" "length r = 16"
    and "id_dispositivo_hex st = Some idh" "length idh = 32"
    and "popen os (cmd_prova (wire_get r)) (pw (pproc st)) = (Some prova, w)"
    and "length prova = 128" "10 \<notin> set prova" "socket_ok os w"
    and "sendto os d (reply_packet s d r (wire_put idh) (wire_put prova)) w = (True, w')"
  shows "packet_handler os (request_packet d s r) st = Inr (st\<lparr>pproc := (pproc st)\<lparr>pw := w',
    sent := sent (pproc st) @ [(d, reply_packet s d r (wire_put idh) (wire_put prova))],
    ran := ran (pproc st) @ [cmd_prova (wire_get r)]\<rparr>\<rparr>)"
proof -
  have "prova \<noteq> []" using assms(8) by auto
  then have line: "getline os prova = prova @ 0 # line_rest os"
    using assms(9) by (simp add: getline_text)
  have "comando_prova (param1_of (wire_get r)) (param2_of (wire_get r)) = Inr (cmd_prova (wire_get r))"
    using assms(4) by (intro comando_prova_ok) (simp_all add: width c_mem)
  then show ?thesis
    unfolding request_packet_def
    using packet_handler_decode [OF assms(2,3,4,1), of 1 "[]" st] assms(5,7)
      resposta_ok [OF assms(4,6,8), of os "(pproc st)\<lparr>pw := w, ran := ran (pproc st) @ [cmd_prova (wire_get r)]\<rparr>"
        d s w' "0 # line_rest os"] assms(10,11)
    by (simp add: handle_pedido_def run_popen_def line)
qed

text \<open>C12: a request runs \<open>optee_dra 3\<close> with the two halves of the round identifier and answers with
  one packet: to the sender of the request, with the same round identifier, the identifier of the
  last set-up, and the proof that the command printed.\<close>

theorem prover_reply:
  assumes "roomy (malloc os)" "length d = 6" "length s = 6" "length r = 16"
    and "id_dispositivo_hex st = Some idh" "length idh = 32"
    and "popen os (cmd_prova (wire_get r)) (pw (pproc st)) = (Some prova, w)"
    and "length prova = 128" "10 \<notin> set prova" "socket_ok os w"
    and "sendto os d (reply_packet s d r (wire_put idh) (wire_put prova)) w = (True, w')"
  shows "packet_handler os (request_packet d s r) st = Inr (st\<lparr>pproc := (pproc st)\<lparr>pw := w',
    sent := sent (pproc st) @ [(d, reply_packet s d r (wire_put idh) (wire_put prova))],
    ran := ran (pproc st) @ [cmd_prova (wire_get r)]\<rparr>\<rparr>)"
  using assms by (rule request_step)

text \<open>C24: a request that arrives before any set-up stops the service: the identifier is still a null
  pointer when the reply is built, after the trusted application was asked for a proof.\<close>

theorem prover_request_before_setup:
  assumes "roomy (malloc os)" "length d = 6" "length s = 6" "length r = 16"
    and "id_dispositivo_hex st = None"
    and "popen os (cmd_prova (wire_get r)) (pw (pproc st)) = (Some out, w)"
  shows "packet_handler os (request_packet d s r) st = Inl (Fault NullDeref)"
proof -
  have "comando_prova (param1_of (wire_get r)) (param2_of (wire_get r)) = Inr (cmd_prova (wire_get r))"
    using assms(4) by (intro comando_prova_ok) (simp_all add: width c_mem)
  then show ?thesis
    unfolding request_packet_def
    using packet_handler_decode [OF assms(2,3,4,1), of 1 "[]" st] assms(5,6)
    by (simp add: handle_pedido_def run_popen_def envia_pacote_resposta_def deref_def Let_def)
qed

section \<open>What every run keeps\<close>

lemma fault_r_Inr [simp]: "fault_r r = Inr x \<longleftrightarrow> r = Inr x"
  by (cases r) auto

lemma hex_field_Inr:
  assumes "hex_field m b n = Inr h" "n mod 4 = 0"
  shows "n \<le> length b" "h = wire_get (take n b)" "length h = 2 * n" "list_all lower_hex h"
proof -
  from assms(1) obtain t where t: "byte_array_to_hexstring m b n = Inr (Some t)" "swapEndian t (2 * n) = Inr h"
    by (auto simp: hex_field_def bind_r_Inr_iff deref_def split: option.splits)
  then have n: "n \<le> length b" and "t = hex_text (take n b)"
    by (auto simp: byte_array_to_hexstring_def bind_r_Inr_iff rd_def hex_text_def split: option.splits if_splits)
  moreover have "2 * n mod 8 = 0" using assms(2) by presburger
  ultimately show n': "n \<le> length b" and h: "h = wire_get (take n b)"
    using t by (auto simp: swapEndian_ok width wire_get_def)
  show "length h = 2 * n" using h n' by (simp add: width)
  show "list_all lower_hex h" unfolding h by (rule wire.ok_get)
qed

lemma put_field_length: "put_field h n = Inr b \<Longrightarrow> length b = n div 2"
  by (auto simp: put_field_def bind_r_Inr_iff hexstring_to_byte_array_def dest: wr_length)

text \<open>The identifier is a text of 32 lower-case digits once it is set; every packet that was sent is a
  reply of 111 bytes; and there is at most one packet for each command.\<close>

definition is_reply :: "byte list \<Rightarrow> bool" where
  "is_reply packet \<longleftrightarrow> (\<exists>d c r i p. length d = 6 \<and> length c = 6 \<and> length r = 16 \<and> length i = 16 \<and>
     length p = 64 \<and> packet = reply_packet d c r i p)"

definition prover_inv :: "'w prover \<Rightarrow> bool" where
  "prover_inv s \<longleftrightarrow>
    (\<forall>h. id_dispositivo_hex s = Some h \<longrightarrow> length h = 32 \<and> list_all lower_hex h) \<and>
    (\<forall>(addr, packet) \<in> set (sent (pproc s)). is_reply packet) \<and>
    length (sent (pproc s)) \<le> length (ran (pproc s))"

lemma run_popen_inv: "run_popen os c p = Inr (out, p') \<Longrightarrow> sent p' = sent p \<and> length (ran p') = Suc (length (ran p))"
  by (auto simp: run_popen_def split: prod.splits option.splits)

lemma run_start_inv: "run_start os c p = Inr p' \<Longrightarrow> sent p' = sent p \<and> length (ran p') = Suc (length (ran p))"
  by (auto simp: run_start_def split: prod.splits if_splits)

lemma handle_pedido_inv:
  assumes "handle_pedido os eth h s = Inr s'" "prover_inv s" "wf_ether eth"
  shows "prover_inv s'"
proof -
  from assms(1) obtain c out p p' where
    p: "run_popen os c (pproc s) = Inr (out, p)" and
    e: "envia_pacote_resposta os (ether_dhost eth) (ether_shost eth) h (id_dispositivo_hex s)
      (getline os out) p = Inr p'" and s': "s' = s\<lparr>pproc := p'\<rparr>"
    by (auto simp: handle_pedido_def bind_r_Inr_iff Let_def)
  from e obtain i r d pv where
    l: "put_field h ID_RODADA_LEN = Inr r" "put_field i ID_DISPOSITIVO_LEN = Inr d"
      "put_field (getline os out) PROVA_LEN = Inr pv" and
    snd: "run_sendto os (ether_dhost eth)
      (reply_packet (ether_shost eth) (ether_dhost eth) r d pv) p = Inr p'"
    by (auto simp: envia_pacote_resposta_def bind_r_Inr_iff Let_def reply_packet_def split: if_splits)
  from snd have "sent p' = sent p @ [(ether_dhost eth, reply_packet (ether_shost eth) (ether_dhost eth) r d pv)]"
    "ran p' = ran p"
    by (auto simp: run_sendto_def split: prod.splits if_splits)
  moreover have "length r = 16" "length d = 16" "length pv = 64"
    using l [THEN put_field_length] by (simp_all add: lens)
  then have "is_reply (reply_packet (ether_shost eth) (ether_dhost eth) r d pv)"
    using assms(3) unfolding is_reply_def wf_ether_def by blast
  ultimately show ?thesis
    using run_popen_inv [OF p] assms(2) s' by (simp add: prover_inv_def)
qed

lemma handle_setup_inv:
  assumes "handle_setup os body s = Inr s'" "prover_inv s"
  shows "prover_inv s'"
proof -
  from assms(1) obtain h i c p where i: "hex_field (malloc os) h ID_DISPOSITIVO_LEN_BYTES = Inr i"
    and p: "run_start os c (pproc s) = Inr p"
    and s': "s' = s\<lparr>pproc := p, id_dispositivo_hex := Some i\<rparr>"
    by (auto simp: handle_setup_def bind_r_Inr_iff)
  have "length i = 32" "list_all lower_hex i"
    using hex_field_Inr [OF i] by (simp_all add: lens)
  then show ?thesis
    using run_start_inv [OF p] assms(2) s' by (auto simp: prover_inv_def)
qed

lemma packet_handler_inv: "packet_handler os packet s = Inr s' \<Longrightarrow> prover_inv s \<Longrightarrow> prover_inv s'"
  by (auto simp: packet_handler_def bind_r_Inr_iff ether.dec_Inr_iff split: if_splits
      dest: handle_pedido_inv handle_setup_inv)

text \<open>On every run of the service, whatever packets arrive and whatever the commands print, every
  packet it sent is a well-formed reply, it sent no more packets than it started commands, and the
  identifier it holds is a text of 32 lower-case hexadecimal digits.\<close>

lemma prover_run_invariant:
  assumes "sent p = []" "prover_main os cap argv p = Inr (code, s)"
  shows "prover_inv s"
proof -
  have start: "prover_inv \<lparr>pproc = p, id_dispositivo_hex = None\<rparr>"
    using assms(1) by (simp add: prover_inv_def)
  show ?thesis
    using assms(2) start
    by (auto simp: prover_main_def Let_def bind_r_Inr_iff split: if_splits
        intro: pcap_loop_invariant [where I = prover_inv, OF _ start packet_handler_inv])
qed

section \<open>Concrete runs\<close>

definition os_example :: "byte list \<Rightarrow> unit os" where
  "os_example out = \<lparr>popen = (\<lambda>_ w. (Some out, w)), popen_start = (\<lambda>_ w. (True, w)), sendto = (\<lambda>_ _ w. (True, w)),
    socket_ok = (\<lambda>_. True), malloc = (\<lambda>n. Some (n + 1)), line_rest = []\<rparr>"

definition proc_example :: "unit proc" where
  "proc_example = \<lparr>pw = (), sent = [], ran = []\<rparr>"

lemma roomy_example: "roomy (malloc (os_example out))"
  by (simp add: roomy_def os_example_def)

theorem prover_reply_witness:
  "packet_handler (os_example (replicate 128 51)) (request_packet (replicate 6 1) (replicate 6 2) (replicate 16 7))
     \<lparr>pproc = proc_example, id_dispositivo_hex = Some (replicate 32 48)\<rparr>
   = Inr \<lparr>pproc = \<lparr>pw = (), sent = [(replicate 6 1, reply_packet (replicate 6 2) (replicate 6 1) (replicate 16 7)
       (wire_put (replicate 32 48)) (wire_put (replicate 128 51)))],
       ran = [cmd_prova (wire_get (replicate 16 7))]\<rparr>, id_dispositivo_hex = Some (replicate 32 48)\<rparr>"
  by (subst prover_reply [OF roomy_example, where idh = "replicate 32 48" and prova = "replicate 128 51"
        and w = "()" and w' = "()"])
    (simp_all add: os_example_def proc_example_def)

theorem prover_request_before_setup_witness:
  "packet_handler (os_example []) (request_packet (replicate 6 1) (replicate 6 2) (replicate 16 7))
     \<lparr>pproc = proc_example, id_dispositivo_hex = None\<rparr> = Inl (Fault NullDeref)"
  by (rule prover_request_before_setup [OF roomy_example, where out = "[]" and w = "()"])
    (simp_all add: os_example_def)

end
