(* ===== verification/Database.thy ===== *)
theory Database
  imports Wire
begin

text \<open>
  The table of devices: the file with one line \<open>id:chave:prova:\<close> per device, its loading into the
  array \<open>dados\<close>, and the three ways to search it, as in \<open>tools/src/verifica_p4dra_rede.c\<close> (the other
  tools carry copies; \<open>tools/src/le_provas_rede.c\<close> has its own direct access). The array has
  \<open>ID_MAX\<close> elements, a number that differs between the tools and is a parameter here.
\<close>

section \<open>Lines and fields\<close>

record id_chave_prova_t =
  id_dispositivo :: "byte list"
  chave :: "byte list"
  prova :: "byte list"

definition wf_entry :: "id_chave_prova_t \<Rightarrow> bool" where
  "wf_entry e \<longleftrightarrow> length (id_dispositivo e) = ID_DISPOSITIVO_LEN \<and> length (chave e) = CHAVE_LEN \<and>
     length (prova e) = PROVA_LEN"

definition zero_entry :: id_chave_prova_t where
  "zero_entry = \<lparr>id_dispositivo = replicate ID_DISPOSITIVO_LEN 0, chave = replicate CHAVE_LEN 0,
     prova = replicate PROVA_LEN 0\<rparr>"

text \<open>The lines that \<open>getline\<close> returns one after the other, each with its line break.\<close>

fun file_lines :: "byte list \<Rightarrow> byte list list" where
  "file_lines [] = []"
| "file_lines (c # cs) =
    (if c = 10 then [10] # file_lines cs
     else (case file_lines cs of [] \<Rightarrow> [[c]] | l # ls \<Rightarrow> (c # l) # ls))"

text \<open>\<open>%nc\<close>: up to \<open>n\<close> characters of the string into \<open>dest\<close>; at the end of the string it fails.\<close>

definition scan_chars :: "nat \<Rightarrow> byte list \<Rightarrow> byte list \<Rightarrow> (byte list \<times> byte list) option" where
  "scan_chars n dest s =
    (if s = [] then None else Some (take n s @ drop (length (take n s)) dest, drop n s))"

definition scan_colon :: "byte list \<Rightarrow> byte list option" where
  "scan_colon s = (case s of [] \<Rightarrow> None | c # r \<Rightarrow> if c = 58 then Some r else None)"

text \<open>\<open>sscanf(linha, "%32c:%64c:%128c:", ...)\<close>: the number of fields that were stored (0 also for the
  end of the string), and the fields.\<close>

definition sscanf_linha :: "byte list \<Rightarrow> id_chave_prova_t \<Rightarrow> nat \<times> id_chave_prova_t" where
  "sscanf_linha linha e =
    (case scan_chars ID_DISPOSITIVO_LEN (id_dispositivo e) (cstr (linha @ [0])) of
       None \<Rightarrow> (0, e)
     | Some (i, s) \<Rightarrow> let e = e\<lparr>id_dispositivo := i\<rparr> in
         (case scan_colon s of None \<Rightarrow> (1, e) | Some s \<Rightarrow>
         (case scan_chars CHAVE_LEN (chave e) s of None \<Rightarrow> (1, e) | Some (c, s) \<Rightarrow>
         let e = e\<lparr>chave := c\<rparr> in
         (case scan_colon s of None \<Rightarrow> (2, e) | Some s \<Rightarrow>
         (case scan_chars PROVA_LEN (prova e) s of None \<Rightarrow> (2, e) | Some (p, s) \<Rightarrow>
           (3, e\<lparr>prova := p\<rparr>))))))"

section \<open>Loading\<close>

text \<open>
  The loop of \<open>carregarArquivoMemoria\<close>: there is no test against \<open>ID_MAX\<close>, so a line that stores
  anything past the array is a write out of bounds.
\<close>

fun carregar :: "byte list list \<Rightarrow> nat \<Rightarrow> id_chave_prova_t list \<Rightarrow> id_chave_prova_t list res" where
  "carregar [] ident dados = Inr dados"
| "carregar (linha # linhas) ident dados =
    (if ident < length dados
     then carregar linhas (ident + 1) (dados[ident := snd (sscanf_linha linha (dados ! ident))])
     else if fst (sscanf_linha linha zero_entry) = 0 then carregar linhas (ident + 1) dados
     else Inl WriteOverrun)"

text \<open>\<open>None\<close> is a file that cannot be opened: a message and the value -1, which no caller looks at.\<close>

definition carregarArquivoMemoria ::
    "byte list option \<Rightarrow> id_chave_prova_t list \<Rightarrow> id_chave_prova_t list res" where
  "carregarArquivoMemoria arquivo dados =
    (case arquivo of None \<Rightarrow> Inr dados | Some conteudo \<Rightarrow> carregar (file_lines conteudo) 0 dados)"

definition dados_inicial :: "nat \<Rightarrow> id_chave_prova_t list" where
  "dados_inicial id_max = replicate id_max zero_entry"

section \<open>Searching\<close>

fun buscarPorIdMemoria :: "id_chave_prova_t list \<Rightarrow> byte list \<Rightarrow> (byte list \<times> byte list) option" where
  "buscarPorIdMemoria [] id_procurado = None"
| "buscarPorIdMemoria (e # dados) id_procurado =
    (if id_dispositivo e = take ID_DISPOSITIVO_LEN id_procurado then Some (chave e, prova e)
     else buscarPorIdMemoria dados id_procurado)"

text \<open>The direct access of the verifier, which reduces the index modulo 20000, and the one of
  \<open>le_provas_rede\<close>, which does not.\<close>

definition buscarPorIdDireto :: "id_chave_prova_t list \<Rightarrow> u32 \<Rightarrow> byte list \<times> byte list" where
  "buscarPorIdDireto dados ident =
    (chave (dados ! (unat ident mod 20000)), prova (dados ! (unat ident mod 20000)))"

definition buscarPorIdDireto_rede :: "id_chave_prova_t list \<Rightarrow> u32 \<Rightarrow> (byte list \<times> byte list) res" where
  "buscarPorIdDireto_rede dados ident =
    (if unat ident < length dados then Inr (chave (dados ! unat ident), prova (dados ! unat ident))
     else Inl ReadOverrun)"

text \<open>
  The search in the file: only lines with all three fields count. \<open>old\<close> is what the three arrays of
  the loop body hold before the line is scanned; a last field that is too short leaves a rest of it.
\<close>

fun buscar_linhas :: "id_chave_prova_t \<Rightarrow> byte list list \<Rightarrow> byte list \<Rightarrow> (byte list \<times> byte list) option" where
  "buscar_linhas old [] id_procurado = None"
| "buscar_linhas old (linha # linhas) id_procurado =
    (case sscanf_linha linha old of (n, e) \<Rightarrow>
      if n = 3 \<and> id_dispositivo e = take ID_DISPOSITIVO_LEN id_procurado then Some (chave e, prova e)
      else buscar_linhas old linhas id_procurado)"

definition buscarPorId ::
    "id_chave_prova_t \<Rightarrow> byte list option \<Rightarrow> byte list \<Rightarrow> (byte list \<times> byte list) option" where
  "buscarPorId old arquivo id_procurado =
    (case arquivo of None \<Rightarrow> None
     | Some conteudo \<Rightarrow> buscar_linhas old (file_lines conteudo) id_procurado)"

section \<open>Files in the documented format\<close>

definition texto :: "byte list \<Rightarrow> nat \<Rightarrow> bool" where
  "texto s n \<longleftrightarrow> length s = n \<and> 0 \<notin> set s \<and> 10 \<notin> set s"

definition wf_texto :: "id_chave_prova_t \<Rightarrow> bool" where
  "wf_texto e \<longleftrightarrow> texto (id_dispositivo e) ID_DISPOSITIVO_LEN \<and> texto (chave e) CHAVE_LEN \<and>
     texto (prova e) PROVA_LEN"

definition linha_de :: "id_chave_prova_t \<Rightarrow> byte list" where
  "linha_de e = id_dispositivo e @ [58] @ chave e @ [58] @ prova e @ [58, 10]"

definition arquivo_de :: "id_chave_prova_t list \<Rightarrow> byte list" where
  "arquivo_de es = concat (map linha_de es)"

lemma wf_texto_wf: "wf_texto e \<Longrightarrow> wf_entry e"
  by (simp add: wf_texto_def wf_entry_def texto_def)

lemma scan_chars_exact: "length s = n \<Longrightarrow> length dest = n \<Longrightarrow> s \<noteq> [] \<Longrightarrow>
  scan_chars n dest (s @ r) = Some (s, r)"
  by (simp add: scan_chars_def)

lemma sscanf_linha_de:
  assumes "wf_texto e" "wf_entry old"
  shows "sscanf_linha (linha_de e) old = (3, e)"
proof -
  let ?r2 = "prova e @ [58, 10]"
  let ?r1 = "chave e @ 58 # ?r2"
  have ne: "id_dispositivo e \<noteq> []" "chave e \<noteq> []" "prova e \<noteq> []"
    using assms(1) by (auto simp: wf_texto_def texto_def lens)
  have "0 \<notin> set (linha_de e)"
    using assms(1) by (simp add: wf_texto_def texto_def linha_de_def)
  then have "cstr (linha_de e @ [0]) = linha_de e"
    by (simp add: cstr_def takeWhile_append takeWhile_eq_all_conv [THEN iffD2] split: if_splits)
  moreover have "linha_de e = id_dispositivo e @ 58 # ?r1" by (simp add: linha_de_def)
  ultimately have c: "cstr (linha_de e @ [0]) = id_dispositivo e @ 58 # ?r1" by simp
  have s: "scan_chars ID_DISPOSITIVO_LEN (id_dispositivo old) (id_dispositivo e @ 58 # ?r1) =
      Some (id_dispositivo e, 58 # ?r1)"
    "scan_chars CHAVE_LEN (chave old) ?r1 = Some (chave e, 58 # ?r2)"
    "scan_chars PROVA_LEN (prova old) ?r2 = Some (prova e, [58, 10])"
    using assms ne by (simp_all add: scan_chars_exact wf_texto_def texto_def wf_entry_def)
  show ?thesis
    unfolding sscanf_linha_def c by (simp add: s scan_colon_def Let_def)
qed

lemma file_lines_line: "10 \<notin> set l \<Longrightarrow> file_lines (l @ 10 # rest) = (l @ [10]) # file_lines rest"
  by (induction l) auto

lemma file_lines_arquivo: "list_all wf_texto es \<Longrightarrow> file_lines (arquivo_de es) = map linha_de es"
proof (induction es)
  case (Cons e es)
  let ?l = "id_dispositivo e @ [58] @ chave e @ [58] @ prova e @ [58]"
  have "10 \<notin> set ?l" using Cons.prems by (simp add: wf_texto_def texto_def)
  moreover have "arquivo_de (e # es) = ?l @ 10 # arquivo_de es"
    by (simp add: arquivo_de_def linha_de_def)
  ultimately show ?case using Cons file_lines_line [of ?l "arquivo_de es"] by (simp add: linha_de_def)
qed (simp add: arquivo_de_def)

lemma carregar_linhas:
  assumes "list_all wf_texto es" "list_all wf_entry dados"
  shows "carregar (map linha_de es) n dados =
    (if n + length es \<le> length dados \<or> es = [] then Inr (take n dados @ es @ drop (n + length es) dados)
     else Inl WriteOverrun)"
  using assms
proof (induction es arbitrary: n dados)
  case (Cons e es)
  have e: "sscanf_linha (linha_de e) old = (3, e)" if "wf_entry old" for old
    using Cons.prems(1) that by (simp add: sscanf_linha_de)
  show ?case
  proof (cases "n < length dados")
    case True
    have "wf_entry (dados ! n)" using Cons.prems(2) True by (simp add: list_all_length)
    then have "carregar (map linha_de (e # es)) n dados = carregar (map linha_de es) (n + 1) (dados[n := e])"
      using True e by simp
    also have "\<dots> = (if n + 1 + length es \<le> length dados \<or> es = []
        then Inr (take (n + 1) (dados[n := e]) @ es @ drop (n + 1 + length es) (dados[n := e]))
        else Inl WriteOverrun)"
      using Cons.prems wf_texto_wf [of e]
      by (subst Cons.IH) (auto simp: list_all_iff dest!: set_update_subset_insert [THEN subsetD])
    also have "take (n + 1) (dados[n := e]) = take n dados @ [e]"
      using True by (simp add: take_Suc_conv_app_nth)
    finally show ?thesis using True by auto
  next
    case False
    have "wf_entry zero_entry" by (simp add: wf_entry_def zero_entry_def)
    then show ?thesis using False e by simp
  qed
qed simp

lemma carregar_texto:
  assumes "list_all wf_texto es"
  shows "carregarArquivoMemoria (Some (arquivo_de es)) (dados_inicial id_max) =
    (if length es \<le> id_max then Inr (es @ replicate (id_max - length es) zero_entry)
     else Inl WriteOverrun)"
proof -
  have "list_all wf_entry (dados_inicial id_max)"
    by (simp add: dados_inicial_def list_all_length wf_entry_def zero_entry_def)
  then show ?thesis
    using assms carregar_linhas [of es "dados_inicial id_max" 0]
    by (auto simp: carregarArquivoMemoria_def file_lines_arquivo dados_inicial_def)
qed

text \<open>C21: loading a file in the documented format puts the devices in the array in the order of the
  lines and leaves the rest zero, as long as the file has no more lines than the array has elements;
  one line more is written past its end.\<close>

theorem carregar_arquivo:
  assumes "list_all wf_texto es"
  shows "carregarArquivoMemoria (Some (arquivo_de es)) (dados_inicial id_max) =
    (if length es \<le> id_max then Inr (es @ replicate (id_max - length es) zero_entry)
     else Inl WriteOverrun)"
  using assms by (rule carregar_texto)

section \<open>The interface of a search\<close>

text \<open>A search over a collection of devices: the first one with the identifier.\<close>

locale device_search =
  fixes entries :: "'db \<Rightarrow> id_chave_prova_t list"
    and ok :: "'db \<Rightarrow> byte list \<Rightarrow> bool"
    and search :: "'db \<Rightarrow> byte list \<Rightarrow> (byte list \<times> byte list) option"
  assumes search_find: "ok db i \<Longrightarrow> search db i =
      map_option (\<lambda>e. (chave e, prova e)) (find (\<lambda>e. id_dispositivo e = i) (entries db))"
begin

lemma search_None: "ok db i \<Longrightarrow> search db i = None \<longleftrightarrow> i \<notin> id_dispositivo ` set (entries db)"
  by (auto simp: search_find find_None_iff)

lemma search_Some:
  assumes "ok db i" "search db i = Some (c, p)"
  shows "\<exists>e \<in> set (entries db). id_dispositivo e = i \<and> chave e = c \<and> prova e = p"
  using assms by (auto simp: search_find find_Some_iff)

lemma search_distinct:
  assumes "distinct (map id_dispositivo (entries db))" "k < length (entries db)"
    "ok db (id_dispositivo (entries db ! k))"
  shows "search db (id_dispositivo (entries db ! k)) = Some (chave (entries db ! k), prova (entries db ! k))"
proof -
  let ?i = "id_dispositivo (entries db ! k)"
  have "find (\<lambda>e. id_dispositivo e = ?i) (entries db) = Some (entries db ! k)"
    unfolding find_Some_iff using assms(1,2)
    by (intro exI [of _ k]) (auto simp: distinct_conv_nth)
  then show ?thesis using search_find [OF assms(3)] by simp
qed

end

interpretation mem: device_search "\<lambda>dados. dados" "\<lambda>dados i. length i = ID_DISPOSITIVO_LEN" buscarPorIdMemoria
proof
  fix db and i :: "byte list" assume "length i = ID_DISPOSITIVO_LEN"
  then show "buscarPorIdMemoria db i =
      map_option (\<lambda>e. (chave e, prova e)) (find (\<lambda>e. id_dispositivo e = i) db)"
    by (induction db) auto
qed

interpretation arq: device_search "\<lambda>(old, es). es"
  "\<lambda>(old, es) i. wf_entry old \<and> list_all wf_texto es \<and> length i = ID_DISPOSITIVO_LEN"
  "\<lambda>(old, es). buscarPorId old (Some (arquivo_de es))"
proof
  fix db :: "id_chave_prova_t \<times> id_chave_prova_t list" and i :: "byte list"
  obtain old es where db: "db = (old, es)" by (cases db)
  assume "(case db of (old, es) \<Rightarrow> \<lambda>i. wf_entry old \<and> list_all wf_texto es \<and> length i = ID_DISPOSITIVO_LEN) i"
  then have a: "wf_entry old" "list_all wf_texto es" "length i = ID_DISPOSITIVO_LEN" by (simp_all add: db)
  have "buscar_linhas old (map linha_de es) i =
      map_option (\<lambda>e. (chave e, prova e)) (find (\<lambda>e. id_dispositivo e = i) es)"
    using a(2) by (induction es) (auto simp: sscanf_linha_de a(1,3))
  then show "(case db of (old, es) \<Rightarrow> buscarPorId old (Some (arquivo_de es))) i =
      map_option (\<lambda>e. (chave e, prova e)) (find (\<lambda>e. id_dispositivo e = i) (case db of (old, es) \<Rightarrow> es))"
    using a(2) by (simp add: db buscarPorId_def file_lines_arquivo)
qed

lemma find_append_Some: "find P xs = Some x \<Longrightarrow> find P (xs @ ys) = Some x"
  by (induction xs) (auto split: if_splits)

text \<open>The three searches agree: after loading a file of at most \<open>ID_MAX\<close> devices with different
  identifiers, searching the array, searching the file, and the direct access with the line number
  (below 20000) give the same key and proof, those of that line.\<close>

lemma searches_agree:
  assumes "list_all wf_texto es" "distinct (map id_dispositivo es)" "length es \<le> id_max" "wf_entry old"
    and "carregarArquivoMemoria (Some (arquivo_de es)) (dados_inicial id_max) = Inr dados"
    and "k < length es" "k < 20000"
  defines "i \<equiv> id_dispositivo (es ! k)"
  shows "buscarPorIdMemoria dados i = Some (chave (es ! k), prova (es ! k)) \<and>
    buscarPorId old (Some (arquivo_de es)) i = Some (chave (es ! k), prova (es ! k)) \<and>
    buscarPorIdDireto dados (of_nat k) = (chave (es ! k), prova (es ! k))"
proof -
  have dados: "dados = es @ replicate (id_max - length es) zero_entry"
    using assms(3,5) carregar_texto [OF assms(1), of id_max] by simp
  have li: "length i = ID_DISPOSITIVO_LEN"
    using assms(1,6) by (auto simp: i_def list_all_length wf_texto_def texto_def)
  have f: "buscarPorId old (Some (arquivo_de es)) i = Some (chave (es ! k), prova (es ! k))"
    using arq.search_distinct [of "(old, es)" k] assms(1,2,4,6) li by (simp add: i_def)
  have "find (\<lambda>e. id_dispositivo e = i) es = Some (es ! k)"
    unfolding find_Some_iff using assms(2,6) by (intro exI [of _ k]) (auto simp: distinct_conv_nth i_def)
  then have "buscarPorIdMemoria dados i = Some (chave (es ! k), prova (es ! k))"
    using mem.search_find [OF li, of dados] by (simp add: dados find_append_Some)
  moreover have "unat (of_nat k :: u32) = k"
    using assms(7) by (simp add: unat_of_nat)
  then have "buscarPorIdDireto dados (of_nat k) = (chave (es ! k), prova (es ! k))"
    using assms(6,7) by (simp add: buscarPorIdDireto_def dados nth_append)
  ultimately show ?thesis using f by simp
qed

definition entry_example :: "byte \<Rightarrow> id_chave_prova_t" where
  "entry_example c = \<lparr>id_dispositivo = replicate 32 c, chave = replicate 64 c, prova = replicate 128 c\<rparr>"

lemma wf_texto_example: "c \<noteq> 0 \<Longrightarrow> c \<noteq> 10 \<Longrightarrow> wf_texto (entry_example c)"
  by (simp add: wf_texto_def texto_def entry_example_def lens)

theorem carregar_arquivo_witness:
  "carregarArquivoMemoria (Some (arquivo_de [entry_example 49, entry_example 50])) (dados_inicial 3) =
    Inr [entry_example 49, entry_example 50, zero_entry] \<and>
   carregarArquivoMemoria (Some (arquivo_de [entry_example 49, entry_example 50])) (dados_inicial 1) =
    Inl WriteOverrun"
  using carregar_arquivo [of "[entry_example 49, entry_example 50]" 3]
    carregar_arquivo [of "[entry_example 49, entry_example 50]" 1]
  by (simp add: wf_texto_example numeral_3_eq_3)

end
