(* ===== verification/Verifier.thy ===== *)
theory Verifier
  imports Prover Database
begin

text \<open>
  The verifying controller, \<open>tools/src/verifica_p4dra_rede.c\<close>. For every reply it takes a key from
  the table, runs the proof calculator for the round and the device of the reply, and sends the
  received and the calculated proof to the switch, which compares them. The measurements of time are
  left out: they only go to the last line of output.
\<close>

section \<open>The handler\<close>

record 'w verifier =
  vproc :: "'w proc"
  contador_pacotes :: u32
  total_pacotes :: u32
  dados :: "id_chave_prova_t list"
  broke :: bool

definition cria_pacote_verificacao ::
    "byte list \<Rightarrow> byte list \<Rightarrow> p4dra_oper_h \<Rightarrow> p4dra_verificacao_h \<Rightarrow> byte list" where
  "cria_pacote_verificacao dest_mac src_mac oper_hdr verif_hdr =
    ether_bytes \<lparr>ether_dhost = dest_mac, ether_shost = src_mac, ether_type = ETHERTYPE_CUSTOM\<rparr> @
    oper_bytes oper_hdr @ verificacao_bytes verif_hdr"

definition envia_pacote_verificacao :: "'w os \<Rightarrow> byte list \<Rightarrow> byte list \<Rightarrow> byte list \<Rightarrow> byte list
    \<Rightarrow> byte list \<Rightarrow> byte list \<Rightarrow> 'w proc \<Rightarrow> stop + 'w proc" where
  "envia_pacote_verificacao os dest_mac src_mac id_rodada_hex id_hex prova_hex verificacao_hex p =
    bind_r (fault_r (rd ID_DISPOSITIVO_LEN id_hex)) (\<lambda>id_dispositivo_hex_LE.
    bind_r (fault_r (put_field id_rodada_hex ID_RODADA_LEN)) (\<lambda>rodada.
    bind_r (fault_r (put_field id_dispositivo_hex_LE ID_DISPOSITIVO_LEN)) (\<lambda>ident.
    bind_r (fault_r (put_field prova_hex PROVA_LEN)) (\<lambda>prv.
    bind_r (fault_r (put_field verificacao_hex PROVA_LEN)) (\<lambda>verif.
    let oper_hdr = \<lparr>oper = 4, id_rodada = rodada\<rparr>;
        verif_hdr = \<lparr>verif_id_dispositivo = ident, verif_verificacao = verif, verif_prova = prv\<rparr>;
        packet = cria_pacote_verificacao src_mac dest_mac oper_hdr verif_hdr
    in run_sendto os dest_mac packet p)))))"

definition comando_verificacao ::
    "byte list \<Rightarrow> byte list \<Rightarrow> byte list \<Rightarrow> byte list \<Rightarrow> byte list res" where
  "comando_verificacao chave_hex param2_hex param1_hex id_hex =
    bind_r (print_str CHAVE_LEN chave_hex) (\<lambda>c.
    bind_r (print_str NONCE_LEN param2_hex) (\<lambda>p2.
    bind_r (print_str NONCE_LEN param1_hex) (\<lambda>p1.
    bind_r (print_str ID_DISPOSITIVO_LEN id_hex) (\<lambda>d.
      Inr (snprintf 512 (bytes_of ''forro-args-dra2 '' @ c @ bytes_of '' '' @ p2 @ bytes_of '' '' @ p1 @
        bytes_of '' '' @ d @ bytes_of '' 0''))))))"

definition handle_resposta :: "'w os \<Rightarrow> ether_header \<Rightarrow> byte list \<Rightarrow> byte list \<Rightarrow> 'w verifier
    \<Rightarrow> stop + 'w verifier" where
  "handle_resposta os eth id_rodada_hex body s =
    bind_r (fault_r (read_reply body)) (\<lambda>reply_hdr.
    bind_r (fault_r (hex_field (malloc os) (reply_id_dispositivo reply_hdr) ID_DISPOSITIVO_LEN_BYTES))
      (\<lambda>id_hex.
    bind_r (fault_r (hex_field (malloc os) (reply_prova reply_hdr) PROVA_LEN_BYTES)) (\<lambda>prova_hex.
    let chave_hex = fst (buscarPorIdDireto (dados s) (contador_pacotes s)) in
    bind_r (fault_r (comando_verificacao chave_hex (param2_of id_rodada_hex) (param1_of id_rodada_hex)
      id_hex)) (\<lambda>comando.
    bind_r (run_popen os comando (vproc s)) (\<lambda>(out, p).
    let verificacao_hex = getline os out in
    bind_r (envia_pacote_verificacao os (ether_dhost eth) (ether_shost eth) id_rodada_hex id_hex
      prova_hex verificacao_hex p) (\<lambda>p.
    let contador = contador_pacotes s + 1 in
      Inr (s\<lparr>vproc := p, contador_pacotes := contador,
        broke := broke s \<or> contador = total_pacotes s\<rparr>)))))))"

definition packet_handler_verifica :: "'w os \<Rightarrow> byte list \<Rightarrow> 'w verifier \<Rightarrow> stop + 'w verifier" where
  "packet_handler_verifica os packet s =
    bind_r (fault_r (read_ether packet)) (\<lambda>eth_header.
    if ether_type eth_header = ETHERTYPE_CUSTOM then
      bind_r (fault_r (read_oper (drop 14 packet))) (\<lambda>oper_hdr.
      bind_r (fault_r (hex_field (malloc os) (id_rodada oper_hdr) ID_RODADA_LEN_BYTES)) (\<lambda>id_rodada_hex.
      if oper oper_hdr = 2 then handle_resposta os eth_header id_rodada_hex (drop 17 (drop 14 packet)) s
      else Inr s))
    else Inr s)"

text \<open>\<open>pcap_loop\<close> with a handler that calls \<open>pcap_breakloop\<close>: no packet is delivered after it.\<close>

fun verifica_loop :: "'w os \<Rightarrow> byte list list \<Rightarrow> 'w verifier \<Rightarrow> stop + 'w verifier" where
  "verifica_loop os [] s = Inr s"
| "verifica_loop os (packet # packets) s =
    (if broke s then Inr s else bind_r (packet_handler_verifica os packet s) (verifica_loop os packets))"

text \<open>\<open>main\<close>; \<open>abrir\<close> gives the content of a file.\<close>

definition ID_MAX :: nat where "ID_MAX = 1000000"

definition verifica_main :: "'w os \<Rightarrow> pcap \<Rightarrow> (byte list \<Rightarrow> byte list option) \<Rightarrow> byte list list \<Rightarrow> 'w proc
    \<Rightarrow> stop + nat \<times> 'w verifier" where
  "verifica_main os cap abrir argv p =
    (if length argv < 3 then Inl (Exit 1)
     else
       let total = (if length argv = 4 then ucast (strtoul 10 (argv ! 3)) else 1000) in
       bind_r (fault_r (carregarArquivoMemoria (abrir (cstr (argv ! 1))) (dados_inicial ID_MAX))) (\<lambda>tabela.
       let s = \<lparr>vproc = p, contador_pacotes = 0, total_pacotes = total, dados = tabela, broke = False\<rparr> in
       if \<not> pcap_setup cap then Inr (2, s)
       else if \<not> socket_ok os (pw p) then Inl (Exit 1)
       else bind_r (verifica_loop os (captured cap SNAP_LEN filter_exp) s) (\<lambda>s. Inr (0, s))))"

section \<open>One verification\<close>

definition cmd_verif :: "byte list \<Rightarrow> byte list \<Rightarrow> byte list \<Rightarrow> byte list" where
  "cmd_verif chave_hex rodada id_hex = bytes_of ''forro-args-dra2 '' @ chave_hex @ bytes_of '' '' @
     drop 16 rodada @ bytes_of '' '' @ take 16 rodada @ bytes_of '' '' @ id_hex @ bytes_of '' 0''"

definition verif_packet :: "byte list \<Rightarrow> byte list \<Rightarrow> byte list \<Rightarrow> byte list \<Rightarrow> byte list \<Rightarrow> byte list \<Rightarrow> byte list" where
  "verif_packet dest src rodada ident verif prv = create_custom_packet dest src
    (oper_bytes \<lparr>oper = 4, id_rodada = rodada\<rparr> @ verificacao_bytes
      \<lparr>verif_id_dispositivo = ident, verif_verificacao = verif, verif_prova = prv\<rparr>)"

lemma comando_verificacao_ok:
  assumes "length c = 64" "0 \<notin> set c" "length h = 32" "0 \<notin> set h" "length d = 32" "0 \<notin> set d"
  shows "comando_verificacao c (param2_of h) (param1_of h) d = Inr (cmd_verif c h d)"
proof -
  have "0 \<notin> set (take 16 h)" "0 \<notin> set (drop 16 h)"
    using assms(4) by (auto dest: in_set_takeD in_set_dropD)
  then show ?thesis
    using assms
    by (simp add: comando_verificacao_def params_of_rodada print_str_exact lens snprintf_def cmd_verif_def width)
qed

lemma verificacao_ok:
  assumes "length rodada = 16" "length ident = 16" "length prv = 64" "length verif = 128"
    and "sendto os d (verif_packet s d rodada ident (wire_put verif) prv) (pw p) = (True, w)"
  shows "envia_pacote_verificacao os d s (wire_get rodada) (wire_get ident) (wire_get prv) (verif @ rest) p =
    Inr (p\<lparr>pw := w, sent := sent p @ [(d, verif_packet s d rodada ident (wire_put verif) prv)]\<rparr>)"
proof -
  have "put_field (wire_get rodada) ID_RODADA_LEN = Inr rodada"
    "put_field (wire_get ident) ID_DISPOSITIVO_LEN = Inr ident"
    "put_field (wire_get prv) PROVA_LEN = Inr prv"
    using assms(1-3) wire.put_get [of rodada] wire.put_get [of ident] wire.put_get [of prv]
    by (simp_all add: put_field_ok lens width)
  moreover have "put_field (verif @ rest) PROVA_LEN = Inr (wire_put verif)"
    using assms(4) by (simp add: put_field_prefix lens)
  moreover have "rd ID_DISPOSITIVO_LEN (wire_get ident) = Inr (wire_get ident)"
    using assms(2) by (simp add: rd_def lens width)
  ultimately show ?thesis
    using assms(5) by (simp add: envia_pacote_verificacao_def Let_def run_sendto_def verif_packet_def
        cria_pacote_verificacao_def create_custom_packet_def)
qed

lemma verifica_decode:
  assumes "length d = 6" "length s = 6" "length r = 16" "roomy (malloc os)"
  shows "packet_handler_verifica os
      (create_custom_packet d s (oper_bytes \<lparr>oper = op, id_rodada = r\<rparr> @ body)) st =
    (if op = 2 then handle_resposta os \<lparr>ether_dhost = d, ether_shost = s, ether_type = ETHERTYPE_CUSTOM\<rparr>
       (wire_get r) body st else Inr st)"
proof -
  have o: "read_oper (oper_bytes \<lparr>oper = op, id_rodada = r\<rparr> @ body) = Inr \<lparr>oper = op, id_rodada = r\<rparr>"
    by (rule oph.dec_enc) (simp add: wf_oper_def assms(3))
  have dr: "drop 17 (oper_bytes \<lparr>oper = op, id_rodada = r\<rparr> @ body) = body" for op
    using assms(3) by (simp add: oper_bytes_def)
  have h: "hex_field (malloc os) r ID_RODADA_LEN_BYTES = Inr (wire_get r)"
    using assms(3,4) by (intro hex_field_ok) (simp_all add: lens)
  show ?thesis
    unfolding packet_handler_verifica_def read_ether_packet [OF assms(1,2)] drop_ether_packet [OF assms(1,2)]
    using o h by (simp add: dr del: drop_drop drop_append)
qed

lemma verifica_step:
  assumes "roomy (malloc os)" "length d = 6" "length s = 6" "length r = 16" "length ident = 16"
    "length prv = 64"
    and "k = unat (contador_pacotes st) mod 20000" "texto (chave (dados st ! k)) 64"
    and "popen os (cmd_verif (chave (dados st ! k)) (wire_get r) (wire_get ident)) (pw (vproc st)) =
      (Some verif, w)" "length verif = 128" "10 \<notin> set verif"
    and "sendto os d (verif_packet s d r ident (wire_put verif) prv) w = (True, w')"
  shows "packet_handler_verifica os (reply_packet d s r ident prv) st = Inr (st\<lparr>
    vproc := (vproc st)\<lparr>pw := w',
      sent := sent (vproc st) @ [(d, verif_packet s d r ident (wire_put verif) prv)],
      ran := ran (vproc st) @ [cmd_verif (chave (dados st ! k)) (wire_get r) (wire_get ident)]\<rparr>,
    contador_pacotes := contador_pacotes st + 1,
    broke := broke st \<or> contador_pacotes st + 1 = total_pacotes st\<rparr>)"
proof -
  have rr: "read_reply (reply_bytes \<lparr>reply_id_dispositivo = ident, reply_prova = prv\<rparr>) =
      Inr \<lparr>reply_id_dispositivo = ident, reply_prova = prv\<rparr>"
    by (rule rep.dec_exact) (simp add: wf_reply_def assms(5,6))
  have h: "hex_field (malloc os) ident ID_DISPOSITIVO_LEN_BYTES = Inr (wire_get ident)"
    "hex_field (malloc os) prv PROVA_LEN_BYTES = Inr (wire_get prv)"
    using assms(1,5,6) by (simp_all add: hex_field_ok lens)
  have key: "fst (buscarPorIdDireto (dados st) (contador_pacotes st)) = chave (dados st ! k)"
    by (simp add: buscarPorIdDireto_def assms(7))
  have c: "comando_verificacao (chave (dados st ! k)) (param2_of (wire_get r)) (param1_of (wire_get r))
      (wire_get ident) = Inr (cmd_verif (chave (dados st ! k)) (wire_get r) (wire_get ident))"
    using assms(4,5,8) by (intro comando_verificacao_ok) (auto simp: width c_mem texto_def)
  have "verif \<noteq> []" using assms(10) by auto
  then have line: "getline os verif = verif @ 0 # line_rest os"
    using assms(11) by (simp add: getline_text)
  show ?thesis
    unfolding reply_packet_def verifica_decode [OF assms(2-4,1)]
    using rr h c assms(9)
      verificacao_ok [OF assms(4-6,10), of os d s "(vproc st)\<lparr>pw := w, ran := ran (vproc st) @
        [cmd_verif (chave (dados st ! k)) (wire_get r) (wire_get ident)]\<rparr>" w' "0 # line_rest os"] assms(12)
    by (simp add: handle_resposta_def key run_popen_def line Let_def)
qed

text \<open>For a reply the verifier runs the calculator with the key in line
  \<open>contador_pacotes mod 20000\<close> of the table, whatever device sent the reply, with the nonce before
  the round, and the identifier in the reply; it sends one packet of operation 4 back, which repeats
  the round, the identifier and the proof byte for byte and adds the calculated proof; the counter
  advances by one, and capturing stops when it equals the total.\<close>

lemma verifier_forwards:
  assumes "roomy (malloc os)" "length d = 6" "length s = 6" "length r = 16" "length ident = 16"
    "length prv = 64"
    and "k = unat (contador_pacotes st) mod 20000" "texto (chave (dados st ! k)) 64"
    and "popen os (cmd_verif (chave (dados st ! k)) (wire_get r) (wire_get ident)) (pw (vproc st)) =
      (Some verif, w)" "length verif = 128" "10 \<notin> set verif"
    and "sendto os d (verif_packet s d r ident (wire_put verif) prv) w = (True, w')"
  shows "packet_handler_verifica os (reply_packet d s r ident prv) st = Inr (st\<lparr>
    vproc := (vproc st)\<lparr>pw := w',
      sent := sent (vproc st) @ [(d, verif_packet s d r ident (wire_put verif) prv)],
      ran := ran (vproc st) @ [cmd_verif (chave (dados st ! k)) (wire_get r) (wire_get ident)]\<rparr>,
    contador_pacotes := contador_pacotes st + 1,
    broke := broke st \<or> contador_pacotes st + 1 = total_pacotes st\<rparr>)"
  using assms by (rule verifica_step)

section \<open>What every run keeps\<close>

definition is_verif :: "byte list \<Rightarrow> bool" where
  "is_verif packet \<longleftrightarrow> (\<exists>d c r i v p. length d = 6 \<and> length c = 6 \<and> length r = 16 \<and> length i = 16 \<and>
     length v = 64 \<and> length p = 64 \<and> packet = verif_packet d c r i v p)"

definition verifier_inv :: "'w verifier \<Rightarrow> bool" where
  "verifier_inv s \<longleftrightarrow> (\<forall>(addr, packet) \<in> set (sent (vproc s)). is_verif packet) \<and>
    length (sent (vproc s)) = unat (contador_pacotes s) \<and>
    (if broke s then contador_pacotes s = total_pacotes s else contador_pacotes s < total_pacotes s)"

lemma length_verif_packet: "is_verif packet \<Longrightarrow> length packet = 175"
  by (auto simp: is_verif_def verif_packet_def width oper_bytes_def verificacao_bytes_def)

lemma handle_resposta_inv:
  assumes "handle_resposta os eth h body s = Inr s'" "verifier_inv s" "wf_ether eth" "\<not> broke s"
  shows "verifier_inv s'"
proof -
  from assms(1) obtain ih ph c out p p' where
    p: "run_popen os c (vproc s) = Inr (out, p)" and
    e: "envia_pacote_verificacao os (ether_dhost eth) (ether_shost eth) h ih ph (getline os out) p = Inr p'" and
    s': "s' = s\<lparr>vproc := p', contador_pacotes := contador_pacotes s + 1,
      broke := broke s \<or> contador_pacotes s + 1 = total_pacotes s\<rparr>"
    by (auto simp: handle_resposta_def bind_r_Inr_iff Let_def)
  from e obtain i r d pv v where
    l: "put_field h ID_RODADA_LEN = Inr r" "put_field i ID_DISPOSITIVO_LEN = Inr d"
      "put_field ph PROVA_LEN = Inr pv" "put_field (getline os out) PROVA_LEN = Inr v" and
    snd: "run_sendto os (ether_dhost eth)
      (verif_packet (ether_shost eth) (ether_dhost eth) r d v pv) p = Inr p'"
    by (auto simp: envia_pacote_verificacao_def bind_r_Inr_iff Let_def verif_packet_def
        cria_pacote_verificacao_def create_custom_packet_def split: if_splits)
  have sent: "sent p' = sent (vproc s) @
      [(ether_dhost eth, verif_packet (ether_shost eth) (ether_dhost eth) r d v pv)]"
    using snd run_popen_inv [OF p] by (auto simp: run_sendto_def split: prod.splits if_splits)
  have "length r = 16" "length d = 16" "length pv = 64" "length v = 64"
    using l [THEN put_field_length] by (simp_all add: lens)
  then have v: "is_verif (verif_packet (ether_shost eth) (ether_dhost eth) r d v pv)"
    using assms(3) unfolding is_verif_def wf_ether_def by blast
  have less: "contador_pacotes s < total_pacotes s" using assms(2,4) by (simp add: verifier_inv_def)
  then have n: "unat (contador_pacotes s) < unat (total_pacotes s)" by (simp add: word_less_nat_alt)
  then have "unat (contador_pacotes s) + 1 < 4294967296"
    using unat_u32_less [of "total_pacotes s"] by linarith
  then have c: "unat (contador_pacotes s + 1) = unat (contador_pacotes s) + 1"
    by (simp add: unat_word_ariths)
  have "contador_pacotes s + 1 < total_pacotes s" if "contador_pacotes s + 1 \<noteq> total_pacotes s"
  proof -
    have "unat (contador_pacotes s + 1) \<noteq> unat (total_pacotes s)" using that by (simp add: word_unat_eq_iff)
    then show ?thesis using n c by (simp add: word_less_nat_alt)
  qed
  then show ?thesis
    using assms(2,4) sent v c by (auto simp: s' verifier_inv_def)
qed

lemma packet_handler_verifica_inv:
  "packet_handler_verifica os packet s = Inr s' \<Longrightarrow> verifier_inv s \<Longrightarrow> \<not> broke s \<Longrightarrow> verifier_inv s'"
  by (auto simp: packet_handler_verifica_def bind_r_Inr_iff ether.dec_Inr_iff split: if_splits
      dest: handle_resposta_inv)

lemma verifica_loop_inv: "verifica_loop os packets s = Inr s' \<Longrightarrow> verifier_inv s \<Longrightarrow> verifier_inv s'"
  by (induction packets arbitrary: s)
    (auto simp: bind_r_Inr_iff split: if_splits dest: packet_handler_verifica_inv)

text \<open>C18: on every run of the verifier with a positive total, whatever packets arrive and whatever the
  calculator prints: the number of packets sent is the packet counter, it never passes the total, and
  capturing stopped early exactly when it reached the total; every packet sent is a well-formed
  verification of 175 bytes, which fits the snapshot length of the captures.\<close>

theorem verifier_run_invariant:
  assumes "sent p = []" "verifica_main os cap abrir argv p = Inr (0, s)" "0 < total_pacotes s"
  shows "length (sent (vproc s)) = unat (contador_pacotes s) \<and>
    contador_pacotes s \<le> total_pacotes s \<and> (broke s \<longleftrightarrow> contador_pacotes s = total_pacotes s) \<and>
    (\<forall>(addr, packet) \<in> set (sent (vproc s)). is_verif packet \<and> length packet = 175 \<and>
       length packet \<le> SNAP_LEN)"
proof -
  let ?start = "\<lambda>total tabela. \<lparr>vproc = p, contador_pacotes = 0, total_pacotes = total, dados = tabela, broke = False\<rparr>"
  from assms(2) obtain total tabela where
    l: "verifica_loop os (captured cap SNAP_LEN filter_exp) (?start total tabela) = Inr s"
    by (auto simp: verifica_main_def Let_def bind_r_Inr_iff split: if_splits)
  have total: "packet_handler_verifica os pk t = Inr t' \<Longrightarrow> total_pacotes t' = total_pacotes t" for pk t t'
    by (auto simp: packet_handler_verifica_def handle_resposta_def bind_r_Inr_iff Let_def split: if_splits)
  have "verifica_loop os pks t = Inr t' \<Longrightarrow> total_pacotes t' = total_pacotes t" for pks t t'
    by (induction pks arbitrary: t) (auto simp: bind_r_Inr_iff total split: if_splits)
  from this [OF l] have "verifier_inv (?start total tabela)"
    using assms(1,3) by (simp add: verifier_inv_def)
  then have i: "verifier_inv s" by (rule verifica_loop_inv [OF l])
  have "(\<forall>(addr, packet) \<in> set (sent (vproc s)). is_verif packet \<and> length packet = 175 \<and>
      length packet \<le> SNAP_LEN)"
    using i length_verif_packet by (fastforce simp: verifier_inv_def SNAP_LEN_def)
  then show ?thesis
    using i by (auto simp: verifier_inv_def split: if_splits)
qed

section \<open>Concrete runs\<close>

definition verifier_example :: "unit verifier" where
  "verifier_example = \<lparr>vproc = proc_example, contador_pacotes = 0, total_pacotes = 1,
     dados = [entry_example 49], broke = False\<rparr>"

definition pcap_example :: pcap where
  "pcap_example = \<lparr>create_ok = True, activate_ok = True, compile_ok = True, setfilter_ok = True,
     captured = (\<lambda>_ _. [])\<rparr>"

theorem verifier_run_invariant_witness:
  "\<exists>s. verifica_main (os_example []) pcap_example (\<lambda>_. None) [[], [0], []] proc_example = Inr (0, s) \<and>
     length (sent (vproc s)) = unat (contador_pacotes s)"
proof -
  let ?s = "\<lparr>vproc = proc_example, contador_pacotes = 0, total_pacotes = 1000,
    dados = dados_inicial Verifier.ID_MAX, broke = False\<rparr>"
  have m: "verifica_main (os_example []) pcap_example (\<lambda>_. None) [[], [0], []] proc_example = Inr (0, ?s)"
    by (simp add: verifica_main_def pcap_setup_def pcap_example_def carregarArquivoMemoria_def os_example_def)
  then show ?thesis
    using verifier_run_invariant [OF _ m] by (auto simp: proc_example_def)
qed

end
