(* ===== verification/Reader.thy ===== *)
theory Reader
  imports Verifier
begin

text \<open>
  The reader of protocol packets, \<open>tools/src/le_p4dra_rede.c\<close>: it writes one line per request, set-up,
  reply and verification it captures, and keeps key and identifier of the last set-up. The code that
  would answer a request is commented out there, so the program sends nothing and runs no command.

  The clock is a parameter: \<open>relogio k\<close> is the time in microseconds at its \<open>k\<close>-th reading. The two
  measured times of the last line are parameters too, as the text that \<open>%f\<close> gives for them.
\<close>

section \<open>Numbers as text\<close>

fun dec_digits :: "nat \<Rightarrow> byte list" where
  "dec_digits n = (if n < 10 then [of_nat (48 + n)] else dec_digits (n div 10) @ [of_nat (48 + n mod 10)])"

declare dec_digits.simps [simp del]

text \<open>\<open>%lld\<close> and \<open>%i\<close>.\<close>

definition print_lld :: "int \<Rightarrow> byte list" where
  "print_lld v = (if v < 0 then 45 # dec_digits (nat (- v)) else dec_digits (nat v))"

text \<open>\<open>%x\<close> for a \<open>uint8_t\<close>.\<close>

definition print_x :: "byte \<Rightarrow> byte list" where
  "print_x b = (if unat b < 16 then [hex_digit (unat b)] else print_02x b)"

text \<open>The loop over the six bytes of an address: a colon after each but the last.\<close>

definition mac_text :: "byte list \<Rightarrow> byte list" where
  "mac_text mac = concat (map (\<lambda>i. print_02x (mac ! i) @ [if i = 5 then 59 else 58]) [0..<6])"

section \<open>The handler\<close>

record reader =
  saida :: "byte list"
  chave_lida :: "byte list option"
  id_lido :: "byte list option"
  leituras :: nat

text \<open>The part of a line that all operations have.\<close>

definition linha_inicio :: "int \<Rightarrow> ether_header \<Rightarrow> p4dra_oper_h \<Rightarrow> byte list" where
  "linha_inicio microssegundos eth_header oper_hdr =
    print_lld microssegundos @ [59] @ mac_text (ether_shost eth_header) @ mac_text (ether_dhost eth_header) @
    print_x (oper oper_hdr) @ [59] @ hex_text (id_rodada oper_hdr)"

text \<open>The rest: the fields, each after a semicolon.\<close>

definition linha_fim :: "byte list list \<Rightarrow> byte list" where
  "linha_fim campos = concat (map (\<lambda>c. 59 # hex_text c) campos) @ [59, 10]"

definition escreve :: "(nat \<Rightarrow> int) \<Rightarrow> ether_header \<Rightarrow> p4dra_oper_h \<Rightarrow> byte list list \<Rightarrow> reader \<Rightarrow> reader" where
  "escreve relogio eth_header oper_hdr campos s = s\<lparr>
     saida := saida s @ linha_inicio (relogio (leituras s)) eth_header oper_hdr @ linha_fim campos,
     leituras := leituras s + 1\<rparr>"

definition le_pedido :: "(nat \<Rightarrow> int) \<Rightarrow> ether_header \<Rightarrow> p4dra_oper_h \<Rightarrow> reader \<Rightarrow> stop + reader" where
  "le_pedido relogio eth_header oper_hdr s = Inr (escreve relogio eth_header oper_hdr [] s)"

definition le_setup :: "(nat \<Rightarrow> int) \<Rightarrow> heap \<Rightarrow> ether_header \<Rightarrow> p4dra_oper_h \<Rightarrow> byte list \<Rightarrow> reader
    \<Rightarrow> stop + reader" where
  "le_setup relogio hp eth_header oper_hdr body s =
    bind_r (fault_r (read_setup body)) (\<lambda>setup_hdr.
    bind_r (fault_r (byte_array_to_hexstring hp (setup_chave setup_hdr) CHAVE_LEN_BYTES)) (\<lambda>c.
    bind_r (fault_r (byte_array_to_hexstring hp (setup_id_dispositivo setup_hdr)
      ID_DISPOSITIVO_LEN_BYTES)) (\<lambda>d.
    let s = escreve relogio eth_header oper_hdr [setup_id_dispositivo setup_hdr, setup_chave setup_hdr] s in
    bind_r (fault_r (bind_r (deref c) (\<lambda>c. swapEndian c CHAVE_LEN))) (\<lambda>c.
    bind_r (fault_r (bind_r (deref d) (\<lambda>d. swapEndian d ID_DISPOSITIVO_LEN))) (\<lambda>d.
      Inr (s\<lparr>chave_lida := Some c, id_lido := Some d\<rparr>))))))"

definition le_resposta :: "(nat \<Rightarrow> int) \<Rightarrow> ether_header \<Rightarrow> p4dra_oper_h \<Rightarrow> byte list \<Rightarrow> reader
    \<Rightarrow> stop + reader" where
  "le_resposta relogio eth_header oper_hdr body s =
    bind_r (fault_r (read_reply body)) (\<lambda>reply_hdr.
      Inr (escreve relogio eth_header oper_hdr [reply_id_dispositivo reply_hdr, reply_prova reply_hdr] s))"

definition le_verificacao :: "(nat \<Rightarrow> int) \<Rightarrow> ether_header \<Rightarrow> p4dra_oper_h \<Rightarrow> byte list \<Rightarrow> reader
    \<Rightarrow> stop + reader" where
  "le_verificacao relogio eth_header oper_hdr body s =
    bind_r (fault_r (read_verificacao body)) (\<lambda>verif_hdr.
      Inr (escreve relogio eth_header oper_hdr
        [verif_id_dispositivo verif_hdr, verif_verificacao verif_hdr, verif_prova verif_hdr] s))"

definition packet_handler_le :: "(nat \<Rightarrow> int) \<Rightarrow> heap \<Rightarrow> byte list \<Rightarrow> reader \<Rightarrow> stop + reader" where
  "packet_handler_le relogio hp packet s =
    bind_r (fault_r (read_ether packet)) (\<lambda>eth_header.
    if ether_type eth_header = ETHERTYPE_CUSTOM then
      bind_r (fault_r (read_oper (drop 14 packet))) (\<lambda>oper_hdr.
      bind_r (fault_r (hex_field hp (id_rodada oper_hdr) ID_RODADA_LEN_BYTES)) (\<lambda>id_rodada_hex.
      let body = drop 17 (drop 14 packet) in
      if oper oper_hdr = 1 then le_pedido relogio eth_header oper_hdr s
      else if oper oper_hdr = 5 then le_setup relogio hp eth_header oper_hdr body s
      else if oper oper_hdr = 2 then le_resposta relogio eth_header oper_hdr body s
      else if oper oper_hdr = 4 then le_verificacao relogio eth_header oper_hdr body s
      else Inr s))
    else Inr s)"

text \<open>The code for a reply and the two functions that print a header are there, but every call of them is
  commented out.\<close>

definition le_envia_pacote_resposta :: "'w os \<Rightarrow> byte list \<Rightarrow> byte list \<Rightarrow> byte list \<Rightarrow> byte list option
    \<Rightarrow> byte list \<Rightarrow> 'w proc \<Rightarrow> stop + 'w proc" where
  "le_envia_pacote_resposta = envia_pacote_resposta"

definition print_p4dra_oper_h :: "p4dra_oper_h \<Rightarrow> byte list" where
  "print_p4dra_oper_h h = bytes_of ''Oper: '' @ dec_digits (unat (oper h)) @ [10] @
     bytes_of ''ID Rodada: '' @ hex_text (id_rodada h) @ [10, 10]"

definition print_p4dra_setup_h :: "p4dra_setup_h \<Rightarrow> byte list" where
  "print_p4dra_setup_h h = bytes_of ''ID Dispositivo: '' @ hex_text (setup_id_dispositivo h) @ [10] @
     bytes_of ''Chave: '' @ hex_text (setup_chave h) @ [10, 10]"

text \<open>\<open>main\<close>: the exit code and the final state; \<open>tempos\<close> are the two texts of the last line.\<close>

definition le_p4dra_main :: "(nat \<Rightarrow> int) \<Rightarrow> heap \<Rightarrow> byte list \<times> byte list \<Rightarrow> pcap \<Rightarrow> byte list list
    \<Rightarrow> stop + nat \<times> reader" where
  "le_p4dra_main relogio hp tempos cap argv =
    (let s = \<lparr>saida = [], chave_lida = None, id_lido = None, leituras = 0\<rparr> in
     if length argv < 2 then Inl (Exit 1)
     else
       let total_pacotes = (if length argv = 3 then ucast (strtoul 10 (argv ! 2)) else 1000 :: u32) in
       if \<not> pcap_setup cap then Inr (2, s)
       else bind_r (pcap_loop (packet_handler_le relogio hp) (captured cap SNAP_LEN filter_exp) s) (\<lambda>s.
         Inr (0, s\<lparr>saida := saida s @ print_lld (sint total_pacotes) @ [59] @ fst tempos @ [59] @
           snd tempos @ [10]\<rparr>)))"

section \<open>The packets of the protocol\<close>

lemma le_decode:
  assumes "length d = 6" "length s = 6" "length r = 16" "roomy hp"
  shows "packet_handler_le relogio hp
      (create_custom_packet d s (oper_bytes \<lparr>oper = op, id_rodada = r\<rparr> @ body)) st =
    (let eth = \<lparr>ether_dhost = d, ether_shost = s, ether_type = ETHERTYPE_CUSTOM\<rparr>;
         hdr = \<lparr>oper = op, id_rodada = r\<rparr> in
     if op = 1 then le_pedido relogio eth hdr st
     else if op = 5 then le_setup relogio hp eth hdr body st
     else if op = 2 then le_resposta relogio eth hdr body st
     else if op = 4 then le_verificacao relogio eth hdr body st
     else Inr st)"
proof -
  have o: "read_oper (oper_bytes \<lparr>oper = op, id_rodada = r\<rparr> @ body) = Inr \<lparr>oper = op, id_rodada = r\<rparr>"
    by (rule oph.dec_enc) (simp add: wf_oper_def assms(3))
  have dr: "drop 17 (oper_bytes \<lparr>oper = op, id_rodada = r\<rparr> @ body) = body" for op
    using assms(3) by (simp add: oper_bytes_def)
  have h: "hex_field hp r ID_RODADA_LEN_BYTES = Inr (wire_get r)"
    using assms(3,4) by (intro hex_field_ok) (simp_all add: lens)
  show ?thesis
    unfolding packet_handler_le_def read_ether_packet [OF assms(1,2)] drop_ether_packet [OF assms(1,2)]
    using o h by (simp add: dr Let_def del: drop_drop drop_append)
qed

text \<open>The line of a packet, with the address of the sender before that of the receiver.\<close>

definition linha_de_pacote :: "int \<Rightarrow> byte list \<Rightarrow> byte list \<Rightarrow> byte \<Rightarrow> byte list \<Rightarrow> byte list list \<Rightarrow> byte list" where
  "linha_de_pacote t d s op r campos =
    linha_inicio t \<lparr>ether_dhost = d, ether_shost = s, ether_type = ETHERTYPE_CUSTOM\<rparr>
      \<lparr>oper = op, id_rodada = r\<rparr> @ linha_fim campos"

definition anota :: "reader \<Rightarrow> byte list \<Rightarrow> reader" where
  "anota s linha = s\<lparr>saida := saida s @ linha, leituras := leituras s + 1\<rparr>"

lemma le_setup_ok:
  assumes "roomy hp" "length c = 32" "length i = 16"
  shows "le_setup relogio hp eth hdr (setup_bytes \<lparr>setup_chave = c, setup_id_dispositivo = i\<rparr>) st =
    Inr (escreve relogio eth hdr [i, c] st\<lparr>chave_lida := Some (wire_get c), id_lido := Some (wire_get i)\<rparr>)"
proof -
  have "read_setup (setup_bytes \<lparr>setup_chave = c, setup_id_dispositivo = i\<rparr>) =
      Inr \<lparr>setup_chave = c, setup_id_dispositivo = i\<rparr>"
    by (rule stp.dec_exact) (simp add: wf_setup_def assms)
  then show ?thesis
    using assms by (simp add: le_setup_def byte_array_to_hexstring_ok deref_def swapEndian_ok width
        wire_get_def lens Let_def)
qed

text \<open>The reader writes one line per packet of the protocol, with the time, both addresses, the
  operation, the round and the fields of the packet; a set-up packet also leaves key and identifier
  as their sender held them. Nothing else changes; in particular a request is not answered.\<close>

lemma reader_logs:
  assumes "roomy hp" "length d = 6" "length s = 6" "length r = 16" "length i = 16" "length c = 32"
    "length p = 64" "length v = 64"
  shows "packet_handler_le relogio hp (request_packet d s r) st =
      Inr (anota st (linha_de_pacote (relogio (leituras st)) d s 1 r [])) \<and>
    packet_handler_le relogio hp (setup_packet d s r c i) st =
      Inr ((anota st (linha_de_pacote (relogio (leituras st)) d s 5 r [i, c]))\<lparr>chave_lida := Some (wire_get c),
        id_lido := Some (wire_get i)\<rparr>) \<and>
    packet_handler_le relogio hp (reply_packet d s r i p) st =
      Inr (anota st (linha_de_pacote (relogio (leituras st)) d s 2 r [i, p])) \<and>
    packet_handler_le relogio hp (verif_packet d s r i v p) st =
      Inr (anota st (linha_de_pacote (relogio (leituras st)) d s 4 r [i, v, p]))"
proof -
  note dec = le_decode [OF assms(2-4,1)]
  have "read_reply (reply_bytes \<lparr>reply_id_dispositivo = i, reply_prova = p\<rparr>) =
      Inr \<lparr>reply_id_dispositivo = i, reply_prova = p\<rparr>"
    by (rule rep.dec_exact) (simp add: wf_reply_def assms)
  moreover have "read_verificacao (verificacao_bytes
      \<lparr>verif_id_dispositivo = i, verif_verificacao = v, verif_prova = p\<rparr>) =
      Inr \<lparr>verif_id_dispositivo = i, verif_verificacao = v, verif_prova = p\<rparr>"
    by (rule ver.dec_exact) (simp add: wf_verificacao_def assms)
  ultimately have two: "packet_handler_le relogio hp (reply_packet d s r i p) st =
      Inr (anota st (linha_de_pacote (relogio (leituras st)) d s 2 r [i, p]))"
    "packet_handler_le relogio hp (verif_packet d s r i v p) st =
      Inr (anota st (linha_de_pacote (relogio (leituras st)) d s 4 r [i, v, p]))"
    unfolding reply_packet_def verif_packet_def dec
    by (simp_all add: le_resposta_def le_verificacao_def escreve_def anota_def linha_de_pacote_def Let_def)
  have "packet_handler_le relogio hp (request_packet d s r) st =
      Inr (anota st (linha_de_pacote (relogio (leituras st)) d s 1 r []))"
    using dec [of relogio 1 "[]" st] unfolding request_packet_def
    by (simp add: le_pedido_def escreve_def anota_def linha_de_pacote_def Let_def)
  moreover have "packet_handler_le relogio hp (setup_packet d s r c i) st =
      Inr ((anota st (linha_de_pacote (relogio (leituras st)) d s 5 r [i, c]))\<lparr>chave_lida := Some (wire_get c),
        id_lido := Some (wire_get i)\<rparr>)"
    unfolding setup_packet_def dec using le_setup_ok [OF assms(1,6,5)]
    by (simp add: escreve_def anota_def linha_de_pacote_def Let_def)
  ultimately show ?thesis using two by blast
qed


section \<open>Reading a line\<close>

text \<open>The parts of a line between semicolons.\<close>

fun campos :: "byte list \<Rightarrow> byte list list" where
  "campos [] = [[]]"
| "campos (c # cs) = (if c = 59 then [] # campos cs
     else (case campos cs of [] \<Rightarrow> [[c]] | f # fs \<Rightarrow> (c # f) # fs))"

lemma campos_ne: "campos s \<noteq> []"
  by (cases s) (auto split: list.splits)

lemma campos_append: "59 \<notin> set a \<Longrightarrow> campos (a @ 59 # b) = a # campos b"
  by (induction a) auto

definition sem_separador :: "byte list \<Rightarrow> bool" where
  "sem_separador t \<longleftrightarrow> 59 \<notin> set t \<and> 10 \<notin> set t"

lemma hex_digit_ne: "n < 16 \<Longrightarrow> hex_digit n \<noteq> 59 \<and> hex_digit n \<noteq> 10"
  using hex_digit_is_digit [of n] by (auto simp: is_digit_16_iff)

lemma print_02x_sep: "sem_separador (print_02x b)"
proof -
  have "unat b div 16 < 16" using unat_byte_less [of b] by linarith
  then show ?thesis
    using hex_digit_ne [of "unat b div 16"] hex_digit_ne [of "unat b mod 16"]
    by (auto simp: sem_separador_def print_02x_def)
qed

lemma hex_text_sep: "sem_separador (hex_text bs)"
  using print_02x_sep by (fastforce simp: hex_text_def sem_separador_def)

lemma print_x_sep: "sem_separador (print_x b)"
  using print_02x_sep [of b] hex_digit_ne [of "unat b"] by (auto simp: print_x_def sem_separador_def)

lemma dec_digits_sep: "sem_separador (dec_digits n)"
proof (induction n rule: less_induct)
  case (less n)
  have d: "(48 + of_nat k :: byte) \<noteq> 59 \<and> (48 + of_nat k :: byte) \<noteq> 10" if "k < 10" for k
    using that hex_digit_ne [of k] by (simp add: hex_digit_def)
  show ?case
  proof (cases "n < 10")
    case True
    then show ?thesis using d [of n] by (auto simp: dec_digits.simps [of n] sem_separador_def)
  next
    case False
    then show ?thesis
      using less [of "n div 10"] d [of "n mod 10"]
      by (auto simp: dec_digits.simps [of n] sem_separador_def)
  qed
qed

lemma print_lld_sep: "sem_separador (print_lld v)"
  using dec_digits_sep by (auto simp: print_lld_def sem_separador_def)

definition mac_campo :: "byte list \<Rightarrow> byte list" where
  "mac_campo m = print_02x (m ! 0) @ [58] @ print_02x (m ! 1) @ [58] @ print_02x (m ! 2) @ [58] @
     print_02x (m ! 3) @ [58] @ print_02x (m ! 4) @ [58] @ print_02x (m ! 5)"

lemma mac_text_campo: "mac_text m = mac_campo m @ [59]"
proof -
  have "[0..<6] = [0, 1, 2, 3, 4, 5 :: nat]" by (simp add: upt_rec)
  then show ?thesis by (simp add: mac_text_def mac_campo_def)
qed

lemma mac_campo_sep: "sem_separador (mac_campo m)"
  using print_02x_sep by (simp add: mac_campo_def sem_separador_def)

lemma campos_linha_fim: "campos (linha_fim cs) = [] # map hex_text cs @ [[10]]"
proof -
  have "campos (concat (map (\<lambda>c. 59 # hex_text c) cs) @ 59 # r) = [] # map hex_text cs @ campos r" for r
    using hex_text_sep
  proof (induction cs)
    case (Cons c cs)
    then obtain x where "concat (map (\<lambda>c. 59 # hex_text c) cs) @ 59 # r = 59 # x"
      by (cases cs) auto
    then show ?case using Cons campos_append [of "hex_text c" x] by (auto simp: sem_separador_def)
  qed simp
  from this [of "[10]"] show ?thesis by (simp add: linha_fim_def)
qed

lemma linha_fim_59: "\<exists>x. linha_fim cs = 59 # x \<and> campos x = map hex_text cs @ [[10]]"
  using campos_linha_fim [of cs] by (cases cs) (auto simp: linha_fim_def)

lemma campos_linha:
  "campos (linha_de_pacote t d s op r cs) =
    [print_lld t, mac_campo s, mac_campo d, print_x op, hex_text r] @ map hex_text cs @ [[10]]"
proof -
  obtain x where x: "linha_fim cs = 59 # x" "campos x = map hex_text cs @ [[10]]"
    using linha_fim_59 by blast
  show ?thesis
    using print_lld_sep [of t] mac_campo_sep [of s] mac_campo_sep [of d] print_x_sep [of op] hex_text_sep [of r]
    by (simp add: linha_de_pacote_def linha_inicio_def mac_text_campo x campos_append sem_separador_def)
qed

lemma logs_verificacao:
  assumes "roomy hp" "length d = 6" "length s = 6" "length r = 16" "length i = 16" "length p = 64"
    "length v = 64"
  shows "\<exists>st'. packet_handler_le relogio hp (verif_packet d s r i v p) st = Inr st'"
proof -
  have "read_verificacao (verificacao_bytes
      \<lparr>verif_id_dispositivo = i, verif_verificacao = v, verif_prova = p\<rparr>) =
      Inr \<lparr>verif_id_dispositivo = i, verif_verificacao = v, verif_prova = p\<rparr>"
    by (rule ver.dec_exact) (simp add: wf_verificacao_def assms)
  then show ?thesis
    unfolding verif_packet_def le_decode [OF assms(2-4,1)] by (simp add: le_verificacao_def Let_def)
qed

text \<open>The log shows the outcome of an attestation: in the line of a verification packet the sixth to
  eighth parts are device, calculated and received proof.\<close>

lemma verdict_line:
  assumes "roomy hp" "length d = 6" "length s = 6" "length r = 16" "length i = 16" "length p = 64"
    "length v = 64"
    and "packet_handler_le relogio hp (verif_packet d s r i v p) st = Inr st'"
  shows "\<exists>linha. saida st' = saida st @ linha \<and> campos linha ! 3 = [52] \<and> campos linha ! 4 = hex_text r \<and>
    campos linha ! 5 = hex_text i \<and> (campos linha ! 6 = campos linha ! 7 \<longleftrightarrow> v = p)"
proof -
  have "read_verificacao (verificacao_bytes
      \<lparr>verif_id_dispositivo = i, verif_verificacao = v, verif_prova = p\<rparr>) =
      Inr \<lparr>verif_id_dispositivo = i, verif_verificacao = v, verif_prova = p\<rparr>"
    by (rule ver.dec_exact) (simp add: wf_verificacao_def assms)
  then have "saida st' = saida st @ linha_de_pacote (relogio (leituras st)) d s 4 r [i, v, p]"
    using assms(8) unfolding verif_packet_def le_decode [OF assms(2-4,1)]
    by (auto simp: le_verificacao_def escreve_def linha_de_pacote_def Let_def)
  then show ?thesis
    by (intro exI [of _ "linha_de_pacote (relogio (leituras st)) d s 4 r [i, v, p]"])
      (simp add: campos_linha print_x_def hex_digit_def)
qed

section \<open>The log of a run\<close>

text \<open>The packets that leave a line.\<close>

definition registra :: "byte list \<Rightarrow> bool" where
  "registra packet \<longleftrightarrow> packet ! 12 = 0x12 \<and> packet ! 13 = 0x34 \<and> packet ! 14 \<in> {1, 2, 4, 5}"

lemma linha_quebra: "\<exists>l. linha_de_pacote t d s op r cs = l @ [10] \<and> 10 \<notin> set l"
  using print_lld_sep [of t] mac_campo_sep [of s] mac_campo_sep [of d] print_x_sep [of op] hex_text_sep
  by (intro exI [of _ "linha_inicio t \<lparr>ether_dhost = d, ether_shost = s, ether_type = ETHERTYPE_CUSTOM\<rparr>
      \<lparr>oper = op, id_rodada = r\<rparr> @ concat (map (\<lambda>c. 59 # hex_text c) cs) @ [59]"])
    (auto simp: linha_de_pacote_def linha_fim_def linha_inicio_def mac_text_campo sem_separador_def)

lemma escreve_breaks:
  "count_list (saida (escreve relogio eth hdr cs s)) 10 = count_list (saida s) 10 + 1"
proof -
  have "10 \<notin> set (linha_inicio t eth hdr)" for t
    using print_lld_sep [of t] mac_campo_sep print_x_sep hex_text_sep
    by (simp add: linha_inicio_def mac_text_campo sem_separador_def)
  moreover have "10 \<notin> set (concat (map (\<lambda>c. 59 # hex_text c) cs))"
    using hex_text_sep by (simp add: sem_separador_def)
  ultimately show ?thesis
    by (simp add: escreve_def linha_fim_def count_notin del: set_concat)
qed

lemma ethertype_bytes: "256 * unat (a :: byte) + unat (b :: byte) = 4660 \<longleftrightarrow> a = 0x12 \<and> b = 0x34"
proof
  assume sum: "256 * unat a + unat b = 4660"
  then have "unat a = 18" using unat_byte_less [of b] by linarith
  moreover from this have "unat b = 52" using sum by simp
  ultimately have "unat a = 18" "unat b = 52" by simp_all
  then show "a = 0x12 \<and> b = 0x34" by (simp add: word_unat_eq_iff)
qed simp

lemma le_step:
  assumes "packet_handler_le relogio hp packet s = Inr s'"
  shows "count_list (saida s') 10 = count_list (saida s) 10 + (if registra packet then 1 else 0)"
proof -
  from assms obtain eth where e: "read_ether packet = Inr eth"
    by (auto simp: packet_handler_le_def bind_r_Inr_iff fault_r_def split: sum.splits)
  then have l: "14 \<le> length packet" and t: "ether_type eth = 256 * unat (packet ! 12) + unat (packet ! 13)"
    by (auto simp: read_ether_def rd_def split: if_splits)
  have custom: "ether_type eth = ETHERTYPE_CUSTOM \<longleftrightarrow> packet ! 12 = 0x12 \<and> packet ! 13 = 0x34"
    unfolding t lens by (simp add: ethertype_bytes)
  show ?thesis
  proof (cases "ether_type eth = ETHERTYPE_CUSTOM")
    case False
    then show ?thesis using assms custom by (auto simp: packet_handler_le_def e registra_def)
  next
    case True
    then obtain hdr where o: "read_oper (drop 14 packet) = Inr hdr"
      using assms by (auto simp: packet_handler_le_def e bind_r_Inr_iff fault_r_def split: sum.splits)
    then have "oper hdr = packet ! 14"
      by (auto simp: read_oper_def rd_def lens split: if_splits)
    then show ?thesis
      using assms True custom
      by (auto simp: packet_handler_le_def e o bind_r_Inr_iff registra_def le_pedido_def le_setup_def
          le_resposta_def le_verificacao_def escreve_breaks Let_def split: if_splits)
  qed
qed

text \<open>A run of the reader that captures its packets without a fault prints one line for each request,
  set-up, reply and verification among them, whatever the fields contain, and one line at the end.\<close>

lemma reader_run_lines:
  assumes "le_p4dra_main relogio hp tempos cap argv = Inr (0, s)" "10 \<notin> set (fst tempos)"
    "10 \<notin> set (snd tempos)"
  shows "count_list (saida s) 10 = length (filter registra (captured cap SNAP_LEN filter_exp)) + 1"
proof -
  let ?s = "\<lparr>saida = [], chave_lida = None, id_lido = None, leituras = 0\<rparr>"
  from assms(1) obtain t total where
    l: "pcap_loop (packet_handler_le relogio hp) (captured cap SNAP_LEN filter_exp) ?s = Inr t" and
    s: "s = t\<lparr>saida := saida t @ print_lld total @ [59] @ fst tempos @ [59] @ snd tempos @ [10]\<rparr>"
    by (auto simp: le_p4dra_main_def Let_def bind_r_Inr_iff split: if_splits)
  have "pcap_loop (packet_handler_le relogio hp) ps a = Inr b \<Longrightarrow>
      count_list (saida b) 10 = count_list (saida a) 10 + length (filter registra ps)" for ps a b
    by (induction ps arbitrary: a) (fastforce simp: bind_r_Inr_iff dest: le_step)+
  from this [OF l] show ?thesis
    using assms(2,3) print_lld_sep [of total] by (simp add: s sem_separador_def count_notin)
qed

end
