(* ===== verification/Senders.thy ===== *)
theory Senders
  imports Prover Database
begin

text \<open>
  The programs that send a sequence of packets: \<open>envia_configuracoes_arquivo.c\<close>,
  \<open>envia_setup_host_arquivo.c\<close>, \<open>envia_provas_arquivo.c\<close>, \<open>envia_pedidos.c\<close>,
  \<open>envia_pedidos_host.c\<close> and \<open>envia_provas.c\<close>, all in \<open>tools/src\<close>. Each builds one packet per
  device, with the device number in the last bytes of a MAC address. \<open>hexstring_to_byte_array\<close>
  always returns 0, so the error branch after it is never taken.
\<close>

section \<open>Loops\<close>

text \<open>\<open>for (int id = 0; id < n; id++)\<close>.\<close>

fun for_each :: "(nat \<Rightarrow> 's \<Rightarrow> stop + 's) \<Rightarrow> nat list \<Rightarrow> 's \<Rightarrow> stop + 's" where
  "for_each f [] s = Inr s"
| "for_each f (i # is) s = bind_r (f i s) (for_each f is)"

lemma for_each_snoc: "for_each f (is @ [i]) s = bind_r (for_each f is s) (f i)"
proof (induction "is" arbitrary: s)
  case Nil
  then show ?case by (cases "f i s") simp_all
next
  case (Cons j js)
  then show ?case by (cases "f j s") simp_all
qed

lemma for_each_invariant:
  assumes "I 0 s" "\<And>i t. i < n \<Longrightarrow> I i t \<Longrightarrow> \<exists>t'. f i t = Inr t' \<and> I (Suc i) t'"
  shows "\<exists>s'. for_each f [0..<n] s = Inr s' \<and> I n s'"
  using assms
proof (induction n)
  case (Suc n)
  then obtain t where t: "for_each f [0..<n] s = Inr t" "I n t" by fastforce
  then obtain t' where "f n t = Inr t'" "I (Suc n) t'" using Suc.prems(2) [of n t] by auto
  then show ?case using t by (simp add: for_each_snoc)
qed simp

record 'w sender =
  sproc :: "'w proc"
  tabela :: "id_chave_prova_t list"

definition mac_host :: "byte \<Rightarrow> byte \<Rightarrow> byte \<Rightarrow> byte list" where
  "mac_host b3 b4 b5 = [0x52, 0x54, 0x00, b3, b4, b5]"

definition mac_controlador :: "byte list" where
  "mac_controlador = [0x08, 0x00, 0x00, 0x00, 0x01, 0x01]"

text \<open>The address of device number \<open>ident\<close>: only the last byte counts from 1.\<close>

definition device_mac :: "nat \<Rightarrow> byte list" where
  "device_mac ident = mac_host (of_nat (ident div 65536 mod 256)) (of_nat (ident div 256 mod 256))
     (of_nat ((ident + 1) mod 256))"

text \<open>The count in an optional argument, cut to the size of the array.\<close>

definition quantidade :: "nat \<Rightarrow> u32 \<Rightarrow> nat \<Rightarrow> byte list list \<Rightarrow> nat" where
  "quantidade k padrao id_max argv =
    (let q = (if length argv = k + 1 then ucast (strtoul 10 (argv ! k)) else padrao) in
     if id_max < unat q then id_max else unat q)"

text \<open>Every program has its own array, of \<open>ID_MAX\<close> elements, and its own copy of the loader.\<close>

definition carrega_configuracoes :: "byte list option \<Rightarrow> id_chave_prova_t list res" where
  "carrega_configuracoes arquivo = carregarArquivoMemoria arquivo (dados_inicial 200)"

definition carrega_setup :: "byte list option \<Rightarrow> id_chave_prova_t list res" where
  "carrega_setup arquivo = carregarArquivoMemoria arquivo (dados_inicial 1000000)"

definition carrega_provas :: "byte list option \<Rightarrow> id_chave_prova_t list res" where
  "carrega_provas arquivo = carregarArquivoMemoria arquivo (dados_inicial 1000000)"

section \<open>Configurations\<close>

record config_header =
  conf_oper :: byte
  conf_id_rodada :: "byte list"
  conf_chave :: "byte list"
  conf_id_dispositivo :: "byte list"

definition config_bytes :: "config_header \<Rightarrow> byte list" where
  "config_bytes h = conf_oper h # conf_id_rodada h @ conf_chave h @ conf_id_dispositivo h"

text \<open>One pass of \<open>envia_configuracoes_arquivo\<close>: the round identifier has \<open>NONCE_LEN_BYTES\<close> bytes
  here, and the texts are sent in the order of the file.\<close>

definition envia_configuracao :: "'w os \<Rightarrow> nat \<Rightarrow> 'w sender \<Rightarrow> stop + 'w sender" where
  "envia_configuracao os ident s =
    bind_r (fault_r (hexstring_to_byte_array (replicate ID_DISPOSITIVO_LEN_BYTES 0)
      (id_dispositivo (tabela s ! ident)) ID_DISPOSITIVO_LEN)) (\<lambda>d.
    bind_r (fault_r (hexstring_to_byte_array (replicate CHAVE_LEN_BYTES 0)
      (chave (tabela s ! ident)) CHAVE_LEN)) (\<lambda>c.
    let dest_mac = mac_host 0 (of_nat (ident div 256)) (of_nat ((ident + 1) mod 256));
        custom_hdr = \<lparr>conf_oper = 5, conf_id_rodada = replicate NONCE_LEN_BYTES 0, conf_chave = c,
          conf_id_dispositivo = d\<rparr>;
        packet = create_custom_packet dest_mac mac_controlador (config_bytes custom_hdr) in
    bind_r (run_sendto os (mac_host 0 0 0) packet (sproc s)) (\<lambda>p. Inr (s\<lparr>sproc := p\<rparr>))))"

definition envia_configuracoes_main ::
    "'w os \<Rightarrow> (byte list \<Rightarrow> byte list option) \<Rightarrow> byte list list \<Rightarrow> 'w proc \<Rightarrow> stop + 'w sender" where
  "envia_configuracoes_main os abrir argv p =
    (if length argv < 3 then Inl (Exit 1)
     else
       let n = quantidade 3 1000 200 argv in
       bind_r (fault_r (carrega_configuracoes (abrir (cstr (argv ! 1))))) (\<lambda>t.
       if \<not> socket_ok os (pw p) then Inl (Exit 1)
       else for_each (envia_configuracao os) [0..<n] \<lparr>sproc = p, tabela = t\<rparr>))"

section \<open>Set-up of the hosts\<close>

text \<open>One pass of \<open>envia_setup_host_arquivo\<close>: the two texts are swapped in the array itself.\<close>

definition envia_setup :: "'w os \<Rightarrow> nat \<Rightarrow> 'w sender \<Rightarrow> stop + 'w sender" where
  "envia_setup os ident s =
    (let e = tabela s ! ident; dest_mac = device_mac ident in
    bind_r (fault_r (swapEndian (id_dispositivo e) ID_DISPOSITIVO_LEN)) (\<lambda>i.
    bind_r (fault_r (swapEndian (chave e) CHAVE_LEN)) (\<lambda>k.
    bind_r (fault_r (hexstring_to_byte_array (replicate ID_DISPOSITIVO_LEN_BYTES 0) i ID_DISPOSITIVO_LEN))
      (\<lambda>d.
    bind_r (fault_r (hexstring_to_byte_array (replicate CHAVE_LEN_BYTES 0) k CHAVE_LEN)) (\<lambda>c.
    let packet = create_custom_packet dest_mac mac_controlador
          (oper_bytes \<lparr>oper = 5, id_rodada = replicate ID_RODADA_LEN_BYTES 0\<rparr> @
           setup_bytes \<lparr>setup_chave = c, setup_id_dispositivo = d\<rparr>) in
    bind_r (run_sendto os (mac_host 0 0 0) packet (sproc s)) (\<lambda>p.
      Inr (s\<lparr>sproc := p, tabela := (tabela s)[ident := e\<lparr>id_dispositivo := i, chave := k\<rparr>]\<rparr>)))))))"

definition envia_setup_main ::
    "'w os \<Rightarrow> (byte list \<Rightarrow> byte list option) \<Rightarrow> byte list list \<Rightarrow> 'w proc \<Rightarrow> stop + 'w sender" where
  "envia_setup_main os abrir argv p =
    (if length argv < 3 then Inl (Exit 1)
     else
       let n = quantidade 3 200 1000000 argv in
       bind_r (fault_r (carrega_setup (abrir (cstr (argv ! 1))))) (\<lambda>t.
       if \<not> socket_ok os (pw p) then Inl (Exit 1)
       else for_each (envia_setup os) [0..<n] \<lparr>sproc = p, tabela = t\<rparr>))"

section \<open>Recorded proofs\<close>

text \<open>One pass of \<open>envia_provas_arquivo\<close> with the round identifier already in the header.\<close>

definition envia_prova :: "'w os \<Rightarrow> byte list \<Rightarrow> nat \<Rightarrow> 'w sender \<Rightarrow> stop + 'w sender" where
  "envia_prova os rodada ident s =
    (let j = ident mod 20000; e = tabela s ! j;
         src_mac = mac_host (of_nat (ident div 65536)) (of_nat (ident div 256 mod 256))
           (of_nat ((ident + 1) mod 256)) in
    bind_r (fault_r (swapEndian (id_dispositivo e) ID_DISPOSITIVO_LEN)) (\<lambda>i.
    bind_r (fault_r (swapEndian (prova e) PROVA_LEN)) (\<lambda>v.
    bind_r (fault_r (hexstring_to_byte_array (replicate ID_DISPOSITIVO_LEN_BYTES 0) i ID_DISPOSITIVO_LEN))
      (\<lambda>d.
    bind_r (fault_r (hexstring_to_byte_array (replicate PROVA_LEN_BYTES 0) v PROVA_LEN)) (\<lambda>q.
    let packet = create_custom_packet mac_controlador src_mac
          (oper_bytes \<lparr>oper = 2, id_rodada = rodada\<rparr> @
           reply_bytes \<lparr>reply_id_dispositivo = d, reply_prova = q\<rparr>) in
    bind_r (run_sendto os mac_controlador packet (sproc s)) (\<lambda>p.
      Inr (s\<lparr>sproc := p, tabela := (tabela s)[j := e\<lparr>id_dispositivo := i, prova := v\<rparr>]\<rparr>)))))))"

definition envia_provas_arquivo_main ::
    "'w os \<Rightarrow> (byte list \<Rightarrow> byte list option) \<Rightarrow> byte list list \<Rightarrow> 'w proc \<Rightarrow> stop + 'w sender" where
  "envia_provas_arquivo_main os abrir argv p =
    (if length argv < 4 then Inl (Exit 1)
     else
       let n = quantidade 4 1000 1000000 argv in
       bind_r (fault_r (carrega_provas (abrir (cstr (argv ! 1))))) (\<lambda>t.
       bind_r (fault_r (put_field (argv ! 3) ID_RODADA_LEN)) (\<lambda>rodada.
       if \<not> socket_ok os (pw p) then Inl (Exit 1)
       else for_each (envia_prova os rodada) [0..<n] \<lparr>sproc = p, tabela = t\<rparr>)))"

section \<open>Requests\<close>

text \<open>One pass of \<open>envia_pedidos\<close> (operation 0, for the switch) and of \<open>envia_pedidos_host\<close>
  (operation 1, for the host).\<close>

definition envia_pedido :: "'w os \<Rightarrow> byte \<Rightarrow> byte list \<Rightarrow> nat \<Rightarrow> 'w proc \<Rightarrow> stop + 'w proc" where
  "envia_pedido os operacao rodada ident p =
    (let dest_mac = device_mac ident;
         packet = create_custom_packet dest_mac mac_controlador
           (oper_bytes \<lparr>oper = operacao, id_rodada = rodada\<rparr>)
     in run_sendto os (mac_host 0 0 0) packet p)"

definition envia_pedidos_com :: "byte \<Rightarrow> 'w os \<Rightarrow> byte list list \<Rightarrow> 'w proc \<Rightarrow> stop + 'w proc" where
  "envia_pedidos_com operacao os argv p =
    (if length argv < 3 then Inl (Exit 1)
     else
       let n = quantidade 3 200 1000000 argv in
       bind_r (fault_r (put_field (argv ! 2) ID_RODADA_LEN)) (\<lambda>rodada.
       if \<not> socket_ok os (pw p) then Inl (Exit 1)
       else for_each (envia_pedido os operacao rodada) [0..<n] p))"

definition envia_pedidos_main :: "'w os \<Rightarrow> byte list list \<Rightarrow> 'w proc \<Rightarrow> stop + 'w proc" where
  "envia_pedidos_main os argv p = envia_pedidos_com 0 os argv p"

definition envia_pedidos_host_main :: "'w os \<Rightarrow> byte list list \<Rightarrow> 'w proc \<Rightarrow> stop + 'w proc" where
  "envia_pedidos_host_main os argv p = envia_pedidos_com 1 os argv p"

section \<open>A single proof from the command line\<close>

text \<open>\<open>envia_provas.c\<close> copies the characters of its arguments into the header as they are, and uses a
  round identifier of eight bytes. It does not test the number of arguments.\<close>

definition packet_provas :: "byte list \<Rightarrow> byte list \<Rightarrow> byte \<Rightarrow> byte list \<Rightarrow> byte list \<Rightarrow> byte list \<Rightarrow> byte list" where
  "packet_provas dest_mac src_mac operacao rodada dispositivo prv = create_custom_packet dest_mac src_mac
     (operacao # rodada @ dispositivo @ prv)"

definition envia_provas_main :: "'w os \<Rightarrow> byte list list \<Rightarrow> 'w proc \<Rightarrow> stop + 'w proc" where
  "envia_provas_main os argv p =
    bind_r (fault_r (arg 1 argv)) (\<lambda>a1.
    bind_r (fault_r (bind_r (arg 2 argv) (rd 8))) (\<lambda>rodada.
    bind_r (fault_r (bind_r (arg 3 argv) (rd 16))) (\<lambda>dispositivo.
    bind_r (fault_r (bind_r (arg 4 argv) (rd 64))) (\<lambda>prv.
    let packet = packet_provas (replicate 6 0xFF) [0x00, 0x0a, 0x95, 0x9d, 0x68, 0x16]
          (ucast (strtoul 10 a1)) rodada dispositivo prv in
    if \<not> socket_ok os (pw p) then Inl (Exit 1)
    else run_sendto os (replicate 6 0xFF) packet p))))"

section \<open>Addresses\<close>

lemma of_nat_byte_eq: "a < 256 \<Longrightarrow> b < 256 \<Longrightarrow> (of_nat a :: byte) = of_nat b \<longleftrightarrow> a = b"
  by (auto simp: word_unat_eq_iff unat_of_nat)

lemma mod_256_cancel: "(a + 1) mod 256 = (b + 1) mod (256 :: nat) \<Longrightarrow> a mod 256 = b mod 256"
  by (simp add: mod_Suc split: if_splits)

lemma bytes_determine:
  assumes "a div 65536 mod 256 = b div 65536 mod (256 :: nat)" "a div 256 mod 256 = b div 256 mod 256"
    "a mod 256 = b mod 256" "a < 16777216" "b < 16777216"
  shows "a = b"
proof -
  have d: "n div 65536 = n div 256 div 256" "n div 65536 mod 256 = n div 65536" if "n < 16777216" for n :: nat
    using that by (simp_all add: div_mult2_eq [symmetric])
  have "a div 256 div 256 = b div 256 div 256" using assms(1) d [OF assms(4)] d [OF assms(5)] by simp
  then have "a div 256 = b div 256" using assms(2) by (metis div_mult_mod_eq)
  then show ?thesis using assms(3) by (metis div_mult_mod_eq)
qed

lemma carry_iff: "b div 256 mod 256 = (b + 1) div 256 mod (256 :: nat) \<longleftrightarrow> (b + 1) mod 256 \<noteq> 0"
  using mod_Suc [of b 256] by (simp add: div_Suc mod_Suc split: if_splits)

lemma no_carry: "(b + 1) mod (256 :: nat) \<noteq> 0 \<Longrightarrow> (b + 1) div 65536 = b div 65536"
proof -
  assume "(b + 1) mod (256 :: nat) \<noteq> 0"
  then have "(b + 1) div 256 = b div 256" by (simp add: div_Suc)
  then show ?thesis
    using div_mult2_eq [of "b + 1" 256 256] div_mult2_eq [of b 256 256] by simp
qed

text \<open>The addresses of different devices (below \<open>2 ^ 24\<close>) are different; but the address is the
  number of the device counted from 1, in network order, only when that number does not end in a zero
  byte: the last byte wraps without a carry into the one before it.\<close>

lemma device_mac_distinct:
  assumes "a < 16777216" "b < 16777215"
  shows "(device_mac a = device_mac b \<longleftrightarrow> a = b) \<and>
    (device_mac b = mac_host (of_nat ((b + 1) div 65536)) (of_nat ((b + 1) div 256 mod 256))
       (of_nat ((b + 1) mod 256)) \<longleftrightarrow> (b + 1) mod 256 \<noteq> 0)"
proof
  have "a = b" if "a div 65536 mod 256 = b div 65536 mod 256" "a div 256 mod 256 = b div 256 mod 256"
    "(a + 1) mod 256 = (b + 1) mod 256"
    by (rule bytes_determine [OF that(1,2) mod_256_cancel [OF that(3)]]) (use assms in linarith)+
  then show "device_mac a = device_mac b \<longleftrightarrow> a = b"
    by (auto simp: device_mac_def mac_host_def of_nat_byte_eq simp del: of_nat_mod)
next
  have lt: "(b + 1) div 65536 < 256" "b div 65536 < 256" using assms(2) by linarith+
  have "b div 65536 mod 256 = (b + 1) div 65536 \<and> b div 256 mod 256 = (b + 1) div 256 mod 256
      \<longleftrightarrow> (b + 1) mod 256 \<noteq> 0" using carry_iff [of b] no_carry [of b] lt by auto
  then show "device_mac b = mac_host (of_nat ((b + 1) div 65536)) (of_nat ((b + 1) div 256 mod 256))
       (of_nat ((b + 1) mod 256)) \<longleftrightarrow> (b + 1) mod 256 \<noteq> 0"
    unfolding device_mac_def mac_host_def using lt by (simp add: of_nat_byte_eq del: of_nat_mod)
qed

section \<open>Packets that a run sends\<close>

definition sends_all :: "'w os \<Rightarrow> bool" where
  "sends_all os \<longleftrightarrow> (\<forall>addr packet w. fst (sendto os addr packet w))"

lemma run_sendto_ok:
  "sends_all os \<Longrightarrow> \<exists>w. run_sendto os addr packet p = Inr (p\<lparr>pw := w, sent := sent p @ [(addr, packet)]\<rparr>)"
proof -
  assume "sends_all os"
  then have "fst (sendto os addr packet (pw p))" by (simp add: sends_all_def)
  then show ?thesis by (auto simp: run_sendto_def split: prod.splits)
qed

lemma put_parts:
  "length h = n \<Longrightarrow> n mod 8 = 0 \<Longrightarrow> swapEndian h n = Inr (swap_hex h)"
  "length h = n \<Longrightarrow> n mod 8 = 0 \<Longrightarrow> m = n div 2 \<Longrightarrow>
   hexstring_to_byte_array (replicate m 0) (swap_hex h) n = Inr (wire_put h)"
  by (auto simp: swapEndian_ok hexstring_to_byte_array_def rd_def wr_def width wire_put_def)

lemma envia_setup_step:
  assumes "sends_all os" "wf_entry (tabela s ! i)"
  shows "\<exists>w. envia_setup os i s = Inr (s\<lparr>sproc := (sproc s)\<lparr>pw := w, sent := sent (sproc s) @
      [(mac_host 0 0 0, setup_packet (device_mac i) mac_controlador (replicate 16 0)
        (wire_put (chave (tabela s ! i))) (wire_put (id_dispositivo (tabela s ! i))))]\<rparr>,
      tabela := (tabela s)[i := (tabela s ! i)\<lparr>id_dispositivo := swap_hex (id_dispositivo (tabela s ! i)),
        chave := swap_hex (chave (tabela s ! i))\<rparr>]\<rparr>)"
proof -
  let ?e = "tabela s ! i"
  let ?pk = "setup_packet (device_mac i) mac_controlador (replicate 16 0) (wire_put (chave ?e))
    (wire_put (id_dispositivo ?e))"
  obtain w where w: "run_sendto os (mac_host 0 0 0) ?pk (sproc s) =
      Inr ((sproc s)\<lparr>pw := w, sent := sent (sproc s) @ [(mac_host 0 0 0, ?pk)]\<rparr>)"
    using run_sendto_ok [OF assms(1)] by blast
  show ?thesis
    using assms(2) w
    by (intro exI [of _ w]) (simp add: envia_setup_def wf_entry_def put_parts lens Let_def setup_packet_def)
qed

section \<open>The interface of a sending loop\<close>

text \<open>A loop over the devices that sends one packet in each pass. The passes below \<open>bound env\<close> keep the
  invariant \<open>inv\<close>; then the loop sends the packets \<open>pk\<close> in order.\<close>

locale sending_loop =
  fixes step :: "'env \<Rightarrow> nat \<Rightarrow> 's \<Rightarrow> stop + 's"
    and out :: "'s \<Rightarrow> byte list list"
    and bound :: "'env \<Rightarrow> nat"
    and pk :: "'env \<Rightarrow> nat \<Rightarrow> byte list"
    and inv :: "'env \<Rightarrow> nat \<Rightarrow> 's \<Rightarrow> bool"
  assumes pass: "i < bound env \<Longrightarrow> inv env i s \<Longrightarrow>
    \<exists>s'. step env i s = Inr s' \<and> out s' = out s @ [pk env i] \<and> inv env (Suc i) s'"
begin

lemma loop_sends:
  assumes "inv env 0 s" "n \<le> bound env"
  shows "\<exists>s'. for_each (step env) [0..<n] s = Inr s' \<and> out s' = out s @ map (pk env) [0..<n] \<and> inv env n s'"
proof (rule for_each_invariant)
  show "out s = out s @ map (pk env) [0..<0] \<and> inv env 0 s" using assms(1) by simp
next
  fix i t
  assume "i < n" and t: "out t = out s @ map (pk env) [0..<i] \<and> inv env i t"
  then show "\<exists>t'. step env i t = Inr t' \<and> out t' = out s @ map (pk env) [0..<Suc i] \<and> inv env (Suc i) t'"
    using pass [of i env t] assms(2) by fastforce
qed

lemma loop_sends_from:
  "inv env 0 s \<Longrightarrow> out s = [] \<Longrightarrow> n \<le> bound env \<Longrightarrow>
   \<exists>s'. for_each (step env) [0..<n] s = Inr s' \<and> out s' = map (pk env) [0..<n]"
  using loop_sends [of env s n] by auto

end

text \<open>The packet of the set-up program for the device in line \<open>i\<close>.\<close>

definition setup_packet_of :: "id_chave_prova_t list \<Rightarrow> nat \<Rightarrow> byte list" where
  "setup_packet_of es i = setup_packet (device_mac i) mac_controlador (replicate 16 0)
     (wire_put (chave (es ! i))) (wire_put (id_dispositivo (es ! i)))"

interpretation setup_loop: sending_loop "\<lambda>(os :: 'w os, es). envia_setup os" "\<lambda>s. map snd (sent (sproc s))"
  "\<lambda>(os, es). length es" "\<lambda>(os, es). setup_packet_of es"
  "\<lambda>(os, es) i s. sends_all os \<and> list_all wf_entry es \<and> length es \<le> length (tabela s) \<and>
     (\<forall>j. i \<le> j \<and> j < length es \<longrightarrow> tabela s ! j = es ! j)"
proof
  fix i and s :: "'w sender" and env :: "'w os \<times> id_chave_prova_t list"
  obtain os es where env: "env = (os, es)" by (cases env)
  assume "i < (case env of (os, es) \<Rightarrow> length es)"
    and "(case env of (os, es) \<Rightarrow> \<lambda>i s. sends_all os \<and> list_all wf_entry es \<and>
      length es \<le> length (tabela s) \<and> (\<forall>j. i \<le> j \<and> j < length es \<longrightarrow> tabela s ! j = es ! j)) i s"
  then have i: "i < length es" "sends_all os" "list_all wf_entry es" "length es \<le> length (tabela s)"
    "tabela s ! i = es ! i" "\<forall>j. Suc i \<le> j \<and> j < length es \<longrightarrow> tabela s ! j = es ! j"
    by (simp_all add: env)
  then have "wf_entry (tabela s ! i)" by (simp add: list_all_length)
  from envia_setup_step [OF i(2) this] obtain w where
    st: "envia_setup os i s = Inr (s\<lparr>sproc := (sproc s)\<lparr>pw := w, sent := sent (sproc s) @
      [(mac_host 0 0 0, setup_packet_of es i)]\<rparr>, tabela := (tabela s)[i := (es ! i)\<lparr>id_dispositivo :=
      swap_hex (id_dispositivo (es ! i)), chave := swap_hex (chave (es ! i))\<rparr>]\<rparr>)"
    unfolding i(5) setup_packet_of_def by blast
  show "\<exists>s'. (case env of (os, es) \<Rightarrow> envia_setup os) i s = Inr s' \<and>
      map snd (sent (sproc s')) = map snd (sent (sproc s)) @ [(case env of (os, es) \<Rightarrow> setup_packet_of es) i] \<and>
      (case env of (os, es) \<Rightarrow> \<lambda>i s. sends_all os \<and> list_all wf_entry es \<and>
        length es \<le> length (tabela s) \<and> (\<forall>j. i \<le> j \<and> j < length es \<longrightarrow> tabela s ! j = es ! j)) (Suc i) s'"
    using i by (simp add: env st)
qed

lemma load_texto:
  "list_all wf_texto es \<Longrightarrow> length es \<le> m \<Longrightarrow> arquivo = Some (arquivo_de es) \<Longrightarrow>
   carregarArquivoMemoria arquivo (dados_inicial m) = Inr (es @ replicate (m - length es) zero_entry)"
  using carregar_texto [of es m] by simp

lemma setup_sends:
  fixes p :: "'w proc"
  assumes "sends_all os" "socket_ok os (pw p)" "sent p = []" "3 \<le> length argv"
    and "abrir (cstr (argv ! 1)) = Some (arquivo_de es)" "list_all wf_texto es" "length es \<le> 1000000"
    and "n = quantidade 3 200 1000000 argv" "n \<le> length es"
  shows "\<exists>s. envia_setup_main os abrir argv p = Inr s \<and> map snd (sent (sproc s)) =
    map (\<lambda>i. setup_packet (device_mac i) mac_controlador (replicate 16 0) (wire_put (chave (es ! i)))
      (wire_put (id_dispositivo (es ! i)))) [0..<n]"
proof -
  let ?s = "\<lparr>sproc = p, tabela = es @ replicate (1000000 - length es) zero_entry\<rparr>"
  have wf: "list_all wf_entry es" using assms(6) by (auto simp: list_all_iff wf_texto_wf)
  have "\<exists>s. for_each (envia_setup os) [0..<n] ?s = Inr s \<and>
      map snd (sent (sproc s)) = map (setup_packet_of es) [0..<n]"
    using setup_loop.loop_sends_from [of "(os, es)" ?s n] assms(1,3,9) wf by (simp add: nth_append)
  then show ?thesis
    using assms(2,4,8) load_texto [OF assms(6,7,5)]
    by (simp add: envia_setup_main_def carrega_setup_def setup_packet_of_def [abs_def])
qed

text \<open>The set-up program sends, in the order of the file, one set-up packet per device, addressed to
  the host of that device, from which the host reads back key and identifier as they are in the file.\<close>

lemma envia_setup_sends:
  fixes p :: "'w proc"
  assumes "sends_all os" "socket_ok os (pw p)" "sent p = []" "3 \<le> length argv"
    and "abrir (cstr (argv ! 1)) = Some (arquivo_de es)" "list_all wf_texto es" "length es \<le> 1000000"
    and "n = quantidade 3 200 1000000 argv" "n \<le> length es"
  shows "\<exists>s. envia_setup_main os abrir argv p = Inr s \<and> map snd (sent (sproc s)) =
    map (\<lambda>i. setup_packet (device_mac i) mac_controlador (replicate 16 0) (wire_put (chave (es ! i)))
      (wire_put (id_dispositivo (es ! i)))) [0..<n]"
  using assms by (rule setup_sends)

lemma sends_all_example: "sends_all (os_example out)"
  by (simp add: sends_all_def os_example_def)

lemma strtoul_example: "strtoul 10 [49, 0] = 1"
  by (simp add: strtoul_def cstr_def isspace_def digits_value_def is_digit_def dval_def digit_val_def)

text \<open>The configuration program sends a packet with operation 5 that no host accepts: its header has
  eight bytes less than the set-up header of the host, so the handler of the host reads past the end
  of the packet.\<close>

lemma configuration_not_accepted:
  assumes "sends_all os" "wf_entry (tabela s ! i)" "roomy (malloc os')"
  shows "\<exists>s' packet. envia_configuracao os i s = Inr s' \<and>
    sent (sproc s') = sent (sproc s) @ [(mac_host 0 0 0, packet)] \<and> length packet = 71 \<and>
    packet_handler os' packet st = Inl (Fault ReadOverrun)"
proof -
  let ?e = "tabela s ! i"
  define c where "c = hex_pairs (chave ?e)"
  define d where "d = hex_pairs (id_dispositivo ?e)"
  define mac where "mac = mac_host 0 (of_nat (i div 256)) (of_nat ((i + 1) mod 256))"
  define r where "r = replicate 8 0 @ take 8 c"
  define packet where "packet = create_custom_packet mac mac_controlador
    (oper_bytes \<lparr>oper = 5, id_rodada = r\<rparr> @ drop 8 c @ d)"
  have l: "length c = 32" "length d = 16"
    using assms(2) by (simp_all add: c_def d_def wf_entry_def width lens)
  have m: "length mac = 6" "length mac_controlador = 6"
    by (simp_all add: mac_def mac_host_def mac_controlador_def)
  have parse: "hexstring_to_byte_array (replicate ID_DISPOSITIVO_LEN_BYTES 0) (id_dispositivo ?e)
      ID_DISPOSITIVO_LEN = Inr d" "hexstring_to_byte_array (replicate CHAVE_LEN_BYTES 0) (chave ?e) CHAVE_LEN = Inr c"
    using assms(2) by (simp_all add: c_def d_def wf_entry_def hexstring_to_byte_array_def rd_def wr_def width lens)
  have parts: "take 8 c @ drop 8 c @ d = c @ d" by (simp flip: append_assoc)
  have bytes: "create_custom_packet mac mac_controlador (config_bytes \<lparr>conf_oper = 5,
      conf_id_rodada = replicate NONCE_LEN_BYTES 0, conf_chave = c, conf_id_dispositivo = d\<rparr>) = packet"
    by (simp add: packet_def config_bytes_def oper_bytes_def r_def lens parts)
  obtain w where w: "run_sendto os (mac_host 0 0 0) packet (sproc s) =
      Inr ((sproc s)\<lparr>pw := w, sent := sent (sproc s) @ [(mac_host 0 0 0, packet)]\<rparr>)"
    using run_sendto_ok [OF assms(1)] by blast
  have short: "read_setup (drop 8 c @ d) = Inl ReadOverrun"
    by (rule stp.dec_short) (simp add: l)
  have "packet_handler os' packet st = Inl (Fault ReadOverrun)"
    unfolding packet_def using packet_handler_decode [OF m _ assms(3), of r 5 "drop 8 c @ d" st] short l
    by (simp add: r_def handle_setup_def)
  moreover have "length packet = 71"
    by (simp add: packet_def length_create_custom_packet [OF m] oper_bytes_def r_def l)
  ultimately show ?thesis
    using w bytes by (intro exI [of _ "s\<lparr>sproc := (sproc s)\<lparr>pw := w,
      sent := sent (sproc s) @ [(mac_host 0 0 0, packet)]\<rparr>\<rparr>"] exI [of _ packet])
      (simp add: envia_configuracao_def parse Let_def mac_def)
qed

section \<open>Requests\<close>

lemma envia_pedido_ok:
  "sends_all os \<Longrightarrow> \<exists>w. envia_pedido os operacao rodada i p = Inr (p\<lparr>pw := w, sent := sent p @
    [(mac_host 0 0 0, create_custom_packet (device_mac i) mac_controlador
       (oper_bytes \<lparr>oper = operacao, id_rodada = rodada\<rparr>))]\<rparr>)"
  unfolding envia_pedido_def Let_def by (rule run_sendto_ok)

interpretation request_loop: sending_loop "\<lambda>(os, operacao, rodada). envia_pedido os operacao rodada"
  "\<lambda>p. map snd (sent p)" "\<lambda>_. 1000000"
  "\<lambda>(os, operacao, rodada) i. create_custom_packet (device_mac i) mac_controlador
     (oper_bytes \<lparr>oper = operacao, id_rodada = rodada\<rparr>)"
  "\<lambda>(os, operacao, rodada) i p. sends_all os"
proof
  fix i :: nat and p :: "'w proc" and env :: "'w os \<times> byte \<times> byte list"
  obtain os operacao rodada where env: "env = (os, operacao, rodada)" by (cases env)
  assume "(case env of (os, operacao, rodada) \<Rightarrow> \<lambda>i p. sends_all os) i p"
  then show "\<exists>p'. (case env of (os, operacao, rodada) \<Rightarrow> envia_pedido os operacao rodada) i p = Inr p' \<and>
      map snd (sent p') = map snd (sent p) @ [(case env of (os, operacao, rodada) \<Rightarrow> \<lambda>i.
        create_custom_packet (device_mac i) mac_controlador (oper_bytes \<lparr>oper = operacao, id_rodada = rodada\<rparr>)) i] \<and>
      (case env of (os, operacao, rodada) \<Rightarrow> \<lambda>i p. sends_all os) (Suc i) p'"
    using envia_pedido_ok [of os operacao rodada i p] by (auto simp: env)
qed

lemma quantidade_le: "quantidade k padrao m argv \<le> m"
  by (simp add: quantidade_def Let_def)

lemma pedidos_sends:
  fixes p :: "'w proc"
  assumes "sends_all os" "socket_ok os (pw p)" "sent p = []" "3 \<le> length argv" "length (argv ! 2) = 32"
    and "n = quantidade 3 200 1000000 argv"
  shows "(\<exists>q. envia_pedidos_host_main os argv p = Inr q \<and> map snd (sent q) =
      map (\<lambda>i. request_packet (device_mac i) mac_controlador (wire_put (argv ! 2))) [0..<n]) \<and>
    (\<exists>q. envia_pedidos_main os argv p = Inr q \<and> map snd (sent q) =
      map (\<lambda>i. create_custom_packet (device_mac i) mac_controlador
        (oper_bytes \<lparr>oper = 0, id_rodada = wire_put (argv ! 2)\<rparr>)) [0..<n])"
proof -
  have "\<exists>q. envia_pedidos_com op os argv p = Inr q \<and> map snd (sent q) =
      map (\<lambda>i. create_custom_packet (device_mac i) mac_controlador
        (oper_bytes \<lparr>oper = op, id_rodada = wire_put (argv ! 2)\<rparr>)) [0..<n]" for op
    using request_loop.loop_sends_from [of "(os, op, wire_put (argv ! 2))" p n] assms(1-5)
      quantidade_le [of 3 200 1000000 argv]
    by (simp add: envia_pedidos_com_def put_field_ok lens assms(6) [symmetric])
  from this [of 1] this [of 0] show ?thesis
    by (simp add: envia_pedidos_host_main_def envia_pedidos_main_def request_packet_def)
qed

text \<open>The request program of the hosts sends to the hosts of the first \<open>n\<close> devices, in order, a
  request that carries the round identifier of the command line; the one of the switches sends the same
  with operation 0.\<close>

lemma envia_pedidos_sends:
  fixes p :: "'w proc"
  assumes "sends_all os" "socket_ok os (pw p)" "sent p = []" "3 \<le> length argv" "length (argv ! 2) = 32"
    and "n = quantidade 3 200 1000000 argv"
  shows "(\<exists>q. envia_pedidos_host_main os argv p = Inr q \<and> map snd (sent q) =
      map (\<lambda>i. request_packet (device_mac i) mac_controlador (wire_put (argv ! 2))) [0..<n]) \<and>
    (\<exists>q. envia_pedidos_main os argv p = Inr q \<and> map snd (sent q) =
      map (\<lambda>i. create_custom_packet (device_mac i) mac_controlador
        (oper_bytes \<lparr>oper = 0, id_rodada = wire_put (argv ! 2)\<rparr>)) [0..<n])"
  using assms by (rule pedidos_sends)

section \<open>Recorded proofs\<close>

text \<open>The state of an entry after \<open>k\<close> passes over it, and how often the first \<open>i\<close> passes used entry \<open>j\<close>.\<close>

definition trocada :: "nat \<Rightarrow> id_chave_prova_t \<Rightarrow> id_chave_prova_t" where
  "trocada k e = (if odd k then e\<lparr>id_dispositivo := swap_hex (id_dispositivo e), prova := swap_hex (prova e)\<rparr>
     else e)"

definition passadas :: "nat \<Rightarrow> nat \<Rightarrow> nat" where
  "passadas i j = i div 20000 + (if j < i mod 20000 then 1 else 0)"

lemma trocada_Suc: "trocada (Suc k) e = (let e' = trocada k e in
    e'\<lparr>id_dispositivo := swap_hex (id_dispositivo e'), prova := swap_hex (prova e')\<rparr>)"
  by (simp add: trocada_def Let_def)

lemma passadas_0: "passadas 0 j = 0"
  by (simp add: passadas_def)

lemma passadas_Suc: "j < 20000 \<Longrightarrow> passadas (Suc i) j = (if j = i mod 20000 then Suc (passadas i j) else passadas i j)"
  by (auto simp: passadas_def div_Suc mod_Suc)

lemma passadas_self: "passadas i (i mod 20000) = i div 20000"
  by (simp add: passadas_def)

definition prova_packet_of :: "byte list \<Rightarrow> id_chave_prova_t list \<Rightarrow> nat \<Rightarrow> byte list" where
  "prova_packet_of rodada t i = (let e = trocada (i div 20000 + 1) (t ! (i mod 20000)) in
     reply_packet mac_controlador (mac_host (of_nat (i div 65536)) (of_nat (i div 256 mod 256)) (of_nat ((i + 1) mod 256)))
       rodada (hex_pairs (id_dispositivo e)) (hex_pairs (prova e)))"

lemma wf_zero_entry: "wf_entry zero_entry"
  by (simp add: wf_entry_def zero_entry_def)

lemma wf_trocada: "wf_entry e \<Longrightarrow> wf_entry (trocada k e)"
  by (simp add: wf_entry_def trocada_def width)

lemma envia_prova_step:
  assumes "sends_all os" "tabela s ! (i mod 20000) = trocada (i div 20000) (t ! (i mod 20000))"
    "wf_entry (t ! (i mod 20000))"
  shows "\<exists>w. envia_prova os rodada i s = Inr (s\<lparr>sproc := (sproc s)\<lparr>pw := w, sent := sent (sproc s) @
      [(mac_controlador, prova_packet_of rodada t i)]\<rparr>,
      tabela := (tabela s)[i mod 20000 := trocada (i div 20000 + 1) (t ! (i mod 20000))]\<rparr>)"
proof -
  let ?e = "trocada (i div 20000) (t ! (i mod 20000))"
  have next': "trocada (Suc (i div 20000)) (t ! (i mod 20000)) =
      ?e\<lparr>id_dispositivo := swap_hex (id_dispositivo ?e), prova := swap_hex (prova ?e)\<rparr>"
    by (simp add: trocada_Suc Let_def)
  have wf: "wf_entry ?e" by (rule wf_trocada [OF assms(3)])
  have parts: "swapEndian (id_dispositivo ?e) ID_DISPOSITIVO_LEN = Inr (swap_hex (id_dispositivo ?e))"
    "swapEndian (prova ?e) PROVA_LEN = Inr (swap_hex (prova ?e))"
    "hexstring_to_byte_array (replicate ID_DISPOSITIVO_LEN_BYTES 0) (swap_hex (id_dispositivo ?e))
      ID_DISPOSITIVO_LEN = Inr (hex_pairs (swap_hex (id_dispositivo ?e)))"
    "hexstring_to_byte_array (replicate PROVA_LEN_BYTES 0) (swap_hex (prova ?e)) PROVA_LEN =
      Inr (hex_pairs (swap_hex (prova ?e)))"
    using wf by (simp_all add: wf_entry_def put_parts wire_put_def lens)
  obtain w where w: "run_sendto os mac_controlador (prova_packet_of rodada t i) (sproc s) =
      Inr ((sproc s)\<lparr>pw := w, sent := sent (sproc s) @ [(mac_controlador, prova_packet_of rodada t i)]\<rparr>)"
    using run_sendto_ok [OF assms(1)] by blast
  then show ?thesis
    by (intro exI [of _ w])
      (simp add: envia_prova_def assms(2) Let_def parts next' prova_packet_of_def reply_packet_def)
qed

interpretation proof_loop: sending_loop "\<lambda>(os :: 'w os, rodada, t). envia_prova os rodada"
  "\<lambda>s. map snd (sent (sproc s))" "\<lambda>_. 1000000" "\<lambda>(os, rodada, t). prova_packet_of rodada t"
  "\<lambda>(os, rodada, t) i s. sends_all os \<and> (\<forall>j < 20000. wf_entry (t ! j)) \<and> 20000 \<le> length (tabela s) \<and>
     (\<forall>j < 20000. tabela s ! j = trocada (passadas i j) (t ! j))"
proof
  fix i :: nat and s :: "'w sender" and env :: "'w os \<times> byte list \<times> id_chave_prova_t list"
  obtain os rodada t where env: "env = (os, rodada, t)" by (cases env)
  assume "(case env of (os, rodada, t) \<Rightarrow> \<lambda>i s. sends_all os \<and> (\<forall>j < 20000. wf_entry (t ! j)) \<and>
     20000 \<le> length (tabela s) \<and> (\<forall>j < 20000. tabela s ! j = trocada (passadas i j) (t ! j))) i s"
  then have a: "sends_all os" "\<forall>j < 20000. wf_entry (t ! j)" "20000 \<le> length (tabela s)"
    "\<forall>j < 20000. tabela s ! j = trocada (passadas i j) (t ! j)" by (simp_all add: env)
  let ?j = "i mod 20000"
  have j: "?j < 20000" by simp
  have "tabela s ! ?j = trocada (i div 20000) (t ! ?j)" using a(4) j by (simp add: passadas_self)
  from envia_prova_step [OF a(1) this] a(2) obtain w where
    st: "envia_prova os rodada i s = Inr (s\<lparr>sproc := (sproc s)\<lparr>pw := w, sent := sent (sproc s) @
      [(mac_controlador, prova_packet_of rodada t i)]\<rparr>,
      tabela := (tabela s)[?j := trocada (i div 20000 + 1) (t ! ?j)]\<rparr>)" by auto
  have "\<forall>k < 20000. (tabela s)[?j := trocada (i div 20000 + 1) (t ! ?j)] ! k =
      trocada (passadas (Suc i) k) (t ! k)"
  proof (intro allI impI)
    fix k :: nat assume k: "k < 20000"
    show "(tabela s)[?j := trocada (i div 20000 + 1) (t ! ?j)] ! k = trocada (passadas (Suc i) k) (t ! k)"
      using a(3,4) k passadas_Suc [OF k, of i] passadas_self [of i] by (cases "k = ?j") simp_all
  qed
  then show "\<exists>s'. (case env of (os, rodada, t) \<Rightarrow> envia_prova os rodada) i s = Inr s' \<and>
      map snd (sent (sproc s')) = map snd (sent (sproc s)) @
        [(case env of (os, rodada, t) \<Rightarrow> prova_packet_of rodada t) i] \<and>
      (case env of (os, rodada, t) \<Rightarrow> \<lambda>i s. sends_all os \<and> (\<forall>j < 20000. wf_entry (t ! j)) \<and>
        20000 \<le> length (tabela s) \<and> (\<forall>j < 20000. tabela s ! j = trocada (passadas i j) (t ! j))) (Suc i) s'"
    using a(1-3) by (simp add: env st)
qed

text \<open>The program that replays recorded proofs sends, in pass \<open>i\<close>, the entry \<open>i mod 20000\<close> of the file
  as a reply. Identifier and proof are in the byte order of the protocol only in the first, third,
  fifth, ... time around the 20000 entries: in between the swap of the pass before is undone first, and
  the bytes are those of the text in the file as it stands.\<close>

lemma envia_provas_arquivo_sends:
  fixes p :: "'w proc"
  assumes "sends_all os" "socket_ok os (pw p)" "sent p = []" "4 \<le> length argv" "length (argv ! 3) = 32"
    and "abrir (cstr (argv ! 1)) = Some (arquivo_de es)" "list_all wf_texto es" "length es \<le> 1000000"
    and "n = quantidade 4 1000 1000000 argv"
    and "t = es @ replicate (1000000 - length es) zero_entry"
  shows "\<exists>s. envia_provas_arquivo_main os abrir argv p = Inr s \<and> length (sent (sproc s)) = n \<and>
    (\<forall>i < n. let e = t ! (i mod 20000); bytes = (if even (i div 20000) then wire_put else hex_pairs) in
      snd (sent (sproc s) ! i) = reply_packet mac_controlador (device_mac i) (wire_put (argv ! 3))
        (bytes (id_dispositivo e)) (bytes (prova e)))"
proof -
  let ?s = "\<lparr>sproc = p, tabela = t\<rparr>" and ?r = "wire_put (argv ! 3)"
  have n: "n \<le> 1000000" unfolding assms(9) by (rule quantidade_le)
  have "list_all wf_entry t"
    using assms(7) by (auto simp: assms(10) list_all_iff wf_texto_wf wf_zero_entry)
  then have wf: "\<forall>j < 20000. wf_entry (t ! j)"
    using assms(8) by (simp add: assms(10) list_all_length)
  have "\<exists>s. for_each (envia_prova os ?r) [0..<n] ?s = Inr s \<and>
      map snd (sent (sproc s)) = map (prova_packet_of ?r t) [0..<n]"
    using proof_loop.loop_sends_from [of "(os, ?r, t)" ?s n] assms(1,3,8,10) wf n
    by (simp add: passadas_0 trocada_def)
  then obtain s where s: "for_each (envia_prova os ?r) [0..<n] ?s = Inr s"
      "map snd (sent (sproc s)) = map (prova_packet_of ?r t) [0..<n]" by blast
  have "envia_provas_arquivo_main os abrir argv p = Inr s"
    using assms(2,4,5) load_texto [OF assms(7,8,6)] s(1)
    by (simp add: envia_provas_arquivo_main_def carrega_provas_def put_field_ok lens assms(9,10) [symmetric])
  moreover have len: "length (sent (sproc s)) = n" using arg_cong [OF s(2), of length] by simp
  moreover have "prova_packet_of ?r t i = (let e = t ! (i mod 20000);
      bytes = (if even (i div 20000) then wire_put else hex_pairs) in
      reply_packet mac_controlador (device_mac i) ?r (bytes (id_dispositivo e)) (bytes (prova e)))"
    if "i < n" for i
  proof -
    have "i div 65536 < 256" using that n by linarith
    then show ?thesis
      by (simp add: prova_packet_of_def trocada_def Let_def device_mac_def wire_put_def)
  qed
  moreover have "snd (sent (sproc s) ! i) = prova_packet_of ?r t i" if "i < n" for i
    using arg_cong [OF s(2), of "\<lambda>xs. xs ! i"] that len by simp
  ultimately show ?thesis by (auto simp: Let_def)
qed

end
