(* ===== verification/Provas.thy ===== *)
theory Provas
  imports Reader Senders
begin

text \<open>
  The three programs that go through recorded proofs: \<open>tools/src/le_provas_rede.c\<close> recalculates the
  proof for each packet of a capture, \<open>tools/src/le_provas_arquivo.c\<close> for each line of a file, and
  \<open>tools/src/envia_pacotes_pcap.c\<close> sends the packets of a recorded capture again. The first two call
  the calculator as \<open>./forro-args-dra2\<close>; the measurements of time of the first one go only to its last
  line and are left out.
\<close>

section \<open>Proofs from the network\<close>

record 'w checker =
  cproc :: "'w proc"
  contador :: u32
  cdados :: "id_chave_prova_t list"

definition carrega_rede :: "byte list option \<Rightarrow> id_chave_prova_t list res" where
  "carrega_rede arquivo = carregarArquivoMemoria arquivo (dados_inicial 1000000)"

definition comando_local :: "nat \<Rightarrow> byte list \<Rightarrow> byte list \<Rightarrow> byte list \<Rightarrow> byte list \<Rightarrow> byte list res" where
  "comando_local sz chave_hex param2_hex param1_hex id_hex =
    bind_r (print_str CHAVE_LEN chave_hex) (\<lambda>c.
    bind_r (print_str NONCE_LEN param2_hex) (\<lambda>p2.
    bind_r (print_str NONCE_LEN param1_hex) (\<lambda>p1.
    bind_r (print_str ID_DISPOSITIVO_LEN id_hex) (\<lambda>d.
      Inr (snprintf sz (bytes_of ''./forro-args-dra2 '' @ c @ bytes_of '' '' @ p2 @ bytes_of '' '' @ p1 @
        bytes_of '' '' @ d @ bytes_of '' 0''))))))"

text \<open>\<open>struct custom_header\<close> is the operation header with the fields of a reply; the operation is only
  used for the measurement of time.\<close>

definition packet_handler_provas :: "'w os \<Rightarrow> byte list \<Rightarrow> 'w checker \<Rightarrow> stop + 'w checker" where
  "packet_handler_provas os packet s =
    bind_r (fault_r (read_ether packet)) (\<lambda>eth_header.
    if ether_type eth_header = ETHERTYPE_CUSTOM then
      bind_r (fault_r (read_oper (drop 14 packet))) (\<lambda>oper_hdr.
      bind_r (fault_r (read_reply (drop 17 (drop 14 packet)))) (\<lambda>reply_hdr.
      bind_r (fault_r (byte_array_to_hexstring (malloc os) (id_rodada oper_hdr) ID_RODADA_LEN_BYTES)) (\<lambda>r.
      bind_r (fault_r (byte_array_to_hexstring (malloc os) (reply_id_dispositivo reply_hdr)
        ID_DISPOSITIVO_LEN_BYTES)) (\<lambda>d.
      bind_r (fault_r (byte_array_to_hexstring (malloc os) (reply_prova reply_hdr) PROVA_LEN_BYTES)) (\<lambda>p.
      bind_r (fault_r (bind_r (deref d) (\<lambda>d. swapEndian d ID_DISPOSITIVO_LEN))) (\<lambda>id_dispositivo_hex.
      bind_r (fault_r (bind_r (deref p) (\<lambda>p. swapEndian p PROVA_LEN))) (\<lambda>prova_hex.
      bind_r (fault_r (bind_r (deref r) (\<lambda>r. swapEndian r ID_RODADA_LEN))) (\<lambda>id_rodada_hex.
      bind_r (fault_r (buscarPorIdDireto_rede (cdados s) (contador s))) (\<lambda>(chave_hex, verificacao_hex).
      bind_r (fault_r (comando_local 512 chave_hex (param2_of id_rodada_hex) (param1_of id_rodada_hex)
        id_dispositivo_hex)) (\<lambda>comando.
      bind_r (run_popen os comando (cproc s)) (\<lambda>(_, q).
        Inr (s\<lparr>cproc := q, contador := contador s + 1\<rparr>))))))))))))
    else Inr s)"

text \<open>\<open>print_custom_header\<close>, whose call is commented out. Its round identifier is an array of \<open>char\<close>: \<open>%02x\<close>
  gets the value as an \<open>int\<close>, so a byte from 128 on is printed with eight digits.\<close>

definition print_02x_char :: "byte \<Rightarrow> byte list" where
  "print_02x_char b = (if 128 \<le> unat b then bytes_of ''ffffff'' else []) @ print_02x b"

definition print_custom_header :: "p4dra_oper_h \<Rightarrow> p4dra_reply_h \<Rightarrow> byte list" where
  "print_custom_header h r = bytes_of ''Oper: '' @ dec_digits (unat (oper h)) @ [10] @
     bytes_of ''ID Rodada: '' @ concat (map print_02x_char (id_rodada h)) @ [10] @
     bytes_of ''ID Dispositivo: '' @ hex_text (reply_id_dispositivo r) @ [10] @
     bytes_of ''Prova: '' @ hex_text (reply_prova r) @ [10, 10]"

text \<open>\<open>pcap_loop\<close> with a count of \<open>limite\<close> packets, read as an \<open>int\<close>: zero and below is no limit.\<close>

definition com_limite :: "u32 \<Rightarrow> byte list list \<Rightarrow> byte list list" where
  "com_limite limite packets = (if sint limite \<le> 0 then packets else take (unat limite) packets)"

text \<open>\<open>erro\<close>: whether \<open>pcap_loop\<close> returns an error at its end.\<close>

definition le_provas_rede_main :: "'w os \<Rightarrow> pcap \<Rightarrow> bool \<Rightarrow> (byte list \<Rightarrow> byte list option)
    \<Rightarrow> byte list list \<Rightarrow> 'w proc \<Rightarrow> stop + nat \<times> 'w checker" where
  "le_provas_rede_main os cap erro abrir argv p =
    (if length argv < 3 then Inl (Exit 1)
     else
       let limite = (if length argv = 4 then ucast (strtoul 10 (argv ! 3)) else 1000) in
       bind_r (fault_r (carrega_rede (abrir (cstr (argv ! 1))))) (\<lambda>tabela.
       let s = \<lparr>cproc = p, contador = 0, cdados = tabela\<rparr> in
       if \<not> pcap_setup cap then Inr (2, s)
       else bind_r (pcap_loop (packet_handler_provas os)
          (com_limite limite (captured cap SNAP_LEN filter_exp)) s) (\<lambda>s. Inr (if erro then 2 else 0, s))))"

section \<open>Proofs from a file\<close>

text \<open>The lines that \<open>printf\<close> writes for the output of the calculator.\<close>

definition linhas_verificacao :: "byte list \<Rightarrow> byte list" where
  "linhas_verificacao out = concat (map (\<lambda>l. bytes_of ''verificacao: '' @ cstr (l @ [0]) @ [10]) (file_lines out))"

text \<open>
  The loop of \<open>le_provas_arquivo\<close>: \<open>old\<close> is what the three arrays hold before the line is scanned. A
  line without the three fields only gives a message on the error stream. The state is the standard
  output and the process.
\<close>

fun verifica_linhas :: "'w os \<Rightarrow> byte list \<Rightarrow> byte list \<Rightarrow> id_chave_prova_t \<Rightarrow> byte list list
    \<Rightarrow> byte list \<times> 'w proc \<Rightarrow> stop + byte list \<times> 'w proc" where
  "verifica_linhas os rodada nonce old [] s = Inr s"
| "verifica_linhas os rodada nonce old (linha # linhas) (out, p) =
    (case sscanf_linha linha old of (n, e) \<Rightarrow>
      if n = 3 then
        bind_r (fault_r (comando_local 256 (chave e) nonce rodada (id_dispositivo e))) (\<lambda>comando.
        bind_r (run_popen os comando p) (\<lambda>(txt, q).
        bind_r (fault_r (print_str PROVA_LEN (prova e))) (\<lambda>prv.
        verifica_linhas os rodada nonce old linhas
          (out @ bytes_of ''prova: '' @ prv @ [10] @ linhas_verificacao txt, q))))
      else verifica_linhas os rodada nonce old linhas (out, p))"

definition le_provas_arquivo_main :: "'w os \<Rightarrow> id_chave_prova_t \<Rightarrow> (byte list \<Rightarrow> byte list option)
    \<Rightarrow> byte list list \<Rightarrow> 'w proc \<Rightarrow> stop + nat \<times> byte list \<times> 'w proc" where
  "le_provas_arquivo_main os old abrir argv p =
    (if length argv \<noteq> 4 then Inl (Exit 1)
     else (case abrir (cstr (argv ! 1)) of
         None \<Rightarrow> Inr (1, [], p)
       | Some conteudo \<Rightarrow>
           bind_r (verifica_linhas os (argv ! 2) (argv ! 3) old (file_lines conteudo) ([], p)) (\<lambda>s. Inr (0, s))))"

section \<open>Packets from a recorded capture\<close>

text \<open>What \<open>pcap_next_ex\<close> reports: a packet with the bytes that were captured and its length on the
  network, a timeout, the end of the file, or an error.\<close>

datatype leitura = Pacote "byte list" nat | Tempo | Fim | Erro

text \<open>\<open>resend_packet\<close> passes the length on the network, which may be more than was captured; a failure to
  send is only reported.\<close>

definition resend_packet :: "'w os \<Rightarrow> byte list \<Rightarrow> nat \<Rightarrow> 'w proc \<Rightarrow> stop + 'w proc" where
  "resend_packet os packet len p =
    bind_r (fault_r (rd len packet)) (\<lambda>b.
    case sendto os [] b (pw p) of
      (ok, w) \<Rightarrow> Inr (p\<lparr>pw := w, sent := if ok then sent p @ [([], b)] else sent p\<rparr>))"

text \<open>The loop, with the counter of packets.\<close>

fun reenvia :: "'w os \<Rightarrow> u32 \<Rightarrow> leitura list \<Rightarrow> u32 \<Rightarrow> 'w proc \<Rightarrow> stop + u32 \<times> 'w proc" where
  "reenvia os quantidade_pacotes [] enviados p = Inr (enviados, p)"
| "reenvia os quantidade_pacotes (Fim # ls) enviados p = Inr (enviados, p)"
| "reenvia os quantidade_pacotes (Erro # ls) enviados p = Inr (enviados, p)"
| "reenvia os quantidade_pacotes (Tempo # ls) enviados p = reenvia os quantidade_pacotes ls enviados p"
| "reenvia os quantidade_pacotes (Pacote packet len # ls) enviados p =
    bind_r (resend_packet os packet len p) (\<lambda>p.
      if enviados + 1 = quantidade_pacotes then Inr (enviados + 1, p)
      else reenvia os quantidade_pacotes ls (enviados + 1) p)"

definition envia_pacotes_main :: "'w os \<Rightarrow> (byte list \<Rightarrow> leitura list option) \<Rightarrow> bool \<Rightarrow> byte list list
    \<Rightarrow> 'w proc \<Rightarrow> stop + nat \<times> u32 \<times> 'w proc" where
  "envia_pacotes_main os abrir_pcap saida_ok argv p =
    (if length argv < 3 then Inl (Exit 1)
     else
       let quantidade_pacotes = (if length argv = 4 then ucast (strtoul 10 (argv ! 3)) else 1000) in
       case abrir_pcap (cstr (argv ! 1)) of
         None \<Rightarrow> Inr (1, 0, p)
       | Some lidos \<Rightarrow>
           if \<not> saida_ok then Inr (1, 0, p)
           else bind_r (reenvia os quantidade_pacotes lidos 0 p) (\<lambda>s. Inr (0, s)))"

section \<open>The calculator is called with the right secrets\<close>

definition cmd_local :: "byte list \<Rightarrow> byte list \<Rightarrow> byte list \<Rightarrow> byte list \<Rightarrow> byte list" where
  "cmd_local chave_hex nonce rodada id_hex = bytes_of ''./forro-args-dra2 '' @ chave_hex @ bytes_of '' '' @
     nonce @ bytes_of '' '' @ rodada @ bytes_of '' '' @ id_hex @ bytes_of '' 0''"

lemma comando_local_ok:
  assumes "length c = 64" "0 \<notin> set c" "length n = 16" "0 \<notin> set n" "length r = 16" "0 \<notin> set r"
    "length d = 32" "0 \<notin> set d" "256 \<le> sz"
  shows "comando_local sz c n r d = Inr (cmd_local c n r d)"
  using assms
  by (simp add: comando_local_def print_str_exact lens snprintf_def cmd_local_def width)

section \<open>Proofs from the network\<close>

text \<open>A packet of the shape of a reply, with any operation.\<close>

definition reply_like :: "byte \<Rightarrow> byte list \<Rightarrow> byte list \<Rightarrow> byte list \<Rightarrow> byte list \<Rightarrow> byte list \<Rightarrow> byte list" where
  "reply_like op dest src rodada ident prv = create_custom_packet dest src
    (oper_bytes \<lparr>oper = op, id_rodada = rodada\<rparr> @
     reply_bytes \<lparr>reply_id_dispositivo = ident, reply_prova = prv\<rparr>)"

lemma provas_step:
  assumes "roomy (malloc os)" "length d = 6" "length s = 6" "length r = 16" "length ident = 16"
    "length prv = 64"
    and "k = unat (contador st)" "k < length (cdados st)" "texto (chave (cdados st ! k)) 64"
    and "c = cmd_local (chave (cdados st ! k)) (drop 16 (wire_get r)) (take 16 (wire_get r)) (wire_get ident)"
    and "popen os c (pw (cproc st)) = (Some out, w)"
  shows "packet_handler_provas os (reply_like op d s r ident prv) st = Inr (st\<lparr>
    cproc := (cproc st)\<lparr>pw := w, ran := ran (cproc st) @ [c]\<rparr>, contador := contador st + 1\<rparr>)"
proof -
  let ?o = "\<lparr>oper = op, id_rodada = r\<rparr>" and ?r = "\<lparr>reply_id_dispositivo = ident, reply_prova = prv\<rparr>"
  have o: "read_oper (oper_bytes ?o @ reply_bytes ?r) = Inr ?o"
    by (rule oph.dec_enc) (simp add: wf_oper_def assms(4))
  have dr: "drop 17 (oper_bytes ?o @ reply_bytes ?r) = reply_bytes ?r"
    using assms(4) by (simp add: oper_bytes_def)
  have rr: "read_reply (reply_bytes ?r) = Inr ?r"
    by (rule rep.dec_exact) (simp add: wf_reply_def assms(5,6))
  have params: "param1_of (wire_get r) = take 16 (wire_get r)" "param2_of (wire_get r) = drop 16 (wire_get r)"
    using assms(4) by (simp_all add: params_of_rodada width)
  have no0: "0 \<notin> set (take 16 (wire_get r))" "0 \<notin> set (drop 16 (wire_get r))"
    using wire_get_no_nul [of r] by (auto dest: in_set_takeD in_set_dropD)
  have "comando_local 512 (chave (cdados st ! k)) (drop 16 (wire_get r)) (take 16 (wire_get r)) (wire_get ident)
      = Inr c"
    unfolding assms(10) using assms(4,5,9) no0 wire_get_no_nul [of ident]
    by (intro comando_local_ok) (simp_all add: width texto_def)
  then show ?thesis
    unfolding packet_handler_provas_def reply_like_def read_ether_packet [OF assms(2,3)]
      drop_ether_packet [OF assms(2,3)]
    using o rr assms(1,4-8,11)
    by (simp add: dr byte_array_to_hexstring_ok deref_def swapEndian_ok width lens wire_get_def [symmetric]
        buscarPorIdDireto_rede_def params run_popen_def del: drop_drop drop_append)
qed

text \<open>The network checker runs the calculator once per packet, for the round and the device in the
  packet, with the key in line \<open>contador_pacotes\<close> of the table, whichever device sent the packet,
  whatever its operation is and whatever proof it carries: what the calculator prints and the proof in
  the packet have no influence on the result, the two are never compared.\<close>

lemma provas_rede_never_compares:
  assumes "roomy (malloc os)" "length d = 6" "length s = 6" "length r = 16" "length ident = 16"
    and "length prv = 64" "length prv' = 64"
    and "k = unat (contador st)" "k < length (cdados st)" "texto (chave (cdados st ! k)) 64"
    and "c = cmd_local (chave (cdados st ! k)) (drop 16 (wire_get r)) (take 16 (wire_get r)) (wire_get ident)"
    and "popen os c (pw (cproc st)) = (Some out, w)"
    and "malloc os' = malloc os" "popen os' c (pw (cproc st)) = (Some out', w)"
  shows "packet_handler_provas os (reply_like op d s r ident prv) st = Inr (st\<lparr>
      cproc := (cproc st)\<lparr>pw := w, ran := ran (cproc st) @ [c]\<rparr>, contador := contador st + 1\<rparr>) \<and>
    packet_handler_provas os' (reply_like op' d s r ident prv') st =
      packet_handler_provas os (reply_like op d s r ident prv) st"
proof -
  note a = provas_step [OF assms(1-6,8-12), of op]
  have "roomy (malloc os')" using assms(1,13) by simp
  note b = provas_step [OF this assms(2-5,7-11,14), of op']
  show ?thesis using a b by simp
qed

text \<open>A packet beyond the last element of the table stops the network checker with a read past the
  end of the array; the verifier avoids it by taking the index modulo 20000.\<close>

lemma provas_rede_table_end:
  assumes "roomy (malloc os)" "length d = 6" "length s = 6" "length r = 16" "length ident = 16"
    and "length prv = 64" "length (cdados st) \<le> unat (contador st)"
  shows "packet_handler_provas os (reply_like op d s r ident prv) st = Inl (Fault ReadOverrun)"
proof -
  let ?o = "\<lparr>oper = op, id_rodada = r\<rparr>" and ?r = "\<lparr>reply_id_dispositivo = ident, reply_prova = prv\<rparr>"
  have o: "read_oper (oper_bytes ?o @ reply_bytes ?r) = Inr ?o"
    by (rule oph.dec_enc) (simp add: wf_oper_def assms(4))
  have dr: "drop 17 (oper_bytes ?o @ reply_bytes ?r) = reply_bytes ?r"
    using assms(4) by (simp add: oper_bytes_def)
  have rr: "read_reply (reply_bytes ?r) = Inr ?r"
    by (rule rep.dec_exact) (simp add: wf_reply_def assms(5,6))
  show ?thesis
    unfolding packet_handler_provas_def reply_like_def read_ether_packet [OF assms(2,3)]
      drop_ether_packet [OF assms(2,3)]
    using o rr assms(1,4-7)
    by (simp add: dr byte_array_to_hexstring_ok deref_def swapEndian_ok width lens
        buscarPorIdDireto_rede_def del: drop_drop drop_append)
qed

section \<open>Proofs from a file\<close>

text \<open>A calculator that prints the same text whenever it gets the same command.\<close>

definition prints :: "'w os \<Rightarrow> (byte list \<Rightarrow> byte list) \<Rightarrow> bool" where
  "prints os calc \<longleftrightarrow> (\<forall>c w. \<exists>w'. popen os c w = (Some (calc c), w'))"

lemma verifica_linhas_ok:
  assumes "prints os calc" "list_all wf_texto es" "wf_entry old"
    and "length rodada = 16" "length nonce = 16" "0 \<notin> set rodada" "0 \<notin> set nonce"
  shows "\<exists>w. verifica_linhas os rodada nonce old (map linha_de es) (out, p) =
    Inr (out @ concat (map (\<lambda>e. bytes_of ''prova: '' @ prova e @ [10] @
        linhas_verificacao (calc (cmd_local (chave e) nonce rodada (id_dispositivo e)))) es),
      p\<lparr>pw := w, ran := ran p @ map (\<lambda>e. cmd_local (chave e) nonce rodada (id_dispositivo e)) es\<rparr>)"
  using assms(2)
proof (induction es arbitrary: out p)
  case Nil
  show ?case by (intro exI [of _ "pw p"]) simp
next
  case (Cons e es)
  let ?c = "cmd_local (chave e) nonce rodada (id_dispositivo e)"
  have e: "wf_texto e" using Cons.prems by simp
  have c: "comando_local 256 (chave e) nonce rodada (id_dispositivo e) = Inr ?c"
    using e assms(4-7) by (intro comando_local_ok) (simp_all add: wf_texto_def texto_def lens)
  have pr: "print_str PROVA_LEN (prova e) = Inr (prova e)"
    using e by (simp add: print_str_exact wf_texto_def texto_def)
  obtain w where w: "popen os ?c (pw p) = (Some (calc ?c), w)"
    using assms(1) by (auto simp: prints_def)
  let ?p = "p\<lparr>pw := w, ran := ran p @ [?c]\<rparr>"
  have "verifica_linhas os rodada nonce old (map linha_de (e # es)) (out, p) =
      verifica_linhas os rodada nonce old (map linha_de es)
        (out @ bytes_of ''prova: '' @ prova e @ [10] @ linhas_verificacao (calc ?c), ?p)"
    using sscanf_linha_de [OF e assms(3)] by (simp add: c pr run_popen_def w)
  moreover obtain w' where "verifica_linhas os rodada nonce old (map linha_de es)
        (out @ bytes_of ''prova: '' @ prova e @ [10] @ linhas_verificacao (calc ?c), ?p) =
      Inr ((out @ bytes_of ''prova: '' @ prova e @ [10] @ linhas_verificacao (calc ?c)) @
        concat (map (\<lambda>e. bytes_of ''prova: '' @ prova e @ [10] @
        linhas_verificacao (calc (cmd_local (chave e) nonce rodada (id_dispositivo e)))) es),
      ?p\<lparr>pw := w', ran := ran ?p @ map (\<lambda>e. cmd_local (chave e) nonce rodada (id_dispositivo e)) es\<rparr>)"
    using Cons.IH [of "out @ bytes_of ''prova: '' @ prova e @ [10] @ linhas_verificacao (calc ?c)" ?p]
      Cons.prems by auto
  ultimately show ?case by (intro exI [of _ w']) simp
qed

text \<open>The file checker runs the calculator once per line, in order, with the key and the identifier in
  the line and the nonce and the round from the command line, and prints for each line the proof in
  the file followed by the lines of the calculator; every command fits its buffer.\<close>

lemma provas_arquivo_checks_all:
  assumes "prints os calc" "list_all wf_texto es" "wf_entry old"
    and "length argv = 4" "abrir (cstr (argv ! 1)) = Some (arquivo_de es)"
    and "length (argv ! 2) = 16" "length (argv ! 3) = 16" "0 \<notin> set (argv ! 2)" "0 \<notin> set (argv ! 3)"
  shows "\<exists>q out. le_provas_arquivo_main os old abrir argv p = Inr (0, out, q) \<and>
    ran q = ran p @ map (\<lambda>e. cmd_local (chave e) (argv ! 3) (argv ! 2) (id_dispositivo e)) es \<and>
    out = concat (map (\<lambda>e. bytes_of ''prova: '' @ prova e @ [10] @
      linhas_verificacao (calc (cmd_local (chave e) (argv ! 3) (argv ! 2) (id_dispositivo e)))) es)"
  using verifica_linhas_ok [OF assms(1-3,6-9), of "[]" p] assms(4,5)
  by (auto simp: le_provas_arquivo_main_def file_lines_arquivo [OF assms(2)])

section \<open>Packets from a recorded capture\<close>

lemma resend_packet_ok:
  assumes "sends_all os"
  shows "\<exists>w. resend_packet os b (length b) p = Inr (p\<lparr>pw := w, sent := sent p @ [([], b)]\<rparr>)"
proof -
  have "fst (sendto os [] b (pw p))" using assms by (simp add: sends_all_def)
  then show ?thesis by (auto simp: resend_packet_def rd_def split: prod.splits)
qed

definition whole :: "byte list \<Rightarrow> leitura" where
  "whole b = Pacote b (length b)"

lemma reenvia_whole: "reenvia os q (whole b # ls) n p = bind_r (resend_packet os b (length b) p) (\<lambda>p.
    if n + 1 = q then Inr (n + 1, p) else reenvia os q ls (n + 1) p)"
  by (simp add: whole_def)

text \<open>The number of packets still to send when \<open>n\<close> were sent: the rest of the count, or all of them when
  the counter is past the count.\<close>

lemma reenvia_ok:
  assumes "sends_all os" "n + length ps < 2 ^ 32" "n < unat q \<or> q = 0"
  shows "\<exists>w. reenvia os q (map whole ps @ [Fim]) (of_nat n) p =
    (let m = (if q = 0 then ps else take (unat q - n) ps) in
     Inr (of_nat (n + length m), p\<lparr>pw := w, sent := sent p @ map (\<lambda>b. ([], b)) m\<rparr>))"
  using assms(2,3)
proof (induction ps arbitrary: n p)
  case Nil
  show ?case by (intro exI [of _ "pw p"]) simp
next
  case (Cons b ps)
  obtain w where w: "resend_packet os b (length b) p = Inr (p\<lparr>pw := w, sent := sent p @ [([], b)]\<rparr>)"
    using resend_packet_ok [OF assms(1)] by blast
  have un: "unat (of_nat (Suc n) :: u32) = Suc n"
    using Cons.prems(1) by (simp add: unat_of_nat del: of_nat_Suc)
  then have eq: "of_nat n + 1 = q \<longleftrightarrow> Suc n = unat q"
    by (metis of_nat_Suc add.commute word_unat_eq_iff)
  show ?case
  proof (cases "Suc n = unat q")
    case True
    then have "q \<noteq> 0" by auto
    moreover have "unat q - n = Suc 0" using True by simp
    moreover have "of_nat n + 1 = q" using True eq by simp
    ultimately show ?thesis by (intro exI [of _ w]) (simp add: reenvia_whole w add.commute)
  next
    case False
    then have prem: "Suc n < unat q \<or> q = 0" using Cons.prems(2) by auto
    obtain w' where "reenvia os q (map whole ps @ [Fim]) (of_nat (Suc n)) (p\<lparr>pw := w, sent := sent p @ [([], b)]\<rparr>) =
      (let m = (if q = 0 then ps else take (unat q - Suc n) ps) in
       Inr (of_nat (Suc n + length m), p\<lparr>pw := w', sent := sent p @ [([], b)] @ map (\<lambda>b. ([], b)) m\<rparr>))"
      using Cons.IH [of "Suc n" "p\<lparr>pw := w, sent := sent p @ [([], b)]\<rparr>"] Cons.prems(1) prem by auto
    moreover have "take (unat q - n) (b # ps) = b # take (unat q - Suc n) ps" if "q \<noteq> 0"
    proof -
      have "unat q - n = Suc (unat q - Suc n)" using that Cons.prems(2) by simp
      then show ?thesis by (simp only: take_Suc_Cons)
    qed
    ultimately show ?thesis
      using False eq by (intro exI [of _ w']) (auto simp: reenvia_whole w Let_def algebra_simps)
  qed
qed

text \<open>The program that repeats a capture sends, when every packet was captured whole and the
  interface takes all of them, the first \<open>quantidade_pacotes\<close> packets in order and counts them; with a
  count of zero it sends them all.\<close>

lemma reenvia_sends:
  assumes "sends_all os" "length ps < 2 ^ 32"
  shows "\<exists>w. reenvia os q (map whole ps @ [Fim]) 0 p =
    (let m = (if q = 0 then ps else take (unat q) ps) in
     Inr (of_nat (length m), p\<lparr>pw := w, sent := sent p @ map (\<lambda>b. ([], b)) m\<rparr>))"
  using reenvia_ok [OF assms(1), of 0 ps q p] assms(2) by (auto simp: unat_gt_0)

text \<open>A packet that was longer on the network than the capture kept of it is read past the end of the
  captured bytes.\<close>

lemma reenvia_truncated:
  assumes "length packet < len"
  shows "reenvia os q (Pacote packet len # ls) n p = Inl (Fault ReadOverrun)"
  using assms by (simp add: resend_packet_def rd_def)

end
