(* ===== verification/Dra_TA.thy ===== *)
theory Dra_TA
  imports Attest
begin

text \<open>
  The trusted application \<open>optee_dra/dra/ta/dra_ta.c\<close>: the three commands on raw objects, the
  command that answers a proof request, and the command dispatcher. The TEE Internal Core API is
  not part of the repository: it is the parameter \<open>api\<close>, a record of functions on an unknown world,
  and \<open>tee_spec\<close> states what its documentation promises about the stored objects.

  A call returns its \<open>TEE_Result\<close> and the parameters as it leaves them, or the fault that stops the
  application. The state also keeps \<open>live\<close>, the heap blocks that were not freed.
\<close>

section \<open>The TEE interface\<close>

definition TEE_SUCCESS :: u32 where "TEE_SUCCESS = 0"
definition TEE_ERROR_BAD_PARAMETERS :: u32 where "TEE_ERROR_BAD_PARAMETERS = 0xFFFF0006"
definition TEE_ERROR_ITEM_NOT_FOUND :: u32 where "TEE_ERROR_ITEM_NOT_FOUND = 0xFFFF0008"
definition TEE_ERROR_NOT_SUPPORTED :: u32 where "TEE_ERROR_NOT_SUPPORTED = 0xFFFF000A"
definition TEE_ERROR_OUT_OF_MEMORY :: u32 where "TEE_ERROR_OUT_OF_MEMORY = 0xFFFF000C"
definition TEE_ERROR_SHORT_BUFFER :: u32 where "TEE_ERROR_SHORT_BUFFER = 0xFFFF0010"

lemmas tee_results = TEE_SUCCESS_def TEE_ERROR_BAD_PARAMETERS_def TEE_ERROR_ITEM_NOT_FOUND_def
  TEE_ERROR_NOT_SUPPORTED_def TEE_ERROR_OUT_OF_MEMORY_def TEE_ERROR_SHORT_BUFFER_def

definition TEE_PARAM_TYPE_NONE :: u32 where "TEE_PARAM_TYPE_NONE = 0"
definition TEE_PARAM_TYPE_MEMREF_INPUT :: u32 where "TEE_PARAM_TYPE_MEMREF_INPUT = 5"
definition TEE_PARAM_TYPE_MEMREF_OUTPUT :: u32 where "TEE_PARAM_TYPE_MEMREF_OUTPUT = 6"

definition TEE_PARAM_TYPES :: "u32 \<Rightarrow> u32 \<Rightarrow> u32 \<Rightarrow> u32 \<Rightarrow> u32" where
  "TEE_PARAM_TYPES t0 t1 t2 t3 = t0 OR push_bit 4 t1 OR push_bit 8 t2 OR push_bit 12 t3"

definition TEE_DATA_FLAG_ACCESS_READ :: u32 where "TEE_DATA_FLAG_ACCESS_READ = 0x1"
definition TEE_DATA_FLAG_ACCESS_WRITE :: u32 where "TEE_DATA_FLAG_ACCESS_WRITE = 0x2"
definition TEE_DATA_FLAG_ACCESS_WRITE_META :: u32 where "TEE_DATA_FLAG_ACCESS_WRITE_META = 0x4"
definition TEE_DATA_FLAG_SHARE_READ :: u32 where "TEE_DATA_FLAG_SHARE_READ = 0x10"
definition TEE_DATA_FLAG_OVERWRITE :: u32 where "TEE_DATA_FLAG_OVERWRITE = 0x400"

text \<open>
  A heap block: its address, its content, and the bytes that follow it in memory when the code
  reads past its end. A memory reference of a call: for an input, \<open>buffer\<close> is the memory from the
  pointer on; for an output, it is the object of \<open>msize\<close> bytes.
\<close>

type_synonym block = "nat \<times> byte list \<times> byte list"

record memref =
  buffer :: "byte list"
  msize :: nat

record 'w tee_api =
  TEE_Malloc :: "nat \<Rightarrow> 'w \<Rightarrow> block option \<times> 'w"
  TEE_Free :: "nat \<Rightarrow> 'w \<Rightarrow> 'w"
  TEE_OpenPersistentObject :: "byte list \<Rightarrow> u32 \<Rightarrow> 'w \<Rightarrow> u32 \<times> nat \<times> 'w"
  TEE_CreatePersistentObject :: "byte list \<Rightarrow> u32 \<Rightarrow> 'w \<Rightarrow> u32 \<times> nat \<times> 'w"
  TEE_GetObjectInfo1 :: "nat \<Rightarrow> 'w \<Rightarrow> u32 \<times> nat \<times> 'w"
  TEE_ReadObjectData :: "nat \<Rightarrow> nat \<Rightarrow> 'w \<Rightarrow> u32 \<times> byte list \<times> 'w"
  TEE_WriteObjectData :: "nat \<Rightarrow> byte list \<Rightarrow> 'w \<Rightarrow> u32 \<times> 'w"
  TEE_CloseObject :: "nat \<Rightarrow> 'w \<Rightarrow> 'w"
  TEE_CloseAndDeletePersistentObject1 :: "nat \<Rightarrow> 'w \<Rightarrow> 'w"

section \<open>State and sequencing\<close>

record 'w ta_state =
  world :: 'w
  live :: "nat list"

type_synonym ('w, 'a) ta = "'w ta_state \<Rightarrow> fault + 'a \<times> 'w ta_state"

definition ret_s :: "'a \<Rightarrow> ('w, 'a) ta" where
  "ret_s x = (\<lambda>s. Inr (x, s))"

definition bind_s :: "('w, 'a) ta \<Rightarrow> ('a \<Rightarrow> ('w, 'b) ta) \<Rightarrow> ('w, 'b) ta" where
  "bind_s m k = (\<lambda>s. bind_r (m s) (\<lambda>(x, s'). k x s'))"

definition lift_r :: "'a res \<Rightarrow> ('w, 'a) ta" where
  "lift_r r = (\<lambda>s. bind_r r (\<lambda>x. Inr (x, s)))"

text \<open>A call of an API function that returns a result and the new world.\<close>

definition call_w :: "('w \<Rightarrow> 'a \<times> 'w) \<Rightarrow> ('w, 'a) ta" where
  "call_w f = (\<lambda>s. case f (world s) of (x, w) \<Rightarrow> Inr (x, s\<lparr>world := w\<rparr>))"

definition call_w2 :: "('w \<Rightarrow> 'a \<times> 'b \<times> 'w) \<Rightarrow> ('w, 'a \<times> 'b) ta" where
  "call_w2 f = (\<lambda>s. case f (world s) of (x, y, w) \<Rightarrow> Inr ((x, y), s\<lparr>world := w\<rparr>))"

definition ta_malloc :: "'w tee_api \<Rightarrow> nat \<Rightarrow> ('w, block option) ta" where
  "ta_malloc api n = (\<lambda>s. case TEE_Malloc api n (world s) of
     (None, w) \<Rightarrow> Inr (None, s\<lparr>world := w\<rparr>)
   | (Some b, w) \<Rightarrow> Inr (Some b, s\<lparr>world := w, live := fst b # live s\<rparr>))"

definition ta_free :: "'w tee_api \<Rightarrow> nat \<Rightarrow> ('w, unit) ta" where
  "ta_free api p = (\<lambda>s. Inr ((), s\<lparr>world := TEE_Free api p (world s), live := remove1 p (live s)\<rparr>))"

definition ta_close :: "'w tee_api \<Rightarrow> nat \<Rightarrow> ('w, unit) ta" where
  "ta_close api h = (\<lambda>s. Inr ((), s\<lparr>world := TEE_CloseObject api h (world s)\<rparr>))"

definition ta_close_delete :: "'w tee_api \<Rightarrow> nat \<Rightarrow> ('w, unit) ta" where
  "ta_close_delete api h =
    (\<lambda>s. Inr ((), s\<lparr>world := TEE_CloseAndDeletePersistentObject1 api h (world s)\<rparr>))"

lemmas ta_ops = ret_s_def bind_s_def lift_r_def call_w_def call_w2_def ta_malloc_def ta_free_def
  ta_close_def ta_close_delete_def

section \<open>Raw objects\<close>

definition delete_object :: "'w tee_api \<Rightarrow> u32 \<Rightarrow> memref list \<Rightarrow> ('w, u32 \<times> memref list) ta" where
  "delete_object api param_types params =
    (if param_types \<noteq> TEE_PARAM_TYPES TEE_PARAM_TYPE_MEMREF_INPUT TEE_PARAM_TYPE_NONE
         TEE_PARAM_TYPE_NONE TEE_PARAM_TYPE_NONE
     then ret_s (TEE_ERROR_BAD_PARAMETERS, params)
     else
       bind_s (ta_malloc api (msize (params ! 0))) (\<lambda>obj_id. case obj_id of
         None \<Rightarrow> ret_s (TEE_ERROR_OUT_OF_MEMORY, params)
       | Some (obj_id, _, _) \<Rightarrow>
           bind_s (lift_r (rd (msize (params ! 0)) (buffer (params ! 0)))) (\<lambda>name.
           bind_s (call_w2 (TEE_OpenPersistentObject api name
             (TEE_DATA_FLAG_ACCESS_READ OR TEE_DATA_FLAG_ACCESS_WRITE_META))) (\<lambda>(res, object).
           if res \<noteq> TEE_SUCCESS then bind_s (ta_free api obj_id) (\<lambda>_. ret_s (res, params))
           else
             bind_s (ta_close_delete api object) (\<lambda>_.
             bind_s (ta_free api obj_id) (\<lambda>_. ret_s (res, params)))))))"

definition create_raw_object :: "'w tee_api \<Rightarrow> u32 \<Rightarrow> memref list \<Rightarrow> ('w, u32 \<times> memref list) ta" where
  "create_raw_object api param_types params =
    (if param_types \<noteq> TEE_PARAM_TYPES TEE_PARAM_TYPE_MEMREF_INPUT TEE_PARAM_TYPE_MEMREF_INPUT
         TEE_PARAM_TYPE_NONE TEE_PARAM_TYPE_NONE
     then ret_s (TEE_ERROR_BAD_PARAMETERS, params)
     else
       bind_s (ta_malloc api (msize (params ! 0))) (\<lambda>obj_id. case obj_id of
         None \<Rightarrow> ret_s (TEE_ERROR_OUT_OF_MEMORY, params)
       | Some (obj_id, _, _) \<Rightarrow>
           bind_s (lift_r (rd (msize (params ! 0)) (buffer (params ! 0)))) (\<lambda>name.
           bind_s (ta_malloc api (msize (params ! 1))) (\<lambda>data. case data of
             None \<Rightarrow> ret_s (TEE_ERROR_OUT_OF_MEMORY, params)
           | Some (data, _, _) \<Rightarrow>
               bind_s (lift_r (rd (msize (params ! 1)) (buffer (params ! 1)))) (\<lambda>content.
               bind_s (call_w2 (TEE_CreatePersistentObject api name
                 (TEE_DATA_FLAG_ACCESS_READ OR TEE_DATA_FLAG_ACCESS_WRITE OR
                  TEE_DATA_FLAG_ACCESS_WRITE_META OR TEE_DATA_FLAG_OVERWRITE))) (\<lambda>(res, object).
               if res \<noteq> TEE_SUCCESS then
                 bind_s (ta_free api obj_id) (\<lambda>_.
                 bind_s (ta_free api data) (\<lambda>_. ret_s (res, params)))
               else
                 bind_s (call_w (TEE_WriteObjectData api object content)) (\<lambda>res.
                 bind_s (if res \<noteq> TEE_SUCCESS then ta_close_delete api object
                         else ta_close api object) (\<lambda>_.
                 bind_s (ta_free api obj_id) (\<lambda>_.
                 bind_s (ta_free api data) (\<lambda>_. ret_s (res, params)))))))))))"

text \<open>The label \<open>exit\<close> of \<open>read_raw_object\<close>.\<close>

definition read_exit :: "'w tee_api \<Rightarrow> nat \<Rightarrow> nat \<Rightarrow> nat \<Rightarrow> u32 \<times> memref list
    \<Rightarrow> ('w, u32 \<times> memref list) ta" where
  "read_exit api object obj_id data r =
    bind_s (ta_close api object) (\<lambda>_.
    bind_s (ta_free api obj_id) (\<lambda>_.
    bind_s (ta_free api data) (\<lambda>_. ret_s r)))"

definition read_raw_object :: "'w tee_api \<Rightarrow> u32 \<Rightarrow> memref list \<Rightarrow> ('w, u32 \<times> memref list) ta" where
  "read_raw_object api param_types params =
    (if param_types \<noteq> TEE_PARAM_TYPES TEE_PARAM_TYPE_MEMREF_INPUT TEE_PARAM_TYPE_MEMREF_OUTPUT
         TEE_PARAM_TYPE_NONE TEE_PARAM_TYPE_NONE
     then ret_s (TEE_ERROR_BAD_PARAMETERS, params)
     else
       bind_s (ta_malloc api (msize (params ! 0))) (\<lambda>obj_id. case obj_id of
         None \<Rightarrow> ret_s (TEE_ERROR_OUT_OF_MEMORY, params)
       | Some (obj_id, _, _) \<Rightarrow>
           bind_s (lift_r (rd (msize (params ! 0)) (buffer (params ! 0)))) (\<lambda>name.
           let data_sz = msize (params ! 1) in
           bind_s (ta_malloc api data_sz) (\<lambda>data. case data of
             None \<Rightarrow> ret_s (TEE_ERROR_OUT_OF_MEMORY, params)
           | Some (data, _, _) \<Rightarrow>
               bind_s (call_w2 (TEE_OpenPersistentObject api name
                 (TEE_DATA_FLAG_ACCESS_READ OR TEE_DATA_FLAG_SHARE_READ))) (\<lambda>(res, object).
               if res \<noteq> TEE_SUCCESS then
                 bind_s (ta_free api obj_id) (\<lambda>_.
                 bind_s (ta_free api data) (\<lambda>_. ret_s (res, params)))
               else
                 bind_s (call_w2 (TEE_GetObjectInfo1 api object)) (\<lambda>(res, dataSize).
                 if res \<noteq> TEE_SUCCESS then read_exit api object obj_id data (res, params)
                 else if data_sz < dataSize then
                   read_exit api object obj_id data (TEE_ERROR_SHORT_BUFFER,
                     params[1 := (params ! 1)\<lparr>msize := dataSize\<rparr>])
                 else
                   bind_s (call_w2 (TEE_ReadObjectData api object dataSize)) (\<lambda>(res, bytes).
                   let read_bytes = length bytes in
                   if res \<noteq> TEE_SUCCESS then read_exit api object obj_id data (res, params)
                   else
                     bind_s (lift_r (wr (buffer (params ! 1)) bytes)) (\<lambda>out.
                     let params = params[1 := (params ! 1)\<lparr>buffer := out\<rparr>] in
                     if read_bytes \<noteq> dataSize then
                       read_exit api object obj_id data (res, params)
                     else
                       read_exit api object obj_id data (res,
                         params[1 := (params ! 1)\<lparr>msize := read_bytes\<rparr>])))))))))"

section \<open>The proof\<close>

definition ID_RODADA_SZ :: nat where "ID_RODADA_SZ = 8"
definition NONCE_SZ :: nat where "NONCE_SZ = 8"
definition ID_DISPOSITIVO_SZ :: nat where "ID_DISPOSITIVO_SZ = 16"
definition KEY_SZ :: nat where "KEY_SZ = 32"
definition PROOF_SZ :: nat where "PROOF_SZ = 64"
definition ID_DISPOSITIVO_SZ_HEX :: nat where "ID_DISPOSITIVO_SZ_HEX = ID_DISPOSITIVO_SZ * 2"
definition KEY_SZ_HEX :: nat where "KEY_SZ_HEX = KEY_SZ * 2"
definition SECRETS_SZ_HEX :: nat where "SECRETS_SZ_HEX = KEY_SZ_HEX + ID_DISPOSITIVO_SZ_HEX"

lemmas ta_sizes = ID_RODADA_SZ_def NONCE_SZ_def ID_DISPOSITIVO_SZ_def KEY_SZ_def PROOF_SZ_def
  ID_DISPOSITIVO_SZ_HEX_def KEY_SZ_HEX_def SECRETS_SZ_HEX_def

text \<open>
  One field of the stored secrets: a block for \<open>n\<close> characters filled from position \<open>off\<close>, which is
  not NUL-terminated, and a block for the \<open>n / 2\<close> bytes it denotes.
\<close>

definition load_field :: "'w tee_api \<Rightarrow> nat \<Rightarrow> nat \<Rightarrow> byte list \<Rightarrow> ('w, byte list) ta" where
  "load_field api n off secrets =
    bind_s (ta_malloc api n) (\<lambda>hex_block.
    bind_s (lift_r (deref hex_block)) (\<lambda>(_, _, after).
    bind_s (lift_r (rd n (drop off secrets))) (\<lambda>hex.
    bind_s (ta_malloc api (n div 2)) (\<lambda>block.
    bind_s (lift_r (deref block)) (\<lambda>(_, old, _).
      lift_r (hexstring_to_byte_array_z old (hex @ after)))))))"

text \<open>A parameter of the call: the string at \<open>mem\<close>, whatever its length, into a block of \<open>n\<close> bytes.\<close>

definition load_param :: "block option \<Rightarrow> byte list \<Rightarrow> ('w, byte list) ta" where
  "load_param block mem =
    bind_s (lift_r (deref block)) (\<lambda>(_, old, _).
      lift_r (hexstring_to_byte_array_z old mem))"

text \<open>
  From the secrets to the output parameter. \<open>old_input\<close> is the former content of the context on
  the stack; the block \<open>configuracao\<close> is used as \<open>TEE_Malloc\<close> returned it.
\<close>

definition reply_proof_compute :: "'w tee_api \<Rightarrow> u32 list \<Rightarrow> byte list \<Rightarrow> memref list
    \<Rightarrow> ('w, memref list) ta" where
  "reply_proof_compute api old_input secrets params =
    bind_s (load_field api KEY_SZ_HEX 0 secrets) (\<lambda>chave.
    bind_s (load_field api ID_DISPOSITIVO_SZ_HEX KEY_SZ_HEX secrets) (\<lambda>id_dispositivo.
    bind_s (ta_malloc api ID_RODADA_SZ) (\<lambda>id_rodada_block.
    bind_s (ta_malloc api NONCE_SZ) (\<lambda>nonce_block.
    bind_s (load_param id_rodada_block (buffer (params ! 0))) (\<lambda>id_rodada.
    bind_s (load_param nonce_block (buffer (params ! 1))) (\<lambda>nonce.
    bind_s (ta_malloc api PROOF_SZ) (\<lambda>prova_block.
    bind_s (ta_malloc api KEY_SZ) (\<lambda>configuracao_block.
    let x = \<lparr>state = old_input\<rparr>;
        x = forro_keysetup x chave in
    bind_s (lift_r (deref configuracao_block)) (\<lambda>(_, configuracao, _).
    let cr = configuracao_rodada id_rodada nonce configuracao;
        cd = configuracao_dispositivo id_dispositivo configuracao;
        x = forro_versetup x cr cd in
    bind_s (lift_r (deref prova_block)) (\<lambda>_.
    let prova = forro (state x) in
    bind_s (lift_r (wr (buffer (params ! 3)) prova)) (\<lambda>out.
      ret_s (params[3 := \<lparr>buffer = out, msize = PROOF_SZ\<rparr>]))))))))))))"

text \<open>The label \<open>exit\<close> of \<open>reply_proof\<close>: only the object identifier is freed.\<close>

definition reply_exit :: "'w tee_api \<Rightarrow> nat \<Rightarrow> nat \<Rightarrow> u32 \<times> memref list
    \<Rightarrow> ('w, u32 \<times> memref list) ta" where
  "reply_exit api object obj_id r =
    bind_s (ta_close api object) (\<lambda>_. bind_s (ta_free api obj_id) (\<lambda>_. ret_s r))"

text \<open>
  The block \<open>secrets_HEX\<close> has room for \<open>SECRETS_SZ_HEX\<close> bytes, and the object is read into it with
  its own size; the block is not checked for a null pointer.
\<close>

definition reply_proof :: "'w tee_api \<Rightarrow> u32 list \<Rightarrow> u32 \<Rightarrow> memref list \<Rightarrow> ('w, u32 \<times> memref list) ta" where
  "reply_proof api old_input param_types params =
    (if param_types \<noteq> TEE_PARAM_TYPES TEE_PARAM_TYPE_MEMREF_INPUT TEE_PARAM_TYPE_MEMREF_INPUT
         TEE_PARAM_TYPE_MEMREF_INPUT TEE_PARAM_TYPE_MEMREF_OUTPUT
     then ret_s (TEE_ERROR_BAD_PARAMETERS, params)
     else
       bind_s (ta_malloc api SECRETS_SZ_HEX) (\<lambda>secrets_block.
       bind_s (ta_malloc api (msize (params ! 2))) (\<lambda>obj_id. case obj_id of
         None \<Rightarrow> ret_s (TEE_ERROR_OUT_OF_MEMORY, params)
       | Some (obj_id, _, _) \<Rightarrow>
           bind_s (lift_r (rd (msize (params ! 2)) (buffer (params ! 2)))) (\<lambda>name.
           bind_s (call_w2 (TEE_OpenPersistentObject api name
             (TEE_DATA_FLAG_ACCESS_READ OR TEE_DATA_FLAG_SHARE_READ))) (\<lambda>(res, object).
           if res \<noteq> TEE_SUCCESS then ret_s (res, params)
           else
             bind_s (call_w2 (TEE_GetObjectInfo1 api object)) (\<lambda>(res, dataSize).
             if res \<noteq> TEE_SUCCESS then reply_exit api object obj_id (res, params)
             else
               bind_s (call_w2 (TEE_ReadObjectData api object dataSize)) (\<lambda>(res, bytes).
               let read_bytes = length bytes in
               if res \<noteq> TEE_SUCCESS then reply_exit api object obj_id (res, params)
               else
                 bind_s (lift_r (deref secrets_block)) (\<lambda>(_, secrets_HEX, _).
                 bind_s (lift_r (wr secrets_HEX bytes)) (\<lambda>secrets.
                 if read_bytes \<noteq> dataSize then reply_exit api object obj_id (res, params)
                 else
                   bind_s (reply_proof_compute api old_input secrets params) (\<lambda>params.
                   reply_exit api object obj_id (res, params)))))))))))"

section \<open>Dispatch\<close>

definition TA_DRA_CMD_READ_RAW :: u32 where "TA_DRA_CMD_READ_RAW = 0"
definition TA_DRA_CMD_WRITE_RAW :: u32 where "TA_DRA_CMD_WRITE_RAW = 1"
definition TA_DRA_CMD_DELETE :: u32 where "TA_DRA_CMD_DELETE = 2"
definition TA_DRA_CMD_REQUEST_PROOF :: u32 where "TA_DRA_CMD_REQUEST_PROOF = 3"

lemmas ta_commands = TA_DRA_CMD_READ_RAW_def TA_DRA_CMD_WRITE_RAW_def TA_DRA_CMD_DELETE_def
  TA_DRA_CMD_REQUEST_PROOF_def

definition TA_InvokeCommandEntryPoint ::
    "'w tee_api \<Rightarrow> u32 list \<Rightarrow> u32 \<Rightarrow> u32 \<Rightarrow> memref list \<Rightarrow> ('w, u32 \<times> memref list) ta" where
  "TA_InvokeCommandEntryPoint api old_input command param_types params =
    (if command = TA_DRA_CMD_WRITE_RAW then create_raw_object api param_types params
     else if command = TA_DRA_CMD_READ_RAW then read_raw_object api param_types params
     else if command = TA_DRA_CMD_DELETE then delete_object api param_types params
     else if command = TA_DRA_CMD_REQUEST_PROOF then reply_proof api old_input param_types params
     else ret_s (TEE_ERROR_NOT_SUPPORTED, params))"

section \<open>What the documentation of the API promises\<close>

text \<open>
  \<open>objs w\<close> are the persistent objects of the application in world \<open>w\<close>; \<open>hdls w\<close> gives the object and
  the data position of an open handle.
\<close>

record 'w tee_view =
  objs :: "'w \<Rightarrow> byte list \<Rightarrow> byte list option"
  hdls :: "'w \<Rightarrow> nat \<Rightarrow> (byte list \<times> nat) option"

definition same_store :: "'w tee_view \<Rightarrow> 'w \<Rightarrow> 'w \<Rightarrow> bool" where
  "same_store v w w' \<longleftrightarrow> objs v w' = objs v w \<and> hdls v w' = hdls v w"

definition heap_spec :: "'w tee_api \<Rightarrow> 'w tee_view \<Rightarrow> bool" where
  "heap_spec api v \<longleftrightarrow> (\<forall>n w p. same_store v w (snd (TEE_Malloc api n w)) \<and>
     same_store v w (TEE_Free api p w) \<and>
     (\<forall>b. fst (TEE_Malloc api n w) = Some b \<longrightarrow> fst (snd b) = replicate n 0))"

definition open_spec :: "'w tee_api \<Rightarrow> 'w tee_view \<Rightarrow> bool" where
  "open_spec api v \<longleftrightarrow> (\<forall>k f w r h w'. TEE_OpenPersistentObject api k f w = (r, h, w') \<longrightarrow>
     objs v w' = objs v w \<and> (objs v w k = None \<longrightarrow> r \<noteq> TEE_SUCCESS) \<and>
     (r = TEE_SUCCESS \<longrightarrow> hdls v w' h = Some (k, 0)))"

definition create_spec :: "'w tee_api \<Rightarrow> 'w tee_view \<Rightarrow> bool" where
  "create_spec api v \<longleftrightarrow> (\<forall>k f w r h w'. TEE_CreatePersistentObject api k f w = (r, h, w') \<longrightarrow>
     (r = TEE_SUCCESS \<longrightarrow> objs v w' = (objs v w)(k \<mapsto> []) \<and> hdls v w' h = Some (k, 0)) \<and>
     (r \<noteq> TEE_SUCCESS \<longrightarrow> objs v w' = objs v w))"

definition info_spec :: "'w tee_api \<Rightarrow> 'w tee_view \<Rightarrow> bool" where
  "info_spec api v \<longleftrightarrow> (\<forall>h w r n w'. TEE_GetObjectInfo1 api h w = (r, n, w') \<longrightarrow> same_store v w w' \<and>
     (\<forall>k p d. r = TEE_SUCCESS \<and> hdls v w h = Some (k, p) \<and> objs v w k = Some d \<longrightarrow> n = length d))"

definition read_spec :: "'w tee_api \<Rightarrow> 'w tee_view \<Rightarrow> bool" where
  "read_spec api v \<longleftrightarrow> (\<forall>h n w r b w'. TEE_ReadObjectData api h n w = (r, b, w') \<longrightarrow>
     objs v w' = objs v w \<and>
     (\<forall>k p d. r = TEE_SUCCESS \<and> hdls v w h = Some (k, p) \<and> objs v w k = Some d \<longrightarrow>
        b = take n (drop p d)))"

definition write_spec :: "'w tee_api \<Rightarrow> 'w tee_view \<Rightarrow> bool" where
  "write_spec api v \<longleftrightarrow> (\<forall>h b w r w' k. TEE_WriteObjectData api h b w = (r, w') \<and>
     hdls v w h = Some (k, 0) \<and> objs v w k = Some [] \<longrightarrow>
       (\<exists>p. hdls v w' h = Some (k, p)) \<and>
       (r = TEE_SUCCESS \<longrightarrow> objs v w' = (objs v w)(k \<mapsto> b)) \<and>
       (r \<noteq> TEE_SUCCESS \<longrightarrow> objs v w' = objs v w))"

definition close_spec :: "'w tee_api \<Rightarrow> 'w tee_view \<Rightarrow> bool" where
  "close_spec api v \<longleftrightarrow> (\<forall>h w. objs v (TEE_CloseObject api h w) = objs v w \<and>
     (\<forall>k p. hdls v w h = Some (k, p) \<longrightarrow>
        objs v (TEE_CloseAndDeletePersistentObject1 api h w) = (objs v w)(k := None)))"

definition tee_spec :: "'w tee_api \<Rightarrow> 'w tee_view \<Rightarrow> bool" where
  "tee_spec api v \<longleftrightarrow> heap_spec api v \<and> open_spec api v \<and> create_spec api v \<and> info_spec api v \<and>
     read_spec api v \<and> write_spec api v \<and> close_spec api v"

section \<open>Executions\<close>

text \<open>\<open>wp m P s\<close>: if \<open>m\<close> returns from \<open>s\<close> without a fault, its result and state satisfy \<open>P\<close>.\<close>

definition wp :: "('w, 'a) ta \<Rightarrow> ('a \<Rightarrow> 'w ta_state \<Rightarrow> bool) \<Rightarrow> 'w ta_state \<Rightarrow> bool" where
  "wp m P s \<longleftrightarrow> (\<forall>x s'. m s = Inr (x, s') \<longrightarrow> P x s')"

named_theorems wp_rules \<open>conditions of the operations of the trusted application\<close>

lemma wp_ret [wp_rules]: "P x s \<Longrightarrow> wp (ret_s x) P s"
  by (simp add: wp_def ret_s_def)

lemma wp_bind [wp_rules]: "wp m (\<lambda>x. wp (k x) P) s \<Longrightarrow> wp (bind_s m k) P s"
  by (auto simp: wp_def bind_s_def bind_r_Inr_iff)

lemma wp_lift [wp_rules]: "(\<And>x. r = Inr x \<Longrightarrow> P x s) \<Longrightarrow> wp (lift_r r) P s"
  by (auto simp: wp_def lift_r_def bind_r_Inr_iff)

lemma wp_if [wp_rules]: "(b \<Longrightarrow> wp m P s) \<Longrightarrow> (\<not> b \<Longrightarrow> wp m' P s) \<Longrightarrow> wp (if b then m else m') P s"
  by simp

lemma wp_option [wp_rules]: "(x = None \<Longrightarrow> wp m P s) \<Longrightarrow> (\<And>p c t. x = Some (p, c, t) \<Longrightarrow> wp (f p c t) P s) \<Longrightarrow>
  wp (case x of None \<Rightarrow> m | Some (p, c, t) \<Rightarrow> f p c t) P s"
  by (auto split: option.splits)

lemma wp_pair [wp_rules]: "(\<And>a b. x = (a, b) \<Longrightarrow> wp (f a b) P s) \<Longrightarrow> wp (case x of (a, b) \<Rightarrow> f a b) P s"
  by (cases x) auto

lemma wp_call_w [wp_rules]:
  "(\<And>x w. f (world s) = (x, w) \<Longrightarrow> P x (s\<lparr>world := w\<rparr>)) \<Longrightarrow> wp (call_w f) P s"
  by (auto simp: wp_def call_w_def split: prod.splits)

lemma wp_call_w2 [wp_rules]:
  "(\<And>x y w. f (world s) = (x, y, w) \<Longrightarrow> P (x, y) (s\<lparr>world := w\<rparr>)) \<Longrightarrow> wp (call_w2 f) P s"
  by (auto simp: wp_def call_w2_def split: prod.splits)

lemma wp_malloc [wp_rules]:
  assumes "\<And>w. TEE_Malloc api n (world s) = (None, w) \<Longrightarrow> P None (s\<lparr>world := w\<rparr>)"
    and "\<And>p c t w. TEE_Malloc api n (world s) = (Some (p, c, t), w) \<Longrightarrow>
      P (Some (p, c, t)) (s\<lparr>world := w, live := p # live s\<rparr>)"
  shows "wp (ta_malloc api n) P s"
  using assms by (auto simp: wp_def ta_malloc_def split: prod.splits option.splits)

lemma wp_free [wp_rules]:
  "P () (s\<lparr>world := TEE_Free api p (world s), live := remove1 p (live s)\<rparr>) \<Longrightarrow> wp (ta_free api p) P s"
  by (simp add: wp_def ta_free_def)

lemma wp_close [wp_rules]:
  "P () (s\<lparr>world := TEE_CloseObject api h (world s)\<rparr>) \<Longrightarrow> wp (ta_close api h) P s"
  by (simp add: wp_def ta_close_def)

lemma wp_close_delete [wp_rules]:
  "P () (s\<lparr>world := TEE_CloseAndDeletePersistentObject1 api h (world s)\<rparr>) \<Longrightarrow>
   wp (ta_close_delete api h) P s"
  by (simp add: wp_def ta_close_delete_def)

lemma tee_malloc:
  assumes "tee_spec api v" "TEE_Malloc api n w = (b, w')"
  shows "objs v w' = objs v w" "hdls v w' = hdls v w" "b = Some (p, c, t) \<Longrightarrow> c = replicate n 0"
proof -
  have "same_store v w (snd (TEE_Malloc api n w))"
    "\<And>b. fst (TEE_Malloc api n w) = Some b \<Longrightarrow> fst (snd b) = replicate n 0"
    using assms(1) unfolding tee_spec_def heap_spec_def by blast+
  then show "objs v w' = objs v w" "hdls v w' = hdls v w" "b = Some (p, c, t) \<Longrightarrow> c = replicate n 0"
    using assms(2) by (auto simp: same_store_def)
qed

lemma tee_free:
  assumes "tee_spec api v"
  shows "objs v (TEE_Free api p w) = objs v w" "hdls v (TEE_Free api p w) = hdls v w"
  using assms unfolding tee_spec_def heap_spec_def same_store_def by blast+

lemma tee_close:
  assumes "tee_spec api v"
  shows "objs v (TEE_CloseObject api h w) = objs v w"
    "hdls v w h = Some (k, p) \<Longrightarrow>
      objs v (TEE_CloseAndDeletePersistentObject1 api h w) = (objs v w)(k := None)"
  using assms unfolding tee_spec_def close_spec_def by blast+

lemma tee_open:
  assumes "tee_spec api v" "TEE_OpenPersistentObject api k f w = (r, h, w')"
  shows "objs v w' = objs v w" "objs v w k = None \<Longrightarrow> r \<noteq> TEE_SUCCESS"
    "r = TEE_SUCCESS \<Longrightarrow> hdls v w' h = Some (k, 0)"
  using assms by (auto simp: tee_spec_def open_spec_def)

lemma tee_create:
  assumes "tee_spec api v" "TEE_CreatePersistentObject api k f w = (r, h, w')"
  shows "r = TEE_SUCCESS \<Longrightarrow> objs v w' = (objs v w)(k \<mapsto> [])"
    "r = TEE_SUCCESS \<Longrightarrow> hdls v w' h = Some (k, 0)"
    "r \<noteq> TEE_SUCCESS \<Longrightarrow> objs v w' = objs v w"
  using assms by (auto simp: tee_spec_def create_spec_def)

lemma tee_info:
  assumes "tee_spec api v" "TEE_GetObjectInfo1 api h w = (r, n, w')"
  shows "objs v w' = objs v w" "hdls v w' = hdls v w"
    "r = TEE_SUCCESS \<Longrightarrow> hdls v w h = Some (k, p) \<Longrightarrow> objs v w k = Some d \<Longrightarrow> n = length d"
  using assms unfolding tee_spec_def info_spec_def same_store_def by blast+

lemma tee_read:
  assumes "tee_spec api v" "TEE_ReadObjectData api h n w = (r, b, w')"
  shows "objs v w' = objs v w"
    "r = TEE_SUCCESS \<Longrightarrow> hdls v w h = Some (k, p) \<Longrightarrow> objs v w k = Some d \<Longrightarrow> b = take n (drop p d)"
  using assms unfolding tee_spec_def read_spec_def by blast+

lemma tee_write:
  assumes "tee_spec api v" "TEE_WriteObjectData api h b w = (r, w')"
    "hdls v w h = Some (k, 0)" "objs v w k = Some []"
  shows "\<exists>p. hdls v w' h = Some (k, p)"
    "r = TEE_SUCCESS \<Longrightarrow> objs v w' = (objs v w)(k \<mapsto> b)"
    "r \<noteq> TEE_SUCCESS \<Longrightarrow> objs v w' = objs v w"
  using assms unfolding tee_spec_def write_spec_def by blast+

text \<open>The same facts in the form in which they are applied to an execution.\<close>

lemma malloc_D: "tee_spec api v \<Longrightarrow> TEE_Malloc api n w = (b, w') \<Longrightarrow>
  objs v w' = objs v w \<and> hdls v w' = hdls v w"
  by (simp add: tee_malloc(1,2))

lemma create_D: "tee_spec api v \<Longrightarrow> TEE_CreatePersistentObject api k f w = (r, h, w') \<Longrightarrow>
  (r = TEE_SUCCESS \<longrightarrow> objs v w' = (objs v w)(k \<mapsto> []) \<and> hdls v w' h = Some (k, 0)) \<and>
  (r \<noteq> TEE_SUCCESS \<longrightarrow> objs v w' = objs v w)"
  by (simp add: tee_create)

lemma write_D: "tee_spec api v \<Longrightarrow> TEE_WriteObjectData api h b w = (r, w') \<Longrightarrow>
  hdls v w h = Some (k, 0) \<Longrightarrow> objs v w = m(k \<mapsto> []) \<Longrightarrow>
  (\<exists>p. hdls v w' h = Some (k, p)) \<and> (r = TEE_SUCCESS \<longrightarrow> objs v w' = m(k \<mapsto> b)) \<and>
  (r \<noteq> TEE_SUCCESS \<longrightarrow> objs v w' = m(k \<mapsto> []))"
  using tee_write [of api v h b w r w' k] by auto

section \<open>The raw-object commands on the store\<close>

definition raw_types :: "u32 \<Rightarrow> u32 \<Rightarrow> u32" where
  "raw_types t0 t1 = TEE_PARAM_TYPES t0 t1 TEE_PARAM_TYPE_NONE TEE_PARAM_TYPE_NONE"

definition name_of :: "memref list \<Rightarrow> byte list" where
  "name_of params = take (msize (params ! 0)) (buffer (params ! 0))"

lemma rd_Inr: "rd n m = Inr x \<longleftrightarrow> n \<le> length m \<and> x = take n m"
  by (auto simp: rd_def)

lemma oom_ne_success [simp]: "TEE_ERROR_OUT_OF_MEMORY \<noteq> TEE_SUCCESS" "TEE_ERROR_SHORT_BUFFER \<noteq> TEE_SUCCESS"
  "TEE_ERROR_BAD_PARAMETERS \<noteq> TEE_SUCCESS" "TEE_ERROR_NOT_SUPPORTED \<noteq> TEE_SUCCESS"
  by (simp_all add: tee_results)

lemma create_raw_object_wp:
  assumes "tee_spec api v"
  shows "wp (create_raw_object api (raw_types TEE_PARAM_TYPE_MEMREF_INPUT TEE_PARAM_TYPE_MEMREF_INPUT) params)
    (\<lambda>(r, ps) s'. ps = params \<and>
      (r = TEE_SUCCESS \<longrightarrow> objs v (world s') = (objs v (world s))
        (name_of params \<mapsto> take (msize (params ! 1)) (buffer (params ! 1)))) \<and>
      (r \<noteq> TEE_SUCCESS \<longrightarrow> objs v (world s') = objs v (world s) \<or>
        objs v (world s') = (objs v (world s))(name_of params := None))) s"
  unfolding create_raw_object_def raw_types_def
  apply (intro wp_rules)

  apply (simp_all add: rd_Inr name_of_def tee_free [OF assms] tee_close(1) [OF assms])
  apply (auto dest!: malloc_D [OF assms] create_D [OF assms] write_D [OF assms] simp: tee_close [OF assms])
  done

lemma info_D: "tee_spec api v \<Longrightarrow> TEE_GetObjectInfo1 api h w = (r, n, w') \<Longrightarrow>
  objs v w' = objs v w \<and> hdls v w' = hdls v w \<and>
  (\<forall>k p d. r = TEE_SUCCESS \<and> hdls v w h = Some (k, p) \<and> objs v w k = Some d \<longrightarrow> n = length d)"
  using tee_info [of api v h w r n w'] by blast

lemma open_D: "tee_spec api v \<Longrightarrow> TEE_OpenPersistentObject api k f w = (r, h, w') \<Longrightarrow>
  objs v w' = objs v w \<and> (objs v w k = None \<longrightarrow> r \<noteq> TEE_SUCCESS) \<and>
  (r = TEE_SUCCESS \<longrightarrow> hdls v w' h = Some (k, 0))"
  by (simp add: tee_open)

lemma read_D: "tee_spec api v \<Longrightarrow> TEE_ReadObjectData api h n w = (r, b, w') \<Longrightarrow>
  objs v w' = objs v w \<and>
  (\<forall>k p d. r = TEE_SUCCESS \<and> hdls v w h = Some (k, p) \<and> objs v w k = Some d \<longrightarrow> b = take n (drop p d))"
  using tee_read [of api v h n w r b w'] by blast

lemma delete_object_wp:
  assumes "tee_spec api v"
  shows "wp (delete_object api (raw_types TEE_PARAM_TYPE_MEMREF_INPUT TEE_PARAM_TYPE_NONE) params)
    (\<lambda>(r, ps) s'. ps = params \<and>
      objs v (world s') = (if r = TEE_SUCCESS then (objs v (world s))(name_of params := None)
        else objs v (world s))) s"
  unfolding delete_object_def raw_types_def
  apply (intro wp_rules)
     apply (simp_all add: rd_Inr name_of_def tee_free [OF assms])
     apply (auto dest!: malloc_D [OF assms] open_D [OF assms] simp: tee_close [OF assms])
  done

lemma read_raw_object_wp:
  assumes "tee_spec api v" "length params = 4"
  shows "wp (read_raw_object api (raw_types TEE_PARAM_TYPE_MEMREF_INPUT TEE_PARAM_TYPE_MEMREF_OUTPUT) params)
    (\<lambda>(r, ps) s'. objs v (world s') = objs v (world s) \<and>
      (case objs v (world s) (name_of params) of
         None \<Rightarrow> r \<noteq> TEE_SUCCESS \<and> ps = params
       | Some d \<Rightarrow>
           if r = TEE_SUCCESS then length d \<le> msize (params ! 1) \<and>
             ps = params[1 := (params ! 1)\<lparr>buffer := d @ drop (length d) (buffer (params ! 1)),
               msize := length d\<rparr>]
           else ps = params \<or> (r = TEE_ERROR_SHORT_BUFFER \<and> msize (params ! 1) < length d \<and>
             ps = params[1 := (params ! 1)\<lparr>msize := length d\<rparr>]))) s"
  unfolding read_raw_object_def raw_types_def read_exit_def Let_def
  apply (intro wp_rules)
  apply (simp_all add: rd_Inr name_of_def tee_free [OF assms(1)] tee_close(1) [OF assms(1)])
  apply (auto dest!: malloc_D [OF assms(1)] open_D [OF assms(1)] info_D [OF assms(1)] read_D [OF assms(1)] simp: wr_def assms(2)
     split: option.splits if_splits)
  done

lemma create_raw_object_live:
  "wp (create_raw_object api types params) (\<lambda>(r, ps) s'. r \<noteq> TEE_ERROR_OUT_OF_MEMORY \<longrightarrow> live s' = live s) s"
  unfolding create_raw_object_def by (intro wp_rules) simp_all

lemma read_raw_object_live:
  "wp (read_raw_object api types params) (\<lambda>(r, ps) s'. r \<noteq> TEE_ERROR_OUT_OF_MEMORY \<longrightarrow> live s' = live s) s"
  unfolding read_raw_object_def read_exit_def Let_def by (intro wp_rules) simp_all

lemma delete_object_live:
  "wp (delete_object api types params) (\<lambda>(r, ps) s'. live s' = live s) s"
  unfolding delete_object_def by (intro wp_rules) simp_all

section \<open>Runs that do not fault\<close>

text \<open>\<open>tot m P s\<close>: \<open>m\<close> returns from \<open>s\<close> without a fault and its result and state satisfy \<open>P\<close>.\<close>

definition tot :: "('w, 'a) ta \<Rightarrow> ('a \<Rightarrow> 'w ta_state \<Rightarrow> bool) \<Rightarrow> 'w ta_state \<Rightarrow> bool" where
  "tot m P s \<longleftrightarrow> (\<exists>x s'. m s = Inr (x, s') \<and> P x s')"

named_theorems tot_rules \<open>operations of the trusted application that return\<close>

lemma tot_ret [tot_rules]: "P x s \<Longrightarrow> tot (ret_s x) P s"
  by (simp add: tot_def ret_s_def)

lemma tot_bind [tot_rules]: "tot m (\<lambda>x. tot (k x) P) s \<Longrightarrow> tot (bind_s m k) P s"
  by (auto simp: tot_def bind_s_def)

lemma tot_lift: "r = Inr x \<Longrightarrow> P x s \<Longrightarrow> tot (lift_r r) P s"
  by (simp add: tot_def lift_r_def)

lemma tot_call_w2 [tot_rules]:
  "(\<And>x y w. f (world s) = (x, y, w) \<Longrightarrow> P (x, y) (s\<lparr>world := w\<rparr>)) \<Longrightarrow> tot (call_w2 f) P s"
  by (cases "f (world s)") (auto simp: tot_def call_w2_def split: prod.splits)

lemma tot_free [tot_rules]:
  "P () (s\<lparr>world := TEE_Free api p (world s), live := remove1 p (live s)\<rparr>) \<Longrightarrow> tot (ta_free api p) P s"
  by (simp add: tot_def ta_free_def)

lemma tot_close [tot_rules]:
  "P () (s\<lparr>world := TEE_CloseObject api h (world s)\<rparr>) \<Longrightarrow> tot (ta_close api h) P s"
  by (simp add: tot_def ta_close_def)

text \<open>
  Resources: memory is always available, an object that exists can be opened for reading and read, and the
  byte after a block of text, or the one after that, is a NUL.
\<close>

definition tee_available :: "'w tee_api \<Rightarrow> 'w tee_view \<Rightarrow> bool" where
  "tee_available api v \<longleftrightarrow>
    (\<forall>n w. \<exists>p c t w'. TEE_Malloc api n w = (Some (p, c, t), w') \<and> nul_soon t) \<and>
    (\<forall>k f w r h w'. TEE_OpenPersistentObject api k f w = (r, h, w') \<and> objs v w k \<noteq> None \<and>
      f AND TEE_DATA_FLAG_ACCESS_READ \<noteq> 0 \<longrightarrow> r = TEE_SUCCESS) \<and>
    (\<forall>h w r n w'. TEE_GetObjectInfo1 api h w = (r, n, w') \<and> hdls v w h \<noteq> None \<longrightarrow> r = TEE_SUCCESS) \<and>
    (\<forall>h n w r b w'. TEE_ReadObjectData api h n w = (r, b, w') \<and> hdls v w h \<noteq> None \<longrightarrow> r = TEE_SUCCESS)"

lemma tot_malloc:
  assumes "tee_spec api v" "tee_available api v"
    and "\<And>p t w. objs v w = objs v (world s) \<Longrightarrow> hdls v w = hdls v (world s) \<Longrightarrow> nul_soon t \<Longrightarrow>
      P (Some (p, replicate n 0, t)) (s\<lparr>world := w, live := p # live s\<rparr>)"
  shows "tot (ta_malloc api n) P s"
proof -
  obtain p c t w' where m: "TEE_Malloc api n (world s) = (Some (p, c, t), w')" "nul_soon t"
    using assms(2) [unfolded tee_available_def, THEN conjunct1, THEN spec, THEN spec, of n "world s"]
    by auto
  then have "c = replicate n 0" "objs v w' = objs v (world s)" "hdls v w' = hdls v (world s)"
    using tee_malloc [OF assms(1) m(1)] by simp_all
  then show ?thesis using m assms(3) by (simp add: tot_def ta_malloc_def)
qed

text \<open>A text of NUL-free characters followed by memory with a NUL in its first two bytes.\<close>

lemma hexstring_z_tail_ok:
  "0 \<notin> set s \<Longrightarrow> length s = 2 * length dest \<Longrightarrow> nul_soon tail \<Longrightarrow>
   hexstring_to_byte_array_z dest (s @ tail) = Inr (hex_pairs s)"
  by (auto simp: hexstring_to_byte_array_z_tail nul_soon_def)

lemma tot_load_field:
  assumes "tee_spec api v" "tee_available api v"
    and "take n (drop off secrets) = hex" "length hex = n" "even n" "0 \<notin> set hex"
    and "\<And>s'. objs v (world s') = objs v (world s) \<Longrightarrow> length (live s') = length (live s) + 2 \<Longrightarrow>
      set (live s) \<subseteq> set (live s') \<Longrightarrow> P (hex_pairs hex) s'"
  shows "tot (load_field api n off secrets) P s"
proof -
  have "length secrets - off \<ge> n" using assms(3,4) by auto
  then have "rd n (drop off secrets) = Inr hex" using assms(3) by (simp add: rd_def)
  moreover have "hexstring_to_byte_array_z (replicate (n div 2) 0) (hex @ t) = Inr (hex_pairs hex)"
    if "nul_soon t" for t
    using that assms(4-6) by (intro hexstring_z_tail_ok) auto
  ultimately show ?thesis
    unfolding load_field_def
    by (intro tot_rules tot_malloc [OF assms(1,2)])
      (auto intro!: tot_rules tot_malloc [OF assms(1,2)] tot_lift assms(7) simp: deref_def)
qed

lemma tot_load_param:
  assumes "mem = hex @ t" "length hex = 2 * n" "0 \<notin> set hex" "nul_soon t" "P (hex_pairs hex) s"
  shows "tot (load_param (Some (p, replicate n 0, t')) mem) P s"
  using assms hexstring_z_tail_ok [of hex "replicate n 0" t]
  unfolding load_param_def by (auto intro!: tot_rules tot_lift simp: deref_def)

lemma open_available: "tee_available api v \<Longrightarrow> TEE_OpenPersistentObject api k f w = (r, h, w') \<Longrightarrow>
  objs v w k = Some d \<Longrightarrow> f AND TEE_DATA_FLAG_ACCESS_READ \<noteq> 0 \<Longrightarrow> r = TEE_SUCCESS"
  unfolding tee_available_def by blast

lemma read_flags: "(TEE_DATA_FLAG_ACCESS_READ OR TEE_DATA_FLAG_SHARE_READ) AND TEE_DATA_FLAG_ACCESS_READ \<noteq> 0"
  by (simp add: TEE_DATA_FLAG_ACCESS_READ_def TEE_DATA_FLAG_SHARE_READ_def)

lemma info_available: "tee_available api v \<Longrightarrow> TEE_GetObjectInfo1 api h w = (r, n, w') \<Longrightarrow>
  hdls v w h = Some q \<Longrightarrow> r = TEE_SUCCESS"
  unfolding tee_available_def by blast

lemma read_available: "tee_available api v \<Longrightarrow> TEE_ReadObjectData api h n w = (r, b, w') \<Longrightarrow>
  hdls v w h = Some q \<Longrightarrow> r = TEE_SUCCESS"
  unfolding tee_available_def by blast

definition proof_types :: u32 where
  "proof_types = TEE_PARAM_TYPES TEE_PARAM_TYPE_MEMREF_INPUT TEE_PARAM_TYPE_MEMREF_INPUT
     TEE_PARAM_TYPE_MEMREF_INPUT TEE_PARAM_TYPE_MEMREF_OUTPUT"

text \<open>
  The call as the host makes it: the two hexadecimal arguments, the name of an object, and room for
  the proof.
\<close>

definition proof_call :: "memref list \<Rightarrow> byte list \<Rightarrow> byte list \<Rightarrow> byte list \<Rightarrow> bool" where
  "proof_call params id_rodada nonce name \<longleftrightarrow> length params = 4 \<and>
    (\<exists>t. buffer (params ! 0) = id_rodada @ t \<and> nul_soon t) \<and>
    (\<exists>t. buffer (params ! 1) = nonce @ t \<and> nul_soon t) \<and>
    (\<exists>t. buffer (params ! 2) = name @ t) \<and> msize (params ! 2) = length name \<and>
    length id_rodada = 16 \<and> length nonce = 16 \<and> 0 \<notin> set id_rodada \<and> 0 \<notin> set nonce \<and>
    64 \<le> length (buffer (params ! 3))"

lemma tot_bind_lift: "r = Inr x \<Longrightarrow> tot (k x) P s \<Longrightarrow> tot (bind_s (lift_r r) k) P s"
  by (simp add: tot_def bind_s_def lift_r_def)

lemma tot_open:
  assumes "tee_spec api v" "tee_available api v" "objs v (world s) k = Some d"
    and "\<And>h w. objs v w = objs v (world s) \<Longrightarrow> hdls v w h = Some (k, 0) \<Longrightarrow>
      P (TEE_SUCCESS, h) (s\<lparr>world := w\<rparr>)"
    and "f AND TEE_DATA_FLAG_ACCESS_READ \<noteq> 0"
  shows "tot (call_w2 (TEE_OpenPersistentObject api k f)) P s"
proof (rule tot_call_w2)
  fix r h w assume o: "TEE_OpenPersistentObject api k f (world s) = (r, h, w)"
  have "r = TEE_SUCCESS" by (rule open_available [OF assms(2) o assms(3,5)])
  then show "P (r, h) (s\<lparr>world := w\<rparr>)" using open_D [OF assms(1) o] assms(4) by simp
qed

lemma tot_info:
  assumes "tee_spec api v" "tee_available api v" "objs v (world s) k = Some d"
    and "hdls v (world s) h = Some (k, 0)"
    and "\<And>w. objs v w = objs v (world s) \<Longrightarrow> hdls v w = hdls v (world s) \<Longrightarrow>
      P (TEE_SUCCESS, length d) (s\<lparr>world := w\<rparr>)"
  shows "tot (call_w2 (TEE_GetObjectInfo1 api h)) P s"
proof (rule tot_call_w2)
  fix r n w assume o: "TEE_GetObjectInfo1 api h (world s) = (r, n, w)"
  have "r = TEE_SUCCESS" by (rule info_available [OF assms(2) o assms(4)])
  then show "P (r, n) (s\<lparr>world := w\<rparr>)" using info_D [OF assms(1) o] assms(3-5) by auto
qed

lemma tot_read:
  assumes "tee_spec api v" "tee_available api v" "objs v (world s) k = Some d"
    and "hdls v (world s) h = Some (k, 0)" "n = length d"
    and "\<And>w. objs v w = objs v (world s) \<Longrightarrow> P (TEE_SUCCESS, d) (s\<lparr>world := w\<rparr>)"
  shows "tot (call_w2 (TEE_ReadObjectData api h n)) P s"
proof (rule tot_call_w2)
  fix r b w assume o: "TEE_ReadObjectData api h n (world s) = (r, b, w)"
  have "r = TEE_SUCCESS" by (rule read_available [OF assms(2) o assms(4)])
  then show "P (r, b) (s\<lparr>world := w\<rparr>)" using read_D [OF assms(1) o] assms(3-6) by auto
qed

lemma tot_compute:
  assumes "tee_spec api v" "tee_available api v" "length old = 16"
    and "proof_call params id_rodada nonce name"
    and "length chave = 64" "length id_dispositivo = 32" "0 \<notin> set chave" "0 \<notin> set id_dispositivo"
    and "\<And>s'. objs v (world s') = objs v (world s) \<Longrightarrow> length (live s') = length (live s) + 8 \<Longrightarrow>
      set (live s) \<subseteq> set (live s') \<Longrightarrow>
      P (params[3 := \<lparr>buffer = dra_proof (hex_pairs chave) (hex_pairs id_rodada) (hex_pairs nonce)
          (hex_pairs id_dispositivo) (replicate 32 0) @ drop 64 (buffer (params ! 3)), msize = 64\<rparr>]) s'"
  shows "tot (reply_proof_compute api old (chave @ id_dispositivo) params) P s"
proof -
  from assms(4) obtain t0 t1 where b: "buffer (params ! 0) = id_rodada @ t0" "nul_soon t0"
    "buffer (params ! 1) = nonce @ t1" "nul_soon t1" "length id_rodada = 16" "length nonce = 16"
    "0 \<notin> set id_rodada" "0 \<notin> set nonce" "64 \<le> length (buffer (params ! 3))"
    by (auto simp: proof_call_def)
  let ?x = "forro_versetup (forro_keysetup \<lparr>state = old\<rparr> (hex_pairs chave))
    (configuracao_rodada (hex_pairs id_rodada) (hex_pairs nonce) (replicate 32 0))
    (configuracao_dispositivo (hex_pairs id_dispositivo) (replicate 32 0))"
  let ?p = "dra_proof (hex_pairs chave) (hex_pairs id_rodada) (hex_pairs nonce)
    (hex_pairs id_dispositivo) (replicate 32 0)"
  have st: "forro (state ?x) = ?p"
    unfolding dra_proof_def using assms(3,6) b
    by (subst setup_dra_state) (simp_all add: wf_ctx_def width)
  have w: "wr (buffer (params ! 3)) ?p = Inr (?p @ drop 64 (buffer (params ! 3)))"
    using b(9) by (simp add: wr_def width)
  show ?thesis
    unfolding reply_proof_compute_def Let_def ta_sizes
    apply (intro tot_rules)
    apply (rule tot_load_field [OF assms(1,2), of _ _ _ chave]; simp add: assms(5,7))
    apply (intro tot_rules)
    apply (rule tot_load_field [OF assms(1,2), of _ _ _ id_dispositivo]; simp add: assms(5,6,8))
    apply (intro tot_rules, rule tot_malloc [OF assms(1,2)], intro tot_rules, rule tot_malloc [OF assms(1,2)])
    apply (intro tot_rules, rule tot_load_param [OF b(1)]; (simp add: b)?)
    apply (intro tot_rules, rule tot_load_param [OF b(3) [unfolded One_nat_def]]; (simp add: b)?)
    apply (intro tot_rules, rule tot_malloc [OF assms(1,2)], intro tot_rules, rule tot_malloc [OF assms(1,2)])
    apply (simp only: deref_def option.case prod.case)
    apply (rule tot_bind_lift [OF refl], simp only: prod.case)
    apply (rule tot_bind_lift [OF refl], simp only: st, rule tot_bind_lift [OF w], rule tot_ret)
    apply (rule assms(9); auto)
    done
qed

lemma reply_proof_returns:
  assumes "tee_spec api v" "tee_available api v" "length old = 16"
    and "proof_call params id_rodada nonce name"
    and "objs v (world s) name = Some (chave @ id_dispositivo)"
    and "length chave = 64" "length id_dispositivo = 32" "0 \<notin> set chave" "0 \<notin> set id_dispositivo"
  shows "\<exists>s'. reply_proof api old proof_types params s = Inr ((TEE_SUCCESS,
      params[3 := \<lparr>buffer = dra_proof (hex_pairs chave) (hex_pairs id_rodada) (hex_pairs nonce)
        (hex_pairs id_dispositivo) (replicate 32 0) @ drop 64 (buffer (params ! 3)), msize = 64\<rparr>]), s')
    \<and> objs v (world s') = objs v (world s) \<and> length (live s') = length (live s) + 9"
proof -
  have name: "rd (msize (params ! 2)) (buffer (params ! 2)) = Inr name"
    using assms(4) by (auto simp: proof_call_def rd_exact)
  have wr: "wr (replicate SECRETS_SZ_HEX 0) (chave @ id_dispositivo) = Inr (chave @ id_dispositivo)"
    using assms(6,7) by (simp add: wr_def ta_sizes)
  have "tot (reply_proof api old proof_types params) (\<lambda>r s'. r = (TEE_SUCCESS,
      params[3 := \<lparr>buffer = dra_proof (hex_pairs chave) (hex_pairs id_rodada) (hex_pairs nonce)
        (hex_pairs id_dispositivo) (replicate 32 0) @ drop 64 (buffer (params ! 3)), msize = 64\<rparr>])
    \<and> objs v (world s') = objs v (world s) \<and> length (live s') = length (live s) + 9) s"
    unfolding reply_proof_def proof_types_def Let_def
    apply (simp only: simp_thms if_False)
    apply (intro tot_rules, rule tot_malloc [OF assms(1,2)], intro tot_rules,
        rule tot_malloc [OF assms(1,2)])
    apply (simp only: option.case prod.case)
    apply (rule tot_bind_lift [OF name], rule tot_bind, rule tot_open [OF assms(1,2) _ _ read_flags],
        simp add: assms(5), simp only: prod.case simp_thms if_False)
    apply (rule tot_bind, rule tot_info [OF assms(1,2), where k = name and d = "chave @ id_dispositivo"], simp add: assms(5), simp,
        simp only: prod.case simp_thms if_False)
    apply (rule tot_bind, rule tot_read [OF assms(1,2), where k = name and d = "chave @ id_dispositivo"], simp add: assms(5), simp, rule refl,
        simp only: prod.case simp_thms if_False deref_def option.case)
    apply (rule tot_bind_lift [OF refl], simp only: prod.case, rule tot_bind_lift [OF wr])
    apply (rule tot_bind, rule tot_compute [OF assms(1-4) assms(6-9)])
    apply (auto simp: reply_exit_def tee_free(1) [OF assms(1)] tee_close(1) [OF assms(1)] length_remove1
      intro!: tot_rules)
    done
  then show ?thesis by (auto simp: tot_def)
qed

section \<open>Runs that fault\<close>

lemma bind_s_fault: "tot m (\<lambda>x s'. k x s' = Inl f) s \<Longrightarrow> bind_s m k s = Inl f"
  by (auto simp: tot_def bind_s_def)

lemma bind_lift_fault: "r = Inl f \<Longrightarrow> bind_s (lift_r r) k s = Inl f"
  by (simp add: bind_s_def lift_r_def)

text \<open>C7: a proof request answers with the attestation proof of the stored key and device identifier
  and of the two arguments, for the all-zero configuration: when the object holds the two texts,
  memory is available, and every text is soon followed by a NUL, the command returns
  \<open>TEE_SUCCESS\<close>, writes exactly the 64 bytes of the proof, sets the size to 64, changes no stored
  object, and leaves nine heap blocks allocated.\<close>

theorem reply_proof_correct:
  assumes "tee_spec api v" "tee_available api v" "length old = 16"
    and "proof_call params id_rodada nonce name"
    and "objs v (world s) name = Some (chave @ id_dispositivo)"
    and "length chave = 64" "length id_dispositivo = 32" "0 \<notin> set chave" "0 \<notin> set id_dispositivo"
  shows "\<exists>s'. reply_proof api old proof_types params s = Inr ((TEE_SUCCESS,
      params[3 := \<lparr>buffer = dra_proof (hex_pairs chave) (hex_pairs id_rodada) (hex_pairs nonce)
        (hex_pairs id_dispositivo) (replicate 32 0) @ drop 64 (buffer (params ! 3)), msize = 64\<rparr>]), s')
    \<and> objs v (world s') = objs v (world s) \<and> length (live s') = length (live s) + 9"
  using assms by (rule reply_proof_returns)

text \<open>C23: the block for the secrets has 96 bytes and the object is read into it with the object's own
  size: if the object holds more than 96 bytes, the command writes past the end of the block.\<close>

theorem reply_proof_secrets_overrun:
  assumes "tee_spec api v" "tee_available api v"
    and "msize (params ! 2) \<le> length (buffer (params ! 2))"
    and "objs v (world s) (take (msize (params ! 2)) (buffer (params ! 2))) = Some d" "96 < length d"
  shows "reply_proof api old proof_types params s = Inl WriteOverrun"
proof -
  let ?name = "take (msize (params ! 2)) (buffer (params ! 2))"
  have name: "rd (msize (params ! 2)) (buffer (params ! 2)) = Inr ?name"
    using assms(3) by (simp add: rd_def)
  have wr: "wr (replicate SECRETS_SZ_HEX 0) d = Inl WriteOverrun"
    using assms(5) by (simp add: wr_def ta_sizes)
  show ?thesis
    unfolding reply_proof_def proof_types_def Let_def
    apply (simp only: simp_thms if_False)
    apply (rule bind_s_fault, rule tot_malloc [OF assms(1,2)], rule bind_s_fault,
        rule tot_malloc [OF assms(1,2)])
    apply (simp only: option.case prod.case)
    apply (rule bind_s_fault, rule tot_lift [OF name], rule bind_s_fault,
        rule tot_open [OF assms(1,2) _ _ read_flags, where d = d], simp add: assms(4),
        simp only: prod.case simp_thms if_False)
    apply (rule bind_s_fault, rule tot_info [OF assms(1,2), where k = ?name and d = d],
        simp add: assms(4), simp, simp only: prod.case simp_thms if_False)
    apply (rule bind_s_fault, rule tot_read [OF assms(1,2), where k = ?name and d = d],
        simp add: assms(4), simp, rule refl, simp only: prod.case simp_thms if_False deref_def option.case)
    apply (rule bind_s_fault, rule tot_lift [OF refl], simp only: prod.case, rule bind_lift_fault [OF wr])
    done
qed

section \<open>Dispatch\<close>

text \<open>A command the application does not have, or one whose parameter types are not the ones it
  expects, is refused before anything is allocated or read: result, parameters and state say so.\<close>

lemma invoke_rejects:
  "(4 \<le> command \<longrightarrow> TA_InvokeCommandEntryPoint api old command types params s =
     Inr ((TEE_ERROR_NOT_SUPPORTED, params), s)) \<and>
   (command = TA_DRA_CMD_WRITE_RAW \<and>
      types \<noteq> raw_types TEE_PARAM_TYPE_MEMREF_INPUT TEE_PARAM_TYPE_MEMREF_INPUT \<or>
    command = TA_DRA_CMD_READ_RAW \<and>
      types \<noteq> raw_types TEE_PARAM_TYPE_MEMREF_INPUT TEE_PARAM_TYPE_MEMREF_OUTPUT \<or>
    command = TA_DRA_CMD_DELETE \<and>
      types \<noteq> raw_types TEE_PARAM_TYPE_MEMREF_INPUT TEE_PARAM_TYPE_NONE \<or>
    command = TA_DRA_CMD_REQUEST_PROOF \<and> types \<noteq> proof_types
    \<longrightarrow> TA_InvokeCommandEntryPoint api old command types params s =
     Inr ((TEE_ERROR_BAD_PARAMETERS, params), s))"
proof (intro conjI impI)
  assume "4 \<le> command"
  then have "command \<noteq> 0" "command \<noteq> 1" "command \<noteq> 2" "command \<noteq> 3"
    by (auto simp: word_le_nat_alt)
  then show "TA_InvokeCommandEntryPoint api old command types params s =
      Inr ((TEE_ERROR_NOT_SUPPORTED, params), s)"
    by (simp add: TA_InvokeCommandEntryPoint_def ta_commands ret_s_def)
next
  assume "command = TA_DRA_CMD_WRITE_RAW \<and>
      types \<noteq> raw_types TEE_PARAM_TYPE_MEMREF_INPUT TEE_PARAM_TYPE_MEMREF_INPUT \<or>
    command = TA_DRA_CMD_READ_RAW \<and>
      types \<noteq> raw_types TEE_PARAM_TYPE_MEMREF_INPUT TEE_PARAM_TYPE_MEMREF_OUTPUT \<or>
    command = TA_DRA_CMD_DELETE \<and>
      types \<noteq> raw_types TEE_PARAM_TYPE_MEMREF_INPUT TEE_PARAM_TYPE_NONE \<or>
    command = TA_DRA_CMD_REQUEST_PROOF \<and> types \<noteq> proof_types"
  then show "TA_InvokeCommandEntryPoint api old command types params s =
      Inr ((TEE_ERROR_BAD_PARAMETERS, params), s)"
    by (elim disjE)
      (simp_all add: TA_InvokeCommandEntryPoint_def ta_commands ret_s_def raw_types_def proof_types_def
        create_raw_object_def read_raw_object_def delete_object_def reply_proof_def)
qed

section \<open>The store behind the commands\<close>

text \<open>Writing an object: on success the store maps the name to exactly the bytes of the second
  parameter; on failure the object of that name is either untouched or gone, and no other object
  changes. Parameters are returned as given.\<close>

lemma create_raw_object_store:
  assumes "tee_spec api v"
    and "create_raw_object api (raw_types TEE_PARAM_TYPE_MEMREF_INPUT TEE_PARAM_TYPE_MEMREF_INPUT) params s
      = Inr ((r, ps), s')"
  shows "ps = params \<and>
    (r = TEE_SUCCESS \<longrightarrow> objs v (world s') = (objs v (world s))
      (name_of params \<mapsto> take (msize (params ! 1)) (buffer (params ! 1)))) \<and>
    (r \<noteq> TEE_SUCCESS \<longrightarrow> objs v (world s') = objs v (world s) \<or>
      objs v (world s') = (objs v (world s))(name_of params := None))"
  using create_raw_object_wp [OF assms(1), of params s] assms(2) by (auto simp: wp_def)

text \<open>Whatever the memory and the store answer: if a write and a later read of the same name both
  succeed, the read leaves the written bytes at the start of the output buffer and their number as
  its size; a buffer that is too short never succeeds.\<close>

lemma written_is_read:
  assumes "tee_spec api v" "length rparams = 4" "name_of rparams = name_of params"
    and "create_raw_object api (raw_types TEE_PARAM_TYPE_MEMREF_INPUT TEE_PARAM_TYPE_MEMREF_INPUT) params s
      = Inr ((TEE_SUCCESS, ps), s1)"
    and "read_raw_object api (raw_types TEE_PARAM_TYPE_MEMREF_INPUT TEE_PARAM_TYPE_MEMREF_OUTPUT) rparams s1
      = Inr ((r, rs), s2)"
  defines "d \<equiv> take (msize (params ! 1)) (buffer (params ! 1))"
  shows "(r = TEE_SUCCESS \<longrightarrow> msize (rs ! 1) = length d \<and> take (length d) (buffer (rs ! 1)) = d) \<and>
    (msize (rparams ! 1) < length d \<longrightarrow> r \<noteq> TEE_SUCCESS)"
proof -
  have "objs v (world s1) = (objs v (world s))(name_of params \<mapsto> d)"
    using create_raw_object_wp [OF assms(1), of params s] assms(4) by (auto simp: wp_def d_def)
  then show ?thesis
    using read_raw_object_wp [OF assms(1,2), of s1] assms(2,3,5)
    by (auto simp: wp_def split: if_splits)
qed

text \<open>After a deletion that succeeds, a read of that name fails until the name is written again.\<close>

lemma delete_then_read:
  assumes "tee_spec api v" "length rparams = 4" "name_of rparams = name_of params"
    and "delete_object api (raw_types TEE_PARAM_TYPE_MEMREF_INPUT TEE_PARAM_TYPE_NONE) params s
      = Inr ((TEE_SUCCESS, ps), s1)"
    and "read_raw_object api (raw_types TEE_PARAM_TYPE_MEMREF_INPUT TEE_PARAM_TYPE_MEMREF_OUTPUT) rparams s1
      = Inr ((r, rs), s2)"
  shows "r \<noteq> TEE_SUCCESS \<and> rs = rparams"
proof -
  have "objs v (world s1) (name_of params) = None"
    using delete_object_wp [OF assms(1), of params s] assms(4) by (auto simp: wp_def)
  then show ?thesis
    using read_raw_object_wp [OF assms(1,2), of s1] assms(3,5) by (auto simp: wp_def)
qed

text \<open>The block that a write or a read keeps: when the memory for the data is refused, the block with the
  name is not given back.\<close>

definition kept_block :: "'w tee_api \<Rightarrow> memref list \<Rightarrow> 'w \<Rightarrow> nat list" where
  "kept_block api params w = (case TEE_Malloc api (msize (params ! 0)) w of
     (Some (p, _, _), w1) \<Rightarrow> (case TEE_Malloc api (msize (params ! 1)) w1 of (None, _) \<Rightarrow> [p] | _ \<Rightarrow> [])
   | _ \<Rightarrow> [])"

lemma create_raw_object_kept:
  "wp (create_raw_object api (raw_types TEE_PARAM_TYPE_MEMREF_INPUT TEE_PARAM_TYPE_MEMREF_INPUT) params)
    (\<lambda>_ s'. live s' = kept_block api params (world s) @ live s) s"
  unfolding create_raw_object_def raw_types_def by (intro wp_rules) (simp_all add: kept_block_def)

lemma read_raw_object_kept:
  "wp (read_raw_object api (raw_types TEE_PARAM_TYPE_MEMREF_INPUT TEE_PARAM_TYPE_MEMREF_OUTPUT) params)
    (\<lambda>_ s'. live s' = kept_block api params (world s) @ live s) s"
  unfolding read_raw_object_def raw_types_def read_exit_def Let_def by (intro wp_rules) (simp_all add: kept_block_def)

text \<open>C20: the heap blocks after a raw-object command are the ones before it, on every path that returns, but
  for one: when the second allocation of a write or of a read fails, the block with the name stays.\<close>

theorem raw_commands_release_memory:
  assumes "command \<noteq> TA_DRA_CMD_REQUEST_PROOF"
    and "TA_InvokeCommandEntryPoint api old command types params s = Inr ((r, ps), s')"
  shows "live s' = (if command = TA_DRA_CMD_WRITE_RAW \<and>
        types = raw_types TEE_PARAM_TYPE_MEMREF_INPUT TEE_PARAM_TYPE_MEMREF_INPUT \<or>
      command = TA_DRA_CMD_READ_RAW \<and> types = raw_types TEE_PARAM_TYPE_MEMREF_INPUT TEE_PARAM_TYPE_MEMREF_OUTPUT
    then kept_block api params (world s) @ live s else live s)"
proof -
  have c: "TA_DRA_CMD_WRITE_RAW \<noteq> TA_DRA_CMD_READ_RAW" by (simp add: ta_commands)
  have "create_raw_object api types params s = Inr ((r, ps), s') \<Longrightarrow> live s' =
      (if types = raw_types TEE_PARAM_TYPE_MEMREF_INPUT TEE_PARAM_TYPE_MEMREF_INPUT then kept_block api params (world s) else []) @ live s"
    using create_raw_object_kept [of api params s] by (auto simp: wp_def create_raw_object_def raw_types_def ret_s_def)
  moreover have "read_raw_object api types params s = Inr ((r, ps), s') \<Longrightarrow> live s' =
      (if types = raw_types TEE_PARAM_TYPE_MEMREF_INPUT TEE_PARAM_TYPE_MEMREF_OUTPUT then kept_block api params (world s) else []) @ live s"
    using read_raw_object_kept [of api params s] by (auto simp: wp_def read_raw_object_def raw_types_def ret_s_def)
  ultimately show ?thesis
    using assms c delete_object_live [of api types params s]
    by (auto simp: TA_InvokeCommandEntryPoint_def wp_def ret_s_def split: if_splits)
qed

section \<open>A store in memory\<close>

text \<open>
  An implementation of the interface on a finite store, for the concrete runs: objects, open
  handles, and the next free address or handle.
\<close>

type_synonym mem_world = "(byte list \<Rightarrow> byte list option) \<times> (nat \<Rightarrow> (byte list \<times> nat) option) \<times> nat"

definition mem_tee :: "mem_world tee_api" where
  "mem_tee = \<lparr>
    TEE_Malloc = (\<lambda>n (o', h, k). (Some (k, replicate n 0, [0]), (o', h, Suc k))),
    TEE_Free = (\<lambda>_ w. w),
    TEE_OpenPersistentObject = (\<lambda>i f (o', h, k). case o' i of
       None \<Rightarrow> (TEE_ERROR_ITEM_NOT_FOUND, 0, (o', h, k))
     | Some _ \<Rightarrow> (TEE_SUCCESS, k, (o', h(k \<mapsto> (i, 0)), Suc k))),
    TEE_CreatePersistentObject = (\<lambda>i f (o', h, k).
       (TEE_SUCCESS, k, (o'(i \<mapsto> []), h(k \<mapsto> (i, 0)), Suc k))),
    TEE_GetObjectInfo1 = (\<lambda>hd (o', h, k). case h hd of
       None \<Rightarrow> (TEE_ERROR_BAD_PARAMETERS, 0, (o', h, k))
     | Some (i, _) \<Rightarrow> (TEE_SUCCESS, (case o' i of None \<Rightarrow> 0 | Some d \<Rightarrow> length d), (o', h, k))),
    TEE_ReadObjectData = (\<lambda>hd n (o', h, k). case h hd of
       None \<Rightarrow> (TEE_ERROR_BAD_PARAMETERS, [], (o', h, k))
     | Some (i, p) \<Rightarrow> (TEE_SUCCESS, (case o' i of None \<Rightarrow> [] | Some d \<Rightarrow> take n (drop p d)),
         (o', h(hd \<mapsto> (i, p + n)), k))),
    TEE_WriteObjectData = (\<lambda>hd b (o', h, k). case h hd of
       None \<Rightarrow> (TEE_ERROR_BAD_PARAMETERS, (o', h, k))
     | Some (i, p) \<Rightarrow> (TEE_SUCCESS,
         (o'(i \<mapsto> take p (case o' i of None \<Rightarrow> [] | Some d \<Rightarrow> d) @ b @
            drop (p + length b) (case o' i of None \<Rightarrow> [] | Some d \<Rightarrow> d)),
          h(hd \<mapsto> (i, p + length b)), k))),
    TEE_CloseObject = (\<lambda>hd (o', h, k). (o', h(hd := None), k)),
    TEE_CloseAndDeletePersistentObject1 = (\<lambda>hd (o', h, k). case h hd of
       None \<Rightarrow> (o', h, k) | Some (i, _) \<Rightarrow> (o'(i := None), h(hd := None), k))\<rparr>"

definition mem_view :: "mem_world tee_view" where
  "mem_view = \<lparr>objs = (\<lambda>(o', h, k). o'), hdls = (\<lambda>(o', h, k). h)\<rparr>"

definition mem_state :: "byte list \<Rightarrow> byte list \<Rightarrow> mem_world ta_state" where
  "mem_state name d = \<lparr>world = ([name \<mapsto> d], (\<lambda>_. None), 0), live = []\<rparr>"

lemma mem_tee_spec: "tee_spec mem_tee mem_view"
  unfolding tee_spec_def
  by (auto simp: heap_spec_def open_spec_def create_spec_def info_spec_def read_spec_def write_spec_def
      close_spec_def same_store_def mem_tee_def mem_view_def TEE_ERROR_ITEM_NOT_FOUND_def TEE_SUCCESS_def
      TEE_ERROR_BAD_PARAMETERS_def split: option.splits prod.splits)

lemma mem_tee_available: "tee_available mem_tee mem_view"
  by (auto simp: tee_available_def mem_tee_def mem_view_def nul_soon_def TEE_SUCCESS_def
      split: option.splits prod.splits)

definition write_params :: "memref list" where
  "write_params = [\<lparr>buffer = [51], msize = 1\<rparr>, \<lparr>buffer = [7, 8, 9], msize = 2\<rparr>,
     \<lparr>buffer = [], msize = 0\<rparr>, \<lparr>buffer = [], msize = 0\<rparr>]"

definition read_params :: "memref list" where
  "read_params = [\<lparr>buffer = [51], msize = 1\<rparr>, \<lparr>buffer = [0, 0, 0], msize = 3\<rparr>,
     \<lparr>buffer = [], msize = 0\<rparr>, \<lparr>buffer = [], msize = 0\<rparr>]"

lemma mem_create:
  "\<exists>s'. create_raw_object mem_tee (raw_types TEE_PARAM_TYPE_MEMREF_INPUT TEE_PARAM_TYPE_MEMREF_INPUT)
     write_params (mem_state [51] [1]) = Inr ((TEE_SUCCESS, write_params), s')"
  by (simp add: create_raw_object_def raw_types_def ta_ops mem_tee_def mem_state_def write_params_def rd_def)

lemma mem_delete:
  "\<exists>s'. delete_object mem_tee (raw_types TEE_PARAM_TYPE_MEMREF_INPUT TEE_PARAM_TYPE_NONE)
     read_params (mem_state [51] [1]) = Inr ((TEE_SUCCESS, read_params), s')"
  by (simp add: delete_object_def raw_types_def ta_ops mem_tee_def mem_state_def read_params_def rd_def)

lemma read_total:
  "\<exists>r ps s'. read_raw_object mem_tee types params s = Inr ((r, ps), s')"
  if "msize (params ! 0) \<le> length (buffer (params ! 0))" "msize (params ! 1) \<le> length (buffer (params ! 1))"
  using that
  by (cases s) (auto simp: read_raw_object_def read_exit_def ta_ops mem_tee_def rd_def wr_def Let_def
      split: prod.splits option.splits)

lemma read_params_total: "\<exists>r ps s'. read_raw_object mem_tee types read_params s = Inr ((r, ps), s')"
  by (rule read_total) (simp_all add: read_params_def)

text \<open>The same store with memory for one block only.\<close>

definition one_block_tee :: "mem_world tee_api" where
  "one_block_tee = mem_tee\<lparr>TEE_Malloc := \<lambda>n (o', h, k).
     if k = 0 then (Some (k, replicate n 0, [0]), (o', h, Suc k)) else (None, (o', h, k))\<rparr>"

theorem raw_commands_release_memory_witness:
  "(\<exists>r ps s'. TA_InvokeCommandEntryPoint mem_tee [] TA_DRA_CMD_READ_RAW
     (raw_types TEE_PARAM_TYPE_MEMREF_INPUT TEE_PARAM_TYPE_MEMREF_OUTPUT) read_params (mem_state [51] [1])
     = Inr ((r, ps), s') \<and> live s' = []) \<and>
   (\<exists>r ps s'. TA_InvokeCommandEntryPoint one_block_tee [] TA_DRA_CMD_WRITE_RAW
     (raw_types TEE_PARAM_TYPE_MEMREF_INPUT TEE_PARAM_TYPE_MEMREF_INPUT) write_params (mem_state [51] [1])
     = Inr ((r, ps), s') \<and> live s' = [0])"
proof -
  let ?t = "raw_types TEE_PARAM_TYPE_MEMREF_INPUT TEE_PARAM_TYPE_MEMREF_OUTPUT"
    and ?u = "raw_types TEE_PARAM_TYPE_MEMREF_INPUT TEE_PARAM_TYPE_MEMREF_INPUT"
  obtain r ps s' where r: "TA_InvokeCommandEntryPoint mem_tee [] TA_DRA_CMD_READ_RAW ?t read_params
      (mem_state [51] [1]) = Inr ((r, ps), s')"
    using read_params_total [of ?t "mem_state [51] [1]"]
    by (auto simp: TA_InvokeCommandEntryPoint_def ta_commands)
  obtain q qs t' where q: "TA_InvokeCommandEntryPoint one_block_tee [] TA_DRA_CMD_WRITE_RAW ?u write_params
      (mem_state [51] [1]) = Inr ((q, qs), t')"
    by (simp add: TA_InvokeCommandEntryPoint_def ta_commands create_raw_object_def raw_types_def ta_ops one_block_tee_def
        mem_state_def write_params_def rd_def)
  have n: "TA_DRA_CMD_READ_RAW \<noteq> TA_DRA_CMD_REQUEST_PROOF" "TA_DRA_CMD_WRITE_RAW \<noteq> TA_DRA_CMD_REQUEST_PROOF"
    by (simp_all add: ta_commands)
  show ?thesis
    using r q raw_commands_release_memory [OF n(1) r] raw_commands_release_memory [OF n(2) q]
    by (simp add: kept_block_def mem_state_def mem_tee_def one_block_tee_def)
qed

definition proof_params :: "memref list" where
  "proof_params = [\<lparr>buffer = replicate 16 49 @ [0], msize = 16\<rparr>, \<lparr>buffer = replicate 16 50 @ [0], msize = 16\<rparr>,
     \<lparr>buffer = [51, 0], msize = 1\<rparr>, \<lparr>buffer = replicate 64 0, msize = 64\<rparr>]"

theorem reply_proof_correct_witness:
  "\<exists>s'. reply_proof mem_tee (replicate 16 0) proof_types proof_params
     (mem_state [51] (replicate 64 52 @ replicate 32 53)) = Inr ((TEE_SUCCESS,
      proof_params[3 := \<lparr>buffer = dra_proof (hex_pairs (replicate 64 52)) (hex_pairs (replicate 16 49))
        (hex_pairs (replicate 16 50)) (hex_pairs (replicate 32 53)) (replicate 32 0) @
        drop 64 (buffer (proof_params ! 3)), msize = 64\<rparr>]), s') \<and> length (live s') = 9"
  using reply_proof_correct [OF mem_tee_spec mem_tee_available, of "replicate 16 0" proof_params
    "replicate 16 49" "replicate 16 50" "[51]" "mem_state [51] (replicate 64 52 @ replicate 32 53)"
    "replicate 64 52" "replicate 32 53"]
  by (auto simp: proof_call_def proof_params_def nul_soon_def mem_view_def mem_state_def exI [of _ 0])

theorem reply_proof_secrets_overrun_witness:
  "reply_proof mem_tee (replicate 16 0) proof_types proof_params (mem_state [51] (replicate 97 0))
    = Inl WriteOverrun"
  by (rule reply_proof_secrets_overrun [OF mem_tee_spec mem_tee_available, of _ _ "replicate 97 0"])
    (simp_all add: proof_params_def mem_state_def mem_view_def)

section \<open>Writes that succeed\<close>

definition tee_writable :: "'w tee_api \<Rightarrow> 'w tee_view \<Rightarrow> bool" where
  "tee_writable api v \<longleftrightarrow>
    (\<forall>k f w r h w'. TEE_CreatePersistentObject api k f w = (r, h, w') \<and> f AND TEE_DATA_FLAG_ACCESS_WRITE \<noteq> 0 \<and>
      f AND TEE_DATA_FLAG_OVERWRITE \<noteq> 0 \<longrightarrow> r = TEE_SUCCESS) \<and>
    (\<forall>h b w r w'. TEE_WriteObjectData api h b w = (r, w') \<and> hdls v w h \<noteq> None \<longrightarrow> r = TEE_SUCCESS)"

lemma mem_tee_writable: "tee_writable mem_tee mem_view"
  by (auto simp: tee_writable_def mem_tee_def mem_view_def TEE_SUCCESS_def split: option.splits prod.splits)

lemma write_flags:
  "(TEE_DATA_FLAG_ACCESS_READ OR TEE_DATA_FLAG_ACCESS_WRITE OR TEE_DATA_FLAG_ACCESS_WRITE_META OR TEE_DATA_FLAG_OVERWRITE) AND
    TEE_DATA_FLAG_ACCESS_WRITE \<noteq> 0"
  "(TEE_DATA_FLAG_ACCESS_READ OR TEE_DATA_FLAG_ACCESS_WRITE OR TEE_DATA_FLAG_ACCESS_WRITE_META OR TEE_DATA_FLAG_OVERWRITE) AND
    TEE_DATA_FLAG_OVERWRITE \<noteq> 0"
  by (simp_all add: TEE_DATA_FLAG_ACCESS_READ_def TEE_DATA_FLAG_ACCESS_WRITE_def TEE_DATA_FLAG_ACCESS_WRITE_META_def
      TEE_DATA_FLAG_OVERWRITE_def)

lemma tot_call_w [tot_rules]:
  "(\<And>x w. f (world s) = (x, w) \<Longrightarrow> P x (s\<lparr>world := w\<rparr>)) \<Longrightarrow> tot (call_w f) P s"
  by (cases "f (world s)") (auto simp: tot_def call_w_def)

lemma tot_create:
  assumes "tee_spec api v" "tee_writable api v"
    and "\<And>h w. objs v w = (objs v (world s))(k \<mapsto> []) \<Longrightarrow> hdls v w h = Some (k, 0) \<Longrightarrow>
      P (TEE_SUCCESS, h) (s\<lparr>world := w\<rparr>)"
    and "f AND TEE_DATA_FLAG_ACCESS_WRITE \<noteq> 0" "f AND TEE_DATA_FLAG_OVERWRITE \<noteq> 0"
  shows "tot (call_w2 (TEE_CreatePersistentObject api k f)) P s"
proof (rule tot_call_w2)
  fix r h w assume o: "TEE_CreatePersistentObject api k f (world s) = (r, h, w)"
  have "r = TEE_SUCCESS" using assms(2,4,5) o unfolding tee_writable_def by blast
  then show "P (r, h) (s\<lparr>world := w\<rparr>)" using create_D [OF assms(1) o] assms(3) by simp
qed

lemma tot_write:
  assumes "tee_spec api v" "tee_writable api v" "hdls v (world s) h = Some (k, 0)"
    "objs v (world s) = m(k \<mapsto> [])"
    and "\<And>w. objs v w = m(k \<mapsto> b) \<Longrightarrow> P TEE_SUCCESS (s\<lparr>world := w\<rparr>)"
  shows "tot (call_w (TEE_WriteObjectData api h b)) P s"
proof (rule tot_call_w)
  fix r w assume o: "TEE_WriteObjectData api h b (world s) = (r, w)"
  have "r = TEE_SUCCESS" using assms(2,3) o unfolding tee_writable_def by blast
  then show "P r (s\<lparr>world := w\<rparr>)" using write_D [OF assms(1) o assms(3,4)] assms(5) by simp
qed

lemma create_raw_object_returns:
  assumes "tee_spec api v" "tee_available api v" "tee_writable api v"
    and "msize (params ! 0) \<le> length (buffer (params ! 0))" "msize (params ! 1) \<le> length (buffer (params ! 1))"
  shows "\<exists>s'. create_raw_object api (raw_types TEE_PARAM_TYPE_MEMREF_INPUT TEE_PARAM_TYPE_MEMREF_INPUT) params s
      = Inr ((TEE_SUCCESS, params), s') \<and>
    objs v (world s') = (objs v (world s))
      (name_of params \<mapsto> take (msize (params ! 1)) (buffer (params ! 1)))"
proof -
  let ?d = "take (msize (params ! 1)) (buffer (params ! 1))"
  have r: "rd (msize (params ! 0)) (buffer (params ! 0)) = Inr (name_of params)"
    "rd (msize (params ! 1)) (buffer (params ! 1)) = Inr ?d"
    using assms(4,5) by (simp_all add: rd_def name_of_def)
  have "tot (create_raw_object api (raw_types TEE_PARAM_TYPE_MEMREF_INPUT TEE_PARAM_TYPE_MEMREF_INPUT) params)
    (\<lambda>r s'. r = (TEE_SUCCESS, params) \<and> objs v (world s') = (objs v (world s))(name_of params \<mapsto> ?d)) s"
    unfolding create_raw_object_def raw_types_def
    apply (simp only: simp_thms if_False)
    apply (rule tot_bind, rule tot_malloc [OF assms(1,2)], simp only: option.case prod.case)
    apply (rule tot_bind_lift [OF r(1)], rule tot_bind, rule tot_malloc [OF assms(1,2)],
        simp only: option.case prod.case)
    apply (rule tot_bind_lift [OF r(2)], rule tot_bind, rule tot_create [OF assms(1,3) _ write_flags],
        simp only: prod.case simp_thms if_False)
    apply (rule tot_bind, rule tot_write [OF assms(1,3), where k = "name_of params" and m = "objs v (world s)"])
      apply simp
     apply simp
    apply (simp only: simp_thms if_False)
    apply (intro tot_rules)
    apply (simp add: tee_free(1) [OF assms(1)] tee_close(1) [OF assms(1)])
    done
  then show ?thesis by (auto simp: tot_def)
qed

section \<open>What is written is read back\<close>

lemma read_raw_object_returns:
  assumes "tee_spec api v" "tee_available api v" "length params = 4" "objs v (world s) (name_of params) = Some d"
    and "msize (params ! 0) \<le> length (buffer (params ! 0))" "msize (params ! 1) \<le> length (buffer (params ! 1))"
  shows "\<exists>s'. read_raw_object api (raw_types TEE_PARAM_TYPE_MEMREF_INPUT TEE_PARAM_TYPE_MEMREF_OUTPUT) params s
      = Inr ((if msize (params ! 1) < length d
          then (TEE_ERROR_SHORT_BUFFER, params[1 := (params ! 1)\<lparr>msize := length d\<rparr>])
          else (TEE_SUCCESS, params[1 := (params ! 1)\<lparr>buffer := d @ drop (length d) (buffer (params ! 1)), msize := length d\<rparr>])),
        s') \<and> objs v (world s') = objs v (world s)"
    (is "\<exists>s'. _ = Inr (?res, s') \<and> _")
proof -
  have r: "rd (msize (params ! 0)) (buffer (params ! 0)) = Inr (name_of params)"
    using assms(5) by (simp add: rd_def name_of_def)
  have w: "\<not> msize (params ! 1) < length d \<Longrightarrow> wr (buffer (params ! 1)) d = Inr (d @ drop (length d) (buffer (params ! 1)))"
    using assms(6) by (simp add: wr_def)
  have l: "params[1 := x, 1 := y] = params[1 := y]" for x y :: memref by simp
  have "tot (read_raw_object api (raw_types TEE_PARAM_TYPE_MEMREF_INPUT TEE_PARAM_TYPE_MEMREF_OUTPUT) params)
    (\<lambda>r s'. r = ?res \<and> objs v (world s') = objs v (world s)) s"
    unfolding read_raw_object_def raw_types_def Let_def
    apply (simp only: simp_thms if_False)
    apply (rule tot_bind, rule tot_malloc [OF assms(1,2)], simp only: option.case prod.case)
    apply (rule tot_bind_lift [OF r], rule tot_bind, rule tot_malloc [OF assms(1,2)], simp only: option.case prod.case)
    apply (rule tot_bind, rule tot_open [OF assms(1,2) _ _ read_flags, where d = d], simp add: assms(4),
        simp only: prod.case simp_thms if_False)
    apply (rule tot_bind, rule tot_info [OF assms(1,2), where k = "name_of params" and d = d], simp add: assms(4), simp,
        simp only: prod.case simp_thms if_False)
    apply (cases "msize (params ! 1) < length d")
     apply (simp only: if_True read_exit_def)
     apply (intro tot_rules)
     apply (simp add: tee_free(1) [OF assms(1)] tee_close(1) [OF assms(1)])
    apply (simp only: if_False)
    apply (rule tot_bind, rule tot_read [OF assms(1,2), where k = "name_of params" and d = d], simp add: assms(4), simp, rule refl,
        simp only: prod.case simp_thms if_False)
    apply (rule tot_bind_lift, erule w)
    apply (simp only: simp_thms if_False read_exit_def)
    apply (intro tot_rules)
    apply (simp add: tee_free(1) [OF assms(1)] tee_close(1) [OF assms(1)] assms(3))
    done
  then show ?thesis by (auto simp: tot_def)
qed

text \<open>C19: what was written is what is read back. With memory and a store that work, a write returns, and a read of the
  same name after it returns the written bytes at the start of the output buffer, with their number as its
  size and the rest of the buffer as it was; if the buffer is too short it returns the size that is needed instead. No heap
  block is left over.\<close>

theorem write_then_read:
  assumes "tee_spec api v" "tee_available api v" "tee_writable api v"
    and "msize (params ! 0) \<le> length (buffer (params ! 0))" "msize (params ! 1) \<le> length (buffer (params ! 1))"
    and "length rparams = 4" "name_of rparams = name_of params"
    and "msize (rparams ! 0) \<le> length (buffer (rparams ! 0))" "msize (rparams ! 1) \<le> length (buffer (rparams ! 1))"
  defines "d \<equiv> take (msize (params ! 1)) (buffer (params ! 1))"
  shows "\<exists>s1 s2. create_raw_object api (raw_types TEE_PARAM_TYPE_MEMREF_INPUT TEE_PARAM_TYPE_MEMREF_INPUT) params s
      = Inr ((TEE_SUCCESS, params), s1) \<and>
    read_raw_object api (raw_types TEE_PARAM_TYPE_MEMREF_INPUT TEE_PARAM_TYPE_MEMREF_OUTPUT) rparams s1
      = Inr ((if msize (rparams ! 1) < length d
          then (TEE_ERROR_SHORT_BUFFER, rparams[1 := (rparams ! 1)\<lparr>msize := length d\<rparr>])
          else (TEE_SUCCESS, rparams[1 := (rparams ! 1)\<lparr>buffer := d @ drop (length d) (buffer (rparams ! 1)),
            msize := length d\<rparr>])), s2) \<and>
    objs v (world s2) = (objs v (world s))(name_of params \<mapsto> d) \<and> live s2 = live s"
proof -
  let ?c = "raw_types TEE_PARAM_TYPE_MEMREF_INPUT TEE_PARAM_TYPE_MEMREF_INPUT"
    and ?o = "raw_types TEE_PARAM_TYPE_MEMREF_INPUT TEE_PARAM_TYPE_MEMREF_OUTPUT"
  obtain s1 where s1: "create_raw_object api ?c params s = Inr ((TEE_SUCCESS, params), s1)"
    "objs v (world s1) = (objs v (world s))(name_of params \<mapsto> d)"
    using create_raw_object_returns [OF assms(1-5), of s] unfolding d_def by blast
  then obtain s2 where "read_raw_object api ?o rparams s1 = Inr ((if msize (rparams ! 1) < length d
          then (TEE_ERROR_SHORT_BUFFER, rparams[1 := (rparams ! 1)\<lparr>msize := length d\<rparr>])
          else (TEE_SUCCESS, rparams[1 := (rparams ! 1)\<lparr>buffer := d @ drop (length d) (buffer (rparams ! 1)),
            msize := length d\<rparr>])), s2)" "objs v (world s2) = objs v (world s1)"
    using read_raw_object_returns [OF assms(1,2,6) _ assms(8,9), of s1 d] assms(7) by auto
  moreover from this s1 have "live s1 = live s" "live s2 = live s1"
    using create_raw_object_live [of api ?c params s] read_raw_object_live [of api ?o rparams s1]
    by (auto simp: wp_def tee_results split: if_splits)
  ultimately show ?thesis using s1 by auto
qed

theorem write_then_read_witness:
  "\<exists>s1 s2. create_raw_object mem_tee (raw_types TEE_PARAM_TYPE_MEMREF_INPUT TEE_PARAM_TYPE_MEMREF_INPUT)
     write_params (mem_state [51] [1]) = Inr ((TEE_SUCCESS, write_params), s1) \<and>
   read_raw_object mem_tee (raw_types TEE_PARAM_TYPE_MEMREF_INPUT TEE_PARAM_TYPE_MEMREF_OUTPUT)
     read_params s1 = Inr ((TEE_SUCCESS, read_params[1 := \<lparr>buffer = [7, 8, 0], msize = 2\<rparr>]), s2) \<and>
   live s2 = []"
  using write_then_read [OF mem_tee_spec mem_tee_available mem_tee_writable, of write_params read_params "mem_state [51] [1]"]
  by (auto simp: name_of_def read_params_def write_params_def mem_state_def)

end
