(* ===== verification/Dra_Host.thy ===== *)
theory Dra_Host
  imports Forro_Debug Dra_TA
begin

text \<open>
  The command \<open>optee_dra\<close>, \<open>optee_dra/dra/host/main.c\<close>: the client of the trusted application in the
  normal world. The TEE client library is the parameter \<open>tc\<close>: a session that may fail to open and an
  \<open>invoke\<close> that returns the result, the origin of an error, and the parameters.
\<close>

section \<open>The client library and the process\<close>

record 'w teec =
  initialize_ok :: bool
  open_session_ok :: bool
  invoke :: "u32 \<Rightarrow> u32 \<Rightarrow> memref list \<Rightarrow> 'w \<Rightarrow> u32 \<times> u32 \<times> memref list \<times> 'w"

text \<open>The world of the client library and the standard output so far.\<close>

record 'w host =
  hw :: 'w
  hout :: "byte list"

datatype host_stop = HFault fault | Errx nat

type_synonym ('w, 'a) hrun = "'w host \<Rightarrow> host_stop + 'a \<times> 'w host"

definition ret_h :: "'a \<Rightarrow> ('w, 'a) hrun" where
  "ret_h x = (\<lambda>s. Inr (x, s))"

definition bind_h :: "('w, 'a) hrun \<Rightarrow> ('a \<Rightarrow> ('w, 'b) hrun) \<Rightarrow> ('w, 'b) hrun" where
  "bind_h m k = (\<lambda>s. bind_r (m s) (\<lambda>(x, s'). k x s'))"

definition lift_h :: "'a res \<Rightarrow> ('w, 'a) hrun" where
  "lift_h r = (\<lambda>s. case r of Inl f \<Rightarrow> Inl (HFault f) | Inr x \<Rightarrow> Inr (x, s))"

definition errx :: "nat \<Rightarrow> ('w, 'a) hrun" where
  "errx n = (\<lambda>s. Inl (Errx n))"

definition printf_h :: "byte list \<Rightarrow> ('w, unit) hrun" where
  "printf_h txt = (\<lambda>s. Inr ((), s\<lparr>hout := hout s @ txt\<rparr>))"

definition invoke_h :: "'w teec \<Rightarrow> u32 \<Rightarrow> u32 \<Rightarrow> memref list \<Rightarrow> ('w, u32 \<times> u32 \<times> memref list) hrun" where
  "invoke_h tc command types params = (\<lambda>s. case invoke tc command types params (hw s) of
     (res, origin, ps, w) \<Rightarrow> Inr ((res, origin, ps), s\<lparr>hw := w\<rparr>))"

lemmas host_ops = ret_h_def bind_h_def lift_h_def errx_def printf_h_def invoke_h_def

section \<open>Requests to the application\<close>

fun print_x :: "nat \<Rightarrow> byte list" where
  "print_x n = (if n < 16 then [hex_digit n] else print_x (n div 16) @ [hex_digit (n mod 16)])"

declare print_x.simps [simp del]

definition msg_failed :: "string \<Rightarrow> u32 \<Rightarrow> u32 \<Rightarrow> byte list" where
  "msg_failed name res origin = bytes_of name @ bytes_of '' failed: 0x'' @ print_x (unat res) @
     bytes_of '' / '' @ print_dec (unat origin) @ [10]"

definition no_param :: memref where
  "no_param = \<lparr>buffer = [], msize = 0\<rparr>"

definition read_secure_object ::
    "'w teec \<Rightarrow> byte list \<Rightarrow> byte list \<Rightarrow> nat \<Rightarrow> ('w, u32 \<times> byte list) hrun" where
  "read_secure_object tc ident data data_len =
    bind_h (lift_h (strlen ident)) (\<lambda>id_len.
    bind_h (invoke_h tc TA_DRA_CMD_READ_RAW
      (TEE_PARAM_TYPES TEE_PARAM_TYPE_MEMREF_INPUT TEE_PARAM_TYPE_MEMREF_OUTPUT TEE_PARAM_TYPE_NONE
        TEE_PARAM_TYPE_NONE)
      [\<lparr>buffer = ident, msize = id_len\<rparr>, \<lparr>buffer = data, msize = data_len\<rparr>, no_param, no_param])
      (\<lambda>(res, origin, params).
    bind_h (if res = TEE_SUCCESS \<or> res = TEE_ERROR_SHORT_BUFFER \<or> res = TEE_ERROR_ITEM_NOT_FOUND
      then ret_h () else printf_h (msg_failed ''Command READ_RAW'' res origin)) (\<lambda>_.
      ret_h (res, buffer (params ! 1)))))"

definition write_secure_object ::
    "'w teec \<Rightarrow> byte list \<Rightarrow> byte list \<Rightarrow> nat \<Rightarrow> ('w, u32) hrun" where
  "write_secure_object tc ident data data_len =
    bind_h (lift_h (strlen ident)) (\<lambda>id_len.
    bind_h (invoke_h tc TA_DRA_CMD_WRITE_RAW
      (TEE_PARAM_TYPES TEE_PARAM_TYPE_MEMREF_INPUT TEE_PARAM_TYPE_MEMREF_INPUT TEE_PARAM_TYPE_NONE
        TEE_PARAM_TYPE_NONE)
      [\<lparr>buffer = ident, msize = id_len\<rparr>, \<lparr>buffer = data, msize = data_len\<rparr>, no_param, no_param])
      (\<lambda>(res, origin, params).
    bind_h (if res \<noteq> TEE_SUCCESS then printf_h (msg_failed ''Command WRITE_RAW'' res origin)
      else ret_h ()) (\<lambda>_.
    bind_h (if res = TEE_SUCCESS then ret_h ()
      else printf_h (msg_failed ''Command WRITE_RAW'' res origin)) (\<lambda>_.
      ret_h res))))"

definition ID_OBJ_DISP :: "byte list" where "ID_OBJ_DISP = bytes_of ''1'' @ [0]"
definition ID_OBJ_KEY :: "byte list" where "ID_OBJ_KEY = bytes_of ''2'' @ [0]"
definition ID_OBJ_SECRETS :: "byte list" where "ID_OBJ_SECRETS = bytes_of ''3'' @ [0]"

definition request_proof ::
    "'w teec \<Rightarrow> byte list \<Rightarrow> nat \<Rightarrow> byte list \<Rightarrow> byte list \<Rightarrow> ('w, u32 \<times> byte list) hrun" where
  "request_proof tc prova prova_sz id_rodada nonce =
    bind_h (lift_h (strlen id_rodada)) (\<lambda>id_rodada_sz.
    bind_h (lift_h (strlen nonce)) (\<lambda>nonce_sz.
    bind_h (lift_h (strlen ID_OBJ_SECRETS)) (\<lambda>secrets_sz.
    bind_h (invoke_h tc TA_DRA_CMD_REQUEST_PROOF
      (TEE_PARAM_TYPES TEE_PARAM_TYPE_MEMREF_INPUT TEE_PARAM_TYPE_MEMREF_INPUT
        TEE_PARAM_TYPE_MEMREF_INPUT TEE_PARAM_TYPE_MEMREF_OUTPUT)
      [\<lparr>buffer = id_rodada, msize = id_rodada_sz\<rparr>, \<lparr>buffer = nonce, msize = nonce_sz\<rparr>,
       \<lparr>buffer = ID_OBJ_SECRETS, msize = secrets_sz\<rparr>, \<lparr>buffer = prova, msize = prova_sz\<rparr>])
      (\<lambda>(res, origin, params).
    bind_h (if res = TEE_SUCCESS \<or> res = TEE_ERROR_SHORT_BUFFER \<or> res = TEE_ERROR_ITEM_NOT_FOUND
      then ret_h () else printf_h (msg_failed ''Command request_proof'' res origin)) (\<lambda>_.
      ret_h (res, buffer (params ! 3)))))))"

definition delete_secure_object :: "'w teec \<Rightarrow> byte list \<Rightarrow> ('w, u32) hrun" where
  "delete_secure_object tc ident =
    bind_h (lift_h (strlen ident)) (\<lambda>id_len.
    bind_h (invoke_h tc TA_DRA_CMD_DELETE
      (TEE_PARAM_TYPES TEE_PARAM_TYPE_MEMREF_INPUT TEE_PARAM_TYPE_NONE TEE_PARAM_TYPE_NONE
        TEE_PARAM_TYPE_NONE)
      [\<lparr>buffer = ident, msize = id_len\<rparr>, no_param, no_param, no_param])
      (\<lambda>(res, origin, params).
    bind_h (if res = TEE_SUCCESS \<or> res = TEE_ERROR_ITEM_NOT_FOUND
      then ret_h () else printf_h (msg_failed ''Command DELETE'' res origin)) (\<lambda>_.
      ret_h res)))"

section \<open>The program\<close>

text \<open>
  What \<open>main\<close> finds on its stack: the former content of its arrays, the bytes after the two arrays
  that it passes as strings, and the text that \<open>%p\<close> prints for the three arrays.
\<close>

record host_stack =
  stk_key :: "byte list"
  stk_id_dispositivo :: "byte list"
  stk_secrets :: "byte list"
  stk_prova :: "byte list"
  after_id_rodada :: "byte list"
  after_nonce :: "byte list"
  ptr_key :: "byte list"
  ptr_id_dispositivo :: "byte list"
  ptr_secrets :: "byte list"

definition prepare_tee_session :: "'w teec \<Rightarrow> ('w, unit) hrun" where
  "prepare_tee_session tc =
    (if \<not> initialize_ok tc then errx 1 else if \<not> open_session_ok tc then errx 1 else ret_h ())"

definition read_and_print :: "'w teec \<Rightarrow> string \<Rightarrow> byte list \<Rightarrow> byte list \<Rightarrow> byte list \<Rightarrow> nat
    \<Rightarrow> ('w, unit) hrun" where
  "read_and_print tc name ptr ident old n =
    bind_h (read_secure_object tc ident old n) (\<lambda>(res, data).
    if res \<noteq> TEE_SUCCESS then errx 1
    else bind_h (lift_h (print_str n data)) (\<lambda>t.
      printf_h (bytes_of name @ bytes_of '': '' @ ptr @ bytes_of '', '' @ bytes_of name @ bytes_of '': '' @
        t @ [10])))"

definition cmd_read :: "'w teec \<Rightarrow> host_stack \<Rightarrow> ('w, unit) hrun" where
  "cmd_read tc stk =
    bind_h (printf_h (bytes_of ''- Lendo o conteudo no storage seguro'' @ [10])) (\<lambda>_.
    bind_h (read_and_print tc ''key'' (ptr_key stk) ID_OBJ_KEY (stk_key stk) KEY_SZ_HEX) (\<lambda>_.
    bind_h (read_and_print tc ''id_dispositivo'' (ptr_id_dispositivo stk) ID_OBJ_DISP
      (stk_id_dispositivo stk) ID_DISPOSITIVO_SZ_HEX) (\<lambda>_.
      read_and_print tc ''secrets'' (ptr_secrets stk) ID_OBJ_SECRETS (stk_secrets stk) SECRETS_SZ_HEX)))"

definition write_or_exit :: "'w teec \<Rightarrow> byte list \<Rightarrow> byte list \<Rightarrow> nat \<Rightarrow> ('w, unit) hrun" where
  "write_or_exit tc ident data n =
    bind_h (write_secure_object tc ident data n) (\<lambda>res.
    if res \<noteq> TEE_SUCCESS then errx 1 else ret_h ())"

definition cmd_write :: "'w teec \<Rightarrow> byte list list \<Rightarrow> ('w, unit) hrun" where
  "cmd_write tc argv =
    bind_h (printf_h (bytes_of ''- gravando o conteudo no storage seguro'' @ [10])) (\<lambda>_.
    bind_h (lift_h (bind_r (arg 2 argv) (rd KEY_SZ_HEX))) (\<lambda>key.
    bind_h (lift_h (bind_r (arg 3 argv) (rd ID_DISPOSITIVO_SZ_HEX))) (\<lambda>id_dispositivo.
    let secrets = map (\<lambda>i. key ! i) [0..<KEY_SZ_HEX] @
          map (\<lambda>i. id_dispositivo ! i) [0..<ID_DISPOSITIVO_SZ_HEX] in
    bind_h (write_or_exit tc ID_OBJ_KEY key KEY_SZ_HEX) (\<lambda>_.
    bind_h (write_or_exit tc ID_OBJ_DISP id_dispositivo ID_DISPOSITIVO_SZ_HEX) (\<lambda>_.
    bind_h (write_or_exit tc ID_OBJ_SECRETS secrets SECRETS_SZ_HEX) (\<lambda>_.
      printf_h (bytes_of ''Conteudo gravado no storage seguro!'')))))))"

definition cmd_request_proof :: "'w teec \<Rightarrow> host_stack \<Rightarrow> byte list list \<Rightarrow> ('w, unit) hrun" where
  "cmd_request_proof tc stk argv =
    bind_h (lift_h (bind_r (arg 2 argv) (rd (ID_RODADA_SZ * 2)))) (\<lambda>id_rodada.
    bind_h (lift_h (bind_r (arg 3 argv) (rd (NONCE_SZ * 2)))) (\<lambda>nonce.
    bind_h (request_proof tc (stk_prova stk) PROOF_SZ (id_rodada @ after_id_rodada stk)
      (nonce @ after_nonce stk)) (\<lambda>(_, prova).
      printf_h (concat (map (\<lambda>i. print_02x (prova ! i)) [0..<PROOF_SZ])))))"

definition host_main :: "'w teec \<Rightarrow> host_stack \<Rightarrow> byte list list \<Rightarrow> ('w, nat) hrun" where
  "host_main tc stk argv =
    bind_h (lift_h (arg 1 argv)) (\<lambda>a.
    let comando = atoi a in
    bind_h (prepare_tee_session tc) (\<lambda>_.
    if comando = 0 then bind_h (cmd_read tc stk) (\<lambda>_. ret_h 0)
    else if comando = 1 then bind_h (cmd_write tc argv) (\<lambda>_. ret_h 0)
    else if comando = 2 then ret_h 0
    else if comando = 3 then bind_h (cmd_request_proof tc stk argv) (\<lambda>_. ret_h 0)
    else bind_h (lift_h (arg 0 argv)) (\<lambda>p.
      bind_h (printf_h (bytes_of ''comando nao reconhecido: '' @ cstr p)) (\<lambda>_. ret_h 1))))"

section \<open>The application behind the client library\<close>

text \<open>
  How OP-TEE carries a call to the application: an input buffer is seen there as its \<open>msize\<close> bytes
  with other memory (\<open>tail\<close>) behind them, an output buffer comes back with its new content and size,
  and an application that faults is reported as \<open>TEE_ERROR_TARGET_DEAD\<close>.
\<close>

definition ptype :: "u32 \<Rightarrow> nat \<Rightarrow> u32" where
  "ptype types i = drop_bit (4 * i) types AND 15"

definition in_ta :: "u32 \<Rightarrow> byte list \<Rightarrow> memref list \<Rightarrow> memref list" where
  "in_ta types tail ps = map (\<lambda>i. (ps ! i)\<lparr>buffer := take (msize (ps ! i)) (buffer (ps ! i)) @
     (if ptype types i = TEE_PARAM_TYPE_MEMREF_INPUT then tail else [])\<rparr>) [0, 1, 2, 3]"

definition out_ta :: "u32 \<Rightarrow> memref list \<Rightarrow> memref list \<Rightarrow> memref list" where
  "out_ta types ps qs = map (\<lambda>i. if ptype types i = TEE_PARAM_TYPE_MEMREF_OUTPUT
     then \<lparr>buffer = buffer (qs ! i) @ drop (msize (ps ! i)) (buffer (ps ! i)), msize = msize (qs ! i)\<rparr>
     else ps ! i) [0, 1, 2, 3]"

definition delivers :: "'w tee_api \<Rightarrow> u32 list \<Rightarrow> byte list \<Rightarrow> 'w ta_state teec \<Rightarrow> bool" where
  "delivers api old tail tc \<longleftrightarrow> initialize_ok tc \<and> open_session_ok tc \<and>
    (\<forall>c t ps s. invoke tc c t ps s =
      (case TA_InvokeCommandEntryPoint api old c t (in_ta t tail ps) s of
         Inl _ \<Rightarrow> (0xFFFF3024, 3, ps, s)
       | Inr ((r, qs), s') \<Rightarrow> (r, 4, out_ta t ps qs, s')))"

lemma delivers_invoke:
  assumes "delivers api old tail tc"
    and "TA_InvokeCommandEntryPoint api old c t (in_ta t tail ps) s = Inr ((r, qs), s')"
  shows "invoke tc c t ps s = (r, 4, out_ta t ps qs, s')"
  using assms by (simp add: delivers_def)

lemma ptype_raw:
  "ptype (TEE_PARAM_TYPES TEE_PARAM_TYPE_MEMREF_INPUT TEE_PARAM_TYPE_MEMREF_INPUT TEE_PARAM_TYPE_NONE
     TEE_PARAM_TYPE_NONE) 0 = TEE_PARAM_TYPE_MEMREF_INPUT"
  "ptype (TEE_PARAM_TYPES TEE_PARAM_TYPE_MEMREF_INPUT TEE_PARAM_TYPE_MEMREF_INPUT TEE_PARAM_TYPE_NONE
     TEE_PARAM_TYPE_NONE) 1 = TEE_PARAM_TYPE_MEMREF_INPUT"
  by (simp_all add: ptype_def TEE_PARAM_TYPES_def TEE_PARAM_TYPE_MEMREF_INPUT_def TEE_PARAM_TYPE_NONE_def)

lemma ptype_proof:
  "ptype proof_types 0 = TEE_PARAM_TYPE_MEMREF_INPUT" "ptype proof_types 1 = TEE_PARAM_TYPE_MEMREF_INPUT"
  "ptype proof_types 2 = TEE_PARAM_TYPE_MEMREF_INPUT" "ptype proof_types 3 = TEE_PARAM_TYPE_MEMREF_OUTPUT"
  by (simp_all add: ptype_def proof_types_def TEE_PARAM_TYPES_def TEE_PARAM_TYPE_MEMREF_INPUT_def
      TEE_PARAM_TYPE_MEMREF_OUTPUT_def TEE_PARAM_TYPE_NONE_def)

lemmas ptypes = ptype_raw ptype_proof ptype_raw [unfolded One_nat_def] ptype_proof [unfolded One_nat_def]

text \<open>Everything the good case needs of the trusted side.\<close>

definition ta_works :: "'w tee_api \<Rightarrow> 'w tee_view \<Rightarrow> u32 list \<Rightarrow> byte list \<Rightarrow> 'w ta_state teec \<Rightarrow> bool" where
  "ta_works api v old tail tc \<longleftrightarrow> tee_spec api v \<and> tee_available api v \<and> tee_writable api v \<and>
     delivers api old tail tc \<and> length old = 16 \<and> nul_soon tail"

lemma write_secure_object_ok:
  assumes "ta_works api v old tail tc" "strlen ident = Inr n" "length data = len"
  shows "\<exists>w. write_secure_object tc ident data len h = Inr (TEE_SUCCESS, h\<lparr>hw := w\<rparr>) \<and>
    objs v (world w) = (objs v (world (hw h)))(take n ident \<mapsto> data)"
proof -
  let ?ps = "[\<lparr>buffer = ident, msize = n\<rparr>, \<lparr>buffer = data, msize = len\<rparr>, no_param, no_param]"
  let ?t = "raw_types TEE_PARAM_TYPE_MEMREF_INPUT TEE_PARAM_TYPE_MEMREF_INPUT"
  let ?in = "in_ta ?t tail ?ps"
  have n: "n \<le> length ident" using assms(2) by (simp add: strlen_Inr_iff)
  have p: "msize (?in ! 0) \<le> length (buffer (?in ! 0))" "msize (?in ! 1) \<le> length (buffer (?in ! 1))"
    "name_of ?in = take n ident" "take (msize (?in ! 1)) (buffer (?in ! 1)) = data"
    using n assms(3) by (simp_all add: in_ta_def raw_types_def ptypes name_of_def)
  obtain w where w: "create_raw_object api ?t ?in (hw h) = Inr ((TEE_SUCCESS, ?in), w)"
    "objs v (world w) = (objs v (world (hw h)))(take n ident \<mapsto> data)"
    using create_raw_object_returns [of api v ?in "hw h"] assms(1) p by (auto simp: ta_works_def)
  have "invoke tc TA_DRA_CMD_WRITE_RAW ?t ?ps (hw h) = (TEE_SUCCESS, 4, out_ta ?t ?ps ?in, w)"
    using assms(1) w(1) by (intro delivers_invoke) (auto simp: ta_works_def TA_InvokeCommandEntryPoint_def)
  then show ?thesis
    using w(2) assms(2)
    by (intro exI [of _ w]) (simp add: write_secure_object_def host_ops raw_types_def)
qed

lemma object_names:
  "strlen ID_OBJ_KEY = Inr 1" "strlen ID_OBJ_DISP = Inr 1" "strlen ID_OBJ_SECRETS = Inr 1"
  "take (Suc 0) ID_OBJ_KEY = [50]" "take (Suc 0) ID_OBJ_DISP = [49]" "take (Suc 0) ID_OBJ_SECRETS = [51]"
  by (simp_all add: ID_OBJ_KEY_def ID_OBJ_DISP_def ID_OBJ_SECRETS_def bytes_of_def)

lemma map_nth_upt: "length xs = n \<Longrightarrow> map (\<lambda>i. xs ! i) [0..<n] = xs"
  by (auto intro: map_nth)

lemma cmd_write_ok:
  assumes "ta_works api v old tail tc" "3 < length argv" "argv ! 2 = key @ r2" "argv ! 3 = idd @ r3"
    "length key = 64" "length idd = 32"
  shows "\<exists>w. cmd_write tc argv h = Inr ((), h\<lparr>hw := w, hout := hout h @
      bytes_of ''- gravando o conteudo no storage seguro'' @ [10] @
      bytes_of ''Conteudo gravado no storage seguro!''\<rparr>) \<and>
    objs v (world w) = (objs v (world (hw h)))([50] \<mapsto> key, [49] \<mapsto> idd, [51] \<mapsto> key @ idd)"
proof -
  have a: "bind_r (arg 2 argv) (rd KEY_SZ_HEX) = Inr key"
    "bind_r (arg 3 argv) (rd ID_DISPOSITIVO_SZ_HEX) = Inr idd"
    using assms(2-6) by (simp_all add: arg_def rd_def ta_sizes)
  have s: "map (\<lambda>i. key ! i) [0..<KEY_SZ_HEX] = key" "map (\<lambda>i. idd ! i) [0..<ID_DISPOSITIVO_SZ_HEX] = idd"
    using assms(5,6) by (simp_all add: map_nth_upt ta_sizes del: upt_rec_numeral)
  let ?h0 = "h\<lparr>hout := hout h @ bytes_of ''- gravando o conteudo no storage seguro'' @ [10]\<rparr>"
  obtain w1 where w1: "write_secure_object tc ID_OBJ_KEY key KEY_SZ_HEX ?h0 = Inr (TEE_SUCCESS, ?h0\<lparr>hw := w1\<rparr>)"
    "objs v (world w1) = (objs v (world (hw h)))([50] \<mapsto> key)"
    using write_secure_object_ok [OF assms(1) object_names(1), of key KEY_SZ_HEX ?h0] assms(5)
    by (auto simp: ta_sizes object_names)
  let ?h1 = "?h0\<lparr>hw := w1\<rparr>"
  obtain w2 where w2: "write_secure_object tc ID_OBJ_DISP idd ID_DISPOSITIVO_SZ_HEX ?h1 =
      Inr (TEE_SUCCESS, ?h1\<lparr>hw := w2\<rparr>)" "objs v (world w2) = (objs v (world w1))([49] \<mapsto> idd)"
    using write_secure_object_ok [OF assms(1) object_names(2), of idd ID_DISPOSITIVO_SZ_HEX ?h1] assms(6)
    by (auto simp: ta_sizes object_names)
  let ?h2 = "?h1\<lparr>hw := w2\<rparr>"
  obtain w3 where w3: "write_secure_object tc ID_OBJ_SECRETS (key @ idd) SECRETS_SZ_HEX ?h2 =
      Inr (TEE_SUCCESS, ?h2\<lparr>hw := w3\<rparr>)" "objs v (world w3) = (objs v (world w2))([51] \<mapsto> key @ idd)"
    using write_secure_object_ok [OF assms(1) object_names(3), of "key @ idd" SECRETS_SZ_HEX ?h2] assms(5,6)
    by (auto simp: ta_sizes object_names)
  show ?thesis
    using w1 w2 w3
    by (intro exI [of _ w3]) (simp add: cmd_write_def write_or_exit_def host_ops a s Let_def)
qed

lemma cmd_request_proof_ok:
  assumes "ta_works api v old tail tc" "3 < length argv" "argv ! 2 = idr @ r2" "argv ! 3 = nonce @ r3"
    "length idr = 16" "length nonce = 16" "0 \<notin> set idr" "0 \<notin> set nonce"
    and "objs v (world (hw h)) [51] = Some (key @ idd)"
    "length key = 64" "length idd = 32" "0 \<notin> set key" "0 \<notin> set idd"
    and "length (stk_prova stk) = 64" "strlen (after_id_rodada stk) = Inr 0" "strlen (after_nonce stk) = Inr 0"
  shows "\<exists>w. cmd_request_proof tc stk argv h = Inr ((), h\<lparr>hw := w, hout := hout h @ hex_text
      (dra_proof (hex_pairs key) (hex_pairs idr) (hex_pairs nonce) (hex_pairs idd) (replicate 32 0))\<rparr>)"
proof -
  let ?p = "dra_proof (hex_pairs key) (hex_pairs idr) (hex_pairs nonce) (hex_pairs idd) (replicate 32 0)"
  have a: "bind_r (arg 2 argv) (rd (ID_RODADA_SZ * 2)) = Inr idr"
    "bind_r (arg 3 argv) (rd (NONCE_SZ * 2)) = Inr nonce"
    using assms(2-6) by (simp_all add: arg_def rd_def ta_sizes)
  have l: "strlen (idr @ after_id_rodada stk) = Inr 16" "strlen (nonce @ after_nonce stk) = Inr 16"
    using assms(5-8,15,16) by (simp_all add: strlen_append)
  let ?ps = "[\<lparr>buffer = idr @ after_id_rodada stk, msize = 16\<rparr>, \<lparr>buffer = nonce @ after_nonce stk, msize = 16\<rparr>,
    \<lparr>buffer = ID_OBJ_SECRETS, msize = 1\<rparr>, \<lparr>buffer = stk_prova stk, msize = PROOF_SZ\<rparr>]"
  let ?in = "in_ta proof_types tail ?ps"
  have ps: "?in = [\<lparr>buffer = idr @ tail, msize = 16\<rparr>, \<lparr>buffer = nonce @ tail, msize = 16\<rparr>,
      \<lparr>buffer = [51] @ tail, msize = 1\<rparr>, \<lparr>buffer = stk_prova stk, msize = 64\<rparr>]"
    using assms(5,6,14)
    by (simp add: in_ta_def ptypes object_names ta_sizes TEE_PARAM_TYPE_MEMREF_INPUT_def
        TEE_PARAM_TYPE_MEMREF_OUTPUT_def)
  have call: "proof_call ?in idr nonce [51]"
    unfolding ps using assms(1,5-8,14) by (auto simp: proof_call_def ta_works_def)
  obtain w where w: "reply_proof api old proof_types ?in (hw h) = Inr ((TEE_SUCCESS,
      ?in[3 := \<lparr>buffer = ?p @ drop 64 (buffer (?in ! 3)), msize = 64\<rparr>]), w)"
    using reply_proof_returns [OF _ _ _ call, of api v old "hw h" key idd] assms(1,9-13)
    by (auto simp: ta_works_def)
  have p64: "?p @ drop 64 (buffer (?in ! 3)) = ?p" unfolding ps using assms(14) by simp
  have n: "TA_DRA_CMD_REQUEST_PROOF \<noteq> TA_DRA_CMD_WRITE_RAW" "TA_DRA_CMD_REQUEST_PROOF \<noteq> TA_DRA_CMD_READ_RAW"
    "TA_DRA_CMD_REQUEST_PROOF \<noteq> TA_DRA_CMD_DELETE" by (simp_all add: ta_commands)
  have "invoke tc TA_DRA_CMD_REQUEST_PROOF proof_types ?ps (hw h) =
      (TEE_SUCCESS, 4, out_ta proof_types ?ps (?in[3 := \<lparr>buffer = ?p, msize = 64\<rparr>]), w)"
    using assms(1) w n unfolding p64
    by (intro delivers_invoke) (auto simp: ta_works_def TA_InvokeCommandEntryPoint_def)
  moreover have "buffer (out_ta proof_types ?ps (?in[3 := \<lparr>buffer = ?p, msize = 64\<rparr>]) ! 3) = ?p"
    unfolding ps using assms(14) by (simp add: out_ta_def ptypes ta_sizes)
  moreover have "concat (map (\<lambda>i. print_02x (?p ! i)) [0..<PROOF_SZ]) = hex_text ?p"
  proof -
    have "map (\<lambda>i. print_02x (?p ! i)) [0..<PROOF_SZ] = map print_02x ?p"
      by (rule nth_equalityI) (simp_all add: width ta_sizes)
    then show ?thesis by (simp add: hex_text_def)
  qed
  ultimately show ?thesis
    using l by (intro exI [of _ w])
      (simp add: cmd_request_proof_def request_proof_def host_ops a object_names proof_types_def)
qed

lemma atoi_digit: "atoi [49, 0] = 1" "atoi [51, 0] = 3"
  by (simp_all add: atoi_def cstr_def isspace_def digits_value_def is_digit_def digit_val_def dval_def
      word_le_nat_alt)

text \<open>C10: provisioning followed by a request: after \<open>optee_dra 1 key id\<close>, the command
  \<open>optee_dra 3 id_rodada nonce\<close> prints exactly the 128 hexadecimal digits of the attestation proof
  of that key, round, nonce and device for the all-zero configuration, and both exit with 0. This
  holds through the client, the parameter passing and the trusted application, on every world in
  which the secure storage works and the strings happen to be followed by a NUL.\<close>

theorem optee_dra_provision_and_prove:
  assumes "ta_works api v old tail tc"
    and "length key = 64" "length idd = 32" "0 \<notin> set key" "0 \<notin> set idd"
    and "length idr = 16" "length nonce = 16" "0 \<notin> set idr" "0 \<notin> set nonce"
    and "length (stk_prova stk) = 64" "strlen (after_id_rodada stk) = Inr 0" "strlen (after_nonce stk) = Inr 0"
  shows "\<exists>h1 h2. host_main tc stk [p, [49, 0], key @ [0], idd @ [0]] h = Inr (0, h1) \<and>
    host_main tc stk [p, [51, 0], idr @ [0], nonce @ [0]] (h1\<lparr>hout := []\<rparr>) = Inr (0, h2) \<and>
    hout h2 = hex_text (dra_proof (hex_pairs key) (hex_pairs idr) (hex_pairs nonce) (hex_pairs idd)
      (replicate 32 0))"
proof -
  have session: "prepare_tee_session tc h = Inr ((), h)" for h
    using assms(1) by (simp add: prepare_tee_session_def host_ops ta_works_def delivers_def)
  let ?a1 = "[p, [49, 0], key @ [0], idd @ [0]]" and ?a2 = "[p, [51, 0], idr @ [0], nonce @ [0]]"
  obtain h1 where h1: "cmd_write tc ?a1 h = Inr ((), h1)"
    "objs v (world (hw h1)) = (objs v (world (hw h)))([50] \<mapsto> key, [49] \<mapsto> idd, [51] \<mapsto> key @ idd)"
    using cmd_write_ok [OF assms(1), of ?a1 key "[0]" idd "[0]" h] assms(2,3) by auto
  obtain h2 where "cmd_request_proof tc stk ?a2 (h1\<lparr>hout := []\<rparr>) = Inr ((), h2)"
    "hout h2 = hex_text (dra_proof (hex_pairs key) (hex_pairs idr) (hex_pairs nonce) (hex_pairs idd)
      (replicate 32 0))"
    using cmd_request_proof_ok [OF assms(1), of ?a2 idr "[0]" nonce "[0]" "h1\<lparr>hout := []\<rparr>" key idd stk]
      assms(2-12) h1(2) by auto
  then show ?thesis
    using h1(1) session by (auto simp: host_main_def host_ops arg_def atoi_digit)
qed

text \<open>The client does not look at the result of a request: when the application refuses it and
  leaves the output buffer alone, the client prints what was on its stack as if it were a proof, and
  exits with 0.\<close>

lemma optee_dra_prints_stack_on_failure:
  assumes "prepare_tee_session tc h = Inr ((), h)" "length (stk_prova stk) = 64"
    and "length idr = 16" "length nonce = 16" "strlen (idr @ after_id_rodada stk) = Inr n"
      "strlen (nonce @ after_nonce stk) = Inr m"
    and "invoke tc TA_DRA_CMD_REQUEST_PROOF proof_types
      [\<lparr>buffer = idr @ after_id_rodada stk, msize = n\<rparr>, \<lparr>buffer = nonce @ after_nonce stk, msize = m\<rparr>,
       \<lparr>buffer = ID_OBJ_SECRETS, msize = 1\<rparr>, \<lparr>buffer = stk_prova stk, msize = 64\<rparr>] (hw h) =
      (TEE_ERROR_ITEM_NOT_FOUND, 4, ps, w)" "buffer (ps ! 3) = stk_prova stk"
  shows "host_main tc stk [p, [51, 0], idr @ [0], nonce @ [0]] h =
    Inr (0, h\<lparr>hw := w, hout := hout h @ hex_text (stk_prova stk)\<rparr>)"
proof -
  have "map (\<lambda>i. print_02x (stk_prova stk ! i)) [0..<PROOF_SZ] = map print_02x (stk_prova stk)"
    by (rule nth_equalityI) (simp_all add: assms(2) ta_sizes)
  then have "concat (map (\<lambda>i. print_02x (stk_prova stk ! i)) [0..<PROOF_SZ]) = hex_text (stk_prova stk)"
    by (simp add: hex_text_def)
  moreover have "bind_r (arg 2 [p, [51, 0], idr @ [0], nonce @ [0]]) (rd (ID_RODADA_SZ * 2)) = Inr idr"
    "bind_r (arg 3 [p, [51, 0], idr @ [0], nonce @ [0]]) (rd (NONCE_SZ * 2)) = Inr nonce"
    using assms(3,4) by (simp_all add: arg_def rd_def ta_sizes)
  moreover have "PROOF_SZ = 64" by (simp add: ta_sizes)
  ultimately show ?thesis
    using assms(1,5-8)
    by (simp add: host_main_def cmd_request_proof_def request_proof_def host_ops arg_def atoi_digit
        object_names proof_types_def)
qed

section \<open>Concrete runs\<close>

definition mem_teec :: "mem_world ta_state teec" where
  "mem_teec = \<lparr>initialize_ok = True, open_session_ok = True, invoke = (\<lambda>c t ps s.
     case TA_InvokeCommandEntryPoint mem_tee (replicate 16 0) c t (in_ta t [0] ps) s of
       Inl _ \<Rightarrow> (0xFFFF3024, 3, ps, s)
     | Inr ((r, qs), s') \<Rightarrow> (r, 4, out_ta t ps qs, s'))\<rparr>"

lemma mem_ta_works: "ta_works mem_tee mem_view (replicate 16 0) [0] mem_teec"
  by (simp add: ta_works_def mem_tee_spec mem_tee_available mem_tee_writable delivers_def mem_teec_def
      nul_soon_def exI [of _ 0])

definition stack_example :: host_stack where
  "stack_example = \<lparr>stk_key = replicate 64 0, stk_id_dispositivo = replicate 32 0,
     stk_secrets = replicate 96 0, stk_prova = replicate 64 9, after_id_rodada = [0], after_nonce = [0],
     ptr_key = [], ptr_id_dispositivo = [], ptr_secrets = []\<rparr>"

theorem optee_dra_provision_and_prove_witness:
  "\<exists>h1 h2. host_main mem_teec stack_example [[], [49, 0], replicate 64 52 @ [0], replicate 32 53 @ [0]]
     \<lparr>hw = mem_state [] [], hout = []\<rparr> = Inr (0, h1) \<and>
   host_main mem_teec stack_example [[], [51, 0], replicate 16 49 @ [0], replicate 16 50 @ [0]]
     (h1\<lparr>hout := []\<rparr>) = Inr (0, h2) \<and>
   hout h2 = hex_text (dra_proof (hex_pairs (replicate 64 52)) (hex_pairs (replicate 16 49))
     (hex_pairs (replicate 16 50)) (hex_pairs (replicate 32 53)) (replicate 32 0))"
  by (rule optee_dra_provision_and_prove [OF mem_ta_works]) (simp_all add: stack_example_def)

definition failing_teec :: "unit teec" where
  "failing_teec = \<lparr>initialize_ok = True, open_session_ok = True,
     invoke = (\<lambda>_ _ ps w. (TEE_ERROR_ITEM_NOT_FOUND, 4, ps, w))\<rparr>"

end
