(* ===== verification/Protocol.thy ===== *)
theory Protocol
  imports Dra_Host Senders Reader
begin

text \<open>
  The programs put together: what \<open>popen\<close> makes of a command, a device whose command \<open>optee_dra\<close> is the
  modelled client with the modelled trusted application behind it, and a controller whose command
  \<open>forro-args-dra2\<close> is the modelled calculator. \<open>device_replies\<close> and \<open>verifier_checks\<close> are what each
  side contributes to a round of the protocol, and \<open>verifica_loop_run\<close> and
  \<open>verifica_run_logged\<close> are a run of the verifier over many replies with its log. \<open>controller_packets\<close> and
  \<open>device_answers\<close> are the two ends of an attestation of many devices.
\<close>

section \<open>Commands as argument vectors\<close>

text \<open>How the shell behind \<open>popen\<close> splits a command, and how the arguments lie in memory: one after
  another, each with a NUL, and the environment behind the last.\<close>

fun palavras :: "byte list \<Rightarrow> byte list list" where
  "palavras [] = [[]]"
| "palavras (c # cs) = (if c = 32 then [] # palavras cs
     else (case palavras cs of [] \<Rightarrow> [[c]] | w # ws \<Rightarrow> (c # w) # ws))"

fun argv_memory :: "byte list list \<Rightarrow> byte list \<Rightarrow> byte list list" where
  "argv_memory [] env = []"
| "argv_memory (w # ws) env = (w @ 0 # concat (map (\<lambda>w. w @ [0]) ws) @ env) # argv_memory ws env"

definition argv_of :: "byte list \<Rightarrow> byte list \<Rightarrow> byte list list" where
  "argv_of env cmd = argv_memory (palavras cmd) env"

lemma palavras_append: "32 \<notin> set a \<Longrightarrow> palavras (a @ 32 # b) = a # palavras b"
  by (induction a) auto

lemma palavras_single: "32 \<notin> set a \<Longrightarrow> palavras a = [a]"
  by (induction a) auto

section \<open>The two machines\<close>

text \<open>
  The attested device: a host whose command \<open>optee_dra\<close> is the modelled client with the modelled
  trusted application behind it; the shell knows no other command. Of a command that ends in a fault or
  an exit neither the output nor the effect is modelled.

  The service does not wait for a set-up command. It runs in the background, and it ends when it ends:
  \<open>ends t\<close> are the positions of the commands in the background that end, one after the other, before call
  number \<open>t\<close> of the service to \<open>popen\<close>. The trusted application has one instance and takes one session
  at a time, so no two commands overlap inside of it, and a command takes effect as a whole; a command
  that finds it busy fails, and such runs are not modelled.
\<close>

record 'w machine =
  system :: 'w
  background :: "byte list list"
  calls :: nat

definition run_optee :: "'v ta_state teec \<Rightarrow> host_stack \<Rightarrow> byte list \<Rightarrow> byte list \<Rightarrow> 'v ta_state \<Rightarrow> byte list \<times> 'v ta_state" where
  "run_optee tc stk env cmd w =
    (if hd (palavras cmd) \<noteq> bytes_of ''optee_dra'' then ([], w)
     else case host_main tc stk (argv_of env cmd) \<lparr>hw = w, hout = []\<rparr> of
       Inl _ \<Rightarrow> ([], w)
     | Inr (_, h) \<Rightarrow> (hout h, hw h))"

fun let_end :: "(byte list \<Rightarrow> 'w \<Rightarrow> byte list \<times> 'w) \<Rightarrow> nat list \<Rightarrow> 'w machine \<Rightarrow> 'w machine" where
  "let_end run [] m = m"
| "let_end run (i # is) m = let_end run is (if i < length (background m)
     then m\<lparr>system := snd (run (background m ! i) (system m)),
       background := take i (background m) @ drop (Suc i) (background m)\<rparr>
     else m)"

definition device_os :: "'v ta_state teec \<Rightarrow> host_stack \<Rightarrow> byte list \<Rightarrow> (nat \<Rightarrow> nat list) \<Rightarrow> 'v ta_state machine os" where
  "device_os tc stk env ends = \<lparr>
     popen = (\<lambda>cmd m. let m = let_end (run_optee tc stk env) (ends (calls m)) m;
         (out, w) = run_optee tc stk env cmd (system m) in
       (Some out, m\<lparr>system := w, calls := Suc (calls m)\<rparr>)),
     popen_start = (\<lambda>cmd m. let m = let_end (run_optee tc stk env) (ends (calls m)) m in
       (True, m\<lparr>background := background m @ [cmd], calls := Suc (calls m)\<rparr>)),
     sendto = (\<lambda>_ _ w. (True, w)), socket_ok = (\<lambda>_. True), malloc = (\<lambda>n. Some (n + 1)), line_rest = []\<rparr>"

lemma fst_popen_device: "fst (popen (device_os tc stk env ends) cmd m) =
    Some (fst (run_optee tc stk env cmd (system (let_end (run_optee tc stk env) (ends (calls m)) m))))"
  by (simp add: device_os_def Let_def split_beta)

text \<open>With nothing in the background before, the command of the next call ends before the call after it.\<close>

definition in_time :: "(nat \<Rightarrow> nat list) \<Rightarrow> 'w machine \<Rightarrow> bool" where
  "in_time ends m \<longleftrightarrow> 0 \<in> set (ends (Suc (calls m)))"

lemma let_end_none: "background m = [] \<Longrightarrow> let_end run is m = m"
  by (induction "is") simp_all

lemma let_end_one:
  "background m = [c] \<Longrightarrow> let_end run is m =
    (if 0 \<in> set is then m\<lparr>system := snd (run c (system m)), background := []\<rparr> else m)"
  by (induction "is") (auto simp: let_end_none)

text \<open>The verifying controller: a host whose command \<open>forro-args-dra2\<close> is the modelled calculator.\<close>

definition calculator_os :: "cli_env \<Rightarrow> byte list \<Rightarrow> unit os" where
  "calculator_os e env = \<lparr>
     popen = (\<lambda>cmd w. if hd (palavras cmd) \<noteq> bytes_of ''forro-args-dra2'' then (Some [], w)
       else case forro_args_dra_main e (argv_of env cmd) of
         Inl _ \<Rightarrow> (Some [], w)
       | Inr out \<Rightarrow> (Some out, w)),
     popen_start = (\<lambda>_ w. (True, w)),
     sendto = (\<lambda>_ _ w. (True, w)), socket_ok = (\<lambda>_. True), malloc = (\<lambda>n. Some (n + 1)), line_rest = []\<rparr>"

lemma roomy_hosts: "roomy (malloc (device_os tc stk env ends))" "roomy (malloc (calculator_os e env))"
  by (simp_all add: roomy_def device_os_def calculator_os_def)

section \<open>Commands of the two services\<close>

lemma lower_hex_no_space: "list_all lower_hex t \<Longrightarrow> 32 \<notin> set t"
  by (auto simp: list_all_iff lower_hex_def)

lemma wire_get_halves:
  "32 \<notin> set (take k (wire_get r))" "32 \<notin> set (drop k (wire_get r))"
  "0 \<notin> set (take k (wire_get r))" "0 \<notin> set (drop k (wire_get r))"
  using wire.ok_get [of r] lower_hex_no_space [of "wire_get r"] wire_get_no_nul [of r]
  by (auto dest: in_set_takeD in_set_dropD)

lemma palavras_setup:
  assumes "32 \<notin> set key" "32 \<notin> set idd"
  shows "palavras (cmd_setup key idd) = [bytes_of ''optee_dra'', [49], key, idd]"
proof -
  have "cmd_setup key idd = bytes_of ''optee_dra'' @ 32 # [49] @ 32 # key @ 32 # idd"
    by (simp add: cmd_setup_def bytes_of_def)
  moreover have "32 \<notin> set (bytes_of ''optee_dra'')" by (simp add: bytes_of_def)
  moreover have "palavras ([49] @ 32 # key @ 32 # idd) = [49] # palavras (key @ 32 # idd)"
    by (rule palavras_append) simp
  ultimately show ?thesis
    using assms by (simp add: palavras_append palavras_single del: append_Cons append.simps)
qed

lemma palavras_prova:
  "palavras (cmd_prova (wire_get r)) = [bytes_of ''optee_dra'', [51], take 16 (wire_get r), drop 16 (wire_get r)]"
proof -
  have "cmd_prova (wire_get r) = bytes_of ''optee_dra'' @ 32 # [51] @ 32 # take 16 (wire_get r) @ 32 #
      drop 16 (wire_get r)"
    by (simp add: cmd_prova_def bytes_of_def)
  moreover have "32 \<notin> set (bytes_of ''optee_dra'')" by (simp add: bytes_of_def)
  moreover have "palavras ([51] @ 32 # t) = [51] # palavras t" for t
    by (rule palavras_append) simp
  ultimately show ?thesis
    by (simp add: palavras_append palavras_single wire_get_halves del: append_Cons append.simps)
qed

lemma palavras_verif:
  assumes "32 \<notin> set key"
  shows "palavras (cmd_verif key (wire_get r) (wire_get i)) =
    [bytes_of ''forro-args-dra2'', key, drop 16 (wire_get r), take 16 (wire_get r), wire_get i, [48]]"
proof -
  have "cmd_verif key (wire_get r) (wire_get i) = bytes_of ''forro-args-dra2'' @ 32 # key @ 32 #
      drop 16 (wire_get r) @ 32 # take 16 (wire_get r) @ 32 # wire_get i @ 32 # [48]"
    by (simp add: cmd_verif_def bytes_of_def)
  moreover have "32 \<notin> set (bytes_of ''forro-args-dra2'')" by (simp add: bytes_of_def)
  moreover have "32 \<notin> set (wire_get i)" using wire_get_halves(2) [where k = 0] by simp
  moreover have "palavras [48] = [[48]]" by simp
  ultimately show ?thesis
    using assms by (simp only: palavras_append wire_get_halves not_False_eq_True)
qed

section \<open>The device\<close>

definition stack_ok :: "host_stack \<Rightarrow> bool" where
  "stack_ok stk \<longleftrightarrow> length (stk_prova stk) = 64 \<and> strlen (after_id_rodada stk) = Inr 0 \<and>
     strlen (after_nonce stk) = Inr 0"

text \<open>The proof that the protocol expects of a device with key \<open>key\<close> and identifier \<open>idd\<close> in round \<open>r\<close>,
  as it lies in a packet.\<close>

definition expected_proof :: "byte list \<Rightarrow> byte list \<Rightarrow> byte list \<Rightarrow> byte list" where
  "expected_proof key idd r = wire_put (hex_text (dra_proof (hex_pairs key)
     (hex_pairs (take 16 (wire_get r))) (hex_pairs (drop 16 (wire_get r))) (hex_pairs idd) (replicate 32 0)))"

definition device_credentials :: "byte list \<Rightarrow> byte list \<Rightarrow> bool" where
  "device_credentials key idd \<longleftrightarrow> list_all lower_hex key \<and> list_all lower_hex idd \<and>
     length key = 64 \<and> length idd = 32"

lemma credentials_text:
  "device_credentials key idd \<Longrightarrow> 0 \<notin> set key \<and> 0 \<notin> set idd \<and> 32 \<notin> set key \<and> 32 \<notin> set idd"
  by (simp add: device_credentials_def lower_hex_nonzero lower_hex_no_space)

lemma atoi_prefix: "atoi (49 # 0 # r) = 1" "atoi (51 # 0 # r) = 3"
  using atoi_digit by (simp_all add: atoi_def cstr_def)

lemma session_ok: "ta_works api v old tail tc \<Longrightarrow> prepare_tee_session tc h = Inr ((), h)"
  by (simp add: prepare_tee_session_def host_ops ta_works_def delivers_def)

lemma device_setup:
  assumes "ta_works api v old tail tc" "device_credentials key idd"
  shows "objs v (world (snd (run_optee tc stk env (cmd_setup key idd) w))) [51] = Some (key @ idd)"
proof -
  let ?argv = "argv_of env (cmd_setup key idd)"
  have p: "palavras (cmd_setup key idd) = [bytes_of ''optee_dra'', [49], key, idd]"
    using credentials_text [OF assms(2)] by (simp add: palavras_setup)
  then have "3 < length ?argv" "\<exists>r2. ?argv ! 2 = key @ r2" "\<exists>r3. ?argv ! 3 = idd @ r3"
    "\<exists>r1. ?argv ! 1 = 49 # 0 # r1" by (simp_all add: argv_of_def)
  then obtain r1 r2 r3 where argv: "3 < length ?argv" "?argv ! 2 = key @ r2" "?argv ! 3 = idd @ r3"
    "?argv ! 1 = 49 # 0 # r1" by blast
  obtain h where h: "cmd_write tc ?argv \<lparr>hw = w, hout = []\<rparr> = Inr ((), h)"
    "objs v (world (hw h)) [51] = Some (key @ idd)"
    using cmd_write_ok [OF assms(1) argv(1-3), of "\<lparr>hw = w, hout = []\<rparr>"] assms(2)
    by (auto simp: device_credentials_def)
  have "host_main tc stk ?argv \<lparr>hw = w, hout = []\<rparr> = Inr (0, h)"
    using argv h(1) session_ok [OF assms(1)]
    by (simp add: host_main_def host_ops arg_def atoi_prefix)
  then show ?thesis using h(2) by (simp add: run_optee_def p)
qed

lemma device_prova:
  assumes "ta_works api v old tail tc" "device_credentials key idd" "stack_ok stk" "length r = 16"
    and "objs v (world w) [51] = Some (key @ idd)"
  shows "fst (run_optee tc stk env (cmd_prova (wire_get r)) w) =
    hex_text (dra_proof (hex_pairs key) (hex_pairs (take 16 (wire_get r)))
      (hex_pairs (drop 16 (wire_get r))) (hex_pairs idd) (replicate 32 0))"
proof -
  let ?argv = "argv_of env (cmd_prova (wire_get r))"
  have "3 < length ?argv" "\<exists>r2. ?argv ! 2 = take 16 (wire_get r) @ r2"
    "\<exists>r3. ?argv ! 3 = drop 16 (wire_get r) @ r3" "\<exists>r1. ?argv ! 1 = 51 # 0 # r1"
    by (simp_all add: argv_of_def palavras_prova)
  then obtain r1 r2 r3 where argv: "3 < length ?argv" "?argv ! 2 = take 16 (wire_get r) @ r2"
    "?argv ! 3 = drop 16 (wire_get r) @ r3" "?argv ! 1 = 51 # 0 # r1" by blast
  have l: "length (take 16 (wire_get r)) = 16" "length (drop 16 (wire_get r)) = 16"
    using assms(4) by (simp_all add: width)
  obtain h where h: "cmd_request_proof tc stk ?argv \<lparr>hw = w, hout = []\<rparr> = Inr ((), h)"
    "hout h = hex_text (dra_proof (hex_pairs key) (hex_pairs (take 16 (wire_get r)))
      (hex_pairs (drop 16 (wire_get r))) (hex_pairs idd) (replicate 32 0))"
    using cmd_request_proof_ok [OF assms(1) argv(1-3) l wire_get_halves(3,4), of "\<lparr>hw = w, hout = []\<rparr>"
        key idd stk] assms(2,3,5) credentials_text [OF assms(2)]
    by (auto simp: device_credentials_def stack_ok_def)
  have "host_main tc stk ?argv \<lparr>hw = w, hout = []\<rparr> = Inr (0, h)"
    using argv h(1) session_ok [OF assms(1)]
    by (simp add: host_main_def host_ops arg_def atoi_prefix)
  then show ?thesis using h(2) by (simp add: run_optee_def palavras_prova)
qed

lemma proof_text: "length (hex_text (dra_proof k r n i c)) = 128" "10 \<notin> set (hex_text (dra_proof k r n i c))"
  using hex_text_sep [of "dra_proof k r n i c"]
  by (simp_all add: length_hex_text width sem_separador_def)

text \<open>The two packets of a device. If the command of the set-up packet has ended when the request comes, the proof is the
  one of the new key; if not, it is the one of the key that was stored before, in a reply that bears the new identifier.\<close>

lemma device_replies:
  assumes "ta_works api v old tail tc" "device_credentials key idd" "stack_ok stk"
    and "length d = 6" "length s = 6" "length r0 = 16" "length r = 16" "sent (pproc st) = []"
    and "background (pw (pproc st)) = []"
    and "device_credentials ckey cid" "if in_time ends (pw (pproc st)) then ckey = key \<and> cid = idd
      else objs v (world (system (pw (pproc st)))) [51] = Some (ckey @ cid)"
  shows "\<exists>st'. pcap_loop (packet_handler (device_os tc stk env ends))
      [setup_packet d s r0 (wire_put key) (wire_put idd), request_packet d s r] st = Inr st' \<and>
    sent (pproc st') = [(d, reply_packet s d r (wire_put idd) (expected_proof ckey cid r))]"
proof -
  let ?os = "device_os tc stk env ends" and ?m = "pw (pproc st)" and ?run = "run_optee tc stk env"
  have c: "list_all lower_hex key" "list_all lower_hex idd" "length key = 64" "length idd = 32"
    using assms(2) by (simp_all add: device_credentials_def)
  let ?m1 = "?m\<lparr>background := [cmd_setup key idd], calls := Suc (calls ?m)\<rparr>"
  have w: "popen_start ?os (cmd_setup key idd) ?m = (True, ?m1)"
    using assms(9) by (simp add: device_os_def let_end_none Let_def)
  obtain st1 where st1: "packet_handler ?os (setup_packet d s r0 (wire_put key) (wire_put idd)) st = Inr st1"
    "id_dispositivo_hex st1 = Some idd" "pw (pproc st1) = ?m1" "sent (pproc st1) = []"
    using setup_step [OF roomy_hosts(1) assms(4-6) c w] assms(8) by simp
  let ?m2 = "let_end ?run (ends (Suc (calls ?m))) ?m1"
  have "objs v (world (system ?m2)) [51] = Some (ckey @ cid)"
    using assms(11) device_setup [OF assms(1,2), of stk env "system ?m"] by (auto simp: let_end_one in_time_def split: if_splits)
  from device_prova [OF assms(1,10,3,7) this, of env] obtain w' where w':
    "popen ?os (cmd_prova (wire_get r)) (pw (pproc st1)) =
      (Some (hex_text (dra_proof (hex_pairs ckey) (hex_pairs (take 16 (wire_get r)))
      (hex_pairs (drop 16 (wire_get r))) (hex_pairs cid) (replicate 32 0))), w')"
    using fst_popen_device [of tc stk env ends "cmd_prova (wire_get r)" ?m1] unfolding st1(3)
    by (cases "popen ?os (cmd_prova (wire_get r)) ?m1") simp
  have "packet_handler ?os (request_packet d s r) st1 = Inr (st1\<lparr>pproc := (pproc st1)\<lparr>pw := w',
    sent := sent (pproc st1) @ [(d, reply_packet s d r (wire_put idd) (expected_proof ckey cid r))],
    ran := ran (pproc st1) @ [cmd_prova (wire_get r)]\<rparr>\<rparr>)"
    unfolding expected_proof_def
    by (rule request_step [OF roomy_hosts(1) assms(4,5,7) st1(2) c(4) w' proof_text])
      (simp_all add: device_os_def)
  then show ?thesis using st1(1,4) by simp
qed

section \<open>The verifier\<close>

text \<open>A calculator that starts on zeroed memory.\<close>

definition calculator_ok :: "cli_env \<Rightarrow> byte list \<Rightarrow> bool" where
  "calculator_ok e env \<longleftrightarrow> wf_cli_env e \<and> cli_stack_ok e \<and> old_configuracao e = replicate 32 0 \<and>
     mensagem_block e = Some (replicate 64 0) \<and> cifrado_block e \<noteq> None \<and> 62 \<le> length env"

lemma calculator_prints:
  assumes "calculator_ok e env" "length key = 64" "0 \<notin> set key" "32 \<notin> set key" "length r = 16" "length i = 16"
  shows "popen (calculator_os e env) (cmd_verif key (wire_get r) (wire_get i)) w =
    (Some (hex_text (dra_proof (hex_pairs key) (hex_pairs (take 16 (wire_get r)))
      (hex_pairs (drop 16 (wire_get r))) (hex_pairs (wire_get i)) (replicate 32 0))), w)"
proof -
  let ?argv = "argv_of env (cmd_verif key (wire_get r) (wire_get i))"
  note w = palavras_verif [OF assms(4), of r i]
  then have a: "?argv = argv_memory [bytes_of ''forro-args-dra2'', key, drop 16 (wire_get r),
      take 16 (wire_get r), wire_get i, [48]] env"
    by (simp add: argv_of_def)
  have "cli_args ?argv key (drop 16 (wire_get r)) (take 16 (wire_get r)) (wire_get i)"
    unfolding a using assms(2,3,5,6) wire_get_halves(3,4) [of 16 r] by (simp add: cli_args_def width c_mem)
  moreover have "read_arg 5 64 (old_configuracao e) (after_configuracao_HEX e) ?argv = Inr (replicate 32 0)"
    using assms(1) read_arg_zero [of 5 ?argv env 64 "old_configuracao e" "after_configuracao_HEX e"] unfolding a
    by (simp add: calculator_ok_def)
  moreover obtain c where "cifrado_block e = Some c" using assms(1) by (auto simp: calculator_ok_def)
  ultimately have "forro_args_dra_main e ?argv = Inr (hex_text (map2 (XOR) (replicate 64 0)
      (dra_proof (hex_pairs key) (hex_pairs (take 16 (wire_get r))) (hex_pairs (drop 16 (wire_get r)))
      (hex_pairs (wire_get i)) (replicate 32 0))))"
    using assms(1) by (intro cli_output) (auto simp: calculator_ok_def)
  then show ?thesis by (simp add: calculator_os_def w map2_xor_zeros width)
qed

lemma verifier_checks_state:
  assumes "calculator_ok e env" "device_credentials key idd"
    and "length d = 6" "length s = 6" "length r = 16" "length prv = 64"
    and "chave (dados st ! (unat (contador_pacotes st) mod 20000)) = key"
  shows "\<exists>p. packet_handler_verifica (calculator_os e env) (reply_packet d s r (wire_put idd) prv) st =
      Inr (st\<lparr>vproc := p, contador_pacotes := contador_pacotes st + 1,
        broke := broke st \<or> contador_pacotes st + 1 = total_pacotes st\<rparr>) \<and>
    sent p = sent (vproc st) @ [(d, verif_packet s d r (wire_put idd) (expected_proof key idd r) prv)]"
proof -
  let ?os = "calculator_os e env" and ?c = "cmd_verif key (wire_get r) (wire_get (wire_put idd))"
  have i: "wire_get (wire_put idd) = idd" "length (wire_put idd) = 16"
    using assms(2) by (simp_all add: device_credentials_def wire.get_put width)
  have t: "texto key 64" "length key = 64"
    using assms(2) by (auto simp: device_credentials_def texto_def lower_hex_nonzero list_all_iff lower_hex_def)
  have p: "popen ?os ?c (pw (vproc st)) = (Some (hex_text (dra_proof (hex_pairs key)
      (hex_pairs (take 16 (wire_get r))) (hex_pairs (drop 16 (wire_get r))) (hex_pairs idd) (replicate 32 0))), pw (vproc st))"
    using calculator_prints [OF assms(1) t(2) _ _ assms(5) i(2)] credentials_text [OF assms(2)] i(1) by simp
  show ?thesis
    using verifica_step [where st = st and os = ?os, OF roomy_hosts(2) assms(3-5) i(2) assms(6) refl, unfolded assms(7),
        OF t(1) p proof_text, of "pw (vproc st)"]
    apply (simp add: calculator_os_def expected_proof_def)
    apply (intro exI conjI, rule refl, simp)
    done
qed

lemma verifier_checks:
  assumes "calculator_ok e env" "device_credentials key idd"
    and "length d = 6" "length s = 6" "length r = 16" "length prv = 64"
    and "chave (dados st ! (unat (contador_pacotes st) mod 20000)) = key"
  shows "\<exists>st'. packet_handler_verifica (calculator_os e env) (reply_packet d s r (wire_put idd) prv) st = Inr st' \<and>
    sent (vproc st') = sent (vproc st) @
      [(d, verif_packet s d r (wire_put idd) (expected_proof key idd r) prv)]"
  using verifier_checks_state [OF assms] by auto

section \<open>A whole run of the verifier\<close>

text \<open>A reply as it arrives (addresses, round, identifier, proof), and the packet that the verifier owes for it
  if it takes the key \<open>key\<close>.\<close>

type_synonym arrival = "byte list \<times> byte list \<times> byte list \<times> byte list \<times> byte list"

fun reply_of :: "arrival \<Rightarrow> byte list" where
  "reply_of (d, s, r, idd, prv) = reply_packet d s r (wire_put idd) prv"

fun verdict_of :: "byte list \<Rightarrow> arrival \<Rightarrow> byte list \<times> byte list" where
  "verdict_of key (d, s, r, idd, prv) = (d, verif_packet s d r (wire_put idd) (expected_proof key idd r) prv)"

fun wf_arrival :: "byte list \<Rightarrow> arrival \<Rightarrow> bool" where
  "wf_arrival key (d, s, r, idd, prv) \<longleftrightarrow> device_credentials key idd \<and> length d = 6 \<and> length s = 6 \<and> length r = 16 \<and>
     length prv = 64"

lemma verifica_loop_run:
  assumes "calculator_ok e env" "n \<le> 20000" "0 < n" "total_pacotes st = of_nat n"
    and "contador_pacotes st = of_nat k" "k + length rs = n" "broke st \<longleftrightarrow> k = n" "length keys = n"
    and "\<forall>j<n. chave (dados st ! j) = keys ! j" "list_all2 wf_arrival (drop k keys) rs"
  shows "\<exists>st'. verifica_loop (calculator_os e env) (map reply_of rs @ rest) st = Inr st' \<and>
    sent (vproc st') = sent (vproc st) @ map2 verdict_of (drop k keys) rs \<and> broke st'"
  using assms(4-)
proof (induction rs arbitrary: st k)
  case Nil
  then show ?case by (cases rest) auto
next
  case (Cons a rs)
  obtain d s r idd prv where a: "a = (d, s, r, idd, prv)" by (cases a)
  have k: "k < n" "\<not> broke st" using Cons.prems(3,4) by auto
  then have dk: "drop k keys = keys ! k # drop (Suc k) keys" using Cons.prems(5) by (simp add: Cons_nth_drop_Suc)
  have wf: "wf_arrival (keys ! k) a" "list_all2 wf_arrival (drop (Suc k) keys) rs" using Cons.prems(7) unfolding dk by simp_all
  have u: "unat (contador_pacotes st) mod 20000 = k" using k(1) assms(2) by (simp add: Cons.prems(2) unat_of_nat)
  have key: "chave (dados st ! (unat (contador_pacotes st) mod 20000)) = keys ! k"
    unfolding u using Cons.prems(6) k(1) by blast
  obtain p where p: "packet_handler_verifica (calculator_os e env) (reply_of a) st =
      Inr (st\<lparr>vproc := p, contador_pacotes := contador_pacotes st + 1,
        broke := broke st \<or> contador_pacotes st + 1 = total_pacotes st\<rparr>)"
    "sent p = sent (vproc st) @ [verdict_of (keys ! k) a]"
  proof -
    have "device_credentials (keys ! k) idd" "length d = 6" "length s = 6" "length r = 16" "length prv = 64"
      using wf(1) unfolding a by simp_all
    from verifier_checks_state [OF assms(1) this key] that show ?thesis unfolding a by auto
  qed
  let ?st = "st\<lparr>vproc := p, contador_pacotes := contador_pacotes st + 1,
    broke := broke st \<or> contador_pacotes st + 1 = total_pacotes st\<rparr>"
  have "contador_pacotes st + 1 = total_pacotes st \<longleftrightarrow> Suc k = n"
  proof -
    have "contador_pacotes st + 1 = of_nat (Suc k)" by (simp add: Cons.prems(2))
    moreover have "unat (of_nat (Suc k) :: u32) = Suc k" "unat (of_nat n :: u32) = n"
      using k(1) assms(2) by (simp_all add: unat_of_nat del: of_nat_Suc)
    ultimately show ?thesis using Cons.prems(1) by (metis)
  qed
  then obtain st' where st': "verifica_loop (calculator_os e env) (map reply_of rs @ rest) ?st = Inr st'"
    "sent (vproc st') = sent p @ map2 verdict_of (drop (Suc k) keys) rs" "broke st'"
    using Cons.IH [of ?st "Suc k"] Cons.prems wf(2) k by (auto simp: add.commute)
  then show ?case using p k(2) by (simp add: dk)
qed

lemma verifica_main_run:
  assumes "calculator_ok e env" "sent p = []" "pcap_setup cap"
    and "length argv = 4" "abrir (cstr (argv ! 1)) = Some (arquivo_de es)" "list_all wf_texto es" "length es \<le> 1000000"
    and "ucast (strtoul 10 (argv ! 3)) = (of_nat n :: u32)" "0 < n" "n \<le> 20000" "n \<le> length es"
    and "captured cap SNAP_LEN filter_exp = map reply_of rs @ rest" "length rs = n"
      "list_all2 wf_arrival (take n (map chave es)) rs"
  shows "\<exists>st. verifica_main (calculator_os e env) cap abrir argv p = Inr (0, st) \<and>
    sent (vproc st) = map2 verdict_of (take n (map chave es)) rs \<and> broke st"
proof -
  let ?T = "es @ replicate (1000000 - length es) zero_entry"
  let ?st = "\<lparr>vproc = p, contador_pacotes = 0, total_pacotes = of_nat n, dados = ?T, broke = False\<rparr>"
  have l: "carregarArquivoMemoria (abrir (cstr (argv ! 1))) (dados_inicial ID_MAX) = Inr ?T"
    using load_texto [OF assms(6,7)] assms(5) by (simp add: ID_MAX_def)
  have "\<exists>st'. verifica_loop (calculator_os e env) (map reply_of rs @ rest) ?st = Inr st' \<and>
    sent (vproc st') = sent (vproc ?st) @ map2 verdict_of (drop 0 (take n (map chave es))) rs \<and> broke st'"
  proof (rule verifica_loop_run [OF assms(1,10,9)])
    show "\<forall>j<n. chave (dados ?st ! j) = take n (map chave es) ! j" using assms(11) by (simp add: nth_append)
  qed (use assms(9,11,13,14) in simp_all)
  then show ?thesis
    using assms(2-4,8,12) l by (auto simp: verifica_main_def calculator_os_def Let_def)
qed

section \<open>The log of the verdicts\<close>

text \<open>What the line of a verification packet shows of a reply, when the key was \<open>key\<close>: round, device, and
  equal proofs exactly when the reply carries the proof expected of the key.\<close>

fun line_shows :: "byte list \<Rightarrow> byte list \<times> arrival \<Rightarrow> bool" where
  "line_shows linha (key, d, s, r, idd, prv) \<longleftrightarrow> campos linha ! 3 = [52] \<and> campos linha ! 4 = hex_text r \<and>
     campos linha ! 5 = hex_text (wire_put idd) \<and> (campos linha ! 6 = campos linha ! 7 \<longleftrightarrow> prv = expected_proof key idd r)"

lemma log_shows_verdict:
  assumes "roomy hp" "wf_arrival key a"
  shows "\<exists>st' linha. packet_handler_le relogio hp (snd (verdict_of key a)) st = Inr st' \<and>
    saida st' = saida st @ linha \<and> line_shows linha (key, a)"
proof -
  obtain d s r idd prv where a: "a = (d, s, r, idd, prv)" by (cases a)
  have w: "device_credentials key idd" "length d = 6" "length s = 6" "length r = 16" "length prv = 64"
    using assms(2) unfolding a by simp_all
  then have l: "length (wire_put idd) = 16" "length (expected_proof key idd r) = 64"
    by (simp_all add: device_credentials_def expected_proof_def width proof_text)
  obtain st' where st': "packet_handler_le relogio hp (snd (verdict_of key a)) st = Inr st'"
    using logs_verificacao [OF assms(1) w(3,2,4) l(1) w(5) l(2)] unfolding a by auto
  then have "packet_handler_le relogio hp (verif_packet s d r (wire_put idd) (expected_proof key idd r) prv) st = Inr st'"
    by (simp add: a)
  from verdict_line [OF assms(1) w(3,2,4) l(1) w(5) l(2) this] st' show ?thesis
    unfolding a by (auto simp: eq_commute)
qed

lemma log_shows_verdicts:
  assumes "roomy hp" "list_all2 wf_arrival keys rs"
  shows "\<exists>st' linhas. pcap_loop (packet_handler_le relogio hp) (map snd (map2 verdict_of keys rs)) st = Inr st' \<and>
    saida st' = saida st @ concat linhas \<and> list_all2 line_shows linhas (zip keys rs)"
  using assms(2)
proof (induction keys rs arbitrary: st rule: list_all2_induct)
  case Nil
  then show ?case by simp
next
  case (Cons key keys a rs)
  obtain st1 linha where 1: "packet_handler_le relogio hp (snd (verdict_of key a)) st = Inr st1"
    "saida st1 = saida st @ linha" "line_shows linha (key, a)"
    using log_shows_verdict [OF assms(1) Cons.hyps(1)] by blast
  obtain st' linhas where 2: "pcap_loop (packet_handler_le relogio hp) (map snd (map2 verdict_of keys rs)) st1 = Inr st'"
    "saida st' = saida st1 @ concat linhas" "list_all2 line_shows linhas (zip keys rs)"
    using Cons.IH by blast
  have "pcap_loop (packet_handler_le relogio hp) (map snd (map2 verdict_of (key # keys) (a # rs))) st = Inr st'"
    using 1(1) 2(1) by simp
  moreover have "saida st' = saida st @ concat (linha # linhas)" using 1(2) 2(2) by simp
  moreover have "list_all2 line_shows (linha # linhas) (zip (key # keys) (a # rs))" using 1(3) 2(3) by simp
  ultimately show ?case by blast
qed

lemma verifica_run_logged:
  assumes "calculator_ok e env" "sent p = []" "pcap_setup cap"
    and "length argv = 4" "abrir (cstr (argv ! 1)) = Some (arquivo_de es)" "list_all wf_texto es" "length es \<le> 1000000"
    and "ucast (strtoul 10 (argv ! 3)) = (of_nat n :: u32)" "0 < n" "n \<le> 20000" "n \<le> length es"
    and "captured cap SNAP_LEN filter_exp = map reply_of rs @ rest" "length rs = n"
      "keys = take n (map chave es)" "list_all2 wf_arrival keys rs" "roomy hp"
  shows "\<exists>st lt linhas. verifica_main (calculator_os e env) cap abrir argv p = Inr (0, st) \<and>
    sent (vproc st) = map2 verdict_of keys rs \<and> broke st \<and>
    pcap_loop (packet_handler_le relogio hp) (map snd (sent (vproc st))) leitor = Inr lt \<and>
    saida lt = saida leitor @ concat linhas \<and> list_all2 line_shows linhas (zip keys rs)"
proof -
  obtain st where st: "verifica_main (calculator_os e env) cap abrir argv p = Inr (0, st)"
    "sent (vproc st) = map2 verdict_of keys rs" "broke st"
    using verifica_main_run [where es = es and n = n and abrir = abrir and argv = argv, OF assms(1-13)] assms(14,15)
    by blast
  show ?thesis
    using st log_shows_verdicts [OF assms(16,15), of relogio leitor] by auto
qed

section \<open>All devices\<close>

text \<open>The reply that a device with key \<open>key\<close> and identifier \<open>idd\<close> owes in a round.\<close>

definition honest :: "nat \<Rightarrow> byte list \<Rightarrow> id_chave_prova_t \<Rightarrow> arrival" where
  "honest i r e = (mac_controlador, device_mac i, r, id_dispositivo e, expected_proof (chave e) (id_dispositivo e) r)"

lemma wf_honest:
  assumes "device_credentials (chave e) (id_dispositivo e)" "length r = 16"
  shows "wf_arrival (chave e) (honest i r e)"
  using assms by (simp add: honest_def expected_proof_def width proof_text device_mac_def mac_host_def mac_controlador_def)

lemma device_answers:
  assumes "ta_works api v old tail tc" "stack_ok stk" "sent (pproc st) = []" "length r = 16"
    and "device_credentials (chave e) (id_dispositivo e)"
    and "background (pw (pproc st)) = []" "in_time ends (pw (pproc st))"
  shows "\<exists>st'. pcap_loop (packet_handler (device_os tc stk env ends))
      [setup_packet (device_mac i) mac_controlador (replicate 16 0) (wire_put (chave e)) (wire_put (id_dispositivo e)),
       request_packet (device_mac i) mac_controlador r] st = Inr st' \<and>
    sent (pproc st') = [(device_mac i, reply_of (honest i r e))]"
proof -
  have l: "length (device_mac i) = 6" "length mac_controlador = 6" "length (replicate 16 0) = 16"
    by (simp_all add: device_mac_def mac_host_def mac_controlador_def)
  show ?thesis using device_replies [OF assms(1,5,2) l(1,2,3) assms(4,3,6,5), of ends env] assms(7) by (simp add: honest_def)
qed

text \<open>The packets of the controller, by device.\<close>

lemma controller_packets:
  fixes q :: "'q proc"
  assumes "sends_all osc" "socket_ok osc (pw q)" "sent q = []"
    and "3 \<le> length argv1" "abrir (cstr (argv1 ! 1)) = Some (arquivo_de es)" "list_all wf_texto es"
      "length es \<le> 1000000" "n = quantidade 3 200 1000000 argv1" "n \<le> length es"
    and "3 \<le> length argv2" "length (argv2 ! 2) = 32" "quantidade 3 200 1000000 argv2 = n"
  shows "\<exists>sp sr. envia_setup_main osc abrir argv1 q = Inr sp \<and> envia_pedidos_host_main osc argv2 q = Inr sr \<and>
    (\<forall>i<n. [snd (sent (sproc sp) ! i), snd (sent sr ! i)] =
      [setup_packet (device_mac i) mac_controlador (replicate 16 0) (wire_put (chave (es ! i)))
        (wire_put (id_dispositivo (es ! i))), request_packet (device_mac i) mac_controlador (wire_put (argv2 ! 2))])"
proof -
  obtain sp where sp: "envia_setup_main osc abrir argv1 q = Inr sp" "map snd (sent (sproc sp)) =
      map (\<lambda>i. setup_packet (device_mac i) mac_controlador (replicate 16 0) (wire_put (chave (es ! i)))
        (wire_put (id_dispositivo (es ! i)))) [0..<n]"
    using setup_sends [where es = es and abrir = abrir and argv = argv1, OF assms(1-9)] by blast
  obtain sr where sr: "envia_pedidos_host_main osc argv2 q = Inr sr" "map snd (sent sr) =
      map (\<lambda>i. request_packet (device_mac i) mac_controlador (wire_put (argv2 ! 2))) [0..<n]"
    using pedidos_sends [OF assms(1-3,10,11) refl] unfolding assms(12) by blast
  have "snd (sent (sproc sp) ! i) = setup_packet (device_mac i) mac_controlador (replicate 16 0)
      (wire_put (chave (es ! i))) (wire_put (id_dispositivo (es ! i)))"
    "snd (sent sr ! i) = request_packet (device_mac i) mac_controlador (wire_put (argv2 ! 2))" if "i < n" for i
    using arg_cong [OF sp(2), of "\<lambda>xs. xs ! i"] arg_cong [OF sp(2), of length]
      arg_cong [OF sr(2), of "\<lambda>xs. xs ! i"] arg_cong [OF sr(2), of length] that by simp_all
  then show ?thesis using sp(1) sr(1) by auto
qed

lemma honest_lines:
  assumes "list_all2 line_shows linhas (zip keys rs)" "length keys = n" "length rs = n"
    and "\<forall>i<n. keys ! i = chave (es ! i) \<and> rs ! i = honest i r (es ! i)"
  shows "length linhas = n \<and> (\<forall>i<n. campos (linhas ! i) ! 5 = hex_text (wire_put (id_dispositivo (es ! i))) \<and>
    campos (linhas ! i) ! 6 = campos (linhas ! i) ! 7)"
proof -
  have l: "length linhas = n" using list_all2_lengthD [OF assms(1)] assms(2,3) by simp
  moreover have "line_shows (linhas ! i) (chave (es ! i), honest i r (es ! i))" if "i < n" for i
    using list_all2_nthD [OF assms(1), of i] that l assms(2-4) by simp
  ultimately show ?thesis by (simp add: honest_def)
qed

text \<open>A device whose store holds \<open>d\<close>, with nothing running.\<close>

definition machine_example :: "byte list \<Rightarrow> mem_world ta_state machine" where
  "machine_example d = \<lparr>system = mem_state [51] d, background = [], calls = 0\<rparr>"

lemma machine_example_idle: "background (machine_example d) = []" "in_time (\<lambda>_. [0]) (machine_example d)"
  by (simp_all add: machine_example_def in_time_def)

end
