(* ===== verification/Network_Order.thy ===== *)
theory Network_Order
  imports Attest
begin

text \<open>
  The fields of the headers of a P4 program: a field of type \<open>bit<w>\<close> is a word of \<open>w\<close> bits, and a header
  holds its fields in network order, most significant byte first. The second part relates them to the
  little-endian words of the cipher and to the integers of the Python controller.
\<close>

section \<open>Network order\<close>

definition be_word :: "byte list \<Rightarrow> 'w::len word" where
  "be_word bs = foldl (\<lambda>w b. push_bit 8 w OR ucast b) 0 bs"

definition be_bytes :: "nat \<Rightarrow> 'w::len word \<Rightarrow> byte list" where
  "be_bytes n w = map (\<lambda>i. ucast (drop_bit (8 * (n - Suc i)) w)) [0..<n]"

lemma length_be_bytes [width]: "length (be_bytes n w) = n"
  by (simp add: be_bytes_def)

lemma be_word_snoc: "be_word (bs @ [b]) = push_bit 8 (be_word bs) OR ucast b"
  by (simp add: be_word_def)

lemma bit_be_word: "bit (be_word bs :: 'w::len word) k \<longleftrightarrow>
    k < LENGTH('w) \<and> k < 8 * length bs \<and> bit (rev bs ! (k div 8)) (k mod 8)"
proof (induction bs arbitrary: k rule: rev_induct)
  case Nil
  then show ?case by (simp add: be_word_def)
next
  case (snoc b bs)
  show ?case
  proof (cases "k < 8")
    case True
    then show ?thesis by (auto simp: be_word_snoc bit_simps)
  next
    case False
    then obtain j where j: "k = j + 8" using le_Suc_ex [of 8 k] by (auto simp: add.commute)
    have "\<not> bit b k" using False bit_imp_le_length [of b k] by auto
    moreover have "(j + 8) div 8 = Suc (j div 8)" by simp
    ultimately show ?thesis using snoc.IH [of j] unfolding j by (auto simp: be_word_snoc bit_simps)
  qed
qed

lemma bit_be_bytes: "i < n \<Longrightarrow> bit (be_bytes n w ! i) k \<longleftrightarrow> k < 8 \<and> bit w (8 * (n - Suc i) + k)"
  by (auto simp: be_bytes_def bit_simps dest: bit_imp_le_length)

lemma be_bytes_be_word [simp]:
  assumes "8 * length bs \<le> LENGTH('w::len)" "n = length bs"
  shows "be_bytes n (be_word bs :: 'w word) = bs"
proof (rule nth_equalityI)
  show "length (be_bytes n (be_word bs :: 'w word)) = length bs" using assms(2) by (simp add: width)
next
  fix i assume "i < length (be_bytes n (be_word bs :: 'w word))"
  then have i: "i < length bs" using assms(2) by (simp add: width)
  show "be_bytes n (be_word bs :: 'w word) ! i = bs ! i"
  proof (rule bit_word_eqI)
    fix k assume "k < LENGTH(8)"
    then have k: "k < 8" by simp
    have lt: "8 * (length bs - Suc i) + k < 8 * length bs" using i k by linarith
    have "rev bs ! ((8 * (length bs - Suc i) + k) div 8) = bs ! i"
      using i k by (simp add: rev_nth)
    then show "bit (be_bytes n (be_word bs :: 'w word) ! i) k = bit (bs ! i) k"
      using i k lt assms by (simp add: bit_be_bytes bit_be_word)
  qed
qed

lemma be_word_be_bytes [simp]:
  assumes "LENGTH('w::len) = 8 * n"
  shows "be_word (be_bytes n w) = (w :: 'w word)"
proof (rule bit_word_eqI)
  fix k assume "k < LENGTH('w)"
  then have k: "k < 8 * n" using assms by simp
  then have d: "k div 8 < n" by linarith
  then have r: "rev (be_bytes n w) ! (k div 8) = be_bytes n w ! (n - Suc (k div 8))"
    by (simp add: rev_nth width)
  have e: "n - Suc (n - Suc (k div 8)) = k div 8" using d by simp
  show "bit (be_word (be_bytes n w) :: 'w word) k = bit w k"
    using k d assms by (simp add: bit_be_word width r bit_be_bytes e)
qed

lemma be_word_inject: "length a = length b \<Longrightarrow> 8 * length b \<le> LENGTH('w::len) \<Longrightarrow>
    be_word a = (be_word b :: 'w word) \<longleftrightarrow> a = b"
  using be_bytes_be_word [of a "length b", where 'w = 'w] be_bytes_be_word [of b "length b", where 'w = 'w] by metis

section \<open>Arrays of 32-bit fields\<close>

definition be_words :: "nat \<Rightarrow> byte list \<Rightarrow> u32 list" where
  "be_words n b = map (\<lambda>i. be_word (take 4 (drop (4 * i) b))) [0..<n]"

definition words_bytes :: "u32 list \<Rightarrow> byte list" where
  "words_bytes v = concat (map (be_bytes 4) v)"

lemma length_be_words [width]: "length (be_words n b) = n"
  by (simp add: be_words_def)

lemma length_words_bytes [width]: "length (words_bytes v) = 4 * length v"
  by (simp add: words_bytes_def length_concat_const [where k = 4] width)

lemma be_words_Suc: "be_words (Suc n) b = be_word (take 4 b) # be_words n (drop 4 b)"
  by (simp add: be_words_def upt_conv_Cons map_Suc_upt [symmetric] add.commute del: upt_Suc)

lemma be_words_words_bytes [simp]: "length v = n \<Longrightarrow> be_words n (words_bytes v @ rest) = v"
proof (induction v arbitrary: n)
  case Nil
  then show ?case by (simp add: be_words_def)
next
  case (Cons w v)
  then obtain m where m: "n = Suc m" "length v = m" by auto
  have "words_bytes (w # v) = be_bytes 4 w @ words_bytes v" by (simp add: words_bytes_def)
  then show ?case using Cons.IH [OF m(2)] m by (simp add: be_words_Suc width)
qed

lemma words_bytes_be_words [simp]: "length b = 4 * n \<Longrightarrow> words_bytes (be_words n b) = b"
proof (induction n arbitrary: b)
  case 0
  then show ?case by (simp add: be_words_def words_bytes_def)
next
  case (Suc n)
  have "words_bytes (be_words (Suc n) b) = be_bytes 4 (be_word (take 4 b) :: u32) @ words_bytes (be_words n (drop 4 b))"
    by (simp add: be_words_Suc words_bytes_def)
  then show ?case using Suc by simp
qed

section \<open>Little-endian words\<close>

lemma be_bytes_4: "be_bytes 4 (w :: u32) = rev (U32TO8_LITTLE w)"
  by (simp add: be_bytes_def U32TO8_LITTLE_def numeral_eq_Suc)

lemma words_bytes_swap: "words_bytes v = swap_bytes (concat (map U32TO8_LITTLE v))"
proof (induction v)
  case Nil
  then show ?case by (simp add: words_bytes_def)
next
  case (Cons w v)
  then show ?case by (simp add: words_bytes_def be_bytes_4 U32TO8_LITTLE_def)
qed

lemma be_word_swap:
  assumes "4 \<le> length p"
  shows "be_word (take 4 (swap_bytes p)) = U8TO32_LITTLE p"
proof -
  obtain a b c d r where p: "p = a # b # c # d # r"
    using assms by (auto simp: numeral_eq_Suc Suc_le_length_iff)
  show ?thesis
    unfolding p by (simp add: be_word_def U8TO32_LITTLE_def push_bit_or ac_simps)
qed

section \<open>Integers of Python\<close>

text \<open>\<open>int(t, 16)\<close> of a text of hexadecimal digits, and the word that the driver of the switch makes of it.\<close>

definition py_int :: "byte list \<Rightarrow> nat" where
  "py_int t = foldl (\<lambda>n c. 16 * n + dval c) 0 t"

lemma or_byte: "push_bit 8 w OR ucast (b :: byte) = push_bit 8 (w :: 'w::len word) + ucast b"
proof -
  have "push_bit 8 w AND ucast b = 0"
    by (rule bit_word_eqI) (auto simp: bit_simps dest: bit_imp_le_length)
  then show ?thesis by (simp add: disjunctive_add_eq_or)
qed

lemma ucast_byte: "m < 256 \<Longrightarrow> (ucast (of_nat m :: byte) :: 'w::len word) = of_nat m"
  by (simp add: unsigned_of_nat take_bit_nat_eq_self)

lemma py_int_word:
  assumes "list_all (is_digit 16) t" "even (length t)"
  shows "of_nat (py_int t) = (be_word (hex_pairs t) :: 'w::len word)"
proof -
  have "foldl (\<lambda>w b. push_bit 8 w OR ucast b) (of_nat n) (hex_pairs t) =
      (of_nat (foldl (\<lambda>n c. 16 * n + dval c) n t) :: 'w word)" for n
    using assms
  proof (induction t arbitrary: n rule: hex_pairs.induct)
    case (1 a b s)
    have "16 * dval a + dval b < 256"
      using dval_less_16 [of a] dval_less_16 [of b] "1.prems"(1) by simp
    then have h: "ucast (hex_pair a b) = (of_nat (16 * dval a + dval b) :: 'w word)"
      using "1.prems"(1) by (simp only: hex_pair_digits ucast_byte list.pred_inject)
    have p: "push_bit 8 (of_nat n) = (of_nat (256 * n) :: 'w word)"
      by (simp add: push_bit_eq_mult)
    have "push_bit 8 (of_nat n) OR ucast (hex_pair a b) = (of_nat (256 * n) + of_nat (16 * dval a + dval b) :: 'w word)"
      using or_byte [of "of_nat n :: 'w word" "hex_pair a b"] by (simp only: h p)
    also have "\<dots> = of_nat (256 * n + (16 * dval a + dval b))" by (rule of_nat_add [symmetric])
    also have "256 * n + (16 * dval a + dval b) = 16 * (16 * n + dval a) + dval b" by simp
    finally have step: "push_bit 8 (of_nat n) OR ucast (hex_pair a b) =
        (of_nat (16 * (16 * n + dval a) + dval b) :: 'w word)" .
    have "list_all (is_digit 16) s" "even (length s)" using "1.prems" by simp_all
    then show ?case by (simp only: hex_pairs.simps foldl.simps step "1.IH")
  qed auto
  from this [of 0] show ?thesis by (simp add: py_int_def be_word_def)
qed

end
