(* ===== verification/Switch_Forro.thy ===== *)
theory Switch_Forro
  imports Network_Order
begin

text \<open>
  The quarter rounds of the cipher in the tables of the switch, \<open>act_forro_*.p4\<close>: twelve tables, one
  per assignment, in ingress and again in egress. \<open>TNA/bfrt_python/setup.py\<close> fills them by the number
  of the round. The sixteen fields \<open>v0\<close> to \<open>v15\<close> of the header are a list of words.
\<close>

section \<open>Quarter rounds as tables\<close>

datatype gress = Ig | Eg

datatype forro_action = QR nat | QR7_fin

text \<open>The five words of the quarter rounds \<open>qr0\<close> to \<open>qr7\<close>, in the order of the macro \<open>Q\<close>.\<close>

definition qr_regs :: "nat \<Rightarrow> nat \<times> nat \<times> nat \<times> nat \<times> nat" where
  "qr_regs q = [(0, 4, 8, 12, 3), (1, 5, 9, 13, 0), (2, 6, 10, 14, 1), (3, 7, 11, 15, 2),
     (0, 5, 10, 15, 3), (1, 6, 11, 12, 0), (2, 7, 8, 13, 1), (3, 4, 9, 14, 2)] ! q"

text \<open>\<open>w[31-n:0] ++ w[31:32-n]\<close>.\<close>

definition rot_slices :: "nat \<Rightarrow> u32 \<Rightarrow> u32" where
  "rot_slices n w = push_bit n (take_bit (32 - n) w) OR drop_bit (32 - n) w"

text \<open>The assignment to the state in the actions \<open>i0_qr\<close> to \<open>i11_qr\<close> and \<open>e0_qr\<close> to \<open>e11_qr\<close>.\<close>

fun qr_step :: "nat \<times> nat \<times> nat \<times> nat \<times> nat \<Rightarrow> nat \<Rightarrow> u32 list \<Rightarrow> u32 list" where
  "qr_step (a, b, c, d, e) k v =
    (if k = 0 then v[d := v ! d + v ! e]
     else if k = 1 then v[c := v ! c XOR v ! d]
     else if k = 2 then v[b := v ! b + v ! c]
     else if k = 3 then v[b := rot_slices 10 (v ! b)]
     else if k = 4 then v[a := v ! a + v ! b]
     else if k = 5 then v[e := v ! e XOR v ! a]
     else if k = 6 then v[d := v ! d + v ! e]
     else if k = 7 then v[d := rot_slices 27 (v ! d)]
     else if k = 8 then v[c := v ! c + v ! d]
     else if k = 9 then v[b := v ! b XOR v ! c]
     else if k = 10 then v[a := v ! a + v ! b]
     else v[a := rot_slices 8 (v ! a)])"

text \<open>The rules of \<open>setup.py\<close>: the key of a rule is the pipeline, the table and the number of the round.\<close>

definition total_rodadas :: nat where "total_rodadas = 14 * 4 + 1"

definition forro_rules_of :: "nat \<Rightarrow> ((gress \<times> nat \<times> nat) \<times> forro_action) list" where
  "forro_rules_of rodada =
    (let pipeline = (if rodada mod 2 = 0 then Eg else Ig);
         qr = (rodada - 1) mod 8;
         limite = (if rodada = total_rodadas - 1 then 11 else 12)
     in map (\<lambda>i. ((pipeline, i, rodada), QR qr)) [0..<limite])"

definition forro_rules :: "((gress \<times> nat \<times> nat) \<times> forro_action) list" where
  "forro_rules = concat (map forro_rules_of [1..<total_rodadas]) @ [((Eg, 11, total_rodadas - 1), QR7_fin)]"

definition forro_table :: "gress \<Rightarrow> nat \<Rightarrow> byte \<Rightarrow> forro_action option" where
  "forro_table g i rodada = map_of forro_rules (g, i, unat rodada)"

lemma rot_slices_ROTL: "n < 32 \<Longrightarrow> rot_slices n w = ROTL w n"
  by (rule bit_word_eqI) (auto simp: rot_slices_def ROTL_def bit_simps)

lemma map_of_rules_of: "map_of (forro_rules_of r) (g, i, x) =
    (if x = r \<and> i < (if r = 56 then 11 else 12) \<and> g = (if even r then Eg else Ig) then Some (QR ((r - 1) mod 8)) else None)"
  by (auto simp: forro_rules_of_def total_rodadas_def Let_def map_of_eq_None_iff even_iff_mod_2_eq_zero
      intro!: map_of_is_SomeI distinct_map[THEN iffD2] inj_onI)

lemma map_of_rules: "map_of (concat (map forro_rules_of [1..<n])) (g, i, x) =
    (if 1 \<le> x \<and> x < n \<and> i < (if x = 56 then 11 else 12) \<and> g = (if even x then Eg else Ig)
     then Some (QR ((x - 1) mod 8)) else None)"
proof (induction n)
  case 0
  then show ?case by simp
next
  case (Suc n)
  then show ?case
    by (cases "1 \<le> n"; cases "x = n") (auto simp: map_of_rules_of map_add_def less_Suc_eq split: option.splits)
qed

lemma forro_table_eq: "forro_table g i x =
    (if odd (unat x) \<and> unat x < 57 \<and> g = Ig \<and> i < 12 then Some (QR ((unat x - 1) mod 8))
     else if even (unat x) \<and> 1 \<le> unat x \<and> unat x < 57 \<and> g = Eg \<and> i < 12
     then Some (if unat x = 56 \<and> i = 11 then QR7_fin else QR ((unat x - 1) mod 8)) else None)"
proof -
  have t: "total_rodadas = 57" by (simp add: total_rodadas_def)
  show ?thesis
    unfolding forro_table_def forro_rules_def map_of_append map_add_def t map_of_rules
    using odd_pos [of "unat x"] by (cases g; cases "unat x = 56") auto
qed

lemma qr_steps_Q:
  assumes "q < 8" "length v = 16"
  shows "foldl (\<lambda>v k. qr_step (qr_regs q) k v) v [0..<12] = (case qr_regs q of (a, b, c, d, e) \<Rightarrow> Q a b c d e v)"
proof -
  have "q = 0 \<or> q = 1 \<or> q = 2 \<or> q = 3 \<or> q = 4 \<or> q = 5 \<or> q = 6 \<or> q = 7" using assms(1) by linarith
  moreover obtain v0 v1 v2 v3 v4 v5 v6 v7 v8 v9 v10 v11 v12 v13 v14 v15 where
    "v = [v0, v1, v2, v3, v4, v5, v6, v7, v8, v9, v10, v11, v12, v13, v14, v15]"
    using assms(2) by (rule list_16E)
  moreover have "[0..<12] = [0, 1, 2, 3, 4, 5, 6, 7, 8, 9, 10, 11 :: nat]" by (simp add: upt_rec)
  ultimately show ?thesis
    by (elim disjE; simp add: qr_regs_def Q_def Let_def rot_slices_ROTL)
qed

end
