(* ===== verification/Switch.thy ===== *)
theory Switch
  imports Switch_Forro Verifier
begin

text \<open>
  The program of the switch, \<open>TNA/p4src\<close>, and the entries that \<open>TNA/bfrt_python/setup.py\<close> makes in its tables.
  A packet with a reply gets the initial state of the cipher as a header, and then goes round through
  ingress and egress; every pass runs two quarter rounds. After the last one the switch adds the initial
  state and compares the result with the proof in the packet.

  Headers are records of the extracted fields, \<open>None\<close> for a header that is not valid. A control is a list
  of tables that runs until an action exits. What the program relies on and cannot show is the parameter
  \<open>asic\<close>: what a header reads as that was not extracted, and which ports lead back into the switch.
\<close>

section \<open>Headers and parsers\<close>

record p4dra_oper_t =
  op :: byte
  id_rodada0 :: u32
  id_rodada1 :: u32
  id_rodada2 :: u32
  id_rodada3 :: u32

record ig_headers =
  ethernet :: ether_header
  p4dra_oper :: "p4dra_oper_t option"
  p4dra_id :: "128 word option"
  forro_rodada :: "byte option"
  forro_state :: "u32 list option"
  forro_cipher :: "u32 list option"
  forro_payload :: "u32 list option"

record asic =
  unset_oper :: p4dra_oper_t
  unset_id :: "128 word"
  recirc :: "9 word \<Rightarrow> bool"

definition extrai :: "nat \<Rightarrow> byte list \<Rightarrow> (byte list \<times> byte list) res" where
  "extrai n b = (if n \<le> length b then Inr (take n b, drop n b) else Inl ReadOverrun)"

definition oper_of_bytes :: "byte list \<Rightarrow> p4dra_oper_t" where
  "oper_of_bytes b = \<lparr>op = b ! 0, id_rodada0 = be_word (take 4 (drop 1 b)),
     id_rodada1 = be_word (take 4 (drop 5 b)), id_rodada2 = be_word (take 4 (drop 9 b)),
     id_rodada3 = be_word (take 4 (drop 13 b))\<rparr>"

definition oper_emit :: "p4dra_oper_t \<Rightarrow> byte list" where
  "oper_emit oh = op oh # words_bytes [id_rodada0 oh, id_rodada1 oh, id_rodada2 oh, id_rodada3 oh]"

definition only_ethernet :: "ether_header \<Rightarrow> ig_headers" where
  "only_ethernet e = \<lparr>ethernet = e, p4dra_oper = None, p4dra_id = None, forro_rodada = None,
     forro_state = None, forro_cipher = None, forro_payload = None\<rparr>"

definition ig_parse :: "byte list \<Rightarrow> (ig_headers \<times> byte list) res" where
  "ig_parse pkt =
    bind_r (extrai 14 pkt) (\<lambda>(b, rest).
    bind_r (read_ether b) (\<lambda>e.
    let h = only_ethernet e in
    if ether_type e \<noteq> 0x1234 then Inr (h, rest)
    else
      bind_r (extrai 17 rest) (\<lambda>(b, rest).
      let oh = oper_of_bytes b; h = h\<lparr>p4dra_oper := Some oh\<rparr> in
      if op oh \<notin> {2, 3, 4} then Inr (h, rest)
      else
        bind_r (extrai 16 rest) (\<lambda>(b, rest).
        let h = h\<lparr>p4dra_id := Some (be_word b)\<rparr> in
        if op oh = 3 then
          bind_r (extrai 1 rest) (\<lambda>(x, rest).
          bind_r (extrai 64 rest) (\<lambda>(v, rest).
            Inr (h\<lparr>forro_rodada := Some (x ! 0), forro_state := Some (be_words 16 v)\<rparr>, rest)))
        else if op oh = 4 then
          bind_r (extrai 64 rest) (\<lambda>(c, rest).
          bind_r (extrai 64 rest) (\<lambda>(p, rest).
            Inr (h\<lparr>forro_cipher := Some (be_words 16 c), forro_payload := Some (be_words 16 p)\<rparr>, rest)))
        else Inr (h, rest)))))"

definition emit :: "('a \<Rightarrow> byte list) \<Rightarrow> 'a option \<Rightarrow> byte list" where
  "emit f h = (case h of None \<Rightarrow> [] | Some x \<Rightarrow> f x)"

definition ig_emit :: "ig_headers \<Rightarrow> byte list" where
  "ig_emit h = ether_bytes (ethernet h) @ emit oper_emit (p4dra_oper h) @ emit (be_bytes 16) (p4dra_id h) @
     emit (\<lambda>x. [x]) (forro_rodada h) @ emit words_bytes (forro_state h) @ emit words_bytes (forro_cipher h) @
     emit words_bytes (forro_payload h)"

section \<open>Ingress\<close>

record ig_md =
  hdr :: ig_headers
  conf0 :: u32
  conf1 :: u32
  conf2 :: u32
  conf3 :: u32
  verificacao0 :: u32
  verificacao1 :: u32
  verificacao2 :: u32
  verificacao3 :: u32
  ucast_egress_port :: "9 word option"
  bypass_egress :: bool
  drop_ctl :: bool
  exited :: bool

definition ig_init :: "ig_headers \<Rightarrow> ig_md" where
  "ig_init h = \<lparr>hdr = h, conf0 = 0, conf1 = 0, conf2 = 0, conf3 = 0, verificacao0 = 0, verificacao1 = 0,
     verificacao2 = 0, verificacao3 = 0, ucast_egress_port = None, bypass_egress = False, drop_ctl = False,
     exited = False\<rparr>"

definition run_tables :: "(ig_md \<Rightarrow> ig_md) list \<Rightarrow> ig_md \<Rightarrow> ig_md" where
  "run_tables ts s = foldl (\<lambda>s t. if exited s then s else t s) s ts"

definition oper_in :: "asic \<Rightarrow> ig_headers \<Rightarrow> p4dra_oper_t" where
  "oper_in a h = (case p4dra_oper h of None \<Rightarrow> unset_oper a | Some oh \<Rightarrow> oh)"

definition id_in :: "asic \<Rightarrow> ig_headers \<Rightarrow> 128 word" where
  "id_in a h = (case p4dra_id h of None \<Rightarrow> unset_id a | Some i \<Rightarrow> i)"

text \<open>Assignments to the fields of a header that is not valid have no effect.\<close>

definition on_state :: "(u32 list \<Rightarrow> u32 list) \<Rightarrow> ig_md \<Rightarrow> ig_md" where
  "on_state f s = s\<lparr>hdr := (hdr s)\<lparr>forro_state := map_option f (forro_state (hdr s))\<rparr>\<rparr>"

definition on_cipher :: "(u32 list \<Rightarrow> u32 list) \<Rightarrow> ig_md \<Rightarrow> ig_md" where
  "on_cipher f s = s\<lparr>hdr := (hdr s)\<lparr>forro_cipher := map_option f (forro_cipher (hdr s))\<rparr>\<rparr>"

definition set_oper :: "byte \<Rightarrow> ig_md \<Rightarrow> ig_md" where
  "set_oper x s = s\<lparr>hdr := (hdr s)\<lparr>p4dra_oper := map_option (\<lambda>oh. oh\<lparr>op := x\<rparr>) (p4dra_oper (hdr s))\<rparr>\<rparr>"

definition drop_ig :: "ig_md \<Rightarrow> ig_md" where
  "drop_ig s = s\<lparr>drop_ctl := True, exited := True\<rparr>"

text \<open>The tables \<open>tbl_forro_ig0\<close> to \<open>tbl_forro_ig11\<close>. The last action also counts the round and chooses the
  port of the next pass.\<close>

definition forro_ig_action :: "nat \<Rightarrow> nat \<Rightarrow> ig_md \<Rightarrow> ig_md" where
  "forro_ig_action k q s =
    (let s = on_state (qr_step (qr_regs q) k) s in
     if k = 11 then s\<lparr>hdr := (hdr s)\<lparr>forro_rodada := map_option (\<lambda>x. x + 1) (forro_rodada (hdr s))\<rparr>,
       ucast_egress_port := Some (if q = 0 \<or> q = 4 then 68 else 68 + 128)\<rparr>
     else s)"

definition rodada_in :: "ig_headers \<Rightarrow> byte" where
  "rodada_in h = (case forro_rodada h of None \<Rightarrow> 0 | Some x \<Rightarrow> x)"

definition tbl_forro_ig :: "nat \<Rightarrow> ig_md \<Rightarrow> ig_md" where
  "tbl_forro_ig k s = (case forro_table Ig k (rodada_in (hdr s)) of
     Some (QR q) \<Rightarrow> forro_ig_action k q s
   | _ \<Rightarrow> if k = 0 then s else forro_ig_action k 0 s)"

text \<open>The entries for the devices.\<close>

record device_entry =
  dv_id :: "128 word"
  dv_conf :: "256 word"
  dv_keys :: "u32 list"

datatype p4dra_action = Carregar_estado_0 "256 word" "u32 list" | Forward_request "9 word" | Forward "9 word"

record sw_tables =
  entries_ig0 :: "((byte \<times> 128 word) \<times> p4dra_action) list"
  entries_ig0_fin :: "(128 word \<times> 256 word \<times> u32 list) list"
  port_fin :: "9 word"

text \<open>\<open>configuracao[hi:lo]\<close> with \<open>hi = lo + 31\<close>.\<close>

definition fatia :: "nat \<Rightarrow> 256 word \<Rightarrow> u32" where
  "fatia lo conf = ucast (drop_bit lo conf)"

definition carregar_estado_0 :: "asic \<Rightarrow> 256 word \<Rightarrow> u32 list \<Rightarrow> ig_md \<Rightarrow> ig_md" where
  "carregar_estado_0 a conf key s = s\<lparr>hdr := (hdr s)\<lparr>forro_rodada := Some 0, forro_state := Some
    [key ! 0, key ! 1, key ! 2, key ! 3,
     fatia 224 conf XOR id_rodada0 (oper_in a (hdr s)), fatia 192 conf, fatia 160 conf, fatia 128 conf,
     key ! 4, key ! 5, key ! 6, key ! 7,
     fatia 96 conf, fatia 64 conf, fatia 32 conf, fatia 0 conf]\<rparr>\<rparr>"

definition tbl_p4dra_ig0 :: "asic \<Rightarrow> sw_tables \<Rightarrow> ig_md \<Rightarrow> ig_md" where
  "tbl_p4dra_ig0 a tb s = (case map_of (entries_ig0 tb) (op (oper_in a (hdr s)), id_in a (hdr s)) of
     Some (Forward_request port) \<Rightarrow> (set_oper 1 s)\<lparr>ucast_egress_port := Some port, bypass_egress := True, exited := True\<rparr>
   | Some (Forward port) \<Rightarrow> s\<lparr>ucast_egress_port := Some port, bypass_egress := True, exited := True\<rparr>
   | Some (Carregar_estado_0 conf key) \<Rightarrow> carregar_estado_0 a conf key s
   | None \<Rightarrow> drop_ig s)"

definition tbl_p4dra_ig1 :: "asic \<Rightarrow> ig_md \<Rightarrow> ig_md" where
  "tbl_p4dra_ig1 a s = (if op (oper_in a (hdr s)) = 2
     then on_state (\<lambda>v. v[5 := v ! 5 XOR id_rodada1 (oper_in a (hdr s))]) s else s)"

definition tbl_p4dra_ig2 :: "asic \<Rightarrow> ig_md \<Rightarrow> ig_md" where
  "tbl_p4dra_ig2 a s = (if op (oper_in a (hdr s)) = 2
     then on_state (\<lambda>v. v[12 := v ! 12 XOR id_rodada2 (oper_in a (hdr s))]) s else s)"

definition tbl_p4dra_ig3 :: "asic \<Rightarrow> ig_md \<Rightarrow> ig_md" where
  "tbl_p4dra_ig3 a s = (if op (oper_in a (hdr s)) = 2
     then (let s = on_state (\<lambda>v. v[13 := v ! 13 XOR id_rodada3 (oper_in a (hdr s))]) s;
               s = s\<lparr>hdr := (hdr s)\<lparr>forro_rodada := map_option (\<lambda>_. 1) (forro_rodada (hdr s))\<rparr>\<rparr>
           in (set_oper 3 s)\<lparr>bypass_egress := True, ucast_egress_port := Some (68 + 128), exited := True\<rparr>)
     else s)"

definition finalizar_forro_0 :: "asic \<Rightarrow> 256 word \<Rightarrow> u32 list \<Rightarrow> ig_md \<Rightarrow> ig_md" where
  "finalizar_forro_0 a conf key s = (on_cipher (\<lambda>c. c[0 := c ! 0 + key ! 0, 1 := c ! 1 + key ! 1,
     2 := c ! 2 + key ! 2, 3 := c ! 3 + key ! 3, 6 := c ! 6 + fatia 160 conf, 7 := c ! 7 + fatia 128 conf,
     8 := c ! 8 + key ! 4, 9 := c ! 9 + key ! 5, 10 := c ! 10 + key ! 6, 11 := c ! 11 + key ! 7,
     14 := c ! 14 + fatia 32 conf, 15 := c ! 15 + fatia 0 conf]) s)
     \<lparr>conf0 := fatia 224 conf XOR id_rodada0 (oper_in a (hdr s)), conf1 := fatia 192 conf,
      conf2 := fatia 96 conf, conf3 := fatia 64 conf\<rparr>"

definition tbl_p4dra_ig0_fin :: "asic \<Rightarrow> sw_tables \<Rightarrow> ig_md \<Rightarrow> ig_md" where
  "tbl_p4dra_ig0_fin a tb s = (case map_of (entries_ig0_fin tb) (id_in a (hdr s)) of
     Some (conf, key) \<Rightarrow> finalizar_forro_0 a conf key s
   | None \<Rightarrow> s)"

definition tbl_p4dra_ig1_fin :: "asic \<Rightarrow> ig_md \<Rightarrow> ig_md" where
  "tbl_p4dra_ig1_fin a s = (if op (oper_in a (hdr s)) = 4
     then (on_cipher (\<lambda>c. c[4 := c ! 4 + conf0 s]) s)\<lparr>conf1 := conf1 s XOR id_rodada1 (oper_in a (hdr s))\<rparr> else s)"

definition tbl_p4dra_ig2_fin :: "asic \<Rightarrow> ig_md \<Rightarrow> ig_md" where
  "tbl_p4dra_ig2_fin a s = (if op (oper_in a (hdr s)) = 4
     then (on_cipher (\<lambda>c. c[5 := c ! 5 + conf1 s]) s)\<lparr>conf2 := conf2 s XOR id_rodada2 (oper_in a (hdr s))\<rparr> else s)"

definition tbl_p4dra_ig3_fin :: "asic \<Rightarrow> ig_md \<Rightarrow> ig_md" where
  "tbl_p4dra_ig3_fin a s = (if op (oper_in a (hdr s)) = 4
     then (on_cipher (\<lambda>c. c[12 := c ! 12 + conf2 s]) s)\<lparr>conf3 := conf3 s XOR id_rodada3 (oper_in a (hdr s))\<rparr> else s)"

definition tbl_p4dra_ig4_fin :: "asic \<Rightarrow> sw_tables \<Rightarrow> ig_md \<Rightarrow> ig_md" where
  "tbl_p4dra_ig4_fin a tb s = (if op (oper_in a (hdr s)) = 4
     then (on_cipher (\<lambda>c. c[13 := c ! 13 + conf3 s]) s)\<lparr>ucast_egress_port := Some (port_fin tb)\<rparr> else s)"

text \<open>\<open>verificar_prova_0\<close> with the words from \<open>k\<close> downwards, and \<open>verificar_prova_1\<close>. A word of a header that is
  not valid reads as zero; the tables are applied only where both headers are.\<close>

definition campo :: "u32 list option \<Rightarrow> nat \<Rightarrow> u32" where
  "campo h k = (case h of None \<Rightarrow> 0 | Some v \<Rightarrow> v ! k)"

definition diff :: "ig_md \<Rightarrow> nat \<Rightarrow> u32" where
  "diff s k = campo (forro_cipher (hdr s)) k XOR campo (forro_payload (hdr s)) k"

definition verificar_prova_0 :: "nat \<Rightarrow> ig_md \<Rightarrow> ig_md" where
  "verificar_prova_0 k s = s\<lparr>verificacao0 := diff s k, verificacao1 := diff s (k - 1),
     verificacao2 := diff s (k - 2), verificacao3 := diff s (k - 3)\<rparr>"

definition verificar_prova_1 :: "nat \<Rightarrow> ig_md \<Rightarrow> ig_md" where
  "verificar_prova_1 k s = s\<lparr>verificacao0 := diff s k, verificacao1 := diff s (k - 1), verificacao2 := diff s (k - 2)\<rparr>"

definition tbl_p4dra_ig5_fin :: "ig_md \<Rightarrow> ig_md" where
  "tbl_p4dra_ig5_fin s = verificar_prova_0 15 s"

definition tbl_p4dra_ig6_fin :: "ig_md \<Rightarrow> ig_md" where
  "tbl_p4dra_ig6_fin s = (if verificacao0 s = 0 \<and> verificacao1 s = 0 \<and> verificacao2 s = 0 \<and> verificacao3 s = 0
     then verificar_prova_0 11 s else drop_ig s)"

definition tbl_p4dra_ig7_fin :: "ig_md \<Rightarrow> ig_md" where
  "tbl_p4dra_ig7_fin s = (if verificacao0 s = 0 \<and> verificacao1 s = 0 \<and> verificacao2 s = 0 \<and> verificacao3 s = 0
     then verificar_prova_1 7 s else drop_ig s)"

definition tbl_p4dra_ig8_fin :: "ig_md \<Rightarrow> ig_md" where
  "tbl_p4dra_ig8_fin s = (if verificacao0 s = 0 \<and> verificacao1 s = 0 \<and> verificacao2 s = 0 then s else drop_ig s)"

definition ingress :: "asic \<Rightarrow> sw_tables \<Rightarrow> ig_md \<Rightarrow> ig_md" where
  "ingress a tb s =
    (if op (oper_in a (hdr s)) = 3 then run_tables (map tbl_forro_ig [0..<12]) s
     else if op (oper_in a (hdr s)) = 4 then run_tables [tbl_p4dra_ig0_fin a tb, tbl_p4dra_ig1_fin a,
       tbl_p4dra_ig2_fin a, tbl_p4dra_ig3_fin a, tbl_p4dra_ig4_fin a tb, tbl_p4dra_ig5_fin, tbl_p4dra_ig6_fin,
       tbl_p4dra_ig7_fin, tbl_p4dra_ig8_fin] s
     else run_tables [tbl_p4dra_ig0 a tb, tbl_p4dra_ig1 a, tbl_p4dra_ig2 a, tbl_p4dra_ig3 a] s)"

section \<open>Egress\<close>

text \<open>The header \<open>forro_cipher_verify\<close> is the field \<open>verificar\<close> and the bytes of \<open>pular\<close>.\<close>

record eg_headers =
  eg_ethernet :: ether_header
  eg_oper :: "p4dra_oper_t option"
  eg_id :: "128 word option"
  eg_rodada :: "byte option"
  eg_state :: "u32 list option"
  forro_cipher_verify :: "(160 word \<times> byte list) option"
  forro_half_payload :: "160 word option"

record eg_md =
  ehdr :: eg_headers
  verificacao :: "160 word"
  eg_drop_ctl :: bool

definition eg_parse :: "byte list \<Rightarrow> (eg_headers \<times> byte list) res" where
  "eg_parse pkt =
    bind_r (extrai 14 pkt) (\<lambda>(b, rest).
    bind_r (read_ether b) (\<lambda>e.
    let h = \<lparr>eg_ethernet = e, eg_oper = None, eg_id = None, eg_rodada = None, eg_state = None,
      forro_cipher_verify = None, forro_half_payload = None\<rparr> in
    if ether_type e \<noteq> 0x1234 then Inr (h, rest)
    else
      bind_r (extrai 17 rest) (\<lambda>(b, rest).
      let oh = oper_of_bytes b in
      bind_r (extrai 16 rest) (\<lambda>(b, rest).
      let h = h\<lparr>eg_oper := Some oh, eg_id := Some (be_word b)\<rparr> in
      if op oh = 3 then
        bind_r (extrai 1 rest) (\<lambda>(x, rest).
        bind_r (extrai 64 rest) (\<lambda>(v, rest).
          Inr (h\<lparr>eg_rodada := Some (x ! 0), eg_state := Some (be_words 16 v)\<rparr>, rest)))
      else if op oh = 4 then
        bind_r (extrai 20 rest) (\<lambda>(c, rest).
        bind_r (extrai 44 rest) (\<lambda>(s, rest).
        bind_r (extrai 20 rest) (\<lambda>(p, rest).
          Inr (h\<lparr>forro_cipher_verify := Some (be_word c, s), forro_half_payload := Some (be_word p)\<rparr>, rest))))
      else Inr (h, rest)))))"

definition eg_emit :: "eg_headers \<Rightarrow> byte list" where
  "eg_emit h = ether_bytes (eg_ethernet h) @ emit oper_emit (eg_oper h) @ emit (be_bytes 16) (eg_id h) @
     emit (\<lambda>x. [x]) (eg_rodada h) @ emit words_bytes (eg_state h) @
     emit (\<lambda>(c, s). be_bytes 20 c @ s) (forro_cipher_verify h) @ emit (be_bytes 20) (forro_half_payload h)"

text \<open>The tables \<open>tbl_forro_eg0\<close> to \<open>tbl_forro_eg11\<close>.\<close>

definition on_eg_state :: "(u32 list \<Rightarrow> u32 list) \<Rightarrow> eg_md \<Rightarrow> eg_md" where
  "on_eg_state f s = s\<lparr>ehdr := (ehdr s)\<lparr>eg_state := map_option f (eg_state (ehdr s))\<rparr>\<rparr>"

definition forro_eg_action :: "nat \<Rightarrow> nat \<Rightarrow> eg_md \<Rightarrow> eg_md" where
  "forro_eg_action k q s =
    (let s = on_eg_state (qr_step (qr_regs q) k) s in
     if k = 11 then s\<lparr>ehdr := (ehdr s)\<lparr>eg_rodada := map_option (\<lambda>x. x + 1) (eg_rodada (ehdr s))\<rparr>\<rparr> else s)"

definition e11_qr7_fin :: "eg_md \<Rightarrow> eg_md" where
  "e11_qr7_fin s =
    (let s = on_eg_state (qr_step (qr_regs 7) 11) s in
     s\<lparr>ehdr := (ehdr s)\<lparr>eg_oper := map_option (\<lambda>oh. oh\<lparr>op := 4\<rparr>) (eg_oper (ehdr s)), eg_rodada := None\<rparr>\<rparr>)"

definition tbl_forro_eg :: "nat \<Rightarrow> eg_md \<Rightarrow> eg_md" where
  "tbl_forro_eg k s = (case forro_table Eg k (case eg_rodada (ehdr s) of None \<Rightarrow> 0 | Some x \<Rightarrow> x) of
     Some (QR q) \<Rightarrow> forro_eg_action k q s
   | Some QR7_fin \<Rightarrow> e11_qr7_fin s
   | None \<Rightarrow> s)"

definition tbl_p4dra_eg0_fin :: "eg_md \<Rightarrow> eg_md" where
  "tbl_p4dra_eg0_fin s = s\<lparr>verificacao :=
     (case forro_cipher_verify (ehdr s) of None \<Rightarrow> 0 | Some (c, _) \<Rightarrow> c) XOR
     (case forro_half_payload (ehdr s) of None \<Rightarrow> 0 | Some p \<Rightarrow> p)\<rparr>"

definition tbl_p4dra_eg1_fin :: "eg_md \<Rightarrow> eg_md" where
  "tbl_p4dra_eg1_fin s = (if verificacao s = 0 then s else s\<lparr>eg_drop_ctl := True\<rparr>)"

definition egress :: "asic \<Rightarrow> eg_md \<Rightarrow> eg_md" where
  "egress a s =
    (if op (case eg_oper (ehdr s) of None \<Rightarrow> unset_oper a | Some oh \<Rightarrow> oh) = 3
     then foldl (\<lambda>s k. tbl_forro_eg k s) s [0..<12]
     else tbl_p4dra_eg1_fin (tbl_p4dra_eg0_fin s))"

section \<open>The entries of the controller\<close>

text \<open>\<open>process_file\<close> and the loop over its result. Text is bytes; where Python raises an exception, which ends
  the script, the value is \<open>None\<close>. That is also the value where a key has fewer than eight parts: the
  script would go on with the parts of the line before.\<close>

fun py_split :: "byte \<Rightarrow> byte list \<Rightarrow> byte list list" where
  "py_split sep [] = [[]]"
| "py_split sep (c # cs) = (if c = sep then [] # py_split sep cs
     else (case py_split sep cs of [] \<Rightarrow> [[c]] | w # ws \<Rightarrow> (c # w) # ws))"

definition py_strip :: "byte list \<Rightarrow> byte list" where
  "py_strip t = rev (dropWhile isspace (rev (dropWhile isspace t)))"

definition partes_de_8 :: "byte list \<Rightarrow> byte list list" where
  "partes_de_8 t = map (\<lambda>i. take 8 (drop (8 * i) t)) [0..<(length t + 7) div 8]"

definition process_line :: "byte list \<Rightarrow> (byte list \<times> byte list list) option" where
  "process_line line =
    (let parts = py_split 58 (py_strip line) in
     if length parts < 2 then None else Some (parts ! 0, partes_de_8 (parts ! 1)))"

definition inverter_endianess :: "byte list \<Rightarrow> byte list option" where
  "inverter_endianess t = (if length t mod 8 \<noteq> 0 then None else Some (swap_hex t))"

definition int_16 :: "byte list \<Rightarrow> nat option" where
  "int_16 t = (if t \<noteq> [] \<and> list_all (is_digit 16) t then Some (py_int t) else None)"

definition conf_param :: "nat \<Rightarrow> nat" where
  "conf_param id_dispositivo_ini =
    0 XOR (push_bit 128 (drop_bit 64 (id_dispositivo_ini AND 0xFFFFFFFFFFFFFFFF0000000000000000)) OR
      (id_dispositivo_ini AND 0xFFFFFFFFFFFFFFFF))"

definition device_of_line :: "byte list \<Rightarrow> device_entry option" where
  "device_of_line line = (case process_line line of None \<Rightarrow> None
   | Some (ident, partes) \<Rightarrow>
       (case Option.bind (inverter_endianess ident) int_16 of None \<Rightarrow> None
        | Some i \<Rightarrow>
            (case those (map (\<lambda>p. Option.bind (inverter_endianess p) int_16) partes) of None \<Rightarrow> None
             | Some ks \<Rightarrow> if length ks < 8 \<or> 2 ^ 128 \<le> i then None
                 else Some \<lparr>dv_id = of_nat i, dv_conf = of_nat (conf_param i), dv_keys = map of_nat (take 8 ks)\<rparr>)))"

text \<open>The entries. A field that a call does not name is zero.\<close>

definition install :: "device_entry list \<Rightarrow> sw_tables" where
  "install ds = \<lparr>
     entries_ig0 = map (\<lambda>d. ((2, dv_id d), Carregar_estado_0 (dv_conf d) (dv_keys d))) ds @
       [((0, 0), Forward_request 0), ((5, 0), Forward 0)],
     entries_ig0_fin = map (\<lambda>d. (dv_id d, dv_conf d, dv_keys d)) ds,
     port_fin = 1\<rparr>"

definition setup_switch :: "byte list list \<Rightarrow> sw_tables option" where
  "setup_switch lines = map_option install (those (map device_of_line (take 20000 lines)))"

section \<open>A pass through the switch\<close>

text \<open>\<open>Dentro\<close>: the packet is in the switch, at the start of ingress. \<open>Curto\<close>: it ended in a header.\<close>

datatype sw_state = Dentro "byte list" | Saiu "9 word" "byte list" | Descartado | Curto

definition travessia :: "asic \<Rightarrow> sw_tables \<Rightarrow> byte list \<Rightarrow> sw_state" where
  "travessia a tb pkt = (case ig_parse pkt of
     Inl _ \<Rightarrow> Curto
   | Inr (h, rest) \<Rightarrow>
       let s = ingress a tb (ig_init h); saida = ig_emit (hdr s) @ rest;
           para = (\<lambda>port p. if recirc a port then Dentro p else Saiu port p) in
       if drop_ctl s then Descartado
       else (case ucast_egress_port s of
         None \<Rightarrow> Descartado
       | Some port \<Rightarrow>
           if bypass_egress s then para port saida
           else (case eg_parse saida of
             Inl _ \<Rightarrow> Curto
           | Inr (h, rest) \<Rightarrow>
               let s = egress a \<lparr>ehdr = h, verificacao = 0, eg_drop_ctl = False\<rparr> in
               if eg_drop_ctl s then Descartado else para port (eg_emit (ehdr s) @ rest))))"

inductive sw_step :: "asic \<Rightarrow> sw_tables \<Rightarrow> sw_state \<Rightarrow> sw_state \<Rightarrow> bool" for a tb where
  pass: "travessia a tb p = s \<Longrightarrow> sw_step a tb (Dentro p) s"

inductive_simps sw_step_Dentro [simp]: "sw_step a tb (Dentro p) s"
inductive_cases sw_stepE: "sw_step a tb s s'"

end
