(* ===== verification/Switch_Pass.thy ===== *)
theory Switch_Pass
  imports Switch
begin

text \<open>
  One pass of a packet through the switch. The packets that ingress accepts are classified, and for each
  kind the result of the pass is computed: a reply gets the state of the cipher, a packet in the
  computation gets two quarter rounds, a packet with a complete state is verified.
\<close>

section \<open>Parsing what was emitted\<close>

lemma extrai_append: "length a = n \<Longrightarrow> extrai n (a @ b) = Inr (a, b)"
  by (simp add: extrai_def)

lemma extrai_Inr_iff: "extrai n p = Inr (a, b) \<longleftrightarrow> length a = n \<and> p = a @ b"
  by (auto simp: extrai_def)

lemma length_oper_emit [width]: "length (oper_emit h) = 17"
  by (simp add: oper_emit_def width)

lemma oper_of_emit [simp]: "oper_of_bytes (oper_emit h) = h"
proof -
  have "be_words 4 (words_bytes [id_rodada0 h, id_rodada1 h, id_rodada2 h, id_rodada3 h] @ []) =
      [id_rodada0 h, id_rodada1 h, id_rodada2 h, id_rodada3 h]"
    by (rule be_words_words_bytes) simp
  then show ?thesis
    by (simp add: oper_of_bytes_def oper_emit_def be_words_def upt_rec)
qed

lemma emit_oper_of [simp]:
  assumes "length b = 17"
  shows "oper_emit (oper_of_bytes b) = b"
proof -
  obtain x r where b: "b = x # r" "length r = 16" using assms by (cases b) auto
  have "words_bytes (be_words 4 r) = r" using b(2) by simp
  then show ?thesis unfolding b(1) by (simp add: oper_of_bytes_def oper_emit_def be_words_def upt_rec)
qed

lemma emit_simps [simp]: "emit f None = []" "emit f (Some x) = f x"
  by (simp_all add: emit_def)

text \<open>The packets of the protocol inside the switch.\<close>

definition pkt_reply :: "ether_header \<Rightarrow> p4dra_oper_t \<Rightarrow> 128 word \<Rightarrow> byte list \<Rightarrow> byte list" where
  "pkt_reply e h i r = ether_bytes e @ oper_emit h @ be_bytes 16 i @ r"

definition pkt_calc :: "ether_header \<Rightarrow> p4dra_oper_t \<Rightarrow> 128 word \<Rightarrow> byte \<Rightarrow> u32 list \<Rightarrow> byte list \<Rightarrow> byte list" where
  "pkt_calc e h i x v r = pkt_reply e h i ([x] @ words_bytes v @ r)"

definition pkt_verif :: "ether_header \<Rightarrow> p4dra_oper_t \<Rightarrow> 128 word \<Rightarrow> u32 list \<Rightarrow> u32 list \<Rightarrow> byte list \<Rightarrow> byte list" where
  "pkt_verif e h i c p r = pkt_reply e h i (words_bytes c @ words_bytes p @ r)"

definition p4dra_ether :: "ether_header \<Rightarrow> bool" where
  "p4dra_ether e \<longleftrightarrow> wf_ether e \<and> ether_type e = 0x1234"

lemmas parse_simps = extrai_append ether.length_enc ether.dec_exact width be_words_words_bytes
  [where rest = "[]", simplified]

lemma ig_parse_reply: "p4dra_ether e \<Longrightarrow> op h = 2 \<Longrightarrow> ig_parse (pkt_reply e h i r) =
    Inr ((only_ethernet e)\<lparr>p4dra_oper := Some h, p4dra_id := Some i\<rparr>, r)"
  by (simp add: ig_parse_def pkt_reply_def p4dra_ether_def parse_simps Let_def)

lemma ig_parse_calc: "p4dra_ether e \<Longrightarrow> op h = 3 \<Longrightarrow> length v = 16 \<Longrightarrow> ig_parse (pkt_calc e h i x v r) =
    Inr ((only_ethernet e)\<lparr>p4dra_oper := Some h, p4dra_id := Some i, forro_rodada := Some x,
      forro_state := Some v\<rparr>, r)"
  using extrai_append [of "[x]" 1 "words_bytes v @ r"]
  by (simp add: ig_parse_def pkt_calc_def pkt_reply_def p4dra_ether_def parse_simps Let_def)

lemma ig_parse_verif: "p4dra_ether e \<Longrightarrow> op h = 4 \<Longrightarrow> length c = 16 \<Longrightarrow> length p = 16 \<Longrightarrow>
    ig_parse (pkt_verif e h i c p r) = Inr ((only_ethernet e)\<lparr>p4dra_oper := Some h, p4dra_id := Some i,
      forro_cipher := Some c, forro_payload := Some p\<rparr>, r)"
  by (simp add: ig_parse_def pkt_verif_def pkt_reply_def p4dra_ether_def parse_simps Let_def)

text \<open>Every packet that ingress accepts is one of these, or has none of the headers of the cipher.\<close>

lemma ig_parse_cases:
  assumes "ig_parse p = Inr (h, r)"
  obtains (other) e where "wf_ether e" "ether_type e \<noteq> 0x1234" "h = only_ethernet e" "p = ether_bytes e @ r"
  | (oper) e oh where "p4dra_ether e" "op oh \<notin> {2, 3, 4}" "h = (only_ethernet e)\<lparr>p4dra_oper := Some oh\<rparr>"
      "p = ether_bytes e @ oper_emit oh @ r"
  | (reply) e oh i where "p4dra_ether e" "op oh = 2" "p = pkt_reply e oh i r"
  | (calc) e oh i x v where "p4dra_ether e" "op oh = 3" "length v = 16" "p = pkt_calc e oh i x v r"
  | (verif) e oh i c d where "p4dra_ether e" "op oh = 4" "length c = 16" "length d = 16"
      "p = pkt_verif e oh i c d r"
proof -
  from assms obtain b0 r0 e where e: "length b0 = 14" "p = b0 @ r0" "read_ether b0 = Inr e"
    by (auto simp: ig_parse_def bind_r_Inr_iff extrai_Inr_iff split: prod.splits)
  then have we: "wf_ether e" "ether_bytes e = b0" using ether.dec_Inr_iff [of b0 e] by auto
  show ?thesis
  proof (cases "ether_type e = 0x1234")
    case False
    then show ?thesis using assms e we other [of e]
      by (simp add: ig_parse_def extrai_append Let_def)
  next
    case True
    then have pe: "p4dra_ether e" using we by (simp add: p4dra_ether_def)
    obtain b1 r1 where b1: "length b1 = 17" "r0 = b1 @ r1"
      using assms e True
      by (auto simp: ig_parse_def extrai_append Let_def bind_r_Inr_iff extrai_Inr_iff split: prod.splits)
    define oh where "oh = oper_of_bytes b1"
    have oh: "oper_emit oh = b1" using b1 by (simp add: oh_def)
    show ?thesis
    proof (cases "op oh \<in> {2, 3, 4}")
      case False
      then show ?thesis using assms e we b1 True pe oh oper [of e oh]
        by (simp add: ig_parse_def extrai_append Let_def oh_def)
    next
      case op: True
      obtain b2 r2 where b2: "length b2 = 16" "r1 = b2 @ r2"
        using assms e True b1 op unfolding oh_def
        by (auto simp: ig_parse_def extrai_append Let_def bind_r_Inr_iff extrai_Inr_iff split: prod.splits)
      define i where "i = (be_word b2 :: 128 word)"
      have p: "p = pkt_reply e oh i r2"
        using e(2) b1 b2 we oh by (simp add: pkt_reply_def i_def)
      have l2: "extrai 16 r1 = Inr (b2, r2)" using b2 by (simp add: extrai_append)
      from op consider "op oh = 2" | "op oh = 3" | "op oh = 4" by auto
      then show ?thesis
      proof cases
        case 1
        then have "r = r2" using assms p ig_parse_reply [OF pe 1, of i r2] by simp
        then show ?thesis using reply [OF pe 1] p by simp
      next
        case 2
        then obtain x v where xv: "length x = 1" "length v = 64" "r2 = x @ v @ r"
          using assms e True b1 b2 unfolding oh_def
          by (auto simp: ig_parse_def extrai_append Let_def bind_r_Inr_iff extrai_Inr_iff split: prod.splits)
        then have c: "p = pkt_calc e oh i (x ! 0) (be_words 16 v) r"
          using p by (auto simp: pkt_calc_def length_Suc_conv)
        show ?thesis by (rule calc [OF pe 2 length_be_words c])
      next
        case 3
        then obtain c d where cd: "length c = 64" "length d = 64" "r2 = c @ d @ r"
          using assms e True b1 b2 unfolding oh_def
          by (auto simp: ig_parse_def extrai_append Let_def bind_r_Inr_iff extrai_Inr_iff split: prod.splits)
        then have c: "p = pkt_verif e oh i (be_words 16 c) (be_words 16 d) r"
          using p by (simp add: pkt_verif_def)
        show ?thesis by (rule verif [OF pe 3 length_be_words length_be_words c])
      qed
    qed
  qed
qed

section \<open>A pass while the proof is computed\<close>

text \<open>What the tables of a gress do to the state in round \<open>x\<close>: the quarter round of the round where the
  controller made an entry, and otherwise the default action.\<close>

definition ig_eff :: "byte \<Rightarrow> nat \<Rightarrow> u32 list \<Rightarrow> u32 list" where
  "ig_eff x k v = (if odd (unat x) \<and> unat x < 57 then qr_step (qr_regs ((unat x - 1) mod 8)) k v
     else if k = 0 then v else qr_step (qr_regs 0) k v)"

definition eg_eff :: "byte \<Rightarrow> nat \<Rightarrow> u32 list \<Rightarrow> u32 list" where
  "eg_eff x k v = (if even (unat x) \<and> 1 \<le> unat x \<and> unat x < 57 then qr_step (qr_regs ((unat x - 1) mod 8)) k v else v)"

definition ig_port :: "byte \<Rightarrow> 9 word" where
  "ig_port x = (let q = (if odd (unat x) \<and> unat x < 57 then (unat x - 1) mod 8 else 0) in
     if q = 0 \<or> q = 4 then 68 else 196)"

lemma tbl_forro_ig_eff:
  assumes "k < 11" "forro_rodada (hdr s) = Some x"
  shows "tbl_forro_ig k s = on_state (ig_eff x k) s"
  using assms by (auto simp: tbl_forro_ig_def rodada_in_def forro_table_eq ig_eff_def [abs_def] forro_ig_action_def Let_def
      on_state_def option.map_ident)

lemma tbl_forro_ig_last:
  assumes "forro_rodada (hdr s) = Some x"
  shows "tbl_forro_ig 11 s = (on_state (ig_eff x 11) s)\<lparr>
    hdr := (hdr (on_state (ig_eff x 11) s))\<lparr>forro_rodada := Some (x + 1)\<rparr>, ucast_egress_port := Some (ig_port x)\<rparr>"
  using assms by (auto simp: tbl_forro_ig_def rodada_in_def forro_table_eq ig_eff_def [abs_def] forro_ig_action_def Let_def
      on_state_def ig_port_def)

lemma on_state_fields [simp]:
  "hdr (on_state f s) = (hdr s)\<lparr>forro_state := map_option f (forro_state (hdr s))\<rparr>"
  "exited (on_state f s) = exited s"
  by (simp_all add: on_state_def)

lemma on_state_comp: "on_state f (on_state g s) = on_state (\<lambda>v. f (g v)) s"
  by (simp add: on_state_def option.map_comp comp_def)

lemma run_ig_prefix:
  assumes "n \<le> 11" "forro_rodada (hdr s) = Some x" "\<not> exited s"
  shows "run_tables (map tbl_forro_ig [0..<n]) s = on_state (\<lambda>v. foldl (\<lambda>v k. ig_eff x k v) v [0..<n]) s"
  using assms(1)
proof (induction n)
  case 0
  then show ?case by (simp add: run_tables_def on_state_def option.map_ident)
next
  case (Suc n)
  then show ?case using assms(2,3)
    by (simp add: run_tables_def tbl_forro_ig_eff on_state_comp)
qed

lemma upt_12: "[0..<12] = [0..<11] @ [11 :: nat]"
  by (simp add: upt_rec)

lemma run_ig:
  assumes "forro_rodada (hdr s) = Some x" "\<not> exited s"
  shows "run_tables (map tbl_forro_ig [0..<12]) s =
    s\<lparr>hdr := (hdr s)\<lparr>forro_rodada := Some (x + 1),
        forro_state := map_option (\<lambda>v. foldl (\<lambda>v k. ig_eff x k v) v [0..<12]) (forro_state (hdr s))\<rparr>,
      ucast_egress_port := Some (ig_port x)\<rparr>"
proof -
  have "run_tables (map tbl_forro_ig [0..<12]) s =
      tbl_forro_ig 11 (run_tables (map tbl_forro_ig [0..<11]) s)"
    using assms run_ig_prefix [OF le_refl assms] unfolding upt_12 by (simp add: run_tables_def)
  also have "\<dots> = tbl_forro_ig 11 (on_state (\<lambda>v. foldl (\<lambda>v k. ig_eff x k v) v [0..<11]) s)"
    using run_ig_prefix [OF le_refl assms] by simp
  also have "\<dots> = s\<lparr>hdr := (hdr s)\<lparr>forro_rodada := Some (x + 1),
        forro_state := map_option (\<lambda>v. foldl (\<lambda>v k. ig_eff x k v) v [0..<12]) (forro_state (hdr s))\<rparr>,
      ucast_egress_port := Some (ig_port x)\<rparr>"
    using assms tbl_forro_ig_last [of "on_state (\<lambda>v. foldl (\<lambda>v k. ig_eff x k v) v [0..<11]) s" x]
    by (simp add: on_state_def option.map_comp comp_def upt_12)
  finally show ?thesis .
qed

lemma tbl_forro_eg_eff:
  assumes "k < 11" "eg_rodada (ehdr s) = Some x"
  shows "tbl_forro_eg k s = on_eg_state (eg_eff x k) s"
  using assms by (auto simp: tbl_forro_eg_def forro_table_eq eg_eff_def [abs_def] forro_eg_action_def Let_def
      on_eg_state_def option.map_ident)

definition eg_last :: "byte \<Rightarrow> eg_headers \<Rightarrow> eg_headers" where
  "eg_last x h = (if x = 56 then h\<lparr>eg_oper := map_option (\<lambda>oh. oh\<lparr>op := 4\<rparr>) (eg_oper h), eg_rodada := None\<rparr>
     else if even (unat x) \<and> 1 \<le> unat x \<and> unat x < 57 then h\<lparr>eg_rodada := Some (x + 1)\<rparr> else h)"

lemma unat_56: "unat (x :: byte) = 56 \<longleftrightarrow> x = 56"
  by (simp add: word_unat_eq_iff)

lemma tbl_forro_eg_last:
  assumes "eg_rodada (ehdr s) = Some x"
  shows "tbl_forro_eg 11 s = s\<lparr>ehdr := eg_last x ((ehdr s)\<lparr>eg_state := map_option (eg_eff x 11) (eg_state (ehdr s))\<rparr>)\<rparr>"
  using assms by (auto simp: tbl_forro_eg_def forro_table_eq eg_eff_def [abs_def] forro_eg_action_def Let_def
      on_eg_state_def eg_last_def e11_qr7_fin_def unat_56 option.map_ident)

lemma on_eg_state_fields [simp]:
  "ehdr (on_eg_state f s) = (ehdr s)\<lparr>eg_state := map_option f (eg_state (ehdr s))\<rparr>"
  by (simp add: on_eg_state_def)

lemma on_eg_state_comp: "on_eg_state f (on_eg_state g s) = on_eg_state (\<lambda>v. f (g v)) s"
  by (simp add: on_eg_state_def option.map_comp comp_def)

lemma run_eg_prefix:
  assumes "n \<le> 11" "eg_rodada (ehdr s) = Some x"
  shows "foldl (\<lambda>s k. tbl_forro_eg k s) s [0..<n] = on_eg_state (\<lambda>v. foldl (\<lambda>v k. eg_eff x k v) v [0..<n]) s"
  using assms(1)
proof (induction n)
  case 0
  then show ?case by (simp add: on_eg_state_def option.map_ident)
next
  case (Suc n)
  then show ?case using assms(2) by (simp add: tbl_forro_eg_eff on_eg_state_comp)
qed

lemma run_eg:
  assumes "eg_rodada (ehdr s) = Some x"
  shows "foldl (\<lambda>s k. tbl_forro_eg k s) s [0..<12] = s\<lparr>ehdr := eg_last x ((ehdr s)\<lparr>eg_state :=
    map_option (\<lambda>v. foldl (\<lambda>v k. eg_eff x k v) v [0..<12]) (eg_state (ehdr s))\<rparr>)\<rparr>"
proof -
  have "foldl (\<lambda>s k. tbl_forro_eg k s) s [0..<12] =
      tbl_forro_eg 11 (on_eg_state (\<lambda>v. foldl (\<lambda>v k. eg_eff x k v) v [0..<11]) s)"
    unfolding upt_12 by (simp add: run_eg_prefix [OF le_refl assms])
  then show ?thesis
    using assms tbl_forro_eg_last [of "on_eg_state (\<lambda>v. foldl (\<lambda>v k. eg_eff x k v) v [0..<11]) s" x]
    by (simp add: on_eg_state_def option.map_comp comp_def upt_12)
qed

text \<open>The state after a pass, and where the packet goes.\<close>

definition pass_state :: "byte \<Rightarrow> u32 list \<Rightarrow> u32 list" where
  "pass_state x v = foldl (\<lambda>v k. eg_eff (x + 1) k v) (foldl (\<lambda>v k. ig_eff x k v) v [0..<12]) [0..<12]"

definition sai :: "asic \<Rightarrow> 9 word \<Rightarrow> byte list \<Rightarrow> sw_state" where
  "sai a port p = (if recirc a port then Dentro p else Saiu port p)"

lemma length_qr_step [width]: "length (qr_step r k v) = length v"
  by (cases r) simp

lemma length_eff [width]: "length (ig_eff x k v) = length v" "length (eg_eff x k v) = length v"
  by (simp_all add: ig_eff_def eg_eff_def width)

lemma length_foldl: "(\<And>v k. length (f v k) = length v) \<Longrightarrow> length (foldl f v ks) = length v"
  by (induction ks arbitrary: v) auto

lemma length_pass_state [width]: "length (pass_state x v) = length v"
  by (simp add: pass_state_def length_foldl width)

lemma eg_parse_calc: "p4dra_ether e \<Longrightarrow> op h = 3 \<Longrightarrow> length v = 16 \<Longrightarrow> eg_parse (pkt_calc e h i x v r) =
    Inr (\<lparr>eg_ethernet = e, eg_oper = Some h, eg_id = Some i, eg_rodada = Some x, eg_state = Some v,
      forro_cipher_verify = None, forro_half_payload = None\<rparr>, r)"
  using extrai_append [of "[x]" 1 "words_bytes v @ r"]
  by (simp add: eg_parse_def pkt_calc_def pkt_reply_def p4dra_ether_def parse_simps Let_def)

definition next_rodada :: "byte \<Rightarrow> byte" where
  "next_rodada x = (if odd (unat x) \<and> unat x < 55 then x + 2 else x + 1)"

lemma unat_next: "unat (x + 1 :: byte) = (if unat x = 255 then 0 else unat x + 1)"
proof -
  have "unat x \<noteq> 255 \<Longrightarrow> Suc (unat x) < 256" using unat_byte_less [of x] by linarith
  then show ?thesis by (auto simp: unat_word_ariths)
qed

lemma eg_last_fin: "eg_last 56 h = h\<lparr>eg_oper := map_option (\<lambda>oh. oh\<lparr>op := 4\<rparr>) (eg_oper h), eg_rodada := None\<rparr>"
  by (simp add: eg_last_def)

lemma eg_last_next:
  assumes "unat x \<noteq> 55" "eg_rodada h = Some (x + 1)"
  shows "eg_last (x + 1) h = h\<lparr>eg_rodada := Some (next_rodada x)\<rparr>"
proof -
  have "x + 1 \<noteq> 56" using assms(1) unat_next [of x] by (auto simp: word_unat_eq_iff split: if_splits)
  moreover have "even (unat (x + 1)) \<and> 1 \<le> unat (x + 1) \<and> unat (x + 1) < 57 \<longleftrightarrow> odd (unat x) \<and> unat x < 55"
    using assms(1) by (auto simp: unat_next)
  ultimately show ?thesis using assms(2) by (simp add: eg_last_def next_rodada_def)
qed

text \<open>The pass of a packet in the computation.\<close>

lemma travessia_calc:
  assumes "p4dra_ether e" "op h = 3" "length v = 16"
  shows "travessia a tb (pkt_calc e h i x v r) = sai a (ig_port x)
    (if unat x = 55 then pkt_reply e (h\<lparr>op := 4\<rparr>) i (words_bytes (pass_state x v) @ r)
     else pkt_calc e h i (next_rodada x) (pass_state x v) r)"
proof -
  let ?v = "foldl (\<lambda>v k. ig_eff x k v) v [0..<12]"
  let ?h = "(only_ethernet e)\<lparr>p4dra_oper := Some h, p4dra_id := Some i, forro_rodada := Some x, forro_state := Some v\<rparr>"
  let ?s = "(ig_init ?h)\<lparr>hdr := ?h\<lparr>forro_rodada := Some (x + 1), forro_state := Some ?v\<rparr>, ucast_egress_port := Some (ig_port x)\<rparr>"
  have "run_tables (map tbl_forro_ig [0..<12]) (ig_init ?h) = ?s"
    using run_ig [of "ig_init ?h" x] by (simp add: ig_init_def)
  then have ing: "ingress a tb (ig_init ?h) = ?s"
    using assms(2) by (simp add: ingress_def oper_in_def ig_init_def)
  have em: "ig_emit (hdr ?s) @ r = pkt_calc e h i (x + 1) ?v r"
    by (simp add: ig_emit_def pkt_calc_def pkt_reply_def only_ethernet_def)
  let ?eh = "\<lparr>eg_ethernet = e, eg_oper = Some h, eg_id = Some i, eg_rodada = Some (x + 1), eg_state = Some ?v,
    forro_cipher_verify = None, forro_half_payload = None\<rparr>"
  have ep: "eg_parse (pkt_calc e h i (x + 1) ?v r) = Inr (?eh, r)"
    using assms by (simp add: eg_parse_calc length_foldl width)
  let ?es = "\<lparr>ehdr = ?eh, verificacao = 0, eg_drop_ctl = False\<rparr>"
  have eg: "egress a ?es = ?es\<lparr>ehdr := eg_last (x + 1) (?eh\<lparr>eg_state := Some (pass_state x v)\<rparr>)\<rparr>"
    using assms(2) run_eg [of ?es "x + 1"] by (simp add: egress_def pass_state_def)
  have fin: "unat x = 55 \<Longrightarrow> x + 1 = 56" using unat_next [of x] by (simp add: word_unat_eq_iff)
  have "travessia a tb (pkt_calc e h i x v r) = sai a (ig_port x)
      (eg_emit (eg_last (x + 1) (?eh\<lparr>eg_state := Some (pass_state x v)\<rparr>)) @ r)"
    using ig_parse_calc [OF assms, of i x r] ing em ep eg
    by (simp add: travessia_def sai_def Let_def) (simp add: ig_init_def)
  also have "eg_emit (eg_last (x + 1) (?eh\<lparr>eg_state := Some (pass_state x v)\<rparr>)) @ r =
      (if unat x = 55 then pkt_reply e (h\<lparr>op := 4\<rparr>) i (words_bytes (pass_state x v) @ r)
       else pkt_calc e h i (next_rodada x) (pass_state x v) r)"
  proof (cases "unat x = 55")
    case True
    show ?thesis unfolding fin [OF True] using True by (simp add: eg_last_fin eg_emit_def pkt_reply_def)
  next
    case False
    then show ?thesis by (simp add: eg_last_next eg_emit_def pkt_calc_def pkt_reply_def)
  qed
  finally show ?thesis .
qed

section \<open>The pass of a reply\<close>

text \<open>The initial state of the cipher, as the entry of the device and the round make it.\<close>

definition load_state :: "p4dra_oper_t \<Rightarrow> 256 word \<Rightarrow> u32 list \<Rightarrow> u32 list" where
  "load_state h conf key = [key ! 0, key ! 1, key ! 2, key ! 3,
     fatia 224 conf XOR id_rodada0 h, fatia 192 conf XOR id_rodada1 h, fatia 160 conf, fatia 128 conf,
     key ! 4, key ! 5, key ! 6, key ! 7,
     fatia 96 conf XOR id_rodada2 h, fatia 64 conf XOR id_rodada3 h, fatia 32 conf, fatia 0 conf]"

lemma travessia_reply:
  assumes "p4dra_ether e" "op h = 2" "map_of (entries_ig0 tb) (2, i) = Some (Carregar_estado_0 conf key)"
  shows "travessia a tb (pkt_reply e h i r) =
    sai a 196 (pkt_calc e (h\<lparr>op := 3\<rparr>) i 1 (load_state h conf key) r)"
proof -
  let ?h = "(only_ethernet e)\<lparr>p4dra_oper := Some h, p4dra_id := Some i\<rparr>"
  have "ingress a tb (ig_init ?h) = (ig_init ?h)\<lparr>hdr := ?h\<lparr>p4dra_oper := Some (h\<lparr>op := 3\<rparr>),
      forro_rodada := Some 1, forro_state := Some (load_state h conf key)\<rparr>,
      bypass_egress := True, ucast_egress_port := Some 196, exited := True\<rparr>"
    using assms(2,3)
    by (simp add: ingress_def oper_in_def id_in_def ig_init_def run_tables_def tbl_p4dra_ig0_def tbl_p4dra_ig1_def
        tbl_p4dra_ig2_def tbl_p4dra_ig3_def carregar_estado_0_def set_oper_def Let_def load_state_def
        only_ethernet_def on_state_def)
  then show ?thesis
    using ig_parse_reply [OF assms(1,2), of i r]
    by (simp add: travessia_def Let_def sai_def ig_init_def ig_emit_def pkt_calc_def pkt_reply_def only_ethernet_def)
qed

lemma travessia_reply_unknown:
  assumes "p4dra_ether e" "op h = 2" "map_of (entries_ig0 tb) (2, i) = None"
  shows "travessia a tb (pkt_reply e h i r) = Descartado"
  using assms ig_parse_reply [OF assms(1,2), of i r]
  by (simp add: travessia_def Let_def ingress_def oper_in_def id_in_def ig_init_def run_tables_def tbl_p4dra_ig0_def drop_ig_def)

section \<open>The pass of a complete state\<close>

text \<open>The sum with the initial state. For a device without an entry nothing is added but the last three
  words of the round.\<close>

definition fin_state :: "sw_tables \<Rightarrow> 128 word \<Rightarrow> p4dra_oper_t \<Rightarrow> u32 list \<Rightarrow> u32 list" where
  "fin_state tb i h c = (case map_of (entries_ig0_fin tb) i of
     Some (conf, key) \<Rightarrow> map2 (+) (load_state h conf key) c
   | None \<Rightarrow> c[5 := c ! 5 + id_rodada1 h, 12 := c ! 12 + id_rodada2 h, 13 := c ! 13 + id_rodada3 h])"

lemma length_fin_state [width]: "length c = 16 \<Longrightarrow> length (fin_state tb i h c) = 16"
  by (simp add: fin_state_def load_state_def split: option.split)

lemma word_xor_eq_0: "a XOR b = 0 \<longleftrightarrow> a = (b :: 'w::len word)"
  by (auto simp: bit_eq_iff bit_simps)

lemma run_fin_sum:
  fixes e i h c p a tb
  defines "s \<equiv> run_tables [tbl_p4dra_ig0_fin a tb, tbl_p4dra_ig1_fin a, tbl_p4dra_ig2_fin a, tbl_p4dra_ig3_fin a,
      tbl_p4dra_ig4_fin a tb] (ig_init ((only_ethernet e)\<lparr>p4dra_oper := Some h, p4dra_id := Some i,
        forro_cipher := Some c, forro_payload := Some p\<rparr>))"
  assumes "length c = 16" "op h = 4"
  shows "hdr s = (only_ethernet e)\<lparr>p4dra_oper := Some h, p4dra_id := Some i,
      forro_cipher := Some (fin_state tb i h c), forro_payload := Some p\<rparr> \<and>
    \<not> exited s \<and> \<not> drop_ctl s \<and> \<not> bypass_egress s \<and> ucast_egress_port s = Some (port_fin tb)"
proof -
  obtain c0 c1 c2 c3 c4 c5 c6 c7 c8 c9 c10 c11 c12 c13 c14 c15 where
    c: "c = [c0, c1, c2, c3, c4, c5, c6, c7, c8, c9, c10, c11, c12, c13, c14, c15]"
    using assms(2) by (rule list_16E)
  note tables = run_tables_def tbl_p4dra_ig0_fin_def tbl_p4dra_ig1_fin_def tbl_p4dra_ig2_fin_def tbl_p4dra_ig3_fin_def
    tbl_p4dra_ig4_fin_def oper_in_def id_in_def on_cipher_def finalizar_forro_0_def fin_state_def load_state_def
    only_ethernet_def ig_init_def
  show ?thesis
  proof (cases "map_of (entries_ig0_fin tb) i")
    case None
    then show ?thesis using assms(3) unfolding s_def c by (simp add: tables)
  next
    case (Some ck)
    then show ?thesis using assms(3) unfolding s_def c by (cases ck) (simp add: tables add.commute)
  qed
qed

lemma run_tables_exited: "exited s \<Longrightarrow> run_tables ts s = s"
  by (induction ts) (simp_all add: run_tables_def)

lemma run_tables_Cons: "\<not> exited s \<Longrightarrow> run_tables (t # ts) s = run_tables ts (t s)"
  by (simp add: run_tables_def)

lemma run_tables_Nil: "run_tables [] s = s"
  by (simp add: run_tables_def)

text \<open>The tables that compare: each goes on with the next words, or drops the packet.\<close>

lemma run_fin_verify:
  fixes s :: ig_md
  defines "s' \<equiv> run_tables [tbl_p4dra_ig5_fin, tbl_p4dra_ig6_fin, tbl_p4dra_ig7_fin, tbl_p4dra_ig8_fin] s"
  assumes "forro_cipher (hdr s) = Some c" "forro_payload (hdr s) = Some p" "\<not> exited s" "\<not> drop_ctl s"
  shows "hdr s' = hdr s \<and> ucast_egress_port s' = ucast_egress_port s \<and> bypass_egress s' = bypass_egress s \<and>
    (drop_ctl s' \<longleftrightarrow> \<not> (\<forall>k\<in>set [15, 14, 13, 12, 11, 10, 9, 8, 7, 6, 5]. c ! k = p ! k))"
proof -
  let ?eq = "\<lambda>k. c ! k = p ! k"
  define A B C where "A \<longleftrightarrow> ?eq 15 \<and> ?eq 14 \<and> ?eq 13 \<and> ?eq 12"
    and "B \<longleftrightarrow> ?eq 11 \<and> ?eq 10 \<and> ?eq 9 \<and> ?eq 8" and "C \<longleftrightarrow> ?eq 7 \<and> ?eq 6 \<and> ?eq 5"
  have all: "(\<forall>k\<in>set [15, 14, 13, 12, 11, 10, 9, 8, 7, 6, 5]. ?eq k) \<longleftrightarrow> A \<and> B \<and> C"
    by (simp add: A_def B_def C_def)
  define s5 s6 s7 where "s5 = verificar_prova_0 15 s" and "s6 = verificar_prova_0 11 s5" and "s7 = verificar_prova_1 7 s6"
  note verify = verificar_prova_0_def verificar_prova_1_def diff_def campo_def word_xor_eq_0
  have same: "\<not> exited s5" "\<not> exited s6" "\<not> exited s7" "hdr s5 = hdr s" "hdr s6 = hdr s" "hdr s7 = hdr s"
    using assms by (simp_all add: s5_def s6_def s7_def verify)
  have t: "tbl_p4dra_ig5_fin s = s5" "tbl_p4dra_ig6_fin s5 = (if A then s6 else drop_ig s5)"
    "tbl_p4dra_ig7_fin s6 = (if B then s7 else drop_ig s6)" "tbl_p4dra_ig8_fin s7 = (if C then s7 else drop_ig s7)"
    using assms by (simp_all add: tbl_p4dra_ig5_fin_def tbl_p4dra_ig6_fin_def tbl_p4dra_ig7_fin_def tbl_p4dra_ig8_fin_def
        s5_def s6_def s7_def verify A_def B_def C_def)
  have "s' = (if \<not> A then drop_ig s5 else if \<not> B then drop_ig s6 else if \<not> C then drop_ig s7 else s7)"
    unfolding s'_def using assms(4)
    by (simp add: run_tables_Cons run_tables_Nil run_tables_exited same t drop_ig_def)
  moreover have "ucast_egress_port s7 = ucast_egress_port s" "bypass_egress s7 = bypass_egress s" "\<not> drop_ctl s7"
    "ucast_egress_port s6 = ucast_egress_port s" "bypass_egress s6 = bypass_egress s"
    "ucast_egress_port s5 = ucast_egress_port s" "bypass_egress s5 = bypass_egress s"
    using assms(5) by (simp_all add: s5_def s6_def s7_def verify)
  ultimately show ?thesis unfolding all using same by (simp add: drop_ig_def)
qed

lemma run_tables_append: "run_tables (ts @ us) s = run_tables us (run_tables ts s)"
  by (simp add: run_tables_def)

lemma eg_parse_verif: "p4dra_ether e \<Longrightarrow> op h = 4 \<Longrightarrow> length c = 16 \<Longrightarrow> length p = 16 \<Longrightarrow>
    eg_parse (pkt_verif e h i c p r) = Inr (\<lparr>eg_ethernet = e, eg_oper = Some h, eg_id = Some i, eg_rodada = None,
      eg_state = None, forro_cipher_verify = Some (be_word (take 20 (words_bytes c)), drop 20 (words_bytes c)),
      forro_half_payload = Some (be_word (take 20 (words_bytes p)))\<rparr>, drop 20 (words_bytes p) @ r)"
proof -
  assume a: "p4dra_ether e" "op h = 4" "length c = 16" "length p = 16"
  define ca cb pa pb where "ca = take 20 (words_bytes c)" and "cb = drop 20 (words_bytes c)"
    and "pa = take 20 (words_bytes p)" and "pb = drop 20 (words_bytes p)"
  have w: "words_bytes c = ca @ cb" "words_bytes p = pa @ pb" by (simp_all add: ca_def cb_def pa_def pb_def)
  have l: "length ca = 20" "length cb = 44" "length pa = 20"
    using a(3,4) by (simp_all add: ca_def cb_def pa_def width)
  show ?thesis
    using a(1,2) l by (simp add: w eg_parse_def pkt_verif_def pkt_reply_def p4dra_ether_def parse_simps Let_def)
qed

lemma words_bytes_append: "words_bytes (a @ b) = words_bytes a @ words_bytes b"
  by (simp add: words_bytes_def)

lemma words_bytes_inject: "length a = length b \<Longrightarrow> words_bytes a = words_bytes b \<longleftrightarrow> a = b"
  by (metis be_words_words_bytes)

lemma half_words:
  assumes "length c = 16" "length p = 16"
  shows "be_word (take 20 (words_bytes c)) = (be_word (take 20 (words_bytes p)) :: 160 word) \<longleftrightarrow> take 5 c = take 5 p"
proof -
  have t: "take 20 (words_bytes w) = words_bytes (take 5 w)" if "length w = 16" for w
  proof -
    have "words_bytes w = words_bytes (take 5 w) @ words_bytes (drop 5 w)"
      by (simp add: words_bytes_append [symmetric])
    moreover have "length (words_bytes (take 5 w)) = 20" using that by (simp add: width)
    ultimately show ?thesis by (metis append_eq_conv_conj)
  qed
  have "be_word (words_bytes (take 5 c)) = (be_word (words_bytes (take 5 p)) :: 160 word) \<longleftrightarrow>
      words_bytes (take 5 c) = words_bytes (take 5 p)"
    using assms by (intro be_word_inject) (simp_all add: width)
  then show ?thesis using assms by (simp add: t words_bytes_inject)
qed

lemma halves_equal:
  assumes "length c = 16" "length p = 16"
  shows "(\<forall>k\<in>set [15, 14, 13, 12, 11, 10, 9, 8, 7, 6, 5]. c ! k = p ! k) \<and> take 5 c = take 5 p \<longleftrightarrow> c = p"
  using assms(2) by (elim list_16E, insert assms(1), elim list_16E) (simp; blast)

text \<open>A packet with a complete state leaves for the port of the controller if the sum of the state is the
  proof in the packet, and is dropped if not.\<close>

lemma travessia_verif:
  assumes "p4dra_ether e" "op h = 4" "length c = 16" "length p = 16"
  shows "travessia a tb (pkt_verif e h i c p r) =
    (if fin_state tb i h c = p then sai a (port_fin tb) (pkt_verif e h i p p r) else Descartado)"
proof -
  let ?h = "(only_ethernet e)\<lparr>p4dra_oper := Some h, p4dra_id := Some i, forro_cipher := Some c, forro_payload := Some p\<rparr>"
  let ?c = "fin_state tb i h c"
  let ?ok = "\<forall>k\<in>set [15, 14, 13, 12, 11, 10, 9, 8, 7, 6, 5]. ?c ! k = p ! k"
  define s where "s = ingress a tb (ig_init ?h)"
  have "ingress a tb (ig_init ?h) = run_tables [tbl_p4dra_ig5_fin, tbl_p4dra_ig6_fin, tbl_p4dra_ig7_fin, tbl_p4dra_ig8_fin]
      (run_tables [tbl_p4dra_ig0_fin a tb, tbl_p4dra_ig1_fin a, tbl_p4dra_ig2_fin a, tbl_p4dra_ig3_fin a,
        tbl_p4dra_ig4_fin a tb] (ig_init ?h))"
    using assms(2) by (simp add: ingress_def oper_in_def ig_init_def run_tables_append [symmetric])
  then have s: "hdr s = ?h\<lparr>forro_cipher := Some ?c\<rparr>" "ucast_egress_port s = Some (port_fin tb)" "\<not> bypass_egress s"
    "drop_ctl s \<longleftrightarrow> \<not> ?ok"
    unfolding s_def
    using run_fin_sum [OF assms(3,2), where a = a and tb = tb and e = e and i = i and p = p]
      run_fin_verify [of "run_tables [tbl_p4dra_ig0_fin a tb, tbl_p4dra_ig1_fin a, tbl_p4dra_ig2_fin a,
        tbl_p4dra_ig3_fin a, tbl_p4dra_ig4_fin a tb] (ig_init ?h)" ?c p] by simp_all
  have lc: "length ?c = 16" using assms(3) by (simp add: width)
  have em: "ig_emit (hdr s) @ r = pkt_verif e h i ?c p r"
    unfolding s(1) by (simp add: ig_emit_def pkt_verif_def pkt_reply_def only_ethernet_def)
  define w where "w = (be_word (take 20 (words_bytes ?c)) :: 160 word)"
  define z where "z = (be_word (take 20 (words_bytes p)) :: 160 word)"
  define eh where "eh = \<lparr>eg_ethernet = e, eg_oper = Some h, eg_id = Some i, eg_rodada = None, eg_state = None,
    forro_cipher_verify = Some (w, drop 20 (words_bytes ?c)), forro_half_payload = Some z\<rparr>"
  have ep: "eg_parse (pkt_verif e h i ?c p r) = Inr (eh, drop 20 (words_bytes p) @ r)"
    using assms lc by (simp add: eg_parse_verif eh_def w_def z_def)
  have eg: "eg_drop_ctl (egress a \<lparr>ehdr = eh, verificacao = 0, eg_drop_ctl = False\<rparr>) \<longleftrightarrow> take 5 ?c \<noteq> take 5 p"
      "ehdr (egress a \<lparr>ehdr = eh, verificacao = 0, eg_drop_ctl = False\<rparr>) = eh"
    using half_words [OF lc assms(4)] assms(2)
    by (auto simp: egress_def eh_def tbl_p4dra_eg0_fin_def tbl_p4dra_eg1_fin_def word_xor_eq_0 w_def z_def)
  have bytes: "be_bytes 20 w = take 20 (words_bytes ?c)" "be_bytes 20 z = take 20 (words_bytes p)"
    unfolding w_def z_def using lc assms(4) by (simp_all add: width)
  have "eg_emit eh @ drop 20 (words_bytes p) @ r = pkt_verif e h i ?c p r"
    by (simp add: eg_emit_def eh_def bytes pkt_verif_def pkt_reply_def)
  then have "travessia a tb (pkt_verif e h i c p r) =
      (if ?ok \<and> take 5 ?c = take 5 p then sai a (port_fin tb) (pkt_verif e h i ?c p r) else Descartado)"
    using ig_parse_verif [OF assms, of i r] s em ep eg
    by (simp add: travessia_def Let_def sai_def s_def [symmetric])
  then show ?thesis unfolding halves_equal [OF lc assms(4)] by simp
qed

end
