(* ===== verification/Switch_Run.thy ===== *)
theory Switch_Run
  imports Switch_Pass
begin

text \<open>
  Packets on their way through the switch: how the passes of a reply compute the cipher, that every packet
  leaves, and that a packet keeps its form on the way.
\<close>

section \<open>The quarter rounds of the passes\<close>

definition qr :: "nat \<Rightarrow> u32 list \<Rightarrow> u32 list" where
  "qr q v = (case qr_regs q of (a, b, c, d, e) \<Rightarrow> Q a b c d e v)"

definition qrs :: "nat \<Rightarrow> u32 list \<Rightarrow> u32 list" where
  "qrs n v = foldl (\<lambda>v k. qr (k mod 8) v) v [0..<n]"

lemma length_qr [width]: "length (qr q v) = length v"
  by (simp add: qr_def width split: prod.split)

lemma length_qrs [width]: "length (qrs n v) = length v"
  by (simp add: qrs_def length_foldl width)

lemma qrs_Suc: "qrs (Suc n) v = qr (n mod 8) (qrs n v)"
  by (simp add: qrs_def)

lemma forro_round_qrs: "forro_round v = qrs 8 v"
proof -
  have "[0..<8] = [0, 1, 2, 3, 4, 5, 6, 7 :: nat]" by (simp add: upt_rec)
  then show ?thesis by (simp add: qrs_def qr_def qr_regs_def forro_round_def Let_def)
qed

lemma qrs_add: "qrs (8 * m + k) v = qrs k (qrs (8 * m) v)"
proof (induction k)
  case (Suc k)
  have "(8 * m + k) mod 8 = k mod 8" by (simp add: mod_add_left_eq [symmetric])
  then show ?case using Suc by (simp add: qrs_Suc)
qed (simp add: qrs_def)

lemma qrs_rounds: "qrs (8 * m) v = (forro_round ^^ m) v"
proof (induction m)
  case (Suc m)
  have "8 * Suc m = 8 * m + 8" by simp
  then have "qrs (8 * Suc m) v = qrs 8 (qrs (8 * m) v)" by (simp only: qrs_add)
  then show ?case using Suc by (simp add: forro_round_qrs)
qed (simp add: qrs_def)

lemma qr_steps: "q < 8 \<Longrightarrow> length v = 16 \<Longrightarrow> foldl (\<lambda>v k. qr_step (qr_regs q) k v) v [0..<12] = qr q v"
  by (simp only: qr_steps_Q qr_def)

lemma pass_state_qr:
  assumes "unat x = 2 * n + 1" "n < 28" "length v = 16"
  shows "pass_state x v = qr ((2 * n + 1) mod 8) (qr (2 * n mod 8) v)"
proof -
  have y: "unat (x + 1) = 2 * n + 2" using assms(1,2) unat_next [of x] by auto
  have "foldl (\<lambda>v k. ig_eff x k v) v [0..<12] = foldl (\<lambda>v k. qr_step (qr_regs (2 * n mod 8)) k v) v [0..<12]"
    using assms(1,2) by (simp add: ig_eff_def)
  also have "\<dots> = qr (2 * n mod 8) v" using assms(3) by (simp add: qr_steps)
  finally have ig: "foldl (\<lambda>v k. ig_eff x k v) v [0..<12] = qr (2 * n mod 8) v" .
  have "foldl (\<lambda>v k. eg_eff (x + 1) k v) w [0..<12] = foldl (\<lambda>v k. qr_step (qr_regs ((2 * n + 1) mod 8)) k v) w [0..<12]" for w
    using y assms(2) by (simp add: eg_eff_def)
  then show ?thesis
    using assms(3) by (simp add: pass_state_def ig qr_steps width)
qed

lemma qrs_pass:
  assumes "unat x = 2 * n + 1" "n < 28" "length v = 16"
  shows "pass_state x (qrs (2 * n) v) = qrs (2 * Suc n) v"
proof -
  have "pass_state x (qrs (2 * n) v) = qr ((2 * n + 1) mod 8) (qr (2 * n mod 8) (qrs (2 * n) v))"
    by (rule pass_state_qr) (simp_all add: assms width)
  then show ?thesis using qrs_Suc [of "2 * n + 1" v] qrs_Suc [of "2 * n" v] by simp
qed

section \<open>Passes in sequence\<close>

definition asic_ok :: "asic \<Rightarrow> bool" where
  "asic_ok a \<longleftrightarrow> op (unset_oper a) = 0 \<and> unset_id a = 0 \<and> recirc a = (\<lambda>port. port = 68 \<or> port = 196)"

lemma sai_recirc: "asic_ok a \<Longrightarrow> sai a (ig_port x) p = Dentro p" "asic_ok a \<Longrightarrow> sai a 196 p = Dentro p"
  by (simp_all add: asic_ok_def sai_def ig_port_def Let_def)

lemma calc_passes:
  assumes "asic_ok a" "p4dra_ether e" "op h = 3" "length v = 16" "n < 28"
  shows "(sw_step a tb ^^ n) (Dentro (pkt_calc e h i 1 v r)) (Dentro (pkt_calc e h i (of_nat (2 * n + 1)) (qrs (2 * n) v) r))"
  using assms(5)
proof (induction n)
  case 0
  then show ?case by (simp add: qrs_def)
next
  case (Suc n)
  let ?x = "of_nat (2 * n + 1) :: byte"
  have u: "unat ?x = 2 * n + 1" using Suc.prems by (simp only: unat_of_nat) simp
  have x: "next_rodada ?x = of_nat (2 * Suc n + 1)"
    using Suc.prems unfolding next_rodada_def u by simp
  have "travessia a tb (pkt_calc e h i ?x (qrs (2 * n) v) r) =
      Dentro (pkt_calc e h i (of_nat (2 * Suc n + 1)) (qrs (2 * Suc n) v) r)"
    using Suc.prems u assms
    by (simp only: travessia_calc width sai_recirc qrs_pass x u) simp
  then show ?case using Suc by (intro relpowp_Suc_I) auto
qed

text \<open>The whole computation.\<close>

lemma calc_complete:
  assumes "asic_ok a" "p4dra_ether e" "op h = 3" "length v = 16"
  shows "(sw_step a tb ^^ 28) (Dentro (pkt_calc e h i 1 v r))
    (Dentro (pkt_reply e (h\<lparr>op := 4\<rparr>) i (words_bytes ((forro_round ^^ rounds) v) @ r)))"
proof -
  let ?x = "of_nat (2 * 27 + 1) :: byte"
  have "qrs (2 * Suc 27) v = (forro_round ^^ rounds) v" using qrs_rounds [of 7 v] by (simp add: rounds_def)
  then have q: "pass_state ?x (qrs (2 * 27) v) = (forro_round ^^ rounds) v"
    using qrs_pass [of ?x 27 v] assms(4) by simp
  have "travessia a tb (pkt_calc e h i ?x (qrs (2 * 27) v) r) =
      sai a (ig_port ?x) (pkt_reply e (h\<lparr>op := 4\<rparr>) i (words_bytes (pass_state ?x (qrs (2 * 27) v)) @ r))"
    using travessia_calc [OF assms(2,3), of "qrs (2 * 27) v" a tb i ?x r] assms(4) by (simp add: width)
  then have "sw_step a tb (Dentro (pkt_calc e h i ?x (qrs (2 * 27) v) r))
      (Dentro (pkt_reply e (h\<lparr>op := 4\<rparr>) i (words_bytes ((forro_round ^^ rounds) v) @ r)))"
    unfolding sw_step_Dentro q sai_recirc [OF assms(1)] .
  then have "(sw_step a tb ^^ Suc 27) (Dentro (pkt_calc e h i 1 v r))
      (Dentro (pkt_reply e (h\<lparr>op := 4\<rparr>) i (words_bytes ((forro_round ^^ rounds) v) @ r)))"
    using calc_passes [OF assms, of 27 tb i r] by (intro relpowp_Suc_I) auto
  then show ?thesis by simp
qed

section \<open>Where a packet ends\<close>

fun final :: "sw_state \<Rightarrow> bool" where
  "final (Dentro p) = False"
| "final _ = True"

text \<open>The packet leaves the switch, or is dropped, after some number of passes.\<close>

definition sw_ends :: "asic \<Rightarrow> sw_tables \<Rightarrow> byte list \<Rightarrow> sw_state \<Rightarrow> bool" where
  "sw_ends a tb p s \<longleftrightarrow> (sw_step a tb)\<^sup>*\<^sup>* (Dentro p) s \<and> final s"

lemma sw_step_det: "sw_step a tb s t \<Longrightarrow> sw_step a tb s u \<Longrightarrow> t = u"
  by (auto elim!: sw_stepE)

lemma final_no_step: "final s \<Longrightarrow> \<not> sw_step a tb s t"
  by (auto elim!: sw_stepE)

lemma steps_final_det:
  assumes "(sw_step a tb)\<^sup>*\<^sup>* s t" "(sw_step a tb)\<^sup>*\<^sup>* s u" "final t" "final u"
  shows "t = u"
  using assms
proof (induction rule: converse_rtranclp_induct)
  case base
  then show ?case using final_no_step by (metis converse_rtranclpE)
next
  case (step s s')
  then have "s \<noteq> u" using final_no_step by blast
  then obtain s'' where "sw_step a tb s s''" "(sw_step a tb)\<^sup>*\<^sup>* s'' u"
    using step.prems(1) by (metis converse_rtranclpE)
  then show ?case using step sw_step_det by metis
qed

lemma sw_ends_iff:
  assumes "(sw_step a tb ^^ n) (Dentro p) t" "final t"
  shows "sw_ends a tb p s \<longleftrightarrow> s = t"
  using assms steps_final_det [of a tb "Dentro p"] unfolding sw_ends_def by (metis relpowp_imp_rtranclp)

lemma final_sai: "asic_ok a \<Longrightarrow> port \<noteq> 68 \<Longrightarrow> port \<noteq> 196 \<Longrightarrow> sai a port p = Saiu port p"
  by (simp add: sai_def asic_ok_def)

lemma verif_as_reply: "pkt_reply e h i (words_bytes c @ words_bytes p @ r) = pkt_verif e h i c p r"
  by (simp add: pkt_verif_def)

text \<open>A reply of a device with an entry: thirty passes.\<close>

lemma reply_complete:
  assumes "asic_ok a" "p4dra_ether e" "op h = 2" "length p = 16" "port_fin tb = 1"
    and "map_of (entries_ig0 tb) (2, i) = Some (Carregar_estado_0 conf key)"
    and "map_of (entries_ig0_fin tb) i = Some (conf, key)"
  shows "(sw_step a tb ^^ 30) (Dentro (pkt_reply e h i (words_bytes p @ r)))
    (if map2 (+) (load_state h conf key) ((forro_round ^^ rounds) (load_state h conf key)) = p
     then Saiu 1 (pkt_verif e (h\<lparr>op := 4\<rparr>) i p p r) else Descartado)"
proof -
  let ?v = "load_state h conf key" and ?h3 = "h\<lparr>op := 3\<rparr>" and ?h4 = "h\<lparr>op := 4\<rparr>"
  let ?c = "(forro_round ^^ rounds) ?v"
  have lv: "length ?v = 16" by (simp add: load_state_def)
  then have lc: "length ?c = 16" by (simp add: length_round_pow)
  have s1: "sw_step a tb (Dentro (pkt_reply e h i (words_bytes p @ r))) (Dentro (pkt_calc e ?h3 i 1 ?v (words_bytes p @ r)))"
    using travessia_reply [OF assms(2,3,6), of a "words_bytes p @ r"] assms(1) by (simp add: sai_recirc)
  have s2: "(sw_step a tb ^^ 28) (Dentro (pkt_calc e ?h3 i 1 ?v (words_bytes p @ r))) (Dentro (pkt_verif e ?h4 i ?c p r))"
    using calc_complete [OF assms(1,2) _ lv, of ?h3 tb i "words_bytes p @ r"] by (simp add: verif_as_reply)
  have "load_state ?h4 conf key = ?v" by (simp add: load_state_def)
  then have f: "fin_state tb i ?h4 ?c = map2 (+) ?v ?c" using assms(7) by (simp add: fin_state_def)
  have s3: "sw_step a tb (Dentro (pkt_verif e ?h4 i ?c p r))
      (if map2 (+) ?v ?c = p then Saiu 1 (pkt_verif e ?h4 i p p r) else Descartado)"
    using travessia_verif [OF assms(2) _ lc assms(4), of ?h4 a tb i r] assms(1,5) f by (simp add: final_sai)
  have "(sw_step a tb ^^ Suc 28) (Dentro (pkt_reply e h i (words_bytes p @ r))) (Dentro (pkt_verif e ?h4 i ?c p r))"
    by (rule relpowp_Suc_I2 [OF s1 s2])
  from relpowp_Suc_I [OF this s3] show ?thesis by simp
qed

section \<open>Every packet leaves\<close>

lemma entries_install: "map_of (entries_ig0 (install ds)) (x, i) =
    (if x = 2 then map_option (\<lambda>d. Carregar_estado_0 (dv_conf d) (dv_keys d)) (find (\<lambda>d. dv_id d = i) ds)
     else if x = 0 \<and> i = 0 then Some (Forward_request 0) else if x = 5 \<and> i = 0 then Some (Forward 0) else None)"
  by (induction ds) (auto simp: install_def)

lemma entries_fin_install: "map_of (entries_ig0_fin (install ds)) i =
    map_option (\<lambda>d. (dv_conf d, dv_keys d)) (find (\<lambda>d. dv_id d = i) ds)"
  by (induction ds) (auto simp: install_def)

lemma port_install [simp]: "port_fin (install ds) = 1"
  by (simp add: install_def)

lemma travessia_forward:
  assumes "asic_ok a" "ig_parse p = Inr (h, r)" "op (oper_in a h) \<notin> {2, 3, 4}"
  shows "travessia a (install ds) p = Descartado \<or> (\<exists>q. travessia a (install ds) p = Saiu 0 q)"
proof -
  let ?l = "map_of (entries_ig0 (install ds)) (op (oper_in a h), id_in a h)"
  have l: "?l = None \<or> ?l = Some (Forward_request 0) \<or> ?l = Some (Forward 0)"
    using assms(3) by (simp add: entries_install)
  then have "ingress a (install ds) (ig_init h) = drop_ig (ig_init h) \<or>
     (\<exists>h'. ingress a (install ds) (ig_init h) =
       (ig_init h)\<lparr>hdr := h', ucast_egress_port := Some 0, bypass_egress := True, exited := True\<rparr>)"
    using assms(3) by (auto simp: ingress_def ig_init_def run_tables_def tbl_p4dra_ig0_def drop_ig_def set_oper_def)
  moreover have "\<not> recirc a 0" using assms(1) by (simp add: asic_ok_def)
  ultimately show ?thesis
    using assms(2) by (auto simp: travessia_def Let_def drop_ig_def ig_init_def)
qed

text \<open>An upper bound of the passes that a packet still needs.\<close>

definition rank_rodada :: "nat \<Rightarrow> nat" where
  "rank_rodada n = (if 56 \<le> n then 256 - n + 29 else if odd n then (57 - n) div 2 else (56 - n) div 2 + 1)"

definition rank :: "byte list \<Rightarrow> nat" where
  "rank p = (case ig_parse p of
     Inl _ \<Rightarrow> 1
   | Inr (h, _) \<Rightarrow> (case p4dra_oper h of
       None \<Rightarrow> 1
     | Some oh \<Rightarrow> if op oh = 2 then 30 else if op oh = 3 then Suc (rank_rodada (unat (rodada_in h))) else 1))"

lemma rank_calc: "p4dra_ether e \<Longrightarrow> op h = 3 \<Longrightarrow> length v = 16 \<Longrightarrow>
    rank (pkt_calc e h i x v r) = Suc (rank_rodada (unat x))"
  by (simp add: rank_def ig_parse_calc rodada_in_def)

lemma rank_le: "rank p \<le> 230"
proof -
  have "rank_rodada (unat (x :: byte)) \<le> 229" for x
    using unat_byte_less [of x] by (auto simp: rank_rodada_def)
  then show ?thesis by (auto simp: rank_def split: sum.splits prod.splits option.splits)
qed

lemma rank_next: "unat x \<noteq> 55 \<Longrightarrow> rank_rodada (unat (next_rodada x)) < rank_rodada (unat x)"
proof -
  assume x: "unat x \<noteq> 55"
  have b: "unat x < 256" by simp
  consider "odd (unat x)" "unat x < 55" | "\<not> (odd (unat x) \<and> unat x < 55)" "unat x = 255"
    | "\<not> (odd (unat x) \<and> unat x < 55)" "unat x < 255"
    using b by linarith
  then show ?thesis
  proof cases
    case 1
    then have "unat (x + 2) = unat x + 2" by (simp add: unat_word_ariths)
    moreover have "unat x \<noteq> 54" using 1 by auto
    ultimately show ?thesis using 1 by (auto simp: next_rodada_def rank_rodada_def)
  next
    case 2
    then show ?thesis using unat_next [of x] by (auto simp: next_rodada_def rank_rodada_def)
  next
    case 3
    then have n: "unat (next_rodada x) = unat x + 1" using unat_next [of x] by (auto simp: next_rodada_def)
    show ?thesis
    proof (cases "56 \<le> unat x")
      case True
      then show ?thesis using 3 n by (auto simp: rank_rodada_def)
    next
      case False
      then have "even (unat x)" "unat x < 56" using 3(1) x by auto
      then show ?thesis using n by (auto simp: rank_rodada_def elim!: evenE)
    qed
  qed
qed

lemma rank_other: "ig_parse p = Inr (h, r) \<Longrightarrow> p4dra_oper h = Some oh \<Longrightarrow> op oh = 4 \<Longrightarrow> rank p = 1"
  by (simp add: rank_def)

lemma rank_decreases:
  assumes "asic_ok a" "travessia a (install ds) p = Dentro p'"
  shows "rank p' < rank p"
proof -
  obtain h r where hr: "ig_parse p = Inr (h, r)"
    using assms(2) by (auto simp: travessia_def split: sum.splits)
  from hr show ?thesis
  proof (cases rule: ig_parse_cases)
    case (other e)
    then have "op (oper_in a h) \<notin> {2, 3, 4}" using assms(1) by (simp add: oper_in_def only_ethernet_def asic_ok_def)
    then show ?thesis using travessia_forward [OF assms(1) hr, of ds] assms(2) by auto
  next
    case (oper e oh)
    then have "op (oper_in a h) \<notin> {2, 3, 4}" by (simp add: oper_in_def)
    then show ?thesis using travessia_forward [OF assms(1) hr, of ds] assms(2) by auto
  next
    case (reply e oh i)
    show ?thesis
    proof (cases "map_of (entries_ig0 (install ds)) (2, i)")
      case None
      then show ?thesis using travessia_reply_unknown [OF reply(1,2) None, of a r] reply(3) assms(2) by simp
    next
      case (Some x)
      then obtain conf key where k: "map_of (entries_ig0 (install ds)) (2, i) = Some (Carregar_estado_0 conf key)"
        by (auto simp: entries_install)
      have "p' = pkt_calc e (oh\<lparr>op := 3\<rparr>) i 1 (load_state oh conf key) r"
        using travessia_reply [OF reply(1,2) k, of a r] reply(3) assms by (simp add: sai_recirc)
      then have "rank p' = 29" using reply(1) rank_calc [of e "oh\<lparr>op := 3\<rparr>" "load_state oh conf key" i 1 r]
        by (simp add: load_state_def rank_rodada_def)
      moreover have "rank p = 30" using ig_parse_reply [OF reply(1,2), of i r] reply(2,3) by (simp add: rank_def)
      ultimately show ?thesis by simp
    qed
  next
    case (calc e oh i x v)
    have rp: "rank p = Suc (rank_rodada (unat x))" using rank_calc [OF calc(1-3)] calc(4) by simp
    have t: "Dentro p' = Dentro (if unat x = 55 then pkt_reply e (oh\<lparr>op := 4\<rparr>) i (words_bytes (pass_state x v) @ r)
        else pkt_calc e oh i (next_rodada x) (pass_state x v) r)"
      using travessia_calc [OF calc(1-3), of a "install ds" i x r] assms calc(4) by (simp add: sai_recirc)
    show ?thesis
    proof (cases "unat x = 55")
      case False
      then have "rank p' = Suc (rank_rodada (unat (next_rodada x)))"
        using t rank_calc [OF calc(1,2), of "pass_state x v" i "next_rodada x" r] calc(3) by (simp add: width)
      then show ?thesis using rp rank_next [OF False] by simp
    next
      case True
      then have p': "p' = pkt_reply e (oh\<lparr>op := 4\<rparr>) i (words_bytes (pass_state x v) @ r)" using t by simp
      have "rank p' \<le> 1"
      proof (cases "ig_parse p'")
        case (Inr hr')
        obtain h' r' where "hr' = (h', r')" by (cases hr')
        then have i': "ig_parse p' = Inr (h', r')" using Inr by simp
        have "p4dra_oper h' = Some (oh\<lparr>op := 4\<rparr>)"
          using i' calc(1) unfolding p'
          by (auto simp: ig_parse_def pkt_reply_def p4dra_ether_def parse_simps Let_def bind_r_Inr_iff split: prod.splits)
        then show ?thesis using rank_other [OF i'] by simp
      qed (simp add: rank_def)
      then show ?thesis using rp True by (simp add: rank_rodada_def)
    qed
  next
    case (verif e oh i c d)
    then show ?thesis
      using travessia_verif [OF verif(1-4), of a "install ds" i r] assms by (auto simp: final_sai split: if_splits)
  qed
qed

text \<open>C9: every packet that enters the switch, whatever it holds, leaves it or is dropped after at most 230
  passes; it does not go round forever.\<close>

theorem switch_every_packet_leaves:
  assumes "asic_ok a"
  shows "\<exists>n\<le>230. \<exists>s. (sw_step a (install ds) ^^ n) (Dentro p) s \<and> final s"
proof -
  have "\<exists>n\<le>rank p. \<exists>s. (sw_step a (install ds) ^^ n) (Dentro p) s \<and> final s" for p
  proof (induction "rank p" arbitrary: p rule: less_induct)
    case less
    show ?case
    proof (cases "final (travessia a (install ds) p)")
      case True
      have "1 \<le> rank p" by (simp add: rank_def split: sum.split option.split prod.split)
      moreover have "(sw_step a (install ds) ^^ 1) (Dentro p) (travessia a (install ds) p)"
        by (simp only: relpowp_1 sw_step_Dentro)
      ultimately show ?thesis using True by blast
    next
      case False
      then obtain q where Dentro: "travessia a (install ds) p = Dentro q"
        by (cases "travessia a (install ds) p") auto
      have r: "rank q < rank p" by (rule rank_decreases [OF assms Dentro])
      from less [OF this] obtain n s where n: "n \<le> rank q" "(sw_step a (install ds) ^^ n) (Dentro q) s" "final s"
        by blast
      have "sw_step a (install ds) (Dentro p) (Dentro q)" using Dentro by simp
      then have "(sw_step a (install ds) ^^ Suc n) (Dentro p) s" using n(2) by (rule relpowp_Suc_I2)
      then show ?thesis using r n(1,3) by (meson Suc_leI le_trans not_less_eq_eq)
    qed
  qed
  then show ?thesis using rank_le le_trans by blast
qed

text \<open>There is no infinite sequence of passes.\<close>

lemma switch_terminates:
  assumes "asic_ok a"
  shows "wfP (\<lambda>s' s. sw_step a (install ds) s s')"
proof -
  define m where "m = (\<lambda>s. case s of Dentro p \<Rightarrow> Suc (rank p) | _ \<Rightarrow> 0)"
  have "m s' < m s" if "sw_step a (install ds) s s'" for s s'
    using that rank_decreases [OF assms] by (cases s') (auto elim!: sw_stepE simp: m_def)
  then have "{(s', s). sw_step a (install ds) s s'} \<subseteq> measure m" by auto
  then show ?thesis unfolding wfp_def by (rule wf_subset [OF wf_measure])
qed

text \<open>C8: a packet with the state \<open>v\<close> goes round 28 times, and then its state and \<open>v\<close> add up to the Forro block
  of \<open>v\<close>: the tables of the switch compute the block function of \<open>ref/forro.c\<close>.\<close>

theorem switch_computes_forro:
  assumes "asic_ok a" "wf_ether e" "ether_type e = 0x1234" "op h = 3" "length v = 16"
  shows "\<exists>w. (sw_step a tb ^^ 28) (Dentro (pkt_calc e h i 1 v r)) (Dentro (pkt_reply e (h\<lparr>op := 4\<rparr>) i (words_bytes w @ r))) \<and>
    forro v = concat (map U32TO8_LITTLE (map2 (+) v w))"
  using calc_complete [OF assms(1) _ assms(4,5), of e tb i r] assms(2,3)
  by (auto simp: p4dra_ether_def forro_def)

section \<open>The form of the packets\<close>

text \<open>A packet that ingress accepts and that, where it carries or will carry a state of the cipher, has a proof
  behind it.\<close>

definition pkt_ok :: "byte list \<Rightarrow> bool" where
  "pkt_ok p = (case ig_parse p of
     Inl _ \<Rightarrow> False
   | Inr (h, r) \<Rightarrow> (case p4dra_oper h of
       None \<Rightarrow> True
     | Some oh \<Rightarrow> op oh \<notin> {2, 3} \<or> 64 \<le> length r))"

lemma pkt_ok_calc: "p4dra_ether e \<Longrightarrow> op h = 3 \<Longrightarrow> length v = 16 \<Longrightarrow> pkt_ok (pkt_calc e h i x v r) \<longleftrightarrow> 64 \<le> length r"
  by (simp add: pkt_ok_def ig_parse_calc)

lemma split_proof: "64 \<le> length r \<Longrightarrow> \<exists>p r'. length p = 16 \<and> r = words_bytes p @ r'"
  by (intro exI [of _ "be_words 16 (take 64 r)"] exI [of _ "drop 64 r"]) (simp add: width)

lemma pkt_ok_fin:
  assumes "p4dra_ether e" "op h = 4" "length c = 16" "64 \<le> length r"
  shows "pkt_ok (pkt_reply e h i (words_bytes c @ r))"
proof -
  obtain p r' where "length p = 16" "r = words_bytes p @ r'" using split_proof [OF assms(4)] by blast
  then show ?thesis using assms by (simp add: verif_as_reply pkt_ok_def ig_parse_verif)
qed

lemma pass_ok:
  assumes "asic_ok a" "pkt_ok p"
  shows "travessia a (install ds) p \<noteq> Curto \<and> (\<forall>q. travessia a (install ds) p = Dentro q \<longrightarrow> pkt_ok q)"
proof -
  obtain h r where hr: "ig_parse p = Inr (h, r)" using assms(2) by (auto simp: pkt_ok_def split: sum.splits)
  from hr show ?thesis
  proof (cases rule: ig_parse_cases)
    case (other e)
    then have "op (oper_in a h) \<notin> {2, 3, 4}" using assms(1) by (simp add: oper_in_def only_ethernet_def asic_ok_def)
    then show ?thesis using travessia_forward [OF assms(1) hr, of ds] by auto
  next
    case (oper e oh)
    then have "op (oper_in a h) \<notin> {2, 3, 4}" by (simp add: oper_in_def)
    then show ?thesis using travessia_forward [OF assms(1) hr, of ds] by auto
  next
    case (reply e oh i)
    have l: "64 \<le> length r" using assms(2) ig_parse_reply [OF reply(1,2), of i r] reply(2,3) by (simp add: pkt_ok_def)
    show ?thesis
    proof (cases "map_of (entries_ig0 (install ds)) (2, i)")
      case None
      then show ?thesis using travessia_reply_unknown [OF reply(1,2) None, of a r] reply(3) by simp
    next
      case (Some x)
      then obtain conf key where k: "map_of (entries_ig0 (install ds)) (2, i) = Some (Carregar_estado_0 conf key)"
        by (auto simp: entries_install)
      then show ?thesis
        using travessia_reply [OF reply(1,2) k, of a r] reply(1,3) assms(1) l
        by (simp add: sai_recirc pkt_ok_calc load_state_def)
    qed
  next
    case (calc e oh i x v)
    have l: "64 \<le> length r" using assms(2) pkt_ok_calc [OF calc(1-3)] calc(4) by simp
    then show ?thesis
      using travessia_calc [OF calc(1-3), of a "install ds" i x r] assms calc
      by (simp add: sai_recirc pkt_ok_calc pkt_ok_fin width)
  next
    case (verif e oh i c d)
    then show ?thesis
      using travessia_verif [OF verif(1-4), of a "install ds" i r] assms by (simp add: final_sai)
  qed
qed

text \<open>C16: the switch never runs into a parser error with a packet of the right form: every pass keeps the form,
  so that the next one finds all headers it extracts.\<close>

theorem switch_packets_keep_form:
  assumes "asic_ok a" "pkt_ok p" "(sw_step a (install ds))\<^sup>*\<^sup>* (Dentro p) s"
  shows "case s of Dentro q \<Rightarrow> pkt_ok q | Curto \<Rightarrow> False | _ \<Rightarrow> True"
  using assms(3)
proof (induction rule: rtranclp_induct)
  case base
  then show ?case using assms(2) by simp
next
  case (step s t)
  then obtain q where "s = Dentro q" "t = travessia a (install ds) q" by (auto elim!: sw_stepE)
  then show ?case using step.IH pass_ok [OF assms(1), of q ds] by (auto split: sw_state.splits)
qed

section \<open>Concrete switches and packets\<close>

definition oper_example :: "byte \<Rightarrow> p4dra_oper_t" where
  "oper_example x = \<lparr>op = x, id_rodada0 = 1, id_rodada1 = 2, id_rodada2 = 3, id_rodada3 = 4\<rparr>"

definition asic_example :: asic where
  "asic_example = \<lparr>unset_oper = oper_example 0, unset_id = 0, recirc = (\<lambda>port. port = 68 \<or> port = 196)\<rparr>"

lemma asic_example_ok: "asic_ok asic_example"
  by (simp add: asic_ok_def asic_example_def oper_example_def)

definition device_example :: device_entry where
  "device_example = \<lparr>dv_id = 5, dv_conf = 6, dv_keys = replicate 8 7\<rparr>"

definition ether_example :: ether_header where
  "ether_example = \<lparr>ether_dhost = replicate 6 1, ether_shost = replicate 6 2, ether_type = 0x1234\<rparr>"

lemma ether_example_ok: "p4dra_ether ether_example"
  by (simp add: p4dra_ether_def wf_ether_def ether_example_def)

theorem switch_every_packet_leaves_witness:
  "\<exists>n\<le>230. \<exists>s. (sw_step asic_example (install [device_example]) ^^ n)
    (Dentro (pkt_reply ether_example (oper_example 2) 5 (replicate 64 9))) s \<and> final s"
  by (rule switch_every_packet_leaves [OF asic_example_ok])

theorem switch_computes_forro_witness:
  "\<exists>w. (sw_step asic_example (install [device_example]) ^^ 28)
      (Dentro (pkt_calc ether_example (oper_example 3) 5 1 (replicate 16 8) (replicate 64 9)))
      (Dentro (pkt_reply ether_example ((oper_example 3)\<lparr>op := 4\<rparr>) 5 (words_bytes w @ replicate 64 9))) \<and>
    forro (replicate 16 8) = concat (map U32TO8_LITTLE (map2 (+) (replicate 16 8) w))"
  by (rule switch_computes_forro [OF asic_example_ok])
    (use ether_example_ok in \<open>simp_all add: p4dra_ether_def oper_example_def\<close>)

theorem switch_packets_keep_form_witness:
  "case Dentro (pkt_calc ether_example ((oper_example 2)\<lparr>op := 3\<rparr>) 5 1
      (load_state (oper_example 2) 6 (replicate 8 7)) (replicate 64 9)) of
    Dentro q \<Rightarrow> pkt_ok q | Curto \<Rightarrow> False | _ \<Rightarrow> True"
proof (rule switch_packets_keep_form [OF asic_example_ok, of "pkt_reply ether_example (oper_example 2) 5 (replicate 64 9)" "[device_example]"])
  show "pkt_ok (pkt_reply ether_example (oper_example 2) 5 (replicate 64 9))"
    using ig_parse_reply [OF ether_example_ok, of "oper_example 2" 5 "replicate 64 9"]
    by (simp add: pkt_ok_def oper_example_def)
  have "travessia asic_example (install [device_example]) (pkt_reply ether_example (oper_example 2) 5 (replicate 64 9)) =
      Dentro (pkt_calc ether_example ((oper_example 2)\<lparr>op := 3\<rparr>) 5 1 (load_state (oper_example 2) 6 (replicate 8 7)) (replicate 64 9))"
    using travessia_reply [OF ether_example_ok, of "oper_example 2" "install [device_example]" 5 6 "replicate 8 7" asic_example
        "replicate 64 9"]
    by (simp add: entries_install device_example_def oper_example_def sai_recirc [OF asic_example_ok])
  then show "(sw_step asic_example (install [device_example]))\<^sup>*\<^sup>* (Dentro (pkt_reply ether_example (oper_example 2) 5 (replicate 64 9)))
      (Dentro (pkt_calc ether_example ((oper_example 2)\<lparr>op := 3\<rparr>) 5 1 (load_state (oper_example 2) 6 (replicate 8 7)) (replicate 64 9)))"
    by (intro r_into_rtranclp) simp
qed

end
