(* ===== verification/Switch_Protocol.thy ===== *)
theory Switch_Protocol
  imports Switch_Run Protocol
begin

text \<open>
  The switch in the protocol: what the controller's script installs for a line of the file of devices, and
  what the switch does with a reply of the service on a device. The state that the switch builds from its
  entry and the round of the packet is the state of the specification, so that the switch forwards exactly
  the replies with the expected proof.
\<close>

section \<open>The entry of a device\<close>

lemma four_bytes: "4 \<le> length x \<Longrightarrow> \<exists>a b c d r. x = a # b # c # d # r"
  by (auto simp: numeral_eq_Suc Suc_le_length_iff)

lemma swap_bytes_drop: "swap_bytes (drop (4 * k) x) = drop (4 * k) (swap_bytes x)"
proof (induction k arbitrary: x)
  case (Suc k)
  show ?case
  proof (cases "4 \<le> length x")
    case True
    then obtain a b c d r where x: "x = a # b # c # d # r" using four_bytes by blast
    have "4 * Suc k = Suc (Suc (Suc (Suc (4 * k))))" by simp
    then show ?thesis using Suc.IH [of r] unfolding x by (simp del: mult_Suc_right)
  next
    case False
    then show ?thesis using length_swap_bytes [of x] by simp
  qed
qed simp

lemma be_word_swap_at: "4 * k + 4 \<le> length x \<Longrightarrow> be_word (take 4 (drop (4 * k) (swap_bytes x))) = U8TO32_LITTLE (drop (4 * k) x)"
  by (simp add: swap_bytes_drop [symmetric] be_word_swap)

lemma wire_put_swap: "length t mod 8 = 0 \<Longrightarrow> wire_put t = swap_bytes (hex_pairs t)"
  by (simp add: wire_put_def hex_pairs_swap)

lemma credentials_digits:
  "list_all lower_hex t \<Longrightarrow> list_all (is_digit 16) t"
  by (auto simp: list_all_iff intro: lower_hex_is_digit)

lemma py_word: "list_all lower_hex t \<Longrightarrow> length t mod 8 = 0 \<Longrightarrow>
    of_nat (py_int (swap_hex t)) = (be_word (wire_put t) :: 'w::len word)"
  using py_int_word [of "swap_hex t", where 'w = 'w]
  by (simp add: credentials_digits wire_put_def width even_iff_mod_2_eq_zero mod_mod_cancel [of 2 8, symmetric])

lemma dropWhile_sep: "\<not> P s \<Longrightarrow> \<exists>zs. dropWhile P (xs @ s # ys) = zs @ s # ys"
  by (induction xs) auto

lemma dropWhile_first: "xs \<noteq> [] \<Longrightarrow> \<not> P (hd xs) \<Longrightarrow> dropWhile P (xs @ ys) = xs @ ys"
  by (cases xs) auto

lemma py_split_sep: "sep \<notin> set t \<Longrightarrow> py_split sep (t @ sep # r) = t # py_split sep r"
  by (induction t) auto

lemma py_split_ne: "py_split sep t \<noteq> []"
  by (induction t) (auto split: list.split)

lemma lower_hex_byte: "lower_hex b \<Longrightarrow> b \<noteq> 58 \<and> \<not> isspace b"
  by (auto simp: lower_hex_def isspace_def word_le_nat_alt)

text \<open>The line of a device as the other programs read it.\<close>

lemma process_line_ok:
  assumes "device_credentials key idd"
  shows "process_line (idd @ 58 # key @ 58 # r) = Some (idd, partes_de_8 key)"
proof -
  have c: "58 \<notin> set idd" "58 \<notin> set key" "idd \<noteq> []"
    using assms lower_hex_byte by (auto simp: device_credentials_def list_all_iff)
  then have "\<not> isspace (hd idd)"
    using assms lower_hex_byte hd_in_set [OF c(3)] by (auto simp: device_credentials_def list_all_iff)
  note c = c this
  have "\<not> isspace (58 :: byte)" by (simp add: isspace_def)
  then obtain zs where zs: "dropWhile isspace (rev r @ 58 # rev (idd @ 58 # key)) = zs @ 58 # rev (idd @ 58 # key)"
    using dropWhile_sep [of isspace 58 "rev r" "rev (idd @ 58 # key)"] by blast
  have "dropWhile isspace (idd @ 58 # key @ 58 # r) = idd @ 58 # key @ 58 # r"
    using c by (intro dropWhile_first) auto
  then have "py_strip (idd @ 58 # key @ 58 # r) = idd @ 58 # key @ 58 # rev zs"
    unfolding py_strip_def using zs by simp
  then show ?thesis
    using c py_split_ne [of 58 "rev zs"] by (simp add: process_line_def py_split_sep Let_def Suc_le_eq)
qed

definition entry_for :: "byte list \<Rightarrow> byte list \<Rightarrow> device_entry" where
  "entry_for key idd = \<lparr>dv_id = be_word (wire_put idd), dv_conf = of_nat (conf_param (py_int (swap_hex idd))),
     dv_keys = be_words 8 (wire_put key)\<rparr>"

lemma hex_pairs_take_drop: "hex_pairs (take (2 * n) (drop (2 * m) t)) = take n (drop m (hex_pairs t))"
proof (induction m arbitrary: t)
  case 0
  show ?case
  proof (induction n arbitrary: t)
    case (Suc n)
    then show ?case by (cases t rule: hex_pairs.cases) auto
  qed simp
next
  case (Suc m)
  then show ?case by (cases t rule: hex_pairs.cases) auto
qed

lemma py_int_bound: "list_all (is_digit 16) t \<Longrightarrow> py_int t < 16 ^ length t"
proof (induction t rule: rev_induct)
  case Nil
  then show ?case by (simp add: py_int_def)
next
  case (snoc c t)
  then have "py_int t < 16 ^ length t" "dval c < 16" by (simp_all add: dval_less_16)
  moreover have "py_int (t @ [c]) = 16 * py_int t + dval c" by (simp add: py_int_def)
  ultimately show ?case by simp
qed

lemma device_of_line_ok:
  assumes "device_credentials key idd"
  shows "device_of_line (idd @ 58 # key @ 58 # r) = Some (entry_for key idd)"
proof -
  have c: "list_all lower_hex key" "list_all lower_hex idd" "length key = 64" "length idd = 32"
    using assms by (simp_all add: device_credentials_def)
  have i: "Option.bind (inverter_endianess idd) int_16 = Some (py_int (swap_hex idd))"
    using c credentials_digits [OF c(2)] by (auto simp: inverter_endianess_def int_16_def width dest: arg_cong [where f = length])
  have b: "py_int (swap_hex idd) < 2 ^ 128"
    using py_int_bound [of "swap_hex idd"] credentials_digits [OF c(2)] c(4) by (simp add: width)
  have p: "Option.bind (inverter_endianess (take 8 (drop (8 * j) key))) int_16 =
      Some (py_int (swap_hex (take 8 (drop (8 * j) key))))" if "j < 8" for j
  proof -
    have l: "length (take 8 (drop (8 * j) key)) = 8" using that c(3) by simp
    have "list_all (is_digit 16) (take 8 (drop (8 * j) key))"
      using credentials_digits [OF c(1)] by (auto simp: list_all_iff dest!: in_set_takeD in_set_dropD)
    then show ?thesis using l by (auto simp: inverter_endianess_def int_16_def width dest: arg_cong [where f = length])
  qed
  have k: "those (map (\<lambda>p. Option.bind (inverter_endianess p) int_16) (partes_de_8 key)) =
      Some (map (\<lambda>j. py_int (swap_hex (take 8 (drop (8 * j) key)))) [0..<8])"
  proof -
    have "(length key + 7) div 8 = 8" using c(3) by simp
    then have "map (\<lambda>p. Option.bind (inverter_endianess p) int_16) (partes_de_8 key) =
        map (\<lambda>j. Some (py_int (swap_hex (take 8 (drop (8 * j) key))))) [0..<8]"
      using p by (simp add: partes_de_8_def)
    moreover have "those (map (\<lambda>j. Some (f j)) js) = Some (map f js)" for f :: "nat \<Rightarrow> nat" and js
      by (induction js) auto
    ultimately show ?thesis by simp
  qed
  have "of_nat (py_int (swap_hex (take 8 (drop (8 * j) key)))) = (be_word (take 4 (drop (4 * j) (wire_put key))) :: u32)"
    if "j < 8" for j
  proof -
    have l: "length (take 8 (drop (8 * j) key)) = 8" using that c(3) by simp
    have "list_all lower_hex (take 8 (drop (8 * j) key))"
      using c(1) by (auto simp: list_all_iff dest!: in_set_takeD in_set_dropD)
    then have "of_nat (py_int (swap_hex (take 8 (drop (8 * j) key)))) = (be_word (wire_put (take 8 (drop (8 * j) key))) :: u32)"
      using l by (simp add: py_word)
    also have "wire_put (take 8 (drop (8 * j) key)) = swap_bytes (take 4 (drop (4 * j) (hex_pairs key)))"
      using l hex_pairs_take_drop [of 4 "4 * j" key] by (simp add: wire_put_swap)
    also have "\<dots> = take 4 (drop (4 * j) (wire_put key))"
    proof -
      let ?x = "drop (4 * j) (hex_pairs key)"
      have "4 \<le> length ?x" using that c(3) by (simp add: width)
      then obtain a b c d r where "?x = a # b # c # d # r" using four_bytes by blast
      then have "swap_bytes (take 4 ?x) = take 4 (swap_bytes ?x)" by simp
      then show ?thesis using c(3) by (simp add: wire_put_swap swap_bytes_drop)
    qed
    finally show ?thesis .
  qed
  then have "map of_nat (map (\<lambda>j. py_int (swap_hex (take 8 (drop (8 * j) key)))) [0..<8]) = be_words 8 (wire_put key)"
    by (simp add: be_words_def)
  then show ?thesis
    using b c by (simp add: device_of_line_def process_line_ok [OF assms] i k entry_for_def py_word not_le)
qed

section \<open>The state of a device\<close>

lemma bit_conf_param: "bit (conf_param n) j \<longleftrightarrow> (128 \<le> j \<and> j < 192 \<and> bit n (j - 64)) \<or> (j < 64 \<and> bit n j)"
proof -
  have m: "(0xFFFFFFFFFFFFFFFF :: nat) = mask 64" "(0xFFFFFFFFFFFFFFFF0000000000000000 :: nat) = push_bit 64 (mask 64)"
    by (simp_all add: mask_eq_exp_minus_1 push_bit_eq_mult)
  show ?thesis unfolding conf_param_def m by (auto simp: bit_simps)
qed

lemma word_of_word:
  assumes "length w = 16" "m < 4" "k < 32"
  shows "bit (be_word w :: 128 word) (96 - 32 * m + k) = bit (be_word (take 4 (drop (4 * m) w)) :: u32) k"
proof -
  have d: "(96 - 32 * m + k) div 8 = 12 - 4 * m + k div 8" "(96 - 32 * m + k) mod 8 = k mod 8"
  proof -
    have "96 - 32 * m + k = 8 * (12 - 4 * m) + k" using assms(2) by auto
    then show "(96 - 32 * m + k) div 8 = 12 - 4 * m + k div 8" "(96 - 32 * m + k) mod 8 = k mod 8"
      by (simp_all add: mod_add_left_eq [symmetric])
  qed
  have k: "k div 8 < 4" using assms(3) by linarith
  have "rev w ! (12 - 4 * m + k div 8) = w ! (4 * m + (3 - k div 8))"
    using assms k by (simp add: rev_nth) (rule arg_cong [where f = "(!) w"], linarith)
  moreover have "rev (take 4 (drop (4 * m) w)) ! (k div 8) = w ! (4 * m + (3 - k div 8))"
    using assms k by (simp add: rev_nth)
  moreover have "96 - 32 * m + k < 128" "k < 4 * 8" using assms by linarith+
  ultimately show ?thesis unfolding bit_be_word d using assms by simp
qed

lemma fatia_conf:
  assumes "of_nat n = (be_word w :: 128 word)" "length w = 16"
  shows "fatia 224 (of_nat (conf_param n)) = 0" "fatia 192 (of_nat (conf_param n)) = 0"
    "fatia 160 (of_nat (conf_param n)) = be_word (take 4 (drop (4 * 0) w))"
    "fatia 128 (of_nat (conf_param n)) = be_word (take 4 (drop (4 * 1) w))"
    "fatia 96 (of_nat (conf_param n)) = 0" "fatia 64 (of_nat (conf_param n)) = 0"
    "fatia 32 (of_nat (conf_param n)) = be_word (take 4 (drop (4 * 2) w))"
    "fatia 0 (of_nat (conf_param n)) = be_word (take 4 (drop (4 * 3) w))"
proof -
  have n: "bit n j \<longleftrightarrow> bit (be_word w :: 128 word) j" if "j < 128" for j
    using that assms(1) [symmetric] by (simp add: bit_simps)
  have f: "bit (fatia lo (of_nat (conf_param n))) k \<longleftrightarrow> k < 32 \<and> bit (conf_param n) (lo + k)" if "lo \<le> 224" for lo k
    using that by (auto simp: fatia_def bit_simps)
  have w: "bit n (96 - 32 * m + k) = bit (be_word (take 4 (drop (4 * m) w)) :: u32) k" if "m < 4" "k < 32" for m k
    using word_of_word [OF assms(2) that] n [of "96 - 32 * m + k"] that by simp
  show "fatia 224 (of_nat (conf_param n)) = 0" "fatia 192 (of_nat (conf_param n)) = 0"
    "fatia 96 (of_nat (conf_param n)) = 0" "fatia 64 (of_nat (conf_param n)) = 0"
    by (rule bit_word_eqI; simp add: f bit_conf_param)+
  show "fatia 160 (of_nat (conf_param n)) = be_word (take 4 (drop (4 * 0) w))"
    using w [of 0] by (intro bit_word_eqI) (simp add: f bit_conf_param)
  show "fatia 128 (of_nat (conf_param n)) = be_word (take 4 (drop (4 * 1) w))"
    using w [of 1] by (intro bit_word_eqI) (simp add: f bit_conf_param)
  show "fatia 32 (of_nat (conf_param n)) = be_word (take 4 (drop (4 * 2) w))"
    using w [of 2] by (intro bit_word_eqI) (simp add: f bit_conf_param)
  show "fatia 0 (of_nat (conf_param n)) = be_word (take 4 (drop (4 * 3) w))"
    using w [of 3] by (intro bit_word_eqI) (simp add: f bit_conf_param)
qed

lemma load_state_dra:
  assumes "device_credentials key idd" "length r = 16"
  shows "load_state (oper_of_bytes (x # r)) (dv_conf (entry_for key idd)) (dv_keys (entry_for key idd)) =
    dra_state (hex_pairs key) (hex_pairs (take 16 (wire_get r))) (hex_pairs (drop 16 (wire_get r)))
      (hex_pairs idd) (replicate 32 0)"
proof -
  have c: "list_all lower_hex idd" "length key = 64" "length idd = 32" using assms(1) by (simp_all add: device_credentials_def)
  let ?r = "swap_bytes r"
  have r: "hex_pairs (take 16 (wire_get r)) = take 8 ?r" "hex_pairs (drop 16 (wire_get r)) = drop 8 ?r"
  proof -
    have g: "wire_get r = hex_text ?r" using assms(2) by (simp add: wire_get_def swap_hex_text)
    show "hex_pairs (take 16 (wire_get r)) = take 8 ?r"
      unfolding g using hex_pairs_take_drop [of 8 0 "hex_text ?r"] by simp
    show "hex_pairs (drop 16 (wire_get r)) = drop 8 ?r"
      unfolding g using hex_pairs_take_drop [of 8 8 "hex_text ?r"] assms(2) by (simp add: width)
  qed
  have rk: "be_word (take 4 (drop (4 * k) r)) = U8TO32_LITTLE (drop (4 * k) ?r)" if "k < 4" for k
    using that be_word_swap_at [of k ?r] assms(2) by (simp add: width)
  have key: "dv_keys (entry_for key idd) ! k = U8TO32_LITTLE (drop (4 * k) (hex_pairs key))" if "k < 8" for k
    using that be_word_swap_at [of k "hex_pairs key"] c(2)
    by (simp add: entry_for_def be_words_def wire_put_swap width)
  have idw: "be_word (take 4 (drop (4 * k) (wire_put idd))) = U8TO32_LITTLE (drop (4 * k) (hex_pairs idd))" if "k < 4" for k
    using that be_word_swap_at [of k "hex_pairs idd"] c(3) by (simp add: wire_put_swap width)
  have fat: "of_nat (py_int (swap_hex idd)) = (be_word (wire_put idd) :: 128 word)" "length (wire_put idd) = 16"
    using c by (simp_all add: py_word width)
  note fatias = fatia_conf [OF fat]
  have z: "U8TO32_LITTLE (drop (4 * k) (replicate 32 0)) = 0" if "k < 8" for k
    using that by (simp add: U8TO32_LITTLE_def)
  have t: "U8TO32_LITTLE (drop (4 * k) (take 8 ?r)) = U8TO32_LITTLE (drop (4 * k) ?r)" if "k < 2" for k
    using that assms(2) by (intro U8TO32_cong) (simp add: width)
  have conf: "dv_conf (entry_for key idd) = of_nat (conf_param (py_int (swap_hex idd)))" by (simp add: entry_for_def)
  show ?thesis
    unfolding dra_state_def load_state_def conf fatias r Let_def
    using key [of 0] key [of 1] key [of 2] key [of 3] key [of 4] key [of 5] key [of 6] key [of 7]
      idw [of 0] idw [of 1] idw [of 2] idw [of 3] rk [of 0] rk [of 1] rk [of 2] rk [of 3] t [of 0] t [of 1]
      z [of 0] z [of 1] z [of 2] z [of 3] z [of 4] z [of 5] z [of 6] z [of 7]
    by (simp add: oper_of_bytes_def)
qed

section \<open>What the switch does with a reply\<close>

text \<open>The controller's tables for a file of devices.\<close>

lemma setup_switch_file:
  assumes "\<forall>e\<in>set es. device_credentials (chave e) (id_dispositivo e)" "length es \<le> 20000"
  shows "setup_switch (map linha_de es) = Some (install (map (\<lambda>e. entry_for (chave e) (id_dispositivo e)) es))"
proof -
  have "device_of_line (linha_de e) = Some (entry_for (chave e) (id_dispositivo e))" if "e \<in> set es" for e
    using device_of_line_ok [of "chave e" "id_dispositivo e" "prova e @ [58, 10]"] assms(1) that
    by (simp add: linha_de_def)
  then have "map device_of_line (map linha_de es) = map (\<lambda>e. Some (entry_for (chave e) (id_dispositivo e))) es"
    by simp
  moreover have "those (map (\<lambda>e. Some (f e)) xs) = Some (map f xs)" for f :: "id_chave_prova_t \<Rightarrow> device_entry" and xs
    by (induction xs) auto
  moreover have "take 20000 (map linha_de es) = map linha_de es" using assms(2) by simp
  ultimately show ?thesis by (simp only: setup_switch_def option.map)
qed

lemma find_entry:
  assumes "\<forall>e\<in>set es. device_credentials (chave e) (id_dispositivo e)" "distinct (map id_dispositivo es)" "e \<in> set es"
  shows "find (\<lambda>d. dv_id d = be_word (wire_put (id_dispositivo e))) (map (\<lambda>e. entry_for (chave e) (id_dispositivo e)) es) =
    Some (entry_for (chave e) (id_dispositivo e))"
  using assms
proof (induction es)
  case (Cons f es)
  have same: "id_dispositivo f = id_dispositivo e"
    if "be_word (wire_put (id_dispositivo f)) = (be_word (wire_put (id_dispositivo e)) :: 128 word)"
  proof -
    have c: "list_all lower_hex (id_dispositivo f)" "list_all lower_hex (id_dispositivo e)"
      "length (id_dispositivo f) = 32" "length (id_dispositivo e) = 32"
      using Cons.prems(1,3) by (auto simp: device_credentials_def)
    then have "wire_put (id_dispositivo f) = wire_put (id_dispositivo e)"
      using that by (subst (asm) be_word_inject) (simp_all add: width)
    then have "wire_get (wire_put (id_dispositivo f)) = wire_get (wire_put (id_dispositivo e))" by simp
    then show ?thesis using c by (simp add: wire.get_put)
  qed
  show ?case
  proof (cases "id_dispositivo f = id_dispositivo e")
    case True
    then have "f = e" using Cons.prems(2,3) by auto
    then show ?thesis by (simp add: entry_for_def)
  next
    case False
    then have "dv_id (entry_for (chave f) (id_dispositivo f)) \<noteq> be_word (wire_put (id_dispositivo e))"
      using same by (auto simp: entry_for_def)
    moreover have "e \<in> set es" using False Cons.prems(3) by auto
    ultimately show ?thesis using Cons by simp
  qed
qed simp

text \<open>A packet of the protocol as the switch parses it.\<close>

definition custom_ether :: "byte list \<Rightarrow> byte list \<Rightarrow> ether_header" where
  "custom_ether d s = \<lparr>ether_dhost = d, ether_shost = s, ether_type = ETHERTYPE_CUSTOM\<rparr>"

lemma custom_ether_ok: "length d = 6 \<Longrightarrow> length s = 6 \<Longrightarrow> p4dra_ether (custom_ether d s)"
  by (simp add: p4dra_ether_def custom_ether_def wf_ether_def ETHERTYPE_CUSTOM_def)

lemma reply_parsed:
  assumes "length r = 16" "length i = 16" "length prv = 64"
  shows "reply_packet d s r i prv =
    pkt_reply (custom_ether d s) (oper_of_bytes (2 # r)) (be_word i) (words_bytes (be_words 16 prv) @ [])"
  using assms by (simp add: reply_packet_def pkt_reply_def create_custom_packet_def custom_ether_def oper_bytes_def reply_bytes_def)

lemma verif_parsed:
  assumes "length r = 16" "length i = 16" "length c = 64" "length prv = 64"
  shows "verif_packet d s r i c prv =
    pkt_verif (custom_ether d s) (oper_of_bytes (4 # r)) (be_word i) (be_words 16 c) (be_words 16 prv) []"
  using assms by (simp add: verif_packet_def pkt_verif_def pkt_reply_def create_custom_packet_def custom_ether_def oper_bytes_def
      verificacao_bytes_def)

lemma op_oper_of [simp]: "op (oper_of_bytes (x # r)) = x"
  by (simp add: oper_of_bytes_def)

lemma oper_of_op: "(oper_of_bytes (x # r))\<lparr>op := y\<rparr> = oper_of_bytes (y # r)"
  by (simp add: oper_of_bytes_def)

lemma dra_proof_words:
  "words_bytes (map2 (+) v ((forro_round ^^ rounds) v)) = swap_bytes (forro v)"
  by (simp add: words_bytes_swap forro_def)

lemma switch_decides:
  assumes "asic_ok a" "\<forall>e\<in>set es. device_credentials (chave e) (id_dispositivo e)"
    "distinct (map id_dispositivo es)" "length es \<le> 20000" "e \<in> set es"
    and "length d = 6" "length s = 6" "length r = 16" "length prv = 64"
    and "setup_switch (map linha_de es) = Some tb"
  shows "sw_ends a tb (reply_packet d s r (wire_put (id_dispositivo e)) prv) st \<longleftrightarrow>
    st = (if prv = expected_proof (chave e) (id_dispositivo e) r
      then Saiu 1 (verif_packet d s r (wire_put (id_dispositivo e)) prv prv) else Descartado)"
proof -
  let ?i = "wire_put (id_dispositivo e)" and ?en = "entry_for (chave e) (id_dispositivo e)"
  let ?v = "dra_state (hex_pairs (chave e)) (hex_pairs (take 16 (wire_get r))) (hex_pairs (drop 16 (wire_get r)))
      (hex_pairs (id_dispositivo e)) (replicate 32 0)"
  let ?w = "map2 (+) ?v ((forro_round ^^ rounds) ?v)"
  have c: "device_credentials (chave e) (id_dispositivo e)" using assms(2,5) by blast
  then have l: "length ?i = 16" by (simp add: device_credentials_def width)
  have tb: "tb = install (map (\<lambda>e. entry_for (chave e) (id_dispositivo e)) es)"
    using setup_switch_file [OF assms(2,4)] assms(10) by simp
  have k: "map_of (entries_ig0 tb) (2, be_word ?i) = Some (Carregar_estado_0 (dv_conf ?en) (dv_keys ?en))"
    "map_of (entries_ig0_fin tb) (be_word ?i) = Some (dv_conf ?en, dv_keys ?en)" "port_fin tb = 1"
    unfolding tb entries_install entries_fin_install using find_entry [OF assms(2,3,5)] by simp_all
  have ls: "load_state (oper_of_bytes (2 # r)) (dv_conf ?en) (dv_keys ?en) = ?v"
    by (rule load_state_dra [OF c assms(8)])
  have ex: "expected_proof (chave e) (id_dispositivo e) r = words_bytes ?w"
    by (simp add: expected_proof_def dra_proof_words dra_proof_def [symmetric] wire_put_hex_text width)
  have lw: "length ?w = 16" by (simp add: width)
  have eq: "?w = be_words 16 prv \<longleftrightarrow> prv = expected_proof (chave e) (id_dispositivo e) r"
  proof
    assume "?w = be_words 16 prv"
    then show "prv = expected_proof (chave e) (id_dispositivo e) r" using assms(9) ex by simp
  next
    assume "prv = expected_proof (chave e) (id_dispositivo e) r"
    then show "?w = be_words 16 prv" unfolding ex using be_words_words_bytes [OF lw, of "[]"] by simp
  qed
  have "(sw_step a tb ^^ 30) (Dentro (pkt_reply (custom_ether d s) (oper_of_bytes (2 # r)) (be_word ?i)
      (words_bytes (be_words 16 prv) @ []))) (if prv = expected_proof (chave e) (id_dispositivo e) r
      then Saiu 1 (pkt_verif (custom_ether d s) (oper_of_bytes (4 # r)) (be_word ?i) (be_words 16 prv) (be_words 16 prv) [])
      else Descartado)"
    by (rule reply_complete [OF assms(1) custom_ether_ok [OF assms(6,7)], of "oper_of_bytes (2 # r)" "be_words 16 prv" tb
          "be_word ?i" "dv_conf ?en" "dv_keys ?en" "[]", unfolded ls eq oper_of_op, OF _ _ k(3,1,2)]) (simp_all add: width)
  then have "(sw_step a tb ^^ 30) (Dentro (reply_packet d s r ?i prv)) (if prv = expected_proof (chave e) (id_dispositivo e) r
      then Saiu 1 (verif_packet d s r ?i prv prv) else Descartado)"
    unfolding reply_parsed [OF assms(8) l assms(9)] verif_parsed [OF assms(8) l assms(9,9)] .
  from sw_ends_iff [OF this] show ?thesis by simp
qed

text \<open>C3: the verdict of the switch. With the tables that the controller installs for a file of devices, a reply
  leaves the switch if it carries the proof that the protocol expects of its device in its round, and then
  as a verification packet to the controller; with any other proof it is dropped.\<close>

theorem switch_verdict:
  assumes "asic_ok a" "\<forall>e\<in>set es. device_credentials (chave e) (id_dispositivo e)"
    "distinct (map id_dispositivo es)" "length es \<le> 20000" "e \<in> set es"
    and "length d = 6" "length s = 6" "length r = 16" "length prv = 64"
    and "setup_switch (map linha_de es) = Some tb"
  shows "sw_ends a tb (reply_packet d s r (wire_put (id_dispositivo e)) prv) st \<longleftrightarrow>
    st = (if prv = expected_proof (chave e) (id_dispositivo e) r
      then Saiu 1 (verif_packet d s r (wire_put (id_dispositivo e)) prv prv) else Descartado)"
  using assms by (rule switch_decides)

lemma update_words:
  assumes "length c = 16"
  shows "c[5 := c ! 5 + x, 12 := c ! 12 + y, 13 := c ! 13 + z] = c \<longleftrightarrow> x = 0 \<and> y = 0 \<and> (z :: u32) = 0"
proof
  assume e: "c[5 := c ! 5 + x, 12 := c ! 12 + y, 13 := c ! 13 + z] = c"
  show "x = 0 \<and> y = 0 \<and> z = 0"
    using arg_cong [OF e, of "\<lambda>v. v ! 5"] arg_cong [OF e, of "\<lambda>v. v ! 12"] arg_cong [OF e, of "\<lambda>v. v ! 13"] assms by simp
qed simp

lemma be_word_zero: "length b = 4 \<Longrightarrow> be_word b = (0 :: u32) \<longleftrightarrow> b = replicate 4 0"
proof -
  assume "length b = 4"
  moreover have "be_word (replicate 4 0 :: byte list) = (0 :: u32)" by (simp add: be_word_def numeral_eq_Suc)
  ultimately show ?thesis using be_word_inject [of b "replicate 4 0", where 'w = 32] by simp
qed

lemma round_words_zero:
  assumes "length r = 16"
  shows "id_rodada1 (oper_of_bytes (x # r)) = 0 \<and> id_rodada2 (oper_of_bytes (x # r)) = 0 \<and>
    id_rodada3 (oper_of_bytes (x # r)) = 0 \<longleftrightarrow> drop 4 r = replicate 12 0"
proof -
  have e: "drop 4 r = take 4 (drop 4 r) @ take 4 (drop 8 r) @ drop 12 r"
    using append_take_drop_id [of 4 "drop 4 r"] append_take_drop_id [of 4 "drop 8 r"] by simp
  have z: "replicate 12 (0 :: byte) = replicate 4 0 @ replicate 4 0 @ replicate 4 0"
    by (simp add: replicate_add [symmetric])
  have "drop 4 r = replicate 12 0 \<longleftrightarrow> take 4 (drop 4 r) = replicate 4 0 \<and> take 4 (drop 8 r) = replicate 4 0 \<and>
      drop 12 r = replicate 4 0"
    by (subst e, unfold z) (use assms in simp)
  then show ?thesis
    using assms by (simp add: oper_of_bytes_def be_word_zero)
qed

text \<open>C17: the operation of a packet is not protected. A packet with operation 4 that names a device without an
  entry and holds its proof twice leaves the switch as a verified one, with any proof, as soon as the last three
  words of its round are zero; with any other round it is dropped.\<close>

theorem switch_accepts_forged_packet:
  assumes "asic_ok a" "find (\<lambda>x. dv_id x = be_word i) ds = None"
    and "length d = 6" "length s = 6" "length r = 16" "length i = 16" "length prv = 64"
  shows "sw_ends a (install ds) (verif_packet d s r i prv prv) st \<longleftrightarrow>
    st = (if drop 4 r = replicate 12 0 then Saiu 1 (verif_packet d s r i prv prv) else Descartado)"
proof -
  let ?h = "oper_of_bytes (4 # r)"
  have "map_of (entries_ig0_fin (install ds)) (be_word i) = None" using assms(2) by (simp add: entries_fin_install)
  then have f: "fin_state (install ds) (be_word i) ?h (be_words 16 prv) = be_words 16 prv \<longleftrightarrow> drop 4 r = replicate 12 0"
    using update_words [of "be_words 16 prv"] round_words_zero [OF assms(5), of 4] by (simp add: fin_state_def width)
  have "travessia a (install ds) (verif_packet d s r i prv prv) =
      (if drop 4 r = replicate 12 0 then Saiu 1 (verif_packet d s r i prv prv) else Descartado)"
    using travessia_verif [OF custom_ether_ok [OF assms(3,4)], of ?h "be_words 16 prv" "be_words 16 prv" a "install ds"
        "be_word i" "[]"] assms f
    unfolding verif_parsed [OF assms(5,6,7,7)] by (simp add: final_sai width)
  then have "(sw_step a (install ds) ^^ 1) (Dentro (verif_packet d s r i prv prv))
      (if drop 4 r = replicate 12 0 then Saiu 1 (verif_packet d s r i prv prv) else Descartado)"
    by (simp only: relpowp_1 sw_step_Dentro)
  from sw_ends_iff [OF this] show ?thesis by simp
qed

section \<open>Concrete verdicts\<close>

lemma file_example: "\<forall>e\<in>set [entry_example 49]. device_credentials (chave e) (id_dispositivo e)"
  by (simp add: device_credentials_def entry_example_def list_all_iff lower_hex_def)

theorem switch_verdict_witness:
  "sw_ends asic_example (install (map (\<lambda>e. entry_for (chave e) (id_dispositivo e)) [entry_example 49]))
      (reply_packet (replicate 6 1) (replicate 6 2) (replicate 16 3) (wire_put (id_dispositivo (entry_example 49)))
        (replicate 64 7)) Descartado \<longleftrightarrow>
    Descartado = (if replicate 64 7 = expected_proof (chave (entry_example 49)) (id_dispositivo (entry_example 49)) (replicate 16 3)
      then Saiu 1 (verif_packet (replicate 6 1) (replicate 6 2) (replicate 16 3)
        (wire_put (id_dispositivo (entry_example 49))) (replicate 64 7) (replicate 64 7)) else Descartado)"
  by (rule switch_verdict [OF asic_example_ok file_example]) (simp_all add: setup_switch_file [OF file_example, simplified])

theorem switch_accepts_forged_packet_witness:
  "sw_ends asic_example (install [device_example])
      (verif_packet (replicate 6 1) (replicate 6 2) (replicate 4 3 @ replicate 12 0) (be_bytes 16 (9 :: 128 word)) (replicate 64 7) (replicate 64 7))
      (Saiu 1 (verif_packet (replicate 6 1) (replicate 6 2) (replicate 4 3 @ replicate 12 0) (be_bytes 16 (9 :: 128 word)) (replicate 64 7) (replicate 64 7))) \<and>
    sw_ends asic_example (install [device_example])
      (verif_packet (replicate 6 1) (replicate 6 2) (replicate 16 3) (be_bytes 16 (9 :: 128 word)) (replicate 64 7) (replicate 64 7)) Descartado"
proof -
  let ?i = "be_bytes 16 (9 :: 128 word)"
  have "find (\<lambda>x. dv_id x = be_word ?i) [device_example] = None" "length ?i = 16" by (simp_all add: device_example_def width)
  note forged = switch_accepts_forged_packet [OF asic_example_ok this(1) _ _ _ this(2), of "replicate 6 1" "replicate 6 2" _ "replicate 64 7"]
  from forged [of "replicate 4 3 @ replicate 12 0"] forged [of "replicate 16 3"] have
    "sw_ends asic_example (install [device_example]) (verif_packet (replicate 6 1) (replicate 6 2) (replicate 4 3 @ replicate 12 0) ?i
      (replicate 64 7) (replicate 64 7)) (Saiu 1 (verif_packet (replicate 6 1) (replicate 6 2) (replicate 4 3 @ replicate 12 0) ?i
      (replicate 64 7) (replicate 64 7)))"
    "sw_ends asic_example (install [device_example]) (verif_packet (replicate 6 1) (replicate 6 2) (replicate 16 3) ?i
      (replicate 64 7) (replicate 64 7)) (if drop 4 (replicate 16 3) = replicate 12 (0 :: byte) then Saiu 1 (verif_packet
      (replicate 6 1) (replicate 6 2) (replicate 16 3) ?i (replicate 64 7) (replicate 64 7)) else Descartado)"
    by simp_all
  moreover have "drop 4 (replicate 16 3) \<noteq> replicate 12 (0 :: byte)" by simp
  ultimately show ?thesis by (simp del: drop_replicate)
qed

end
