(* ===== verification/Bpf.thy ===== *)
theory Bpf
  imports Network_Order "HOL-Library.While_Combinator"
begin

text \<open>
  The filter machine of the capture library, \<open>libpcap1.10.4/bpf_filter.c\<close> with the encodings of
  \<open>pcap/bpf.h\<close>: the instructions, the interpreter \<open>pcap_filter_with_aux_data\<close>, and the check
  \<open>pcap_validate_filter\<close> that a program passes before it is installed. A program is a list of
  instructions. What C leaves undefined (instructions outside the program, words outside the scratch
  memory, bytes outside the packet, division by zero, shifts by the width of a word) and the call of
  \<open>abort\<close> are faults. The interpreter is a loop that may run forever: a run without an end is \<open>None\<close>.
\<close>

section \<open>Instructions\<close>

type_synonym u16 = "16 word"

record bpf_insn =
  insn_code :: u16
  insn_jt :: byte
  insn_jf :: byte
  insn_k :: u32

text \<open>The encodings: class, size, mode, operation and source are bit fields of the code.\<close>

abbreviation (input) BPF_LD :: u16 where "BPF_LD \<equiv> 0x00"
abbreviation (input) BPF_LDX :: u16 where "BPF_LDX \<equiv> 0x01"
abbreviation (input) BPF_ST :: u16 where "BPF_ST \<equiv> 0x02"
abbreviation (input) BPF_STX :: u16 where "BPF_STX \<equiv> 0x03"
abbreviation (input) BPF_ALU :: u16 where "BPF_ALU \<equiv> 0x04"
abbreviation (input) BPF_JMP :: u16 where "BPF_JMP \<equiv> 0x05"
abbreviation (input) BPF_RET :: u16 where "BPF_RET \<equiv> 0x06"
abbreviation (input) BPF_MISC :: u16 where "BPF_MISC \<equiv> 0x07"

abbreviation (input) BPF_IMM :: u16 where "BPF_IMM \<equiv> 0x00"
abbreviation (input) BPF_ABS :: u16 where "BPF_ABS \<equiv> 0x20"
abbreviation (input) BPF_IND :: u16 where "BPF_IND \<equiv> 0x40"
abbreviation (input) BPF_MEM :: u16 where "BPF_MEM \<equiv> 0x60"
abbreviation (input) BPF_LEN :: u16 where "BPF_LEN \<equiv> 0x80"
abbreviation (input) BPF_MSH :: u16 where "BPF_MSH \<equiv> 0xa0"

definition BPF_CLASS :: "u16 \<Rightarrow> u16" where "BPF_CLASS c = c AND 0x07"
definition BPF_MODE :: "u16 \<Rightarrow> u16" where "BPF_MODE c = c AND 0xe0"
definition BPF_OP :: "u16 \<Rightarrow> u16" where "BPF_OP c = c AND 0xf0"
definition BPF_SRC :: "u16 \<Rightarrow> u16" where "BPF_SRC c = c AND 0x08"

definition BPF_MEMWORDS :: nat where "BPF_MEMWORDS = 16"

datatype bsize = SzW | SzH | SzB
datatype bsrc = SrcK | SrcX
datatype balu = ADD | SUB | MUL | DIV | BOR | BAND | LSH | RSH | BMOD | BXOR
datatype bcond = JEQ | JGT | JGE | JSET

text \<open>The cases of the interpreter's \<open>switch\<close>.\<close>

datatype opcode =
    RET_K | RET_A
  | LD_ABS bsize | LD_IND bsize | LD_LEN | LD_IMM | LD_MEM
  | LDX_LEN | LDX_MSH | LDX_IMM | LDX_MEM
  | ST | STX
  | JA | JMP bcond bsrc
  | ALU balu bsrc | NEG
  | TAX | TXA

primrec bsize_bits :: "bsize \<Rightarrow> u16" where
  "bsize_bits SzW = 0x00" | "bsize_bits SzH = 0x08" | "bsize_bits SzB = 0x10"

primrec bsrc_bits :: "bsrc \<Rightarrow> u16" where
  "bsrc_bits SrcK = 0x00" | "bsrc_bits SrcX = 0x08"

primrec balu_bits :: "balu \<Rightarrow> u16" where
  "balu_bits ADD = 0x00" | "balu_bits SUB = 0x10" | "balu_bits MUL = 0x20" | "balu_bits DIV = 0x30"
| "balu_bits BOR = 0x40" | "balu_bits BAND = 0x50" | "balu_bits LSH = 0x60" | "balu_bits RSH = 0x70"
| "balu_bits BMOD = 0x90" | "balu_bits BXOR = 0xa0"

primrec bcond_bits :: "bcond \<Rightarrow> u16" where
  "bcond_bits JEQ = 0x10" | "bcond_bits JGT = 0x20" | "bcond_bits JGE = 0x30" | "bcond_bits JSET = 0x40"

primrec code_of :: "opcode \<Rightarrow> u16" where
  "code_of RET_K = BPF_RET OR 0x00"
| "code_of RET_A = BPF_RET OR 0x10"
| "code_of (LD_ABS sz) = BPF_LD OR bsize_bits sz OR BPF_ABS"
| "code_of (LD_IND sz) = BPF_LD OR bsize_bits sz OR BPF_IND"
| "code_of LD_LEN = BPF_LD OR 0x00 OR BPF_LEN"
| "code_of LD_IMM = BPF_LD OR BPF_IMM"
| "code_of LD_MEM = BPF_LD OR BPF_MEM"
| "code_of LDX_LEN = BPF_LDX OR 0x00 OR BPF_LEN"
| "code_of LDX_MSH = BPF_LDX OR BPF_MSH OR 0x10"
| "code_of LDX_IMM = BPF_LDX OR BPF_IMM"
| "code_of LDX_MEM = BPF_LDX OR BPF_MEM"
| "code_of ST = BPF_ST"
| "code_of STX = BPF_STX"
| "code_of JA = BPF_JMP OR 0x00"
| "code_of (JMP c s) = BPF_JMP OR bcond_bits c OR bsrc_bits s"
| "code_of (ALU a s) = BPF_ALU OR balu_bits a OR bsrc_bits s"
| "code_of NEG = BPF_ALU OR 0x80"
| "code_of TAX = BPF_MISC OR 0x00"
| "code_of TXA = BPF_MISC OR 0x80"

definition opcodes :: "opcode list" where
  "opcodes = [RET_K, RET_A, LD_LEN, LD_IMM, LD_MEM, LDX_LEN, LDX_MSH, LDX_IMM, LDX_MEM, ST, STX, JA, NEG, TAX, TXA] @
     map LD_ABS [SzW, SzH, SzB] @ map LD_IND [SzW, SzH, SzB] @
     concat (map (\<lambda>c. [JMP c SrcK, JMP c SrcX]) [JEQ, JGT, JGE, JSET]) @
     concat (map (\<lambda>a. [ALU a SrcK, ALU a SrcX]) [ADD, SUB, MUL, DIV, BOR, BAND, LSH, RSH, BMOD, BXOR])"

definition decode :: "u16 \<Rightarrow> opcode option" where
  "decode c = find (\<lambda>op. code_of op = c) opcodes"

lemma opcodes_all: "op \<in> set opcodes"
proof (cases op)
  case (LD_ABS sz) then show ?thesis by (cases sz) (simp_all add: opcodes_def)
next
  case (LD_IND sz) then show ?thesis by (cases sz) (simp_all add: opcodes_def)
next
  case (JMP c s) then show ?thesis by (cases c; cases s) (simp_all add: opcodes_def)
next
  case (ALU a s) then show ?thesis by (cases a; cases s) (simp_all add: opcodes_def)
qed (simp_all add: opcodes_def)

lemma codes_distinct: "distinct (map code_of opcodes)"
  by (simp add: opcodes_def)

lemma code_of_inject: "code_of a = code_of b \<longleftrightarrow> a = b"
  using codes_distinct opcodes_all by (metis distinct_map inj_onD)

lemma decode_Some: "decode c = Some op \<longleftrightarrow> c = code_of op"
proof
  assume "decode c = Some op"
  then show "c = code_of op" by (auto simp: decode_def find_Some_iff)
next
  assume "c = code_of op"
  then show "decode c = Some op"
    by (cases "decode c") (use opcodes_all in \<open>auto simp: decode_def find_None_iff find_Some_iff code_of_inject\<close>)
qed

lemma decode_code_of [simp]: "decode (code_of op) = Some op"
  by (simp add: decode_Some)

section \<open>The interpreter\<close>

datatype bpf_fault = Aborted | OutOfProgram | OutOfMem | PacketOverrun | DivZero | ShiftWidth

record bpf_state =
  bpf_pc :: int
  bpf_A :: u32
  bpf_X :: u32
  bpf_mem :: "u32 list"

datatype bpf_result = Running bpf_state | Returned u32 | Broken bpf_fault

text \<open>\<open>n\<close> bytes of the packet at offset \<open>i\<close>, as \<open>EXTRACT_LONG\<close>, \<open>EXTRACT_SHORT\<close> or a subscript read them.\<close>

primrec bsize_len :: "bsize \<Rightarrow> nat" where
  "bsize_len SzW = 4" | "bsize_len SzH = 2" | "bsize_len SzB = 1"

definition load_packet :: "byte list \<Rightarrow> bsize \<Rightarrow> u32 \<Rightarrow> u32 option" where
  "load_packet p sz i = (if unat i + bsize_len sz \<le> length p
     then Some (be_word (take (bsize_len sz) (drop (unat i) p))) else None)"

definition mem_at :: "u32 list \<Rightarrow> u32 \<Rightarrow> u32 option" where
  "mem_at m i = (if unat i < length m then Some (m ! unat i) else None)"

text \<open>The tests of an absolute and of an indexed load against the length of the buffer: the subtraction is
  evaluated only after the test that it does not wrap.\<close>

definition abs_rejected :: "bsize \<Rightarrow> u32 \<Rightarrow> u32 \<Rightarrow> bool" where
  "abs_rejected sz k buflen = (case sz of
     SzB \<Rightarrow> buflen \<le> k
   | _ \<Rightarrow> buflen < k \<or> unat (buflen - k) < bsize_len sz)"

definition ind_rejected :: "bsize \<Rightarrow> u32 \<Rightarrow> u32 \<Rightarrow> u32 \<Rightarrow> bool" where
  "ind_rejected sz x k buflen = (case sz of
     SzW \<Rightarrow> buflen < k \<or> buflen - k < x \<or> unat (buflen - (x + k)) < 4
   | SzH \<Rightarrow> buflen < x \<or> buflen - x < k \<or> unat (buflen - (x + k)) < 2
   | SzB \<Rightarrow> buflen \<le> k \<or> buflen - k \<le> x)"

text \<open>The auxiliary data of a packet on Linux: the tag of the virtual network, and whether there is one; a load
  of a byte at one of two offsets far outside of any packet reads them.\<close>

record pcap_bpf_aux_data =
  vlan_tag_present :: u16
  vlan_tag :: u16

abbreviation SKF_AD_VLAN_TAG :: u32 where "SKF_AD_VLAN_TAG \<equiv> - 0x1000 + 44"
abbreviation SKF_AD_VLAN_TAG_PRESENT :: u32 where "SKF_AD_VLAN_TAG_PRESENT \<equiv> - 0x1000 + 48"

primrec alu :: "balu \<Rightarrow> u32 \<Rightarrow> u32 \<Rightarrow> u32" where
  "alu ADD a b = a + b" | "alu SUB a b = a - b" | "alu MUL a b = a * b" | "alu DIV a b = a div b"
| "alu BOR a b = a OR b" | "alu BAND a b = a AND b"
| "alu LSH a b = push_bit (unat b) a" | "alu RSH a b = drop_bit (unat b) a"
| "alu BMOD a b = a mod b" | "alu BXOR a b = a XOR b"

primrec cond :: "bcond \<Rightarrow> u32 \<Rightarrow> u32 \<Rightarrow> bool" where
  "cond JEQ a b \<longleftrightarrow> a = b" | "cond JGT a b \<longleftrightarrow> b < a" | "cond JGE a b \<longleftrightarrow> b \<le> a"
| "cond JSET a b \<longleftrightarrow> a AND b \<noteq> 0"

text \<open>One instruction; \<open>s\<close> is the state with the program counter at the next one.\<close>

definition or_fault :: "bpf_fault \<Rightarrow> 'a option \<Rightarrow> ('a \<Rightarrow> bpf_result) \<Rightarrow> bpf_result" where
  "or_fault f v g = (case v of None \<Rightarrow> Broken f | Some x \<Rightarrow> g x)"

fun exec_op :: "byte list \<Rightarrow> u32 \<Rightarrow> u32 \<Rightarrow> pcap_bpf_aux_data option \<Rightarrow> bpf_insn \<Rightarrow> opcode \<Rightarrow> bpf_state \<Rightarrow> bpf_result" where
  "exec_op p wirelen buflen aux i RET_K s = Returned (insn_k i)"
| "exec_op p wirelen buflen aux i RET_A s = Returned (bpf_A s)"
| "exec_op p wirelen buflen aux i (LD_ABS sz) s =
    (if sz = SzB \<and> insn_k i = SKF_AD_VLAN_TAG then
       (case aux of None \<Rightarrow> Returned 0 | Some d \<Rightarrow> Running (s\<lparr>bpf_A := ucast (vlan_tag d)\<rparr>))
     else if sz = SzB \<and> insn_k i = SKF_AD_VLAN_TAG_PRESENT then
       (case aux of None \<Rightarrow> Returned 0 | Some d \<Rightarrow> Running (s\<lparr>bpf_A := ucast (vlan_tag_present d)\<rparr>))
     else if abs_rejected sz (insn_k i) buflen then Returned 0
     else or_fault PacketOverrun (load_packet p sz (insn_k i)) (\<lambda>v. Running (s\<lparr>bpf_A := v\<rparr>)))"
| "exec_op p wirelen buflen aux i (LD_IND sz) s =
    (if ind_rejected sz (bpf_X s) (insn_k i) buflen then Returned 0
     else or_fault PacketOverrun (load_packet p sz (bpf_X s + insn_k i)) (\<lambda>v. Running (s\<lparr>bpf_A := v\<rparr>)))"
| "exec_op p wirelen buflen aux i LD_LEN s = Running (s\<lparr>bpf_A := wirelen\<rparr>)"
| "exec_op p wirelen buflen aux i LDX_LEN s = Running (s\<lparr>bpf_X := wirelen\<rparr>)"
| "exec_op p wirelen buflen aux i LDX_MSH s =
    (if buflen \<le> insn_k i then Returned 0
     else or_fault PacketOverrun (load_packet p SzB (insn_k i)) (\<lambda>v. Running (s\<lparr>bpf_X := push_bit 2 (v AND 0xf)\<rparr>)))"
| "exec_op p wirelen buflen aux i LD_IMM s = Running (s\<lparr>bpf_A := insn_k i\<rparr>)"
| "exec_op p wirelen buflen aux i LDX_IMM s = Running (s\<lparr>bpf_X := insn_k i\<rparr>)"
| "exec_op p wirelen buflen aux i LD_MEM s = or_fault OutOfMem (mem_at (bpf_mem s) (insn_k i)) (\<lambda>v. Running (s\<lparr>bpf_A := v\<rparr>))"
| "exec_op p wirelen buflen aux i LDX_MEM s = or_fault OutOfMem (mem_at (bpf_mem s) (insn_k i)) (\<lambda>v. Running (s\<lparr>bpf_X := v\<rparr>))"
| "exec_op p wirelen buflen aux i ST s =
    or_fault OutOfMem (mem_at (bpf_mem s) (insn_k i)) (\<lambda>_. Running (s\<lparr>bpf_mem := (bpf_mem s)[unat (insn_k i) := bpf_A s]\<rparr>))"
| "exec_op p wirelen buflen aux i STX s =
    or_fault OutOfMem (mem_at (bpf_mem s) (insn_k i)) (\<lambda>_. Running (s\<lparr>bpf_mem := (bpf_mem s)[unat (insn_k i) := bpf_X s]\<rparr>))"
| "exec_op p wirelen buflen aux i JA s = Running (s\<lparr>bpf_pc := bpf_pc s + sint (insn_k i)\<rparr>)"
| "exec_op p wirelen buflen aux i (JMP c src) s =
    Running (s\<lparr>bpf_pc := bpf_pc s + uint (if cond c (bpf_A s) (if src = SrcK then insn_k i else bpf_X s) then insn_jt i else insn_jf i)\<rparr>)"
| "exec_op p wirelen buflen aux i (ALU a SrcX) s =
    (if a \<in> {DIV, BMOD} \<and> bpf_X s = 0 then Returned 0
     else if a \<in> {LSH, RSH} \<and> 32 \<le> bpf_X s then Running (s\<lparr>bpf_A := 0\<rparr>)
     else Running (s\<lparr>bpf_A := alu a (bpf_A s) (bpf_X s)\<rparr>))"
| "exec_op p wirelen buflen aux i (ALU a SrcK) s =
    (if a \<in> {DIV, BMOD} \<and> insn_k i = 0 then Broken DivZero
     else if a \<in> {LSH, RSH} \<and> 32 \<le> insn_k i then Broken ShiftWidth
     else Running (s\<lparr>bpf_A := alu a (bpf_A s) (insn_k i)\<rparr>))"
| "exec_op p wirelen buflen aux i NEG s = Running (s\<lparr>bpf_A := 0 - bpf_A s\<rparr>)"
| "exec_op p wirelen buflen aux i TAX s = Running (s\<lparr>bpf_X := bpf_A s\<rparr>)"
| "exec_op p wirelen buflen aux i TXA s = Running (s\<lparr>bpf_A := bpf_X s\<rparr>)"

definition bpf_step :: "bpf_insn list \<Rightarrow> byte list \<Rightarrow> u32 \<Rightarrow> u32 \<Rightarrow> pcap_bpf_aux_data option \<Rightarrow> bpf_state \<Rightarrow> bpf_result" where
  "bpf_step f p wirelen buflen aux s =
    (if bpf_pc s < 0 \<or> int (length f) \<le> bpf_pc s then Broken OutOfProgram
     else let i = f ! nat (bpf_pc s) in
       case decode (insn_code i) of
         None \<Rightarrow> Broken Aborted
       | Some op \<Rightarrow> exec_op p wirelen buflen aux i op (s\<lparr>bpf_pc := bpf_pc s + 1\<rparr>))"

primrec is_running :: "bpf_result \<Rightarrow> bool" where
  "is_running (Running s) \<longleftrightarrow> True" | "is_running (Returned v) \<longleftrightarrow> False" | "is_running (Broken e) \<longleftrightarrow> False"

primrec next_result :: "(bpf_state \<Rightarrow> bpf_result) \<Rightarrow> bpf_result \<Rightarrow> bpf_result" where
  "next_result st (Running s) = st s" | "next_result st (Returned v) = Returned v" | "next_result st (Broken e) = Broken e"

definition bpf_run :: "bpf_insn list \<Rightarrow> byte list \<Rightarrow> u32 \<Rightarrow> u32 \<Rightarrow> pcap_bpf_aux_data option \<Rightarrow> bpf_state \<Rightarrow> bpf_result option" where
  "bpf_run f p wirelen buflen aux s =
    while_option is_running (next_result (bpf_step f p wirelen buflen aux)) (Running s)"

text \<open>\<open>m\<close> is what the scratch memory holds before it is written.\<close>

definition pcap_filter_with_aux_data :: "bpf_insn list option \<Rightarrow> byte list \<Rightarrow> u32 \<Rightarrow> u32 \<Rightarrow> pcap_bpf_aux_data option
    \<Rightarrow> u32 list \<Rightarrow> bpf_result option" where
  "pcap_filter_with_aux_data prog p wirelen buflen aux m = (case prog of
     None \<Rightarrow> Some (Returned (- 1))
   | Some f \<Rightarrow> bpf_run f p wirelen buflen aux \<lparr>bpf_pc = 0, bpf_A = 0, bpf_X = 0, bpf_mem = m\<rparr>)"

definition pcap_filter :: "bpf_insn list option \<Rightarrow> byte list \<Rightarrow> u32 \<Rightarrow> u32 \<Rightarrow> u32 list \<Rightarrow> bpf_result option" where
  "pcap_filter prog p wirelen buflen m = pcap_filter_with_aux_data prog p wirelen buflen None m"

section \<open>The check of a program\<close>

text \<open>The body of the loop for instruction \<open>i\<close> of \<open>len\<close>.\<close>

definition insn_valid :: "u32 \<Rightarrow> u32 \<Rightarrow> bpf_insn \<Rightarrow> bool" where
  "insn_valid len i p =
    (let cls = BPF_CLASS (insn_code p); mode = BPF_MODE (insn_code p); op = BPF_OP (insn_code p); from = i + 1 in
     if cls = BPF_LD \<or> cls = BPF_LDX then
       (if mode = BPF_IMM then True
        else if mode = BPF_ABS \<or> mode = BPF_IND \<or> mode = BPF_MSH then True
        else if mode = BPF_MEM then \<not> of_nat BPF_MEMWORDS \<le> insn_k p
        else mode = BPF_LEN)
     else if cls = BPF_ST \<or> cls = BPF_STX then \<not> of_nat BPF_MEMWORDS \<le> insn_k p
     else if cls = BPF_ALU then
       (if op \<in> {0x00, 0x10, 0x20, 0x40, 0x50, 0xa0, 0x60, 0x70, 0x80} then True
        else if op = 0x30 \<or> op = 0x90 then \<not> (BPF_SRC (insn_code p) = 0x00 \<and> insn_k p = 0)
        else False)
     else if cls = BPF_JMP then
       (if op = 0x00 then \<not> len \<le> from + insn_k p
        else if op \<in> {0x10, 0x20, 0x30, 0x40} then
          \<not> (len \<le> from + ucast (insn_jt p) \<or> len \<le> from + ucast (insn_jf p))
        else False)
     else cls = BPF_RET \<or> cls = BPF_MISC)"

definition pcap_validate_filter :: "bpf_insn list \<Rightarrow> bool" where
  "pcap_validate_filter f =
    (let len = of_nat (length f) :: u32 in
     if sint len < 1 then False
     else list_all (\<lambda>i. insn_valid len (of_nat i) (f ! i)) [0..<length f] \<and>
       BPF_CLASS (insn_code (last f)) = BPF_RET)"

end
