(* ===== verification/Filter_Gen.thy ===== *)
theory Filter_Gen
  imports Bpf
begin

text \<open>
  How the capture library compiles \<open>ether proto N\<close> for an Ethernet device, without its optimizer:
  \<open>libpcap1.10.4/gencode.c\<close> builds a graph of blocks in memory, \<open>icode_to_fcode\<close> of \<open>optimize.c\<close> lays it out as
  a program. Blocks are the elements of a list, a pointer to a block is its index, the null pointer is \<open>None\<close>.
  An operation that ends in \<open>bpf_error\<close> or does not end has the result \<open>None\<close>.
\<close>

section \<open>Blocks and the state of the compiler\<close>

text \<open>A statement; the targets of a jump inside of a block are positions in its list of statements.\<close>

record stmt =
  s_code :: int
  s_jt :: "nat option"
  s_jf :: "nat option"
  s_k :: u32

record block =
  blk_stmts :: "stmt list"
  blk_s :: stmt
  blk_longjt :: nat
  blk_longjf :: nat
  blk_offset :: int
  blk_sense :: bool
  blk_jt :: "nat option"
  blk_jf :: "nat option"
  blk_head :: nat

record bpf_abs_offset =
  constant_part :: u32
  is_variable :: bool
  reg :: int

datatype header = LinkHdr | PrevLinkHdr | LinkPl | LinkType

record compiler_state =
  cs_blocks :: "block list"
  regused :: "bool list"
  curreg :: nat
  cs_snaplen :: u32
  cs_off :: "header \<Rightarrow> bpf_abs_offset"
  off_nl :: u32
  off_nl_nosnap :: u32

datatype e_offrel = OR_PACKET | OR_LINKHDR | OR_PREVLINKHDR | OR_LLC | OR_PREVMPLSHDR | OR_LINKTYPE | OR_LINKPL
  | OR_LINKPL_NOSNAP | OR_TRAN_IPV4 | OR_TRAN_IPV6

definition stmt_of :: "opcode \<Rightarrow> u32 \<Rightarrow> stmt" where
  "stmt_of op v = \<lparr>s_code = uint (code_of op), s_jt = None, s_jf = None, s_k = v\<rparr>"

text \<open>\<open>new_block\<close> takes zeroed memory from a chunk; the sense of a new block is 0.\<close>

definition new_block :: "opcode \<Rightarrow> stmt list \<Rightarrow> u32 \<Rightarrow> compiler_state \<Rightarrow> nat \<times> compiler_state" where
  "new_block op stmts v cs = (length (cs_blocks cs), cs\<lparr>cs_blocks := cs_blocks cs @ [\<lparr>blk_stmts = stmts,
     blk_s = stmt_of op v, blk_longjt = 0, blk_longjf = 0, blk_offset = 0, blk_sense = False, blk_jt = None, blk_jf = None,
     blk_head = length (cs_blocks cs)\<rparr>]\<rparr>)"

definition gen_retblk :: "u32 \<Rightarrow> compiler_state \<Rightarrow> nat \<times> compiler_state" where
  "gen_retblk v = new_block RET_K [] v"

definition upd_block :: "nat \<Rightarrow> (block \<Rightarrow> block) \<Rightarrow> block list \<Rightarrow> block list" where
  "upd_block b g bs = bs[b := g (bs ! b)]"

text \<open>\<open>link_of\<close> is the field that the sense of a block makes the link of its list.\<close>

definition link_of :: "block \<Rightarrow> nat option" where
  "link_of b = (if \<not> blk_sense b then blk_jt b else blk_jf b)"

definition set_link :: "nat option \<Rightarrow> block \<Rightarrow> block" where
  "set_link t b = (if \<not> blk_sense b then b\<lparr>blk_jt := t\<rparr> else b\<lparr>blk_jf := t\<rparr>)"

partial_function (option) backpatch :: "block list \<Rightarrow> nat option \<Rightarrow> nat \<Rightarrow> block list option" where
  "backpatch bs list target = (case list of
     None \<Rightarrow> Some bs
   | Some b \<Rightarrow> backpatch (upd_block b (set_link (Some target)) bs) (link_of (bs ! b)) target)"

partial_function (option) merge :: "block list \<Rightarrow> nat \<Rightarrow> nat \<Rightarrow> block list option" where
  "merge bs b0 b1 = (case link_of (bs ! b0) of
     None \<Rightarrow> Some (upd_block b0 (set_link (Some b1)) bs)
   | Some b \<Rightarrow> merge bs b b1)"

declare backpatch.simps [code] merge.simps [code]

definition flip :: "nat \<Rightarrow> block list \<Rightarrow> block list" where
  "flip b = upd_block b (\<lambda>x. x\<lparr>blk_sense := \<not> blk_sense x\<rparr>)"

abbreviation bind_o :: "'a option \<Rightarrow> ('a \<Rightarrow> 'b option) \<Rightarrow> 'b option" where
  "bind_o \<equiv> Option.bind"

definition gen_and_b :: "nat \<Rightarrow> nat \<Rightarrow> block list \<Rightarrow> block list option" where
  "gen_and_b b0 b1 bs =
    bind_o (backpatch bs (Some b0) (blk_head (bs ! b1))) (\<lambda>bs.
    bind_o (merge (flip b1 (flip b0 bs)) b1 b0) (\<lambda>bs.
    let bs = flip b1 bs in Some (upd_block b1 (\<lambda>x. x\<lparr>blk_head := blk_head (bs ! b0)\<rparr>) bs)))"

definition gen_or_b :: "nat \<Rightarrow> nat \<Rightarrow> block list \<Rightarrow> block list option" where
  "gen_or_b b0 b1 bs =
    bind_o (backpatch (flip b0 bs) (Some b0) (blk_head (bs ! b1))) (\<lambda>bs.
    bind_o (merge (flip b0 bs) b1 b0) (\<lambda>bs.
    Some (upd_block b1 (\<lambda>x. x\<lparr>blk_head := blk_head (bs ! b0)\<rparr>) bs)))"

definition on_blocks :: "(block list \<Rightarrow> block list option) \<Rightarrow> compiler_state \<Rightarrow> compiler_state option" where
  "on_blocks g cs = bind_o (g (cs_blocks cs)) (\<lambda>bs. Some (cs\<lparr>cs_blocks := bs\<rparr>))"

definition gen_and :: "nat \<Rightarrow> nat \<Rightarrow> compiler_state \<Rightarrow> compiler_state option" where
  "gen_and b0 b1 = on_blocks (gen_and_b b0 b1)"

definition gen_or :: "nat \<Rightarrow> nat \<Rightarrow> compiler_state \<Rightarrow> compiler_state option" where
  "gen_or b0 b1 = on_blocks (gen_or_b b0 b1)"

definition gen_not :: "nat \<Rightarrow> compiler_state \<Rightarrow> compiler_state" where
  "gen_not b cs = cs\<lparr>cs_blocks := flip b (cs_blocks cs)\<rparr>"

section \<open>Loads\<close>

text \<open>The scratch words as registers: at most \<open>n\<close> more of them are looked at.\<close>

fun find_reg :: "nat \<Rightarrow> bool list \<Rightarrow> nat \<Rightarrow> (nat \<times> bool list) option" where
  "find_reg 0 used cur = None"
| "find_reg (Suc n) used cur =
    (if used ! cur then find_reg n used ((cur + 1) mod BPF_MEMWORDS) else Some (cur, used[cur := True]))"

definition alloc_reg :: "compiler_state \<Rightarrow> (nat \<times> compiler_state) option" where
  "alloc_reg cs = bind_o (find_reg BPF_MEMWORDS (regused cs) (curreg cs)) (\<lambda>(r, used).
     Some (r, cs\<lparr>curreg := r, regused := used\<rparr>))"

definition gen_abs_offset_varpart :: "header \<Rightarrow> compiler_state \<Rightarrow> (stmt list \<times> compiler_state) option" where
  "gen_abs_offset_varpart h cs =
    (if is_variable (cs_off cs h) then
       (if reg (cs_off cs h) = - 1 then
          bind_o (alloc_reg cs) (\<lambda>(r, cs).
            Some ([stmt_of LDX_MEM (of_nat r)], cs\<lparr>cs_off := (cs_off cs)(h := (cs_off cs h)\<lparr>reg := int r\<rparr>)\<rparr>))
        else Some ([stmt_of LDX_MEM (of_int (reg (cs_off cs h)))], cs))
     else Some ([], cs))"

definition gen_load_absoffsetrel :: "header \<Rightarrow> u32 \<Rightarrow> bsize \<Rightarrow> compiler_state \<Rightarrow> (stmt list \<times> compiler_state) option" where
  "gen_load_absoffsetrel h offset sz cs =
    bind_o (gen_abs_offset_varpart h cs) (\<lambda>(s, cs).
    let at = constant_part (cs_off cs h) + offset in
    Some (if s \<noteq> [] then s @ [stmt_of (LD_IND sz) at] else [stmt_of (LD_ABS sz) at], cs))"

definition gen_loadx_iphdrlen :: "compiler_state \<Rightarrow> (stmt list \<times> compiler_state) option" where
  "gen_loadx_iphdrlen cs =
    bind_o (gen_abs_offset_varpart LinkPl cs) (\<lambda>(s, cs).
    let at = constant_part (cs_off cs LinkPl) + off_nl cs in
    Some (if s \<noteq> [] then s @ [stmt_of (LD_IND SzB) at, stmt_of (ALU BAND SrcK) 0xf, stmt_of (ALU LSH SrcK) 2,
        stmt_of (ALU ADD SrcX) 0, stmt_of TAX 0]
      else [stmt_of LDX_MSH at], cs))"

fun gen_load_a :: "e_offrel \<Rightarrow> u32 \<Rightarrow> bsize \<Rightarrow> compiler_state \<Rightarrow> (stmt list \<times> compiler_state) option" where
  "gen_load_a OR_PACKET offset sz cs = Some ([stmt_of (LD_ABS sz) offset], cs)"
| "gen_load_a OR_LINKHDR offset sz cs = gen_load_absoffsetrel LinkHdr offset sz cs"
| "gen_load_a OR_PREVLINKHDR offset sz cs = gen_load_absoffsetrel PrevLinkHdr offset sz cs"
| "gen_load_a OR_LLC offset sz cs = gen_load_absoffsetrel LinkPl offset sz cs"
| "gen_load_a OR_PREVMPLSHDR offset sz cs = gen_load_absoffsetrel LinkPl (off_nl cs - 4 + offset) sz cs"
| "gen_load_a OR_LINKPL offset sz cs = gen_load_absoffsetrel LinkPl (off_nl cs + offset) sz cs"
| "gen_load_a OR_LINKPL_NOSNAP offset sz cs = gen_load_absoffsetrel LinkPl (off_nl_nosnap cs + offset) sz cs"
| "gen_load_a OR_LINKTYPE offset sz cs = gen_load_absoffsetrel LinkType offset sz cs"
| "gen_load_a OR_TRAN_IPV4 offset sz cs =
    bind_o (gen_loadx_iphdrlen cs) (\<lambda>(s, cs).
      Some (s @ [stmt_of (LD_IND sz) (constant_part (cs_off cs LinkPl) + off_nl cs + offset)], cs))"
| "gen_load_a OR_TRAN_IPV6 offset sz cs = gen_load_absoffsetrel LinkPl (off_nl cs + 40 + offset) sz cs"

section \<open>Comparisons\<close>

definition gen_ncmp :: "e_offrel \<Rightarrow> u32 \<Rightarrow> bsize \<Rightarrow> u32 \<Rightarrow> bcond \<Rightarrow> bool \<Rightarrow> u32 \<Rightarrow> compiler_state
    \<Rightarrow> (nat \<times> compiler_state) option" where
  "gen_ncmp offrel offset sz msk jtype reverse v cs =
    bind_o (gen_load_a offrel offset sz cs) (\<lambda>(s, cs).
    let s = (if msk \<noteq> 0xffffffff then s @ [stmt_of (ALU BAND SrcK) msk] else s);
        (b, cs) = new_block (JMP jtype SrcK) s v cs
    in Some (b, if reverse \<and> (jtype = JGT \<or> jtype = JGE) then gen_not b cs else cs))"

definition gen_cmp :: "e_offrel \<Rightarrow> u32 \<Rightarrow> bsize \<Rightarrow> u32 \<Rightarrow> compiler_state \<Rightarrow> (nat \<times> compiler_state) option" where
  "gen_cmp offrel offset sz v = gen_ncmp offrel offset sz 0xffffffff JEQ False v"

definition gen_cmp_gt :: "e_offrel \<Rightarrow> u32 \<Rightarrow> bsize \<Rightarrow> u32 \<Rightarrow> compiler_state \<Rightarrow> (nat \<times> compiler_state) option" where
  "gen_cmp_gt offrel offset sz v = gen_ncmp offrel offset sz 0xffffffff JGT False v"

text \<open>One step of \<open>gen_bcmp\<close>: the comparison for the bytes at \<open>at\<close>, before the comparisons so far.\<close>

definition and_before :: "nat option \<Rightarrow> nat \<Rightarrow> compiler_state \<Rightarrow> (nat option \<times> compiler_state) option" where
  "and_before b tmp cs = (case b of
     None \<Rightarrow> Some (Some tmp, cs)
   | Some b \<Rightarrow> bind_o (gen_and b tmp cs) (\<lambda>cs. Some (Some tmp, cs)))"

text \<open>The bytes from the end, in groups of four, then two, then one.\<close>

function gen_bcmp_from :: "e_offrel \<Rightarrow> u32 \<Rightarrow> nat \<Rightarrow> byte list \<Rightarrow> nat option \<Rightarrow> compiler_state
    \<Rightarrow> (nat option \<times> compiler_state) option" where
  "gen_bcmp_from offrel offset sz v b cs =
    (if 4 \<le> sz then
       bind_o (gen_cmp offrel (offset + of_nat sz - 4) SzW (be_word (take 4 (drop (sz - 4) v))) cs) (\<lambda>(tmp, cs).
       bind_o (and_before b tmp cs) (\<lambda>(b, cs). gen_bcmp_from offrel offset (sz - 4) v b cs))
     else if 2 \<le> sz then
       bind_o (gen_cmp offrel (offset + of_nat sz - 2) SzH (be_word (take 2 (drop (sz - 2) v))) cs) (\<lambda>(tmp, cs).
       bind_o (and_before b tmp cs) (\<lambda>(b, cs). gen_bcmp_from offrel offset (sz - 2) v b cs))
     else if 0 < sz then
       bind_o (gen_cmp offrel offset SzB (ucast (v ! 0)) cs) (\<lambda>(tmp, cs). and_before b tmp cs)
     else Some (b, cs))"
  by pat_completeness auto
termination by (relation "measure (\<lambda>(offrel, offset, sz, v, b, cs). sz)") auto

definition gen_bcmp :: "e_offrel \<Rightarrow> u32 \<Rightarrow> byte list \<Rightarrow> compiler_state \<Rightarrow> (nat option \<times> compiler_state) option" where
  "gen_bcmp offrel offset v = gen_bcmp_from offrel offset (length v) v None"

section \<open>Ethernet\<close>

definition ETHERMTU :: u32 where "ETHERMTU = 1500"
definition LLCSAP_ISONS :: u32 where "LLCSAP_ISONS = 0xfe"
definition LLCSAP_IP :: u32 where "LLCSAP_IP = 0x06"
definition LLCSAP_NETBEUI :: u32 where "LLCSAP_NETBEUI = 0xf0"
definition LLCSAP_IPX :: u32 where "LLCSAP_IPX = 0xe0"
definition LLCSAP_SNAP :: byte where "LLCSAP_SNAP = 0xaa"
definition ETHERTYPE_ATALK :: u32 where "ETHERTYPE_ATALK = 0x809b"
definition ETHERTYPE_AARP :: u32 where "ETHERTYPE_AARP = 0x80f3"
definition ETHERTYPE_IPX :: u32 where "ETHERTYPE_IPX = 0x8137"

definition gen_snap :: "u32 \<Rightarrow> u32 \<Rightarrow> compiler_state \<Rightarrow> (nat \<times> compiler_state) option" where
  "gen_snap orgcode ptype cs =
    bind_o (gen_bcmp OR_LLC 0 [LLCSAP_SNAP, LLCSAP_SNAP, 0x03, ucast (drop_bit 16 orgcode), ucast (drop_bit 8 orgcode),
      ucast orgcode, ucast (drop_bit 8 ptype), ucast ptype] cs) (\<lambda>(b, cs). bind_o b (\<lambda>b. Some (b, cs)))"

definition gen_ether_linktype :: "u32 \<Rightarrow> compiler_state \<Rightarrow> (nat \<times> compiler_state) option" where
  "gen_ether_linktype ll_proto cs =
    (if ll_proto \<in> {LLCSAP_ISONS, LLCSAP_IP, LLCSAP_NETBEUI} then
       bind_o (gen_cmp_gt OR_LINKTYPE 0 SzH ETHERMTU cs) (\<lambda>(b0, cs).
       bind_o (gen_cmp OR_LLC 0 SzH (push_bit 8 ll_proto OR ll_proto) (gen_not b0 cs)) (\<lambda>(b1, cs).
       bind_o (gen_and b0 b1 cs) (\<lambda>cs. Some (b1, cs))))
     else if ll_proto = LLCSAP_IPX then
       bind_o (gen_cmp OR_LLC 0 SzB LLCSAP_IPX cs) (\<lambda>(b0, cs).
       bind_o (gen_cmp OR_LLC 0 SzH 0xFFFF cs) (\<lambda>(b1, cs).
       bind_o (gen_or b0 b1 cs) (\<lambda>cs.
       bind_o (gen_snap 0x000000 ETHERTYPE_IPX cs) (\<lambda>(b0, cs).
       bind_o (gen_or b0 b1 cs) (\<lambda>cs.
       bind_o (gen_cmp_gt OR_LINKTYPE 0 SzH ETHERMTU cs) (\<lambda>(b0, cs).
       bind_o (gen_and b0 b1 (gen_not b0 cs)) (\<lambda>cs.
       bind_o (gen_cmp OR_LINKTYPE 0 SzH ETHERTYPE_IPX cs) (\<lambda>(b0, cs).
       bind_o (gen_or b0 b1 cs) (\<lambda>cs. Some (b1, cs))))))))))
     else if ll_proto = ETHERTYPE_ATALK \<or> ll_proto = ETHERTYPE_AARP then
       bind_o (gen_cmp_gt OR_LINKTYPE 0 SzH ETHERMTU cs) (\<lambda>(b0, cs).
       bind_o (if ll_proto = ETHERTYPE_ATALK then gen_snap 0x080007 ETHERTYPE_ATALK (gen_not b0 cs)
               else gen_snap 0x000000 ETHERTYPE_AARP (gen_not b0 cs)) (\<lambda>(b1, cs).
       bind_o (gen_and b0 b1 cs) (\<lambda>cs.
       bind_o (gen_cmp OR_LINKTYPE 0 SzH ll_proto cs) (\<lambda>(b0, cs).
       bind_o (gen_or b0 b1 cs) (\<lambda>cs. Some (b1, cs))))))
     else if ll_proto \<le> ETHERMTU then
       bind_o (gen_cmp_gt OR_LINKTYPE 0 SzH ETHERMTU cs) (\<lambda>(b0, cs).
       bind_o (gen_cmp OR_LINKTYPE 2 SzB ll_proto (gen_not b0 cs)) (\<lambda>(b1, cs).
       bind_o (gen_and b0 b1 cs) (\<lambda>cs. Some (b1, cs))))
     else gen_cmp OR_LINKTYPE 0 SzH ll_proto cs)"

text \<open>\<open>init_linktype\<close> for Ethernet.\<close>

definition init_en10mb :: "u32 \<Rightarrow> compiler_state" where
  "init_en10mb snaplen = \<lparr>cs_blocks = [], regused = replicate BPF_MEMWORDS False, curreg = 0, cs_snaplen = snaplen,
     cs_off = (\<lambda>h. \<lparr>constant_part = (case h of LinkType \<Rightarrow> 12 | LinkPl \<Rightarrow> 14 | _ \<Rightarrow> 0), is_variable = False, reg = - 1\<rparr>),
     off_nl = 0, off_nl_nosnap = 3\<rparr>"

text \<open>\<open>finish_parse\<close>; for Ethernet there are no lengths to compute first and no check of a per-packet header.\<close>

definition finish_parse :: "nat \<Rightarrow> compiler_state \<Rightarrow> (nat \<times> compiler_state) option" where
  "finish_parse p cs =
    (let (r1, cs) = gen_retblk (cs_snaplen cs) cs in
     bind_o (on_blocks (\<lambda>bs. backpatch bs (Some p) r1) cs) (\<lambda>cs.
     let (r0, cs) = gen_retblk 0 (gen_not p cs) in
     bind_o (on_blocks (\<lambda>bs. backpatch bs (Some p) r0) cs) (\<lambda>cs.
     Some (blk_head (cs_blocks cs ! p), cs))))"

end
