(* ===== verification/Filter_Code.thy ===== *)
theory Filter_Code
  imports Filter_Gen
begin

text \<open>
  From the graph of blocks to a program: \<open>icode_to_fcode\<close> and \<open>convert_code_r\<close> of \<open>libpcap1.10.4/optimize.c\<close>.
  The blocks are laid out from the end of the program backwards, a block before its successors; a branch that is
  too long for its eight bits goes over an extra jump, for which the layout starts again.
\<close>

section \<open>Counting\<close>

definition NOP :: int where "NOP = - 1"

definition slength :: "stmt list \<Rightarrow> nat" where
  "slength ss = length (filter (\<lambda>s. s_code s \<noteq> NOP) ss)"

text \<open>The marks are the list of marked blocks.\<close>

partial_function (option) count_stmts :: "block list \<Rightarrow> nat option \<Rightarrow> nat list \<Rightarrow> (nat \<times> nat list) option" where
  "count_stmts bs p marks = (case p of
     None \<Rightarrow> Some (0, marks)
   | Some b \<Rightarrow>
       if b \<in> set marks then Some (0, marks)
       else bind_o (count_stmts bs (blk_jt (bs ! b)) (b # marks)) (\<lambda>(n, marks).
            bind_o (count_stmts bs (blk_jf (bs ! b)) marks) (\<lambda>(m, marks).
            Some (slength (blk_stmts (bs ! b)) + (n + m) + 1 + blk_longjt (bs ! b) + blk_longjf (bs ! b), marks))))"

section \<open>Conversion\<close>

record conv_state =
  fp :: "bpf_insn list"
  ftail :: nat
  cv_blocks :: "block list"
  cv_marks :: "nat list"

definition zero_insn :: bpf_insn where
  "zero_insn = \<lparr>insn_code = 0, insn_jt = 0, insn_jf = 0, insn_k = 0\<rparr>"

text \<open>The target of a jump inside of a block: the distance in the array of the first \<open>slen\<close> statements.\<close>

definition local_target :: "nat \<Rightarrow> nat \<Rightarrow> nat option \<Rightarrow> byte option" where
  "local_target slen off t = bind_o t (\<lambda>i.
     if i < slen \<and> (of_nat i - of_nat off - 1 :: u32) < 256 then Some (of_nat i - of_nat off - 1) else None)"

definition convert_stmt :: "nat \<Rightarrow> nat \<Rightarrow> stmt \<Rightarrow> bpf_insn option" where
  "convert_stmt slen off s =
    (let code = word_of_int (s_code s);
         i = \<lparr>insn_code = code, insn_jt = 0, insn_jf = 0, insn_k = s_k s\<rparr> in
     if BPF_CLASS code \<noteq> BPF_JMP \<or> code = code_of JA then Some i
     else if (of_nat off :: u32) = of_nat slen - 2 then Some i
     else bind_o (local_target slen off (s_jt s)) (\<lambda>t. bind_o (local_target slen off (s_jf s)) (\<lambda>f.
       Some (i\<lparr>insn_jt := t, insn_jf := f\<rparr>))))"

fun convert_stmts :: "nat \<Rightarrow> nat \<Rightarrow> stmt list \<Rightarrow> bpf_insn list option" where
  "convert_stmts slen off [] = Some []"
| "convert_stmts slen off (s # ss) =
    (if s_code s = NOP then convert_stmts slen off ss
     else bind_o (convert_stmt slen off s) (\<lambda>i. bind_o (convert_stmts slen (off + 1) ss) (\<lambda>is. Some (i # is))))"

definition put_insns :: "nat \<Rightarrow> bpf_insn list \<Rightarrow> conv_state \<Rightarrow> conv_state" where
  "put_insns at is cv = cv\<lparr>fp := take at (fp cv) @ is @ drop (at + length is) (fp cv)\<rparr>"

text \<open>The branch of a block at \<open>p\<close>. The result is the instructions from the branch on, or the wish for an extra
  jump on one of its sides.\<close>

datatype branch = Insns "bpf_insn list" | LongTrue | LongFalse

definition jump_insn :: "u32 \<Rightarrow> bpf_insn" where
  "jump_insn v = \<lparr>insn_code = code_of JA, insn_jt = 0, insn_jf = 0, insn_k = v\<rparr>"

definition convert_branch :: "block \<Rightarrow> int \<Rightarrow> int \<Rightarrow> nat \<Rightarrow> branch" where
  "convert_branch b offt offf slen =
    (let i = \<lparr>insn_code = word_of_int (s_code (blk_s b)), insn_jt = 0, insn_jf = 0, insn_k = s_k (blk_s b)\<rparr>;
         off = word_of_int (offt - (blk_offset b + int slen) - 1) :: u32 in
     if 256 \<le> off \<and> blk_longjt b = 0 then LongTrue
     else
       let (i, extra) = (if 256 \<le> off then (i\<lparr>insn_jt := 0\<rparr>, [jump_insn (off - 1)]) else (i\<lparr>insn_jt := ucast off\<rparr>, []));
           off = word_of_int (offf - (blk_offset b + int slen) - 1) :: u32 in
       if 256 \<le> off \<and> blk_longjf b = 0 then LongFalse
       else if 256 \<le> off then
         Insns (i\<lparr>insn_jf := of_nat (length extra)\<rparr> # extra @ [jump_insn (off - of_nat (length extra + 1))])
       else Insns (i\<lparr>insn_jf := ucast off\<rparr> # extra))"

text \<open>\<open>None\<close> is an error; otherwise whether the conversion is complete.\<close>

partial_function (option) convert_code_r :: "nat option \<Rightarrow> conv_state \<Rightarrow> (bool \<times> conv_state) option" where
  "convert_code_r p cv = (case p of
     None \<Rightarrow> Some (True, cv)
   | Some b \<Rightarrow>
       if b \<in> set (cv_marks cv) then Some (True, cv)
       else bind_o (convert_code_r (blk_jf (cv_blocks cv ! b)) (cv\<lparr>cv_marks := b # cv_marks cv\<rparr>)) (\<lambda>(ok, cv).
         if \<not> ok then Some (False, cv)
         else bind_o (convert_code_r (blk_jt (cv_blocks cv ! b)) cv) (\<lambda>(ok, cv).
         if \<not> ok then Some (False, cv)
         else
           let x = cv_blocks cv ! b; slen = slength (blk_stmts x);
               at = ftail cv - (slen + 1 + blk_longjt x + blk_longjf x);
               x = x\<lparr>blk_offset := int at\<rparr>;
               cv = cv\<lparr>ftail := at, cv_blocks := (cv_blocks cv)[b := x]\<rparr> in
           bind_o (convert_stmts slen 0 (blk_stmts x)) (\<lambda>is.
           let cv = put_insns at is cv in
           case blk_jt x of
             None \<Rightarrow> Some (True, put_insns (at + slen)
               [\<lparr>insn_code = word_of_int (s_code (blk_s x)), insn_jt = 0, insn_jf = 0, insn_k = s_k (blk_s x)\<rparr>] cv)
           | Some t \<Rightarrow> bind_o (blk_jf x) (\<lambda>f.
               case convert_branch x (blk_offset (cv_blocks cv ! t)) (blk_offset (cv_blocks cv ! f)) slen of
                 LongTrue \<Rightarrow> Some (False, cv\<lparr>cv_blocks := upd_block b (\<lambda>x. x\<lparr>blk_longjt := blk_longjt x + 1\<rparr>) (cv_blocks cv)\<rparr>)
               | LongFalse \<Rightarrow> Some (False, cv\<lparr>cv_blocks := upd_block b (\<lambda>x. x\<lparr>blk_longjf := blk_longjf x + 1\<rparr>) (cv_blocks cv)\<rparr>)
               | Insns is \<Rightarrow> Some (True, put_insns (at + slen) is cv))))))"

partial_function (option) icode_to_fcode :: "block list \<Rightarrow> nat \<Rightarrow> bpf_insn list option" where
  "icode_to_fcode bs root =
    bind_o (count_stmts bs (Some root) []) (\<lambda>(n, _).
    bind_o (convert_code_r (Some root) \<lparr>fp = replicate n zero_insn, ftail = n, cv_blocks = bs, cv_marks = []\<rparr>) (\<lambda>(ok, cv).
    if ok then Some (fp cv) else icode_to_fcode (cv_blocks cv) root))"

declare count_stmts.simps [code] convert_code_r.simps [code] icode_to_fcode.simps [code]

text \<open>\<open>pcap_compile\<close> of \<open>ether proto v\<close> for a handle of link type \<open>DLT_EN10MB\<close> (the branch for Ethernet in \<open>init_linktype\<close> and in
  \<open>gen_linktype\<close>; other link types are not modelled), with the optimizer turned off, as the programs call it: the action of the
  parser is \<open>gen_ncode\<close>, which reaches \<open>gen_ether_linktype\<close> through \<open>gen_proto\<close> and \<open>gen_linktype\<close>.\<close>

definition compile_ether_proto :: "u32 \<Rightarrow> u32 \<Rightarrow> bpf_insn list option" where
  "compile_ether_proto snaplen v =
    (if snaplen = 0 then None
     else bind_o (gen_ether_linktype v (init_en10mb snaplen)) (\<lambda>(b, cs).
       bind_o (finish_parse b cs) (\<lambda>(root, cs). icode_to_fcode (cs_blocks cs) root)))"

end
