(* ===== verification/Bpf_Valid.thy ===== *)
theory Bpf_Valid
  imports Bpf
begin

text \<open>
  What the check of a filter program gives, and what it does not.
\<close>

section \<open>Loads stay inside the packet\<close>

lemma load_packet_abs:
  assumes "\<not> abs_rejected sz i buflen" "unat buflen \<le> length p"
  shows "load_packet p sz i \<noteq> None"
  using assms by (cases sz) (auto simp: abs_rejected_def load_packet_def word_le_nat_alt word_less_nat_alt unat_sub)

lemma load_packet_ind:
  assumes "\<not> ind_rejected sz x i buflen" "unat buflen \<le> length p"
  shows "load_packet p sz (x + i) \<noteq> None"
proof -
  have le: "unat x + unat i \<le> unat buflen \<and> (sz = SzB \<longrightarrow> unat x + unat i < unat buflen)"
    using assms(1) by (cases sz) (auto simp: ind_rejected_def word_le_nat_alt word_less_nat_alt unat_sub)
  then have s: "unat (x + i) = unat x + unat i"
    using unat_add_lem [of x i] unat_u32_less [of buflen] by simp
  show ?thesis
  proof (cases sz)
    case SzB
    then show ?thesis using le s assms(2) by (simp add: load_packet_def)
  next
    case SzH
    then have "2 \<le> unat (buflen - (x + i))" using assms(1) by (simp add: ind_rejected_def)
    then show ?thesis using SzH le s assms(2) by (simp add: load_packet_def unat_sub word_le_nat_alt)
  next
    case SzW
    then have "4 \<le> unat (buflen - (x + i))" using assms(1) by (simp add: ind_rejected_def)
    then show ?thesis using SzW le s assms(2) by (simp add: load_packet_def unat_sub word_le_nat_alt)
  qed
qed

section \<open>One step of a checked program\<close>

lemmas class_defs = BPF_CLASS_def BPF_MODE_def BPF_OP_def BPF_SRC_def

text \<open>What the check says of an instruction that the interpreter knows.\<close>

lemma valid_mem:
  assumes "insn_valid len i p" "insn_code p = code_of op" "op \<in> {LD_MEM, LDX_MEM, ST, STX}"
  shows "unat (insn_k p) < 16"
  using assms by (auto simp: insn_valid_def class_defs BPF_MEMWORDS_def word_le_nat_alt)

lemma valid_div:
  assumes "insn_valid len i p" "insn_code p = code_of (ALU a SrcK)" "a \<in> {DIV, BMOD}"
  shows "insn_k p \<noteq> 0"
  using assms by (auto simp: insn_valid_def class_defs)

lemma valid_ja:
  assumes "insn_valid len i p" "insn_code p = code_of JA"
  shows "i + 1 + insn_k p < len"
  using assms by (simp add: insn_valid_def class_defs)

lemma valid_jmp:
  assumes "insn_valid len i p" "insn_code p = code_of (JMP c s)"
  shows "i + 1 + ucast (insn_jt p) < len \<and> i + 1 + ucast (insn_jf p) < len"
  using assms by (cases c; cases s) (simp_all add: insn_valid_def class_defs Let_def not_le)

lemma class_ret: "BPF_CLASS (code_of op) = BPF_RET \<longleftrightarrow> op \<in> {RET_K, RET_A}"
proof (cases op)
  case (LD_ABS sz) then show ?thesis by (cases sz) (simp_all add: class_defs)
next
  case (LD_IND sz) then show ?thesis by (cases sz) (simp_all add: class_defs)
next
  case (JMP c s) then show ?thesis by (cases c; cases s) (simp_all add: class_defs)
next
  case (ALU a s) then show ?thesis by (cases a; cases s) (simp_all add: class_defs)
qed (simp_all add: class_defs)

text \<open>The state while a checked program runs.\<close>

definition inside :: "bpf_insn list \<Rightarrow> bpf_state \<Rightarrow> bool" where
  "inside f s \<longleftrightarrow> 0 \<le> bpf_pc s \<and> bpf_pc s < int (length f) \<and> length (bpf_mem s) = BPF_MEMWORDS"

text \<open>What a step may come to: the end, the next state, and two faults that the check does not exclude.\<close>

fun harmless :: "bpf_insn list \<Rightarrow> bpf_result \<Rightarrow> bool" where
  "harmless f (Running s) \<longleftrightarrow> inside f s"
| "harmless f (Returned v) \<longleftrightarrow> True"
| "harmless f (Broken e) \<longleftrightarrow> e \<in> {Aborted, ShiftWidth}"

lemma jump_target:
  assumes "i < n" "n < 2 ^ 31" "of_nat i + 1 + (d :: u32) < of_nat n"
  shows "0 \<le> int i + 1 + sint d \<and> int i + 1 + sint d < int n"
proof -
  have n: "uint (of_nat n :: u32) = int n" using assms(2) by (simp add: unsigned_of_nat take_bit_nat_eq_self)
  have "uint (of_nat i + 1 + d) = (int i + 1 + sint d) mod 2 ^ 32"
  proof -
    have "of_nat i + 1 + d = word_of_int (int i + 1 + sint d)" by simp
    then show ?thesis by (simp only: unsigned_of_int take_bit_eq_mod) simp
  qed
  then have m: "(int i + 1 + sint d) mod 2 ^ 32 < int n" using assms(3) n by (simp add: word_less_def)
  have d: "- (2 ^ 31) \<le> sint d" "sint d < 2 ^ 31"
    using sint_ge [of d] sint_less [of d] by simp_all
  show ?thesis
  proof (cases "0 \<le> int i + 1 + sint d")
    case True
    then show ?thesis using m d assms(1,2) by simp
  next
    case False
    then have "(int i + 1 + sint d) mod 2 ^ 32 = int i + 1 + sint d + 2 ^ 32"
      using d mod_add_self2 [of "int i + 1 + sint d" "2 ^ 32"] by (subst (asm) mod_pos_pos_trivial) simp_all
    then show ?thesis using m d assms(2) by simp
  qed
qed

lemma sint_ucast_byte: "sint (ucast (b :: byte) :: u32) = uint b"
proof -
  have b: "uint b < 256" "- 2147483648 \<le> uint b"
    using unsigned_less [of b, where ?'a = int] uint_ge_0 [of b] by (simp, linarith)
  then have "signed_take_bit 31 (uint b) = uint b" by (intro signed_take_bit_int_eq_self) simp_all
  then show ?thesis using b by (simp add: sint_uint unsigned_ucast_eq take_bit_int_eq_self)
qed

lemma valid_parts:
  assumes "pcap_validate_filter f" "length f < 2 ^ 31"
  shows "f \<noteq> []" and "i < length f \<Longrightarrow> insn_valid (of_nat (length f)) (of_nat i) (f ! i)"
    and "BPF_CLASS (insn_code (last f)) = BPF_RET"
  using assms by (auto simp: pcap_validate_filter_def Let_def list_all_iff split: if_splits)

lemma valid_falls_through:
  assumes "pcap_validate_filter f" "length f < 2 ^ 31" "i < length f" "insn_code (f ! i) = code_of op"
    "op \<notin> {RET_K, RET_A}"
  shows "Suc i < length f"
proof (rule ccontr)
  assume "\<not> Suc i < length f"
  then have "length f - 1 = i" using assms(3) by simp
  then have "last f = f ! i" using valid_parts(1) [OF assms(1,2)] by (simp add: last_conv_nth)
  then show False using valid_parts(3) [OF assms(1,2)] assms(4,5) class_ret [of op] by simp
qed

lemma valid_step:
  assumes "pcap_validate_filter f" "length f < 2 ^ 31" "unat buflen \<le> length p" "inside f s"
  shows "harmless f (bpf_step f p wirelen buflen aux s)"
proof -
  obtain i where i: "bpf_pc s = int i" "i < length f" using assms(4) by (auto simp: inside_def intro: nonneg_int_cases)
  have v: "insn_valid (of_nat (length f)) (of_nat i) (f ! i)" by (rule valid_parts(2) [OF assms(1,2) i(2)])
  have st: "bpf_step f p wirelen buflen aux s = (case decode (insn_code (f ! i)) of None \<Rightarrow> Broken Aborted
      | Some op \<Rightarrow> exec_op p wirelen buflen aux (f ! i) op (s\<lparr>bpf_pc := int i + 1\<rparr>))"
    using i by (simp add: bpf_step_def Let_def cong: option.case_cong)
  have m: "length (bpf_mem s) = 16" using assms(4) by (simp add: inside_def BPF_MEMWORDS_def)
  show ?thesis
  proof (cases "decode (insn_code (f ! i))")
    case None
    then show ?thesis by (simp add: st)
  next
    case (Some op)
    then have c: "insn_code (f ! i) = code_of op" by (simp add: decode_Some)
    have nx: "op \<notin> {RET_K, RET_A} \<Longrightarrow> int i + 1 < int (length f)"
      using valid_falls_through [OF assms(1,2) i(2) c] by simp
    have ja: "op = JA \<Longrightarrow> 0 \<le> int i + 1 + sint (insn_k (f ! i)) \<and> int i + 1 + sint (insn_k (f ! i)) < int (length f)"
      using valid_ja [OF v] c jump_target [OF i(2) assms(2)] by simp
    show ?thesis
    proof (cases op)
      case (LD_ABS sz)
      then show ?thesis using nx m load_packet_abs [OF _ assms(3), of sz "insn_k (f ! i)"]
        by (auto simp: st Some inside_def or_fault_def BPF_MEMWORDS_def split: option.splits)
    next
      case (LD_IND sz)
      then show ?thesis using nx m load_packet_ind [OF _ assms(3), of sz "bpf_X s" "insn_k (f ! i)"]
        by (cases "ind_rejected sz (bpf_X s) (insn_k (f ! i)) buflen")
          (auto simp: st Some inside_def or_fault_def BPF_MEMWORDS_def split: option.splits)
    next
      case LDX_MSH
      then show ?thesis using nx m load_packet_abs [OF _ assms(3), of SzB "insn_k (f ! i)"]
        by (cases "buflen \<le> insn_k (f ! i)")
          (auto simp: st Some inside_def or_fault_def BPF_MEMWORDS_def abs_rejected_def split: option.splits)
    next
      case (JMP b src)
      have "of_nat i + 1 + ucast (insn_jt (f ! i)) < (of_nat (length f) :: u32)"
        "of_nat i + 1 + ucast (insn_jf (f ! i)) < (of_nat (length f) :: u32)"
        using valid_jmp [OF v] c JMP by blast+
      from this [THEN jump_target [OF i(2) assms(2)]] show ?thesis using m
        by (auto simp: st Some JMP inside_def BPF_MEMWORDS_def sint_ucast_byte)
    next
      case (ALU a src)
      have "src = SrcK \<Longrightarrow> a \<in> {DIV, BMOD} \<Longrightarrow> insn_k (f ! i) \<noteq> 0"
        using valid_div [OF v] c ALU by blast
      then show ?thesis using ALU nx m
        by (cases src) (auto simp: st Some inside_def BPF_MEMWORDS_def)
    qed (use nx ja m valid_mem [OF v c] in \<open>auto simp: st Some inside_def or_fault_def mem_at_def BPF_MEMWORDS_def\<close>)
  qed
qed


section \<open>A run of a checked program\<close>

lemma run_harmless:
  assumes "pcap_validate_filter f" "length f < 2 ^ 31" "unat buflen \<le> length p" "inside f s"
    and "bpf_run f p wirelen buflen aux s = Some r"
  shows "harmless f r \<and> \<not> is_running r"
proof
  show "harmless f r"
  proof (rule while_option_rule [OF _ assms(5) [unfolded bpf_run_def]])
    fix r assume "harmless f r" "is_running r"
    then show "harmless f (next_result (bpf_step f p wirelen buflen aux) r)"
      using valid_step [OF assms(1-3)] by (cases r) auto
  qed (simp add: assms(4))
  show "\<not> is_running r" using while_option_stop assms(5) unfolding bpf_run_def by metis
qed

text \<open>A program without backward jumps.\<close>

definition forward :: "bpf_insn list \<Rightarrow> bool" where
  "forward f \<longleftrightarrow> list_all (\<lambda>p. insn_code p = code_of JA \<longrightarrow> 0 \<le> sint (insn_k p)) f"

lemma step_advances:
  assumes "forward f" "bpf_step f p wirelen buflen aux s = Running s'"
  shows "bpf_pc s < bpf_pc s' \<and> bpf_pc s < int (length f)"
proof -
  from assms(2) obtain op where i: "0 \<le> bpf_pc s" "bpf_pc s < int (length f)"
    "insn_code (f ! nat (bpf_pc s)) = code_of op"
    and e: "exec_op p wirelen buflen aux (f ! nat (bpf_pc s)) op (s\<lparr>bpf_pc := bpf_pc s + 1\<rparr>) = Running s'"
    by (auto simp: bpf_step_def Let_def decode_Some split: if_splits option.splits)
  have "f ! nat (bpf_pc s) \<in> set f" using i(1,2) by simp
  then have ja: "op = JA \<Longrightarrow> 0 \<le> sint (insn_k (f ! nat (bpf_pc s)))"
    using assms(1) i(3) by (auto simp: forward_def list_all_iff)
  have "bpf_pc s < bpf_pc s'"
  proof (cases op)
    case (ALU a src)
    then show ?thesis using e by (cases src) (auto split: if_splits)
  qed (use e ja in \<open>auto simp: or_fault_def add_pos_nonneg split: if_splits option.splits\<close>)
  then show ?thesis using i(2) by simp
qed

primrec to_go :: "bpf_insn list \<Rightarrow> bpf_result \<Rightarrow> nat" where
  "to_go f (Running s) = Suc (nat (int (length f) - bpf_pc s))"
| "to_go f (Returned v) = 0"
| "to_go f (Broken e) = 0"

lemma run_returns:
  assumes "forward f"
  shows "\<exists>r. bpf_run f p wirelen buflen aux s = Some r"
  unfolding bpf_run_def
proof (rule measure_while_option_Some [where P = "\<lambda>_. True" and f = "to_go f"])
  fix r :: bpf_result assume "is_running r"
  then obtain s where r: "r = Running s" by (cases r) simp_all
  show "True \<and> to_go f (next_result (bpf_step f p wirelen buflen aux) r) < to_go f r"
  proof (cases "bpf_step f p wirelen buflen aux s")
    case (Running s')
    then show ?thesis using step_advances [OF assms Running] by (simp add: r)
  qed (simp_all add: r)
qed simp

text \<open>A program whose instructions the interpreter knows and whose constant shifts are defined.\<close>

definition known :: "bpf_insn list \<Rightarrow> bool" where
  "known f \<longleftrightarrow> list_all (\<lambda>p. decode (insn_code p) \<noteq> None \<and>
     (insn_code p \<in> {code_of (ALU LSH SrcK), code_of (ALU RSH SrcK)} \<longrightarrow> insn_k p < 32)) f"

lemma step_known:
  assumes "known f"
  shows "bpf_step f p wirelen buflen aux s \<notin> {Broken Aborted, Broken ShiftWidth}"
proof (cases "bpf_pc s < 0 \<or> int (length f) \<le> bpf_pc s")
  case True
  then show ?thesis by (auto simp: bpf_step_def)
next
  case False
  then have "f ! nat (bpf_pc s) \<in> set f" by (intro nth_mem) linarith
  then have kn: "decode (insn_code (f ! nat (bpf_pc s))) \<noteq> None"
    "insn_code (f ! nat (bpf_pc s)) \<in> {code_of (ALU LSH SrcK), code_of (ALU RSH SrcK)} \<longrightarrow> insn_k (f ! nat (bpf_pc s)) < 32"
    using assms by (auto simp: known_def list_all_iff)
  then obtain op where op: "decode (insn_code (f ! nat (bpf_pc s))) = Some op" by blast
  then have c: "insn_code (f ! nat (bpf_pc s)) = code_of op" by (simp add: decode_Some)
  show ?thesis
  proof (cases op)
    case (ALU a src)
    then show ?thesis using False op kn(2) c
      by (cases src) (auto simp: bpf_step_def Let_def code_of_inject)
  qed (use False op in \<open>auto simp: bpf_step_def Let_def or_fault_def split: option.splits\<close>)
qed


lemma run_known:
  assumes "known f" "bpf_run f p wirelen buflen aux s = Some r"
  shows "r \<notin> {Broken Aborted, Broken ShiftWidth}"
proof (rule while_option_rule [OF _ assms(2) [unfolded bpf_run_def], where P = "\<lambda>r. r \<notin> {Broken Aborted, Broken ShiftWidth}"])
  fix r assume "r \<notin> {Broken Aborted, Broken ShiftWidth}" "is_running r"
  then show "next_result (bpf_step f p wirelen buflen aux) r \<notin> {Broken Aborted, Broken ShiftWidth}"
    using step_known [OF assms(1)] by (cases r) auto
qed simp

lemma program_safe:
  assumes "pcap_validate_filter f" "length f < 2 ^ 31" "unat buflen \<le> length p" "length m = BPF_MEMWORDS"
    and "pcap_filter_with_aux_data (Some f) p wirelen buflen aux m = Some r"
  shows "(\<exists>v. r = Returned v) \<or> r = Broken Aborted \<or> r = Broken ShiftWidth"
proof -
  have "inside f \<lparr>bpf_pc = 0, bpf_A = 0, bpf_X = 0, bpf_mem = m\<rparr>"
    using valid_parts(1) [OF assms(1,2)] assms(4) by (simp add: inside_def)
  then have "harmless f r \<and> \<not> is_running r"
    using assms(5) by (intro run_harmless [OF assms(1-3)]) (simp_all add: pcap_filter_with_aux_data_def)
  then show ?thesis by (cases r) auto
qed

lemma program_returns:
  assumes "pcap_validate_filter f" "length f < 2 ^ 31" "unat buflen \<le> length p" "length m = BPF_MEMWORDS"
    and "forward f" "known f"
  shows "\<exists>v. pcap_filter_with_aux_data (Some f) p wirelen buflen aux m = Some (Returned v)"
proof -
  let ?s = "\<lparr>bpf_pc = 0, bpf_A = 0, bpf_X = 0, bpf_mem = m\<rparr>"
  obtain r where r: "bpf_run f p wirelen buflen aux ?s = Some r" using run_returns [OF assms(5)] by blast
  have i: "inside f ?s" using valid_parts(1) [OF assms(1,2)] assms(4) by (simp add: inside_def)
  show ?thesis
    using run_harmless [OF assms(1-3) i r] run_known [OF assms(6) r] r
    by (cases r) (auto simp: pcap_filter_with_aux_data_def)
qed

text \<open>C35: what the check of a program guarantees. Whatever the packet, the auxiliary data and the contents of
  the scratch memory are, a run of a program that passed the check executes only instructions of the program,
  uses only the sixteen words of the scratch memory, reads only bytes of the packet, and does not divide by
  zero: it returns a number, never ends, or stops in one of two ways that the check does not exclude, an
  instruction that the interpreter does not know and a constant shift by 32 or more.\<close>

theorem checked_program_is_safe:
  assumes "pcap_validate_filter f" "length f < 2 ^ 31" "unat buflen \<le> length p" "length m = BPF_MEMWORDS"
    and "pcap_filter_with_aux_data (Some f) p wirelen buflen aux m = Some r"
  shows "(\<exists>v. r = Returned v) \<or> r = Broken Aborted \<or> r = Broken ShiftWidth"
  using assms by (rule program_safe)

text \<open>What it takes beyond the check. A program that passed it, has no backward jumps, and consists of
  instructions that the interpreter knows, with constant shifts by less than 32, returns a number for every
  packet.\<close>

lemma checked_program_returns:
  assumes "pcap_validate_filter f" "length f < 2 ^ 31" "unat buflen \<le> length p" "length m = BPF_MEMWORDS"
    and "forward f" "known f"
  shows "\<exists>v. pcap_filter_with_aux_data (Some f) p wirelen buflen aux m = Some (Returned v)"
  using assms by (rule program_returns)

text \<open>A jump to itself: the offset -1 is in bounds because the sum wraps.\<close>

definition self_jump :: "bpf_insn list" where
  "self_jump = [\<lparr>insn_code = code_of JA, insn_jt = 0, insn_jf = 0, insn_k = - 1\<rparr>,
     \<lparr>insn_code = code_of RET_K, insn_jt = 0, insn_jf = 0, insn_k = 0\<rparr>]"

definition unknown_return :: "bpf_insn list" where
  "unknown_return = [\<lparr>insn_code = 0x0e, insn_jt = 0, insn_jf = 0, insn_k = 0\<rparr>]"

definition wide_shift :: "bpf_insn list" where
  "wide_shift = [\<lparr>insn_code = code_of (ALU LSH SrcK), insn_jt = 0, insn_jf = 0, insn_k = 32\<rparr>,
     \<lparr>insn_code = code_of RET_A, insn_jt = 0, insn_jf = 0, insn_k = 0\<rparr>]"

lemma run_unfold: "bpf_run f p wirelen buflen aux s = (case bpf_step f p wirelen buflen aux s of
    Running s' \<Rightarrow> bpf_run f p wirelen buflen aux s' | r \<Rightarrow> Some r)"
proof (cases "bpf_step f p wirelen buflen aux s")
  case (Running s')
  then show ?thesis by (simp add: bpf_run_def while_option_unfold [of is_running _ "Running s"])
next
  case (Returned v)
  then show ?thesis
    by (simp add: bpf_run_def while_option_unfold [of is_running _ "Running s"] while_option_unfold [of is_running _ "Returned v"])
next
  case (Broken e)
  then show ?thesis
    by (simp add: bpf_run_def while_option_unfold [of is_running _ "Running s"] while_option_unfold [of is_running _ "Broken e"])
qed

lemma self_jump_runs:
  assumes "bpf_pc s = 0"
  shows "bpf_run self_jump p wirelen buflen aux s = None"
proof (cases "bpf_run self_jump p wirelen buflen aux s")
  case (Some r)
  have "\<exists>s. r = Running s \<and> bpf_pc s = 0"
  proof (rule while_option_rule [OF _ Some [unfolded bpf_run_def], where P = "\<lambda>r. \<exists>s. r = Running s \<and> bpf_pc s = 0"])
    fix r assume "\<exists>s. r = Running s \<and> bpf_pc s = 0"
    then show "\<exists>s. next_result (bpf_step self_jump p wirelen buflen aux) r = Running s \<and> bpf_pc s = 0"
      by (auto simp: bpf_step_def self_jump_def Let_def simp del: code_of.simps)
  qed (use assms in simp)
  then have "is_running r" by auto
  then show ?thesis using while_option_stop [OF Some [unfolded bpf_run_def]] by simp
qed

text \<open>What the check does not guarantee. There are programs that pass it and never return, that stop the
  process because the interpreter does not know an instruction, and that shift by the width of a word.\<close>

lemma check_is_incomplete:
  "pcap_validate_filter self_jump \<and> pcap_filter_with_aux_data (Some self_jump) p wirelen buflen aux m = None \<and>
   pcap_validate_filter unknown_return \<and>
     pcap_filter_with_aux_data (Some unknown_return) p wirelen buflen aux m = Some (Broken Aborted) \<and>
   pcap_validate_filter wide_shift \<and>
     pcap_filter_with_aux_data (Some wide_shift) p wirelen buflen aux m = Some (Broken ShiftWidth)"
proof (intro conjI)
  show "pcap_validate_filter self_jump"
    by (simp add: pcap_validate_filter_def self_jump_def insn_valid_def class_defs upt_rec)
  show "pcap_filter_with_aux_data (Some self_jump) p wirelen buflen aux m = None"
    by (simp add: pcap_filter_with_aux_data_def self_jump_runs)
  show "pcap_validate_filter unknown_return"
    by (simp add: pcap_validate_filter_def unknown_return_def insn_valid_def class_defs upt_rec)
  have "decode 0x0e = None" by (simp add: decode_def opcodes_def)
  then show "pcap_filter_with_aux_data (Some unknown_return) p wirelen buflen aux m = Some (Broken Aborted)"
    by (subst pcap_filter_with_aux_data_def, simp, subst run_unfold) (simp add: bpf_step_def unknown_return_def)
  show "pcap_validate_filter wide_shift"
    by (simp add: pcap_validate_filter_def wide_shift_def insn_valid_def class_defs upt_rec)
  show "pcap_filter_with_aux_data (Some wide_shift) p wirelen buflen aux m = Some (Broken ShiftWidth)"
    by (subst pcap_filter_with_aux_data_def, simp, subst run_unfold)
      (simp add: bpf_step_def wide_shift_def Let_def del: code_of.simps)
qed

text \<open>A program that returns the first byte of a packet.\<close>

definition first_byte :: "bpf_insn list" where
  "first_byte = [\<lparr>insn_code = code_of (LD_ABS SzB), insn_jt = 0, insn_jf = 0, insn_k = 0\<rparr>,
     \<lparr>insn_code = code_of RET_A, insn_jt = 0, insn_jf = 0, insn_k = 0\<rparr>]"

lemma first_byte_checked: "pcap_validate_filter first_byte" "forward first_byte" "known first_byte"
  by (simp_all add: pcap_validate_filter_def first_byte_def insn_valid_def class_defs upt_rec forward_def known_def
      decode_def opcodes_def)

lemma first_byte_runs: "pcap_filter_with_aux_data (Some first_byte) [7, 8] 60 2 None (replicate 16 0) = Some (Returned 7)"
  unfolding pcap_filter_with_aux_data_def option.case
  by (subst run_unfold, simp add: bpf_step_def first_byte_def Let_def abs_rejected_def load_packet_def be_word_def or_fault_def
        del: code_of.simps, subst run_unfold) (simp add: bpf_step_def Let_def del: code_of.simps)

theorem checked_program_is_safe_witness:
  "pcap_filter_with_aux_data (Some first_byte) [7, 8] 60 2 None (replicate 16 0) = Some (Returned 7) \<and>
   ((\<exists>v. Returned 7 = Returned v) \<or> Returned 7 = Broken Aborted \<or> Returned 7 = Broken ShiftWidth)"
  using checked_program_is_safe [OF first_byte_checked(1), of 2 "[7, 8]" "replicate 16 0" 60 None "Returned 7"] first_byte_runs
  by (simp add: first_byte_def BPF_MEMWORDS_def)

end
