(* ===== verification/Filter_Correct.thy ===== *)
theory Filter_Correct
  imports Filter_Code Bpf_Valid
begin

text \<open>
  That the compiler of \<open>ether proto N\<close> is right: every program that it makes passes the check and accepts exactly the frames
  that pass the tests of the code, and how these tests differ from what the manual says. The definitions here are the specification; the
  compiler is in Filter_Gen and Filter_Code. It is the compiler for Ethernet (\<open>DLT_EN10MB\<close>).
\<close>

lemmas gen_simps = gen_ether_linktype_def LLCSAP_ISONS_def LLCSAP_IP_def LLCSAP_NETBEUI_def
  LLCSAP_IPX_def ETHERMTU_def gen_cmp_def gen_cmp_gt_def gen_ncmp_def gen_load_absoffsetrel_def gen_abs_offset_varpart_def
  init_en10mb_def new_block_def gen_retblk_def on_blocks_def upd_block_def set_link_def
  link_of_def gen_not_def flip_def stmt_of_def backpatch.simps merge.simps gen_and_def gen_and_b_def gen_or_def gen_or_b_def
  and_before_def gen_bcmp_def gen_snap_def finish_parse_def icode_to_fcode.simps compile_ether_proto_def

lemma short_branch: "\<not> (256 :: u32) \<le> 0" "\<not> (256 :: u32) \<le> 1"
  by (simp_all add: word_le_nat_alt)

lemmas conv_simps = short_branch count_stmts.simps convert_code_r.simps slength_def NOP_def convert_stmt_def put_insns_def
  convert_branch_def BPF_CLASS_def zero_insn_def Let_def

lemma bind_weak: "a = b \<Longrightarrow> bind_o a g = bind_o b g"
  by simp

lemma let_weak: "a = b \<Longrightarrow> Let a g = Let b g"
  by simp

definition insn :: "opcode \<Rightarrow> byte \<Rightarrow> byte \<Rightarrow> u32 \<Rightarrow> bpf_insn" where
  "insn op t f v = \<lparr>insn_code = code_of op, insn_jt = t, insn_jf = f, insn_k = v\<rparr>"

definition ethertype_program :: "u32 \<Rightarrow> u32 \<Rightarrow> bpf_insn list" where
  "ethertype_program n v = [insn (LD_ABS SzH) 0 0 12, insn (JMP JEQ SrcK) 0 1 v, insn RET_K 0 0 n, insn RET_K 0 0 0]"

lemma compile_ethertype:
  assumes "1500 < v" "v \<notin> {ETHERTYPE_ATALK, ETHERTYPE_AARP}" "snaplen \<noteq> 0"
  shows "compile_ether_proto snaplen v = Some (ethertype_program snaplen v)"
proof -
  have "\<not> v \<le> 1500" using assms(1) by simp
  moreover have "v \<notin> {0xfe, 0x06, 0xf0}" "v \<noteq> 0xe0" using assms(1) by auto
  ultimately show ?thesis using assms(2,3)
    by (simp add: gen_simps conv_simps ethertype_program_def insn_def cong: bind_weak)
qed

lemma compile_isons:
  assumes "v \<in> {LLCSAP_ISONS, LLCSAP_IP, LLCSAP_NETBEUI}" "snaplen \<noteq> 0"
  shows "compile_ether_proto snaplen v = Some [insn (LD_ABS SzH) 0 0 12, insn (JMP JGT SrcK) 3 0 1500,
    insn (LD_ABS SzH) 0 0 14, insn (JMP JEQ SrcK) 0 1 (push_bit 8 v OR v), insn RET_K 0 0 snaplen, insn RET_K 0 0 0]"
  using assms
    by (simp add: gen_simps conv_simps insn_def cong: bind_weak)


lemma compile_llc:
  assumes "v \<le> 1500" "v \<notin> {LLCSAP_ISONS, LLCSAP_IP, LLCSAP_NETBEUI, LLCSAP_IPX}" "snaplen \<noteq> 0"
  shows "compile_ether_proto snaplen v = Some [insn (LD_ABS SzH) 0 0 12, insn (JMP JGT SrcK) 3 0 1500,
    insn (LD_ABS SzB) 0 0 14, insn (JMP JEQ SrcK) 0 1 v, insn RET_K 0 0 snaplen, insn RET_K 0 0 0]"
proof -
  have "v \<noteq> ETHERTYPE_ATALK" "v \<noteq> ETHERTYPE_AARP"
    using assms(1) by (auto simp: ETHERTYPE_ATALK_def ETHERTYPE_AARP_def)
  then show ?thesis using assms by (simp add: gen_simps conv_simps insn_def cong: bind_weak)
qed

lemma compile_appletalk:
  assumes "v = ETHERTYPE_ATALK \<and> org = 0x0007809b \<and> snap = 0xaaaa0308 \<or> v = ETHERTYPE_AARP \<and> org = 0x80f3 \<and> snap = 0xaaaa0300" "snaplen \<noteq> 0"
  shows "compile_ether_proto snaplen v = Some [insn (LD_ABS SzH) 0 0 12, insn (JMP JEQ SrcK) 6 0 v,
    insn (LD_ABS SzH) 0 0 12, insn (JMP JGT SrcK) 5 0 1500, insn (LD_ABS SzW) 0 0 18, insn (JMP JEQ SrcK) 0 3 org,
    insn (LD_ABS SzW) 0 0 14, insn (JMP JEQ SrcK) 0 1 snap, insn RET_K 0 0 snaplen, insn RET_K 0 0 0]"
  using assms by (elim disjE conjE)
    (simp_all add: gen_simps conv_simps insn_def gen_bcmp_from.simps LLCSAP_SNAP_def be_word_def
      ETHERTYPE_ATALK_def ETHERTYPE_AARP_def cong: bind_weak)


lemma compile_ipx:
  assumes "snaplen \<noteq> 0"
  shows "compile_ether_proto snaplen LLCSAP_IPX = Some [insn (LD_ABS SzH) 0 0 12, insn (JMP JEQ SrcK) 10 0 ETHERTYPE_IPX,
    insn (LD_ABS SzH) 0 0 12, insn (JMP JGT SrcK) 9 0 1500, insn (LD_ABS SzW) 0 0 18, insn (JMP JEQ SrcK) 0 2 0x8137,
    insn (LD_ABS SzW) 0 0 14, insn (JMP JEQ SrcK) 4 0 0xaaaa0300, insn (LD_ABS SzB) 0 0 14, insn (JMP JEQ SrcK) 2 0 0xe0,
    insn (LD_ABS SzH) 0 0 14, insn (JMP JEQ SrcK) 0 1 0xffff, insn RET_K 0 0 snaplen, insn RET_K 0 0 0]"
  using assms
  by (simp add: gen_simps conv_simps insn_def gen_bcmp_from.simps LLCSAP_SNAP_def be_word_def
      ETHERTYPE_IPX_def cong: bind_weak)

section \<open>What the programs accept\<close>

definition field :: "byte list \<Rightarrow> nat \<Rightarrow> nat \<Rightarrow> u32 option" where
  "field p at n = (if at + n \<le> length p then Some (be_word (take n (drop at p))) else None)"

text \<open>The frames that the code takes for \<open>ether proto v\<close>: the Ethernet type, or in a frame with a length (at most 1500) the
  service access points after it. A field that is not in the packet is not equal to anything.\<close>

definition ether_proto_matches :: "u32 \<Rightarrow> byte list \<Rightarrow> bool" where
  "ether_proto_matches v p \<longleftrightarrow> (case field p 12 2 of
     None \<Rightarrow> False
   | Some ty \<Rightarrow>
       if v \<in> {LLCSAP_ISONS, LLCSAP_IP, LLCSAP_NETBEUI} then ty \<le> ETHERMTU \<and> field p 14 2 = Some (push_bit 8 v OR v)
       else if v = LLCSAP_IPX then ty = ETHERTYPE_IPX \<or> ty \<le> ETHERMTU \<and> 22 \<le> length p \<and>
         (field p 14 4 = Some 0xaaaa0300 \<and> field p 18 4 = Some ETHERTYPE_IPX \<or> field p 14 1 = Some LLCSAP_IPX \<or>
          field p 14 2 = Some 0xffff)
       else if v = ETHERTYPE_ATALK then ty = v \<or> ty \<le> ETHERMTU \<and>
         field p 14 4 = Some 0xaaaa0308 \<and> field p 18 4 = Some 0x0007809b
       else if v = ETHERTYPE_AARP then ty = v \<or> ty \<le> ETHERMTU \<and>
         field p 14 4 = Some 0xaaaa0300 \<and> field p 18 4 = Some ETHERTYPE_AARP
       else if v \<le> ETHERMTU then ty \<le> ETHERMTU \<and> field p 14 1 = Some v
       else ty = v)"

lemma load_field:
  assumes "length p < 2 ^ 32" "k < 2 ^ 31"
  shows "(if abs_rejected sz (of_nat k) (of_nat (length p)) then None else load_packet p sz (of_nat k)) = field p k (bsize_len sz)"
proof -
  have "unat (of_nat k :: u32) = k" "unat (of_nat (length p) :: u32) = length p"
    using assms by (simp_all add: unat_of_nat)
  then show ?thesis
    by (cases sz) (auto simp: abs_rejected_def load_packet_def field_def word_le_nat_alt word_less_nat_alt unat_sub)
qed

text \<open>A run from instruction \<open>i\<close>: what a return, and a load with a comparison, as the compiler emits them, do.\<close>

definition run_at :: "pcap_bpf_aux_data option \<Rightarrow> byte list \<Rightarrow> u32 \<Rightarrow> u32 list \<Rightarrow> bpf_insn list \<Rightarrow> nat \<Rightarrow> u32 \<Rightarrow> bpf_result option" where
  "run_at aux p w m f i a = bpf_run f p w (of_nat (length p)) aux \<lparr>bpf_pc = int i, bpf_A = a, bpf_X = 0, bpf_mem = m\<rparr>"

lemma run_ret:
  assumes "f ! i = insn RET_K 0 0 v" "i < length f"
  shows "run_at aux p w m f i a = Some (Returned v)"
  using assms unfolding run_at_def by (subst run_unfold) (simp add: bpf_step_def insn_def Let_def del: code_of.simps)

lemma run_test:
  assumes "f ! i = insn (LD_ABS sz) 0 0 at" "f ! Suc i = insn (JMP c SrcK) t e v"
    and "Suc i < length f" "length p < 2 ^ 32" "unat at < 2 ^ 31"
  shows "run_at aux p w m f i a = (case field p (unat at) (bsize_len sz) of
       None \<Rightarrow> Some (Returned 0)
     | Some d \<Rightarrow> run_at aux p w m f (if cond c d v then i + 2 + unat t else i + 2 + unat e) d)"
proof -
  let ?s = "\<lambda>i a. \<lparr>bpf_pc = int i, bpf_A = a, bpf_X = 0, bpf_mem = m\<rparr>"
  have ne: "at \<noteq> SKF_AD_VLAN_TAG" "at \<noteq> SKF_AD_VLAN_TAG_PRESENT"
    using assms(5) by auto
  have l: "bpf_step f p w (of_nat (length p)) aux (?s i a) =
    (case field p (unat at) (bsize_len sz) of None \<Rightarrow> Returned 0 | Some d \<Rightarrow> Running (?s (Suc i) d))"
    using load_field [OF assms(4,5), of sz] load_packet_abs [of sz "at" "of_nat (length p)" p] assms(1,3,4) ne
    by (auto simp: unat_of_nat bpf_step_def insn_def Let_def or_fault_def split: if_splits option.splits simp del: code_of.simps)
  have j: "bpf_step f p w (of_nat (length p)) aux (?s (Suc i) d) =
    Running (?s (if cond c d v then i + 2 + unat t else i + 2 + unat e) d)" for d
    using assms(2,3) by (simp add: bpf_step_def insn_def Let_def nat_add_distrib del: code_of.simps)
  show ?thesis
  proof (cases "field p (unat at) (bsize_len sz)")
    case None
    then show ?thesis unfolding run_at_def by (subst run_unfold) (simp add: l)
  next
    case (Some d)
    have "run_at aux p w m f i a = run_at aux p w m f (Suc i) d"
      unfolding run_at_def by (subst run_unfold) (simp only: l Some option.case bpf_result.case)
    also have "\<dots> = run_at aux p w m f (if cond c d v then i + 2 + unat t else i + 2 + unat e) d"
      unfolding run_at_def by (subst run_unfold) (simp only: j bpf_result.case)
    finally show ?thesis by (simp only: Some option.case)
  qed
qed

lemma run_ethertype:
  assumes "length p < 2 ^ 32"
  shows "run_at aux p w m (ethertype_program n v) 0 0 = Some (Returned (if field p 12 2 = Some v then n else 0))"
  unfolding ethertype_program_def using assms
  by (simp add: run_test run_ret split: option.splits)


text \<open>What the other programs return, by symbolic execution.\<close>

lemma run_pair:
  assumes "length p < 2 ^ 32" "unat at < 2 ^ 31"
  shows "run_at aux p w m [insn (LD_ABS SzH) 0 0 12, insn (JMP JGT SrcK) 3 0 1500,
      insn (LD_ABS sz) 0 0 at, insn (JMP JEQ SrcK) 0 1 v, insn RET_K 0 0 n, insn RET_K 0 0 0] 0 0 =
    Some (Returned (if (\<exists>ty. field p 12 2 = Some ty \<and> ty \<le> 1500) \<and> field p (unat at) (bsize_len sz) = Some v
      then n else 0))"
  using assms by (cases "field p 12 2"; cases "field p (unat at) (bsize_len sz)") (auto simp: run_test run_ret)

lemma run_appletalk:
  assumes "length p < 2 ^ 32"
  shows "run_at aux p w m [insn (LD_ABS SzH) 0 0 12, insn (JMP JEQ SrcK) 6 0 v,
      insn (LD_ABS SzH) 0 0 12, insn (JMP JGT SrcK) 5 0 1500, insn (LD_ABS SzW) 0 0 18, insn (JMP JEQ SrcK) 0 3 org,
      insn (LD_ABS SzW) 0 0 14, insn (JMP JEQ SrcK) 0 1 snap, insn RET_K 0 0 n, insn RET_K 0 0 0] 0 0 =
    Some (Returned (if (\<exists>ty. field p 12 2 = Some ty \<and> (ty = v \<or> ty \<le> 1500 \<and> field p 14 4 = Some snap \<and>
      field p 18 4 = Some org)) then n else 0))"
  using assms
  by (cases "field p 12 2"; cases "field p 18 4"; cases "field p 14 4"; cases "the (field p 12 2) \<le> 1500")
    (simp_all add: run_test run_ret not_le, (use leD in blast)?)

lemma run_ipx:
  assumes "length p < 2 ^ 32"
  shows "run_at aux p w m [insn (LD_ABS SzH) 0 0 12, insn (JMP JEQ SrcK) 10 0 ETHERTYPE_IPX,
    insn (LD_ABS SzH) 0 0 12, insn (JMP JGT SrcK) 9 0 1500, insn (LD_ABS SzW) 0 0 18, insn (JMP JEQ SrcK) 0 2 0x8137,
    insn (LD_ABS SzW) 0 0 14, insn (JMP JEQ SrcK) 4 0 0xaaaa0300, insn (LD_ABS SzB) 0 0 14, insn (JMP JEQ SrcK) 2 0 0xe0,
    insn (LD_ABS SzH) 0 0 14, insn (JMP JEQ SrcK) 0 1 0xffff, insn RET_K 0 0 n, insn RET_K 0 0 0] 0 0 =
    Some (Returned (if (\<exists>ty. field p 12 2 = Some ty \<and> (ty = ETHERTYPE_IPX \<or> ty \<le> 1500 \<and> 22 \<le> length p \<and>
      (field p 14 4 = Some 0xaaaa0300 \<and> field p 18 4 = Some 0x8137 \<or> field p 14 1 = Some 0xe0 \<or>
       field p 14 2 = Some 0xffff))) then n else 0))"
proof (cases "22 \<le> length p")
  case True
  then obtain ty sap w18 w14 b14 where "field p 12 2 = Some ty" "field p 14 2 = Some sap" "field p 18 4 = Some w18"
    "field p 14 4 = Some w14" "field p 14 1 = Some b14"
    by (simp add: field_def)
  then show ?thesis using assms True by (cases "ty \<le> 1500") (simp_all add: run_test run_ret not_le, (use leD in blast)?)
next
  case False
  then have "field p 18 4 = None" by (simp add: field_def)
  then show ?thesis using assms False by (cases "field p 12 2") (simp_all add: run_test run_ret)
qed

lemma matches_pair:
  "v \<in> {LLCSAP_ISONS, LLCSAP_IP, LLCSAP_NETBEUI} \<Longrightarrow> ether_proto_matches v p \<longleftrightarrow>
    (\<exists>ty. field p 12 2 = Some ty \<and> ty \<le> 1500) \<and> field p 14 2 = Some (push_bit 8 v OR v)"
  by (cases "field p 12 2") (simp_all add: ether_proto_matches_def ETHERMTU_def)

lemma matches_llc:
  assumes "v \<le> 1500" "v \<notin> {LLCSAP_ISONS, LLCSAP_IP, LLCSAP_NETBEUI, LLCSAP_IPX}"
  shows "ether_proto_matches v p \<longleftrightarrow> (\<exists>ty. field p 12 2 = Some ty \<and> ty \<le> 1500) \<and> field p 14 1 = Some v"
proof -
  have "v \<noteq> ETHERTYPE_ATALK" "v \<noteq> ETHERTYPE_AARP"
    using assms(1) by (auto simp: ETHERTYPE_ATALK_def ETHERTYPE_AARP_def)
  then show ?thesis using assms by (cases "field p 12 2") (simp_all add: ether_proto_matches_def ETHERMTU_def)
qed

lemma matches_type:
  assumes "1500 < v" "v \<notin> {ETHERTYPE_ATALK, ETHERTYPE_AARP}"
  shows "ether_proto_matches v p \<longleftrightarrow> field p 12 2 = Some v"
proof -
  have "v \<notin> {LLCSAP_ISONS, LLCSAP_IP, LLCSAP_NETBEUI}" "v \<noteq> LLCSAP_IPX"
    using assms(1) by (auto simp: LLCSAP_ISONS_def LLCSAP_IP_def LLCSAP_NETBEUI_def LLCSAP_IPX_def)
  then show ?thesis using assms by (cases "field p 12 2") (auto simp: ether_proto_matches_def ETHERMTU_def dest: leD)
qed

lemma matches_ipx:
  "ether_proto_matches LLCSAP_IPX p \<longleftrightarrow> (\<exists>ty. field p 12 2 = Some ty \<and> (ty = ETHERTYPE_IPX \<or> ty \<le> 1500 \<and> 22 \<le> length p \<and>
      (field p 14 4 = Some 0xaaaa0300 \<and> field p 18 4 = Some 0x8137 \<or> field p 14 1 = Some 0xe0 \<or>
       field p 14 2 = Some 0xffff)))"
  by (cases "field p 12 2") (simp_all add: ether_proto_matches_def ETHERMTU_def ETHERTYPE_IPX_def
      LLCSAP_ISONS_def LLCSAP_IP_def LLCSAP_NETBEUI_def LLCSAP_IPX_def)

lemma matches_appletalk:
  assumes "v = ETHERTYPE_ATALK \<and> org = 0x0007809b \<and> snap = 0xaaaa0308 \<or> v = ETHERTYPE_AARP \<and> org = 0x80f3 \<and> snap = 0xaaaa0300"
  shows "ether_proto_matches v p \<longleftrightarrow> (\<exists>ty. field p 12 2 = Some ty \<and> (ty = v \<or> ty \<le> 1500 \<and>
      field p 14 4 = Some snap \<and> field p 18 4 = Some org))"
  using assms by (elim disjE conjE; cases "field p 12 2") (simp_all add: ether_proto_matches_def ETHERMTU_def
      LLCSAP_ISONS_def LLCSAP_IP_def LLCSAP_NETBEUI_def LLCSAP_IPX_def ETHERTYPE_ATALK_def ETHERTYPE_AARP_def)

lemma filter_run_at:
  "pcap_filter_with_aux_data (Some f) p w (of_nat (length p)) aux m = run_at aux p w m f 0 0"
  by (simp add: pcap_filter_with_aux_data_def run_at_def)

lemmas check_program = pcap_validate_filter_def insn_valid_def insn_def class_defs upt_rec

text \<open>The programs for \<open>ether proto v\<close>, their check and what they return.\<close>

definition correct_for :: "u32 \<Rightarrow> u32 \<Rightarrow> bpf_insn list \<Rightarrow> bool" where
  "correct_for n v f \<longleftrightarrow> pcap_validate_filter f \<and> (\<forall>p w aux m. length p < 2 ^ 32 \<longrightarrow>
     pcap_filter_with_aux_data (Some f) p w (of_nat (length p)) aux m = Some (Returned (if ether_proto_matches v p then n else 0)))"

lemma compile_correct:
  assumes "n \<noteq> 0"
  shows "\<exists>f. compile_ether_proto n v = Some f \<and> correct_for n v f"
proof -
  consider (isons) "v \<in> {LLCSAP_ISONS, LLCSAP_IP, LLCSAP_NETBEUI}" | (ipx) "v = LLCSAP_IPX"
    | (llc) "v \<le> 1500" "v \<notin> {LLCSAP_ISONS, LLCSAP_IP, LLCSAP_NETBEUI, LLCSAP_IPX}"
    | (apple) org snap where "v = ETHERTYPE_ATALK \<and> org = (0x0007809b :: u32) \<and> snap = (0xaaaa0308 :: u32) \<or>
        v = ETHERTYPE_AARP \<and> org = 0x80f3 \<and> snap = 0xaaaa0300"
    | (type) "1500 < v" "v \<notin> {ETHERTYPE_ATALK, ETHERTYPE_AARP}"
    by (cases "v \<le> 1500") (simp_all add: not_le, blast+)
  then show ?thesis
  proof cases
    case isons
    then show ?thesis unfolding compile_isons [OF isons assms] correct_for_def
      by (simp add: filter_run_at run_pair matches_pair del: insert_iff) (simp add: check_program)
  next
    case ipx
    then show ?thesis unfolding ipx compile_ipx [OF assms] correct_for_def
      by (simp add: filter_run_at run_ipx matches_ipx) (simp add: check_program)
  next
    case llc
    then show ?thesis unfolding compile_llc [OF llc assms] correct_for_def
      by (simp add: filter_run_at run_pair matches_llc del: insert_iff) (simp add: check_program)
  next
    case apple
    show ?thesis unfolding compile_appletalk [OF apple assms] correct_for_def
      by (intro exI conjI, rule refl, simp add: check_program, simp add: filter_run_at run_appletalk matches_appletalk [OF apple])
  next
    case type
    then show ?thesis unfolding compile_ethertype [OF type assms] correct_for_def
      by (simp add: filter_run_at run_ethertype matches_type del: insert_iff) (simp add: check_program ethertype_program_def)
  qed
qed

section \<open>What the manual says\<close>

text \<open>
  \<open>ether proto\<close> on Ethernet, from \<open>pcap-filter.manmisc.in\<close>: the Ethernet type for most protocols; \<open>iso\<close>: an 802.3
  frame with that service access point as destination and source; \<open>stp\<close> and \<open>netbeui\<close>: an 802.3 frame with it as
  destination; \<open>atalk\<close> and \<open>aarp\<close>: the type in an Ethernet frame or in a SNAP frame; \<open>ipx\<close>: the type in an
  Ethernet frame or in a SNAP frame, the service access point as destination, or 802.3 without a LLC header. The manual
  does not say what another number up to 1500 stands for.
\<close>

definition has_bytes :: "byte list \<Rightarrow> nat \<Rightarrow> byte list \<Rightarrow> bool" where
  "has_bytes p at b \<longleftrightarrow> take (length b) (drop at p) = b"

definition frame_802_3 :: "byte list \<Rightarrow> bool" where
  "frame_802_3 p \<longleftrightarrow> (case field p 12 2 of None \<Rightarrow> False | Some n \<Rightarrow> n \<le> 1500)"

definition snap_frame :: "byte list \<Rightarrow> byte list \<Rightarrow> byte list \<Rightarrow> bool" where
  "snap_frame p oui etype \<longleftrightarrow> frame_802_3 p \<and> has_bytes p 14 ([0xaa, 0xaa, 0x03] @ oui @ etype)"

definition LLCSAP_8021D :: u32 where "LLCSAP_8021D = 0x42"

definition ether_proto_manual :: "u32 \<Rightarrow> byte list \<Rightarrow> bool" where
  "ether_proto_manual v p \<longleftrightarrow>
    (if v = LLCSAP_ISONS then frame_802_3 p \<and> has_bytes p 14 [0xfe, 0xfe]
     else if v = LLCSAP_8021D then frame_802_3 p \<and> has_bytes p 14 [0x42]
     else if v = LLCSAP_NETBEUI then frame_802_3 p \<and> has_bytes p 14 [0xf0]
     else if v = ETHERTYPE_ATALK then has_bytes p 12 [0x80, 0x9b] \<or> snap_frame p [0x08, 0x00, 0x07] [0x80, 0x9b]
     else if v = ETHERTYPE_AARP then has_bytes p 12 [0x80, 0xf3] \<or> snap_frame p [0, 0, 0] [0x80, 0xf3]
     else if v = LLCSAP_IPX then has_bytes p 12 [0x81, 0x37] \<or> frame_802_3 p \<and> has_bytes p 14 [0xe0] \<or>
       frame_802_3 p \<and> has_bytes p 14 [0xff, 0xff] \<or> snap_frame p [0, 0, 0] [0x81, 0x37]
     else field p 12 2 = Some v)"

definition in_manual :: "u32 \<Rightarrow> bool" where
  "in_manual v \<longleftrightarrow> 1500 < v \<or> v \<in> {LLCSAP_ISONS, LLCSAP_8021D, LLCSAP_NETBEUI, LLCSAP_IPX}"

lemma field_bytes:
  assumes "b \<noteq> []" "length b \<le> 4" "n = length b"
  shows "field p at n = Some (be_word b) \<longleftrightarrow> has_bytes p at b"
proof (cases "at + n \<le> length p")
  case True
  then show ?thesis using assms be_word_inject [of "take n (drop at p)" b, where 'w = 32]
    by (auto simp: field_def has_bytes_def)
next
  case False
  have "length (take (length b) (drop at p)) \<noteq> length b" using False assms by (cases "length b") auto
  then show ?thesis using False assms(3) unfolding field_def has_bytes_def by auto
qed

lemma has_bytes_append: "has_bytes p at (a @ b) \<longleftrightarrow> has_bytes p at a \<and> has_bytes p (at + length a) b"
proof -
  let ?x = "drop at p"
  have "take (length a + length b) ?x = a @ b \<longleftrightarrow> take (length a) ?x = a \<and> take (length b) (drop (length a) ?x) = b"
  proof
    assume e: "take (length a + length b) ?x = a @ b"
    show "take (length a) ?x = a \<and> take (length b) (drop (length a) ?x) = b"
      using arg_cong [OF e, of "take (length a)"] arg_cong [OF e, of "drop (length a)"] by (simp add: drop_take min_def)
  qed (simp add: take_add)
  then show ?thesis by (simp add: has_bytes_def add.commute)
qed

lemma field_values:
  "field p a 1 = Some 0x42 \<longleftrightarrow> has_bytes p a [0x42]" "field p a 1 = Some 0xe0 \<longleftrightarrow> has_bytes p a [0xe0]"
  "field p a 2 = Some 0xfefe \<longleftrightarrow> has_bytes p a [0xfe, 0xfe]" "field p a 2 = Some 0xf0f0 \<longleftrightarrow> has_bytes p a [0xf0, 0xf0]"
  "field p a 2 = Some 0xffff \<longleftrightarrow> has_bytes p a [0xff, 0xff]" "field p a 2 = Some 0x8137 \<longleftrightarrow> has_bytes p a [0x81, 0x37]"
  "field p a 2 = Some 0x809b \<longleftrightarrow> has_bytes p a [0x80, 0x9b]" "field p a 2 = Some 0x80f3 \<longleftrightarrow> has_bytes p a [0x80, 0xf3]"
  "field p a 4 = Some 0xaaaa0300 \<longleftrightarrow> has_bytes p a [0xaa, 0xaa, 0x03, 0]"
  "field p a 4 = Some 0xaaaa0308 \<longleftrightarrow> has_bytes p a [0xaa, 0xaa, 0x03, 8]"
  "field p a 4 = Some 0x8137 \<longleftrightarrow> has_bytes p a [0, 0, 0x81, 0x37]" "field p a 4 = Some 0x80f3 \<longleftrightarrow> has_bytes p a [0, 0, 0x80, 0xf3]"
  "field p a 4 = Some 0x0007809b \<longleftrightarrow> has_bytes p a [0, 7, 0x80, 0x9b]"
  using field_bytes [of "[0x42]" 1 p a] field_bytes [of "[0xe0]" 1 p a] field_bytes [of "[0xfe, 0xfe]" 2 p a]
    field_bytes [of "[0xf0, 0xf0]" 2 p a] field_bytes [of "[0xff, 0xff]" 2 p a] field_bytes [of "[0x81, 0x37]" 2 p a]
    field_bytes [of "[0x80, 0x9b]" 2 p a] field_bytes [of "[0x80, 0xf3]" 2 p a] field_bytes [of "[0xaa, 0xaa, 3, 0]" 4 p a]
    field_bytes [of "[0xaa, 0xaa, 3, 8]" 4 p a] field_bytes [of "[0, 0, 0x81, 0x37]" 4 p a]
    field_bytes [of "[0, 0, 0x80, 0xf3]" 4 p a] field_bytes [of "[0, 7, 0x80, 0x9b]" 4 p a]
  by (simp_all add: be_word_def)

lemma frame_802_3_iff: "frame_802_3 p \<longleftrightarrow> (\<exists>ty. field p 12 2 = Some ty \<and> ty \<le> 1500)"
  by (auto simp: frame_802_3_def split: option.split)

lemma snap_frame_iff:
  "snap_frame p [0, 0, 0] [x, y] \<longleftrightarrow> frame_802_3 p \<and> has_bytes p 14 [0xaa, 0xaa, 3, 0] \<and> has_bytes p 18 [0, 0, x, y]"
  "snap_frame p [8, 0, 7] [x, y] \<longleftrightarrow> frame_802_3 p \<and> has_bytes p 14 [0xaa, 0xaa, 3, 8] \<and> has_bytes p 18 [0, 7, x, y]"
  using has_bytes_append [of p 14 "[0xaa, 0xaa, 3, 0]" "[0, 0, x, y]"] has_bytes_append [of p 14 "[0xaa, 0xaa, 3, 8]" "[0, 7, x, y]"]
  by (simp_all add: snap_frame_def)

text \<open>The code takes what the manual says, with two exceptions: it compares the source of \<open>netbeui\<close>, too, and an \<open>ipx\<close>
  frame without the type has to be long enough for the test for SNAP.\<close>

lemma matches_manual:
  assumes "in_manual v"
  shows "ether_proto_matches v p \<longleftrightarrow> ether_proto_manual v p \<and>
    (v = LLCSAP_NETBEUI \<longrightarrow> has_bytes p 15 [0xf0]) \<and> (v = LLCSAP_IPX \<longrightarrow> has_bytes p 12 [0x81, 0x37] \<or> 22 \<le> length p)"
proof -
  note d = ether_proto_manual_def LLCSAP_ISONS_def LLCSAP_IP_def LLCSAP_NETBEUI_def LLCSAP_IPX_def LLCSAP_8021D_def ETHERTYPE_ATALK_def
    ETHERTYPE_AARP_def
  have two: "field p 14 2 = Some 0xf0f0 \<longleftrightarrow> has_bytes p 14 [0xf0] \<and> has_bytes p 15 [0xf0]"
    using has_bytes_append [of p 14 "[0xf0]" "[0xf0]"] by (simp add: field_values)
  have long: "field p 18 4 = Some 0x8137 \<Longrightarrow> 22 \<le> length p"
    by (auto simp: field_def split: if_splits)
  consider "v = LLCSAP_ISONS" | "v = LLCSAP_8021D" | "v = LLCSAP_NETBEUI" | "v = LLCSAP_IPX" | "v = ETHERTYPE_ATALK" |
    "v = ETHERTYPE_AARP" | "1500 < v" "v \<notin> {ETHERTYPE_ATALK, ETHERTYPE_AARP}"
    using assms by (auto simp: in_manual_def)
  then show ?thesis
  proof cases
    case 1 then show ?thesis using matches_pair [of v p] by (simp add: d frame_802_3_iff field_values [symmetric])
  next
    case 2 then show ?thesis using matches_llc [of v p] by (simp add: d frame_802_3_iff field_values [symmetric])
  next
    case 3 then show ?thesis using matches_pair [of v p] by (simp add: d frame_802_3_iff field_values [symmetric] two)
  next
    case 4 then show ?thesis
      using matches_ipx [of p] long by (auto simp: d frame_802_3_iff field_values [symmetric] snap_frame_iff ETHERTYPE_IPX_def)
  next
    case 5 then show ?thesis
      using matches_appletalk [of v "0x0007809b" "0xaaaa0308" p] by (auto simp: d frame_802_3_iff field_values [symmetric] snap_frame_iff)
  next
    case 6 then show ?thesis
      using matches_appletalk [of v "0x80f3" "0xaaaa0300" p] by (auto simp: d frame_802_3_iff field_values [symmetric] snap_frame_iff)
  next
    case 7 then show ?thesis using matches_type [of v p] by (auto simp: d)
  qed
qed

text \<open>C31: the compiler is correct for \<open>ether proto v\<close>. For every \<open>v\<close> it produces a program that passes the check,
  and for every packet, whatever the scratch memory holds, the program returns the snapshot length if the packet
  passes the tests of the code, and 0 otherwise. For every protocol that the manual speaks of these are the tests of the manual,
  and for \<open>netbeui\<close> the source access point, too, and for \<open>ipx\<close> without the Ethernet type 22 bytes.\<close>

theorem compile_ether_proto_correct:
  assumes "snaplen \<noteq> 0" "length p < 2 ^ 32"
  shows "\<exists>f. compile_ether_proto snaplen v = Some f \<and> pcap_validate_filter f \<and>
    pcap_filter (Some f) p wirelen (of_nat (length p)) m =
      Some (Returned (if ether_proto_matches v p then snaplen else 0)) \<and>
    (in_manual v \<longrightarrow> (ether_proto_matches v p \<longleftrightarrow> ether_proto_manual v p \<and>
      (v = LLCSAP_NETBEUI \<longrightarrow> has_bytes p 15 [0xf0]) \<and> (v = LLCSAP_IPX \<longrightarrow> has_bytes p 12 [0x81, 0x37] \<or> 22 \<le> length p)))"
  using compile_correct [OF assms(1), of v] assms(2) matches_manual [of v p] unfolding correct_for_def pcap_filter_def by blast

theorem compile_ether_proto_correct_witness:
  "(\<exists>f. compile_ether_proto 176 0x1234 = Some f \<and> pcap_validate_filter f \<and>
    pcap_filter (Some f) (replicate 12 0 @ [0x12, 0x34, 1]) 60 15 (replicate 16 0) = Some (Returned 176)) \<and>
   (\<exists>f. compile_ether_proto 176 LLCSAP_NETBEUI = Some f \<and> pcap_validate_filter f \<and>
    pcap_filter (Some f) (replicate 12 0 @ [0, 3, 0xf0, 0xf1, 3]) 60 17 (replicate 16 0) = Some (Returned 0) \<and>
    ether_proto_manual LLCSAP_NETBEUI (replicate 12 0 @ [0, 3, 0xf0, 0xf1, 3]))"
proof -
  let ?a = "replicate 12 0 @ [0x12, 0x34, 1] :: byte list" and ?b = "replicate 12 0 @ [0, 3, 0xf0, 0xf1, 3] :: byte list"
  note d = ether_proto_manual_def LLCSAP_ISONS_def LLCSAP_IP_def LLCSAP_NETBEUI_def LLCSAP_IPX_def LLCSAP_8021D_def ETHERTYPE_ATALK_def
    ETHERTYPE_AARP_def in_manual_def field_def frame_802_3_def has_bytes_def be_word_def
  have "in_manual 0x1234" "ether_proto_manual 0x1234 ?a" "in_manual LLCSAP_NETBEUI" "ether_proto_manual LLCSAP_NETBEUI ?b"
    "\<not> has_bytes ?b 15 [0xf0]" "(0x1234 :: u32) \<noteq> LLCSAP_NETBEUI" "(0x1234 :: u32) \<noteq> LLCSAP_IPX"
    by (simp_all add: d)
  then show ?thesis
    using compile_ether_proto_correct [of 176 ?a "0x1234" 60 "replicate 16 0"]
      compile_ether_proto_correct [of 176 ?b LLCSAP_NETBEUI 60 "replicate 16 0"] by auto
qed

end
