(* ===== verification/Host_Order.thy ===== *)
theory Host_Order
  imports Network_Order
begin

text \<open>
  Integers in the memory of the host, which is little-endian, and the macros of \<open>libpcap1.10.4/pcap-util.h\<close> and
  \<open>pcap-int.h\<close> that turn them over. A structure in memory is its bytes; a field is a number of bytes at an offset.
\<close>

type_synonym u16 = "16 word"

definition le_word :: "byte list \<Rightarrow> 'w::len word" where
  "le_word bs = be_word (rev bs)"

definition le_bytes :: "nat \<Rightarrow> 'w::len word \<Rightarrow> byte list" where
  "le_bytes n w = rev (be_bytes n w)"

lemma length_le_bytes [width, simp]: "length (le_bytes n w) = n"
  by (simp add: le_bytes_def width)

lemma le_word_rev [simp]: "le_word (rev bs) = be_word bs"
  by (simp add: le_word_def)

lemma le_bytes_be_word [simp]:
  "8 * length bs \<le> LENGTH('w::len) \<Longrightarrow> n = length bs \<Longrightarrow> le_bytes n (be_word bs :: 'w word) = rev bs"
  by (simp add: le_bytes_def)

lemma le_bytes_le_word [simp]:
  "8 * length bs \<le> LENGTH('w::len) \<Longrightarrow> n = length bs \<Longrightarrow> le_bytes n (le_word bs :: 'w word) = bs"
  by (simp add: le_bytes_def le_word_def)

lemma le_word_le_bytes [simp]: "LENGTH('w::len) = 8 * n \<Longrightarrow> le_word (le_bytes n w) = (w :: 'w word)"
  by (simp add: le_bytes_def le_word_def)

lemma rev_le_bytes [simp]: "rev (le_bytes n w) = be_bytes n w"
  by (simp add: le_bytes_def)

definition SWAPSHORT :: "u16 \<Rightarrow> u16" where
  "SWAPSHORT y = push_bit 8 (y AND 0xff) OR drop_bit 8 (y AND 0xff00)"

definition SWAPLONG :: "u32 \<Rightarrow> u32" where
  "SWAPLONG y = push_bit 24 (y AND 0xff) OR push_bit 8 (y AND 0xff00) OR drop_bit 8 (y AND 0xff0000) OR
     (drop_bit 24 y AND 0xff)"

definition SWAPLL :: "u64 \<Rightarrow> u64" where
  "SWAPLL ull = drop_bit 56 (ull AND 0xff00000000000000) OR drop_bit 40 (ull AND 0x00ff000000000000) OR
     drop_bit 24 (ull AND 0x0000ff0000000000) OR drop_bit 8 (ull AND 0x000000ff00000000) OR
     push_bit 8 (ull AND 0x00000000ff000000) OR push_bit 24 (ull AND 0x0000000000ff0000) OR
     push_bit 40 (ull AND 0x000000000000ff00) OR push_bit 56 (ull AND 0x00000000000000ff)"

text \<open>The masks as ranges of bits, and a bit of a word in memory.\<close>

lemma masks_16: "(0xff :: u16) = mask 8" "(0xff00 :: u16) = push_bit 8 (mask 8)"
  by (simp_all add: mask_eq_exp_minus_1 push_bit_eq_mult)

lemma masks_32: "(0xff :: u32) = mask 8" "(0xff00 :: u32) = push_bit 8 (mask 8)" "(0xff0000 :: u32) = push_bit 16 (mask 8)"
  by (simp_all add: mask_eq_exp_minus_1 push_bit_eq_mult)

lemma masks_64: "(0xff :: u64) = mask 8" "(0xff00 :: u64) = push_bit 8 (mask 8)" "(0xff0000 :: u64) = push_bit 16 (mask 8)"
  "(0xff000000 :: u64) = push_bit 24 (mask 8)" "(0xff00000000 :: u64) = push_bit 32 (mask 8)"
  "(0xff0000000000 :: u64) = push_bit 40 (mask 8)" "(0xff000000000000 :: u64) = push_bit 48 (mask 8)"
  "(0xff00000000000000 :: u64) = push_bit 56 (mask 8)"
  by (simp_all add: mask_eq_exp_minus_1 push_bit_eq_mult)

lemma bit_le_word: "bit (le_word bs :: 'w::len word) k \<longleftrightarrow>
    k < LENGTH('w) \<and> k < 8 * length bs \<and> bit (bs ! (k div 8)) (k mod 8)"
  by (simp add: le_word_def bit_be_word)

lemma byte_position:
  assumes "n < 8 * k"
  obtains q r where "n = 8 * q + r" "q < k" "r < (8 :: nat)"
  using assms by (intro that [of "n div 8" "n mod 8"]) simp_all

lemma less_8:
  assumes "r < (8 :: nat)"
  shows "(8 + r) div 8 = Suc 0" "(16 + r) div 8 = 2" "(24 + r) div 8 = 3" "(32 + r) div 8 = 4" "(40 + r) div 8 = 5"
    "(48 + r) div 8 = 6" "(56 + r) div 8 = 7" "(16 + r) mod 8 = r" "(24 + r) mod 8 = r" "(32 + r) mod 8 = r"
    "(40 + r) mod 8 = r" "(48 + r) mod 8 = r" "(56 + r) mod 8 = r"
  using assms by (simp_all add: div_nat_eqI mod_nat_eqI)

lemma SWAPSHORT_le [simp]:
  assumes "length bs = 2"
  shows "SWAPSHORT (le_word bs) = le_word (rev bs)"
proof (rule bit_word_eqI)
  obtain a b where bs: "bs = [a, b]" using assms by (auto simp: numeral_eq_Suc length_Suc_conv)
  fix n assume "n < LENGTH(16)"
  then have "n < 8 * 2" by simp
  then obtain q r where n: "n = 8 * q + r" "q < 2" "r < 8" by (rule byte_position)
  from n(2) consider "q = 0" | "q = 1" by fastforce
  then show "bit (SWAPSHORT (le_word bs)) n = bit (le_word (rev bs) :: u16) n"
    by cases (use n(3) in \<open>simp_all add: n(1) less_8 bs SWAPSHORT_def masks_16 bit_le_word bit_simps\<close>)
qed

lemma SWAPLONG_le [simp]:
  assumes "length bs = 4"
  shows "SWAPLONG (le_word bs) = le_word (rev bs)"
proof (rule bit_word_eqI)
  obtain a b c d where bs: "bs = [a, b, c, d]" using assms by (auto simp: numeral_eq_Suc length_Suc_conv)
  fix n assume "n < LENGTH(32)"
  then have "n < 8 * 4" by simp
  then obtain q r where n: "n = 8 * q + r" "q < 4" "r < 8" by (rule byte_position)
  from n(2) consider "q = 0" | "q = 1" | "q = 2" | "q = 3" by fastforce
  then show "bit (SWAPLONG (le_word bs)) n = bit (le_word (rev bs) :: u32) n"
    by cases (use n(3) in \<open>simp_all add: n(1) less_8 bs SWAPLONG_def masks_32 bit_le_word bit_simps\<close>)
qed

lemma SWAPLL_le [simp]:
  assumes "length bs = 8"
  shows "SWAPLL (le_word bs) = le_word (rev bs)"
proof (rule bit_word_eqI)
  obtain a b c d e f g h where bs: "bs = [a, b, c, d, e, f, g, h]" using assms by (auto simp: numeral_eq_Suc length_Suc_conv)
  fix n assume "n < LENGTH(64)"
  then have "n < 8 * 8" by simp
  then obtain q r where n: "n = 8 * q + r" "q < 8" "r < 8" by (rule byte_position)
  from n(2) consider "q = 0" | "q = 1" | "q = 2" | "q = 3" | "q = 4" | "q = 5" | "q = 6" | "q = 7" by fastforce
  then show "bit (SWAPLL (le_word bs)) n = bit (le_word (rev bs) :: u64) n"
    by cases (use n(3) in \<open>simp_all add: n(1) less_8 bs SWAPLL_def masks_64 bit_le_word bit_simps\<close>)
qed

lemma SWAP_word:
  "SWAPSHORT s = le_word (be_bytes 2 s)" "SWAPLONG l = le_word (be_bytes 4 l)" "SWAPLL q = le_word (be_bytes 8 q)"
  using SWAPSHORT_le [of "le_bytes 2 s"] SWAPLONG_le [of "le_bytes 4 l"] SWAPLL_le [of "le_bytes 8 q"]
  by (simp_all add: width)

lemma SWAP_bytes:
  "le_bytes 2 (SWAPSHORT s) = be_bytes 2 s" "le_bytes 4 (SWAPLONG l) = be_bytes 4 l" "le_bytes 8 (SWAPLL q) = be_bytes 8 q"
  unfolding SWAP_word by (simp_all add: width)

lemma SWAP_be_word:
  "length bs = 2 \<Longrightarrow> SWAPSHORT (le_word bs) = be_word bs" "length cs = 4 \<Longrightarrow> SWAPLONG (le_word cs) = be_word cs"
  by (subst SWAPSHORT_le SWAPLONG_le, assumption, simp add: le_word_def)+

section \<open>Structures in memory\<close>

text \<open>A field of \<open>n\<close> bytes at an offset.\<close>

definition get :: "nat \<Rightarrow> nat \<Rightarrow> byte list \<Rightarrow> 'w::len word" where
  "get at n buf = le_word (take n (drop at buf))"

definition put_bytes :: "nat \<Rightarrow> byte list \<Rightarrow> byte list \<Rightarrow> byte list" where
  "put_bytes at bs buf = take at buf @ bs @ drop (at + length bs) buf"

lemma length_put_bytes: "at + length bs \<le> length buf \<Longrightarrow> length (put_bytes at bs buf) = length buf"
  by (simp add: put_bytes_def)

lemma drop_put_bytes: "at + length bs \<le> n \<Longrightarrow> at + length bs \<le> length buf \<Longrightarrow> drop n (put_bytes at bs buf) = drop n buf"
  by (simp add: put_bytes_def)

end
