(* ===== verification/Pseudo_Header.thy ===== *)
theory Pseudo_Header
  imports Host_Order
begin

text \<open>
  The pseudo-headers of \<open>libpcap1.10.4/pcap-util.c\<close>: for some link types a packet of a capture begins with fields in the
  byte order of the host that wrote it. \<open>pcap_post_process\<close> turns them over, in the buffer, when the file has the
  opposite byte order, and corrects the length of a USB packet (\<open>pcap-usb-linux-common.c\<close>). The last argument of each
  operation is the memory that the data pointer points to, up to the end of its block.
\<close>

record pcap_pkthdr =
  ts_sec :: int
  ts_usec :: int
  caplen :: u32
  pkt_len :: u32

definition DLT_LINUX_SLL :: int where "DLT_LINUX_SLL = 113"
definition DLT_PFLOG :: int where "DLT_PFLOG = 117"
definition DLT_USB_LINUX :: int where "DLT_USB_LINUX = 189"
definition DLT_USB_LINUX_MMAPPED :: int where "DLT_USB_LINUX_MMAPPED = 220"
definition DLT_NFLOG :: int where "DLT_NFLOG = 239"
definition DLT_LINUX_SLL2 :: int where "DLT_LINUX_SLL2 = 276"

definition LINUX_SLL_P_CAN :: u16 where "LINUX_SLL_P_CAN = 0x000C"
definition LINUX_SLL_P_CANFD :: u16 where "LINUX_SLL_P_CANFD = 0x000D"

section \<open>Fields\<close>

definition rd_at :: "nat \<Rightarrow> nat \<Rightarrow> byte list \<Rightarrow> byte list res" where
  "rd_at at n buf = rd n (drop at buf)"

definition rd_byte :: "nat \<Rightarrow> byte list \<Rightarrow> byte res" where
  "rd_byte at buf = (if at < length buf then Inr (buf ! at) else Inl ReadOverrun)"

definition rd_field :: "nat \<Rightarrow> byte list \<Rightarrow> u32 res" where
  "rd_field at buf = bind_r (rd_at at 4 buf) (\<lambda>bs. Inr (le_word bs))"

text \<open>The assignment of the turned value to a field of two, four or eight bytes.\<close>

definition swap_field :: "nat \<Rightarrow> nat \<Rightarrow> byte list \<Rightarrow> byte list res" where
  "swap_field at n buf = bind_r (rd_at at n buf) (\<lambda>bs. Inr (put_bytes at
     (if n = 2 then le_bytes 2 (SWAPSHORT (le_word bs))
      else if n = 4 then le_bytes 4 (SWAPLONG (le_word bs))
      else le_bytes 8 (SWAPLL (le_word bs))) buf))"

text \<open>Fields that are turned one after the other, each only if there is enough data up to its end; the operation
  stops at the first one that is not there, and says whether it went through.\<close>

fun swap_fields :: "(nat \<Rightarrow> bool) \<Rightarrow> (nat \<times> nat) list \<Rightarrow> byte list \<Rightarrow> (bool \<times> byte list) res" where
  "swap_fields enough [] buf = Inr (True, buf)"
| "swap_fields enough ((at, n) # fs) buf =
    (if enough (at + n) then bind_r (swap_field at n buf) (swap_fields enough fs) else Inr (False, buf))"

section \<open>The pseudo-headers\<close>

definition swap_pflog_header :: "pcap_pkthdr \<Rightarrow> byte list \<Rightarrow> byte list res" where
  "swap_pflog_header hdr buf =
    (if caplen hdr < 48 \<or> pkt_len hdr < 48 then Inr buf
     else bind_r (rd_byte 0 buf) (\<lambda>pfloghdr_length.
       bind_r (swap_fields (\<lambda>x. of_nat x \<le> caplen hdr \<and> of_nat x \<le> pkt_len hdr \<and> of_nat x \<le> (ucast pfloghdr_length :: u32))
         [(44, 4), (48, 4), (52, 4), (56, 4)] buf) (\<lambda>(_, buf). Inr buf)))"

definition swap_can_id :: "nat \<Rightarrow> nat \<Rightarrow> pcap_pkthdr \<Rightarrow> byte list \<Rightarrow> byte list res" where
  "swap_can_id protocol_at header_len hdr buf =
    (if caplen hdr < of_nat header_len \<or> pkt_len hdr < of_nat header_len then Inr buf
     else bind_r (rd_at protocol_at 2 buf) (\<lambda>protocol.
       if be_word protocol \<noteq> LINUX_SLL_P_CAN \<and> be_word protocol \<noteq> LINUX_SLL_P_CANFD then Inr buf
       else if caplen hdr < of_nat header_len + 4 \<or> pkt_len hdr < of_nat header_len + 4 then Inr buf
       else swap_field header_len 4 buf))"

definition swap_linux_sll_header :: "pcap_pkthdr \<Rightarrow> byte list \<Rightarrow> byte list res" where
  "swap_linux_sll_header = swap_can_id 14 16"

definition swap_linux_sll2_header :: "pcap_pkthdr \<Rightarrow> byte list \<Rightarrow> byte list res" where
  "swap_linux_sll2_header = swap_can_id 0 20"

text \<open>USB: \<open>offset\<close> of the source is the end of the field, a 32-bit number.\<close>

definition captured_to :: "pcap_pkthdr \<Rightarrow> nat \<Rightarrow> bool" where
  "captured_to hdr offset \<longleftrightarrow> of_nat offset \<le> caplen hdr"

primrec swap_isodescs :: "pcap_pkthdr \<Rightarrow> nat \<Rightarrow> nat \<Rightarrow> byte list \<Rightarrow> byte list res" where
  "swap_isodescs hdr 0 at buf = Inr buf"
| "swap_isodescs hdr (Suc n) at buf =
    bind_r (swap_fields (captured_to hdr) [(at, 4), (at + 4, 4), (at + 8, 4)] buf) (\<lambda>(more, buf).
      if more then swap_isodescs hdr n (at + 16) buf else Inr buf)"

definition swap_linux_usb_header :: "pcap_pkthdr \<Rightarrow> byte list \<Rightarrow> bool \<Rightarrow> byte list res" where
  "swap_linux_usb_header hdr buf header_len_64_bytes =
    bind_r (swap_fields (captured_to hdr) [(0, 8), (12, 2), (16, 8), (24, 4), (28, 4), (32, 4), (36, 4)] buf) (\<lambda>(more, buf).
    if \<not> more then Inr buf
    else bind_r (rd_byte 9 buf) (\<lambda>transfer_type.
    bind_r (if transfer_type = 0 then swap_fields (captured_to hdr) [(40, 4), (44, 4)] buf else Inr (True, buf)) (\<lambda>(more, buf).
    if \<not> more \<or> \<not> header_len_64_bytes then Inr buf
    else bind_r (swap_fields (captured_to hdr) [(48, 4), (52, 4), (56, 4), (60, 4)] buf) (\<lambda>(more, buf).
    if \<not> more \<or> transfer_type \<noteq> 0 then Inr buf
    else bind_r (rd_field 60 buf) (\<lambda>ndesc. swap_isodescs hdr (unat ndesc) 64 buf)))))"

text \<open>NFLOG: a list of entries, whose length is rounded up to a multiple of four in 16 bits.\<close>

definition tlv_size :: "u16 \<Rightarrow> u16" where
  "tlv_size sz = (if sz mod 4 \<noteq> 0 then sz + (4 - sz mod 4) else sz)"

lemma unat_ucast_u16: "unat (ucast (w :: u16) :: u32) = unat w"
  using unsigned_less [of w, where ?'a = nat] by (simp add: unsigned_ucast_eq take_bit_nat_eq_self)

function swap_tlvs :: "u32 \<Rightarrow> u32 \<Rightarrow> nat \<Rightarrow> byte list \<Rightarrow> byte list res" where
  "swap_tlvs cap len p buf =
    (if cap < 4 then Inr buf
     else bind_r (swap_field (p + 2) 2 buf) (\<lambda>buf. bind_r (swap_field p 2 buf) (\<lambda>buf.
       bind_r (rd_at p 2 buf) (\<lambda>bs.
       let sz = tlv_size (le_word bs) in
       if sz < 4 \<or> cap < ucast sz \<or> len < ucast sz then Inr buf
       else swap_tlvs (cap - ucast sz) (len - ucast sz) (p + unat sz) buf))))"
  by pat_completeness auto
termination
proof (relation "measure (\<lambda>(cap, len, p, buf). unat cap)", goal_cases)
  case (2 cap len p buf b1 b2 bs sz)
  then have s: "\<not> sz < 4" "(ucast sz :: u32) \<le> cap" by auto
  then have "0 < unat (ucast sz :: u32)" by (simp add: word_less_nat_alt unat_ucast_u16)
  moreover have "unat (cap - ucast sz) = unat cap - unat (ucast sz :: u32)" using s(2) by (rule unat_sub)
  moreover have "unat (ucast sz :: u32) \<le> unat cap" using s(2) by (simp add: word_le_nat_alt)
  ultimately show ?case by simp
qed simp

declare swap_tlvs.simps [simp del]

definition swap_nflog_header :: "pcap_pkthdr \<Rightarrow> byte list \<Rightarrow> byte list res" where
  "swap_nflog_header hdr buf =
    (if caplen hdr < 4 \<or> pkt_len hdr < 4 then Inr buf
     else bind_r (rd_byte 1 buf) (\<lambda>nflog_version.
       if nflog_version \<noteq> 0 then Inr buf
       else swap_tlvs (caplen hdr - 4) (pkt_len hdr - 4) 4 buf))"

definition swap_pseudo_headers :: "int \<Rightarrow> pcap_pkthdr \<Rightarrow> byte list \<Rightarrow> byte list res" where
  "swap_pseudo_headers linktype hdr buf =
    (if linktype = DLT_PFLOG then swap_pflog_header hdr buf
     else if linktype = DLT_LINUX_SLL then swap_linux_sll_header hdr buf
     else if linktype = DLT_LINUX_SLL2 then swap_linux_sll2_header hdr buf
     else if linktype = DLT_USB_LINUX then swap_linux_usb_header hdr buf False
     else if linktype = DLT_USB_LINUX_MMAPPED then swap_linux_usb_header hdr buf True
     else if linktype = DLT_NFLOG then swap_nflog_header hdr buf
     else Inr buf)"

section \<open>The length of a USB packet\<close>

text \<open>The end of the last chunk that the descriptors name; a sum of 32 bits.\<close>

primrec desc_ends :: "nat \<Rightarrow> nat \<Rightarrow> u32 \<Rightarrow> u32 \<Rightarrow> byte list \<Rightarrow> u32 res" where
  "desc_ends 0 at bytes_left acc buf = Inr acc"
| "desc_ends (Suc n) at bytes_left acc buf =
    (if bytes_left < 16 then Inr acc
     else bind_r (rd_field (at + 8) buf) (\<lambda>len. bind_r (rd_field (at + 4) buf) (\<lambda>offset.
       desc_ends n (at + 16) (bytes_left - 16)
         (if len \<noteq> 0 \<and> acc < offset + len then offset + len else acc) buf)))"

text \<open>The length by the length of the request, in 64 bits.\<close>

definition raw_usb_len :: "u32 \<Rightarrow> u32 \<Rightarrow> u64" where
  "raw_usb_len ndesc urb_len = 64 + ucast ndesc * 16 + ucast urb_len"

definition fix_linux_usb_mmapped_length :: "pcap_pkthdr \<Rightarrow> byte list \<Rightarrow> pcap_pkthdr res" where
  "fix_linux_usb_mmapped_length pkth bp =
    bind_r (rd_byte 15 bp) (\<lambda>data_flag. bind_r (rd_byte 9 bp) (\<lambda>transfer_type.
    bind_r (rd_byte 8 bp) (\<lambda>event_type. bind_r (rd_byte 10 bp) (\<lambda>endpoint_number.
    bind_r (rd_field 60 bp) (\<lambda>ndesc. bind_r (rd_field 32 bp) (\<lambda>urb_len.
    if data_flag = 0 \<and> transfer_type = 0 \<and> event_type = 0x43 \<and> endpoint_number AND 0x80 \<noteq> 0 \<and>
       ucast (pkt_len pkth) = raw_usb_len ndesc urb_len then
      bind_r (desc_ends (unat ndesc) 64 (caplen pkth - 64) 0 bp) (\<lambda>pre_truncation_data_len.
      let pre_truncation_len = 64 + ndesc * 16 + pre_truncation_data_len;
          pkth = (if caplen pkth \<le> pre_truncation_len then pkth\<lparr>pkt_len := pre_truncation_len\<rparr> else pkth)
      in Inr (if pkt_len pkth < caplen pkth then pkth\<lparr>pkt_len := caplen pkth\<rparr> else pkth))
    else Inr pkth))))))"

definition fixup_pcap_pkthdr :: "int \<Rightarrow> pcap_pkthdr \<Rightarrow> byte list \<Rightarrow> pcap_pkthdr res" where
  "fixup_pcap_pkthdr linktype hdr buf =
    (if linktype = DLT_USB_LINUX_MMAPPED \<and> 64 \<le> caplen hdr then
       bind_r (rd_byte 15 buf) (\<lambda>data_flag. bind_r (rd_field 60 buf) (\<lambda>ndesc. bind_r (rd_field 32 buf) (\<lambda>urb_len.
       if data_flag = 0 \<and> ucast (pkt_len hdr) = raw_usb_len ndesc urb_len then fix_linux_usb_mmapped_length hdr buf
       else Inr hdr)))
     else Inr hdr)"

definition pcap_post_process :: "int \<Rightarrow> bool \<Rightarrow> pcap_pkthdr \<Rightarrow> byte list \<Rightarrow> (pcap_pkthdr \<times> byte list) res" where
  "pcap_post_process linktype swapped hdr buf =
    bind_r (if swapped then swap_pseudo_headers linktype hdr buf else Inr buf) (\<lambda>buf.
    bind_r (fixup_pcap_pkthdr linktype hdr buf) (\<lambda>hdr. Inr (hdr, buf)))"

section \<open>Nothing outside of the captured bytes\<close>

text \<open>Only the first \<open>k\<close> bytes may differ.\<close>

definition within :: "nat \<Rightarrow> byte list \<Rightarrow> byte list \<Rightarrow> bool" where
  "within k buf buf' \<longleftrightarrow> length buf' = length buf \<and> drop k buf' = drop k buf"

lemma within_refl [simp]: "within k buf buf"
  by (simp add: within_def)

lemma within_trans: "within k a b \<Longrightarrow> within k b c \<Longrightarrow> within k a c"
  by (simp add: within_def)

lemma within_length: "within k a b \<Longrightarrow> length b = length a"
  by (simp add: within_def)

text \<open>An operation that succeeds and stays within \<open>k\<close> bytes.\<close>

definition stays :: "nat \<Rightarrow> byte list \<Rightarrow> byte list res \<Rightarrow> bool" where
  "stays k buf r \<longleftrightarrow> (\<exists>b. r = Inr b \<and> within k buf b)"

lemma stays_Inr [simp]: "stays k buf (Inr b) \<longleftrightarrow> within k buf b"
  by (simp add: stays_def)

lemma swap_field_eq:
  assumes "at + n \<le> length buf" "n \<in> {2, 4, 8}"
  shows "swap_field at n buf = Inr (put_bytes at (rev (take n (drop at buf))) buf)"
  using assms by (auto simp: swap_field_def rd_at_def rd_def)

lemma swap_field_stays:
  assumes "at + n \<le> k" "k \<le> length buf" "n \<in> {2, 4, 8}"
  shows "\<exists>b. swap_field at n buf = Inr b \<and> within k buf b"
  using assms swap_field_eq [of "at" n buf] by (simp add: within_def length_put_bytes drop_put_bytes)

lemma swap_fields_stays:
  assumes "list_all (\<lambda>(at, n). n \<in> {2, 4, 8} \<and> (enough (at + n) \<longrightarrow> at + n \<le> k)) fs" "k \<le> length buf"
  shows "\<exists>more b. swap_fields enough fs buf = Inr (more, b) \<and> within k buf b \<and>
    (more \<longrightarrow> list_all (\<lambda>(at, n). enough (at + n)) fs)"
  using assms
proof (induction fs arbitrary: buf)
  case (Cons f fs)
  obtain at n where f: "f = (at, n)" by (cases f)
  show ?case
  proof (cases "enough (at + n)")
    case True
    then obtain b where b: "swap_field at n buf = Inr b" "within k buf b"
      using swap_field_stays [of "at" n k buf] Cons.prems by (auto simp: f)
    obtain more c where "swap_fields enough fs b = Inr (more, c)" "within k b c"
      "more \<longrightarrow> list_all (\<lambda>(at, n). enough (at + n)) fs"
      using Cons.IH [of b] Cons.prems within_length [OF b(2)] by auto
    then show ?thesis using True b by (auto simp: f intro: within_trans)
  qed (auto simp: f)
qed auto

lemma captured_to_le:
  assumes "captured_to hdr x" "x < 2 ^ 32"
  shows "x \<le> unat (caplen hdr)"
proof -
  have "unat (of_nat x :: u32) = x" using assms(2) by (simp add: unat_of_nat)
  then show ?thesis using assms(1) by (simp add: captured_to_def word_le_nat_alt)
qed

lemma fields_captured:
  assumes "list_all (\<lambda>(at, n). n \<in> {2, 4, 8} \<and> at + n < 2 ^ 32) fs"
  shows "list_all (\<lambda>(at, n). n \<in> {2, 4, 8} \<and> (captured_to hdr (at + n) \<longrightarrow> at + n \<le> unat (caplen hdr))) fs"
  using assms captured_to_le by (auto simp: list_all_iff)

lemma captured_fields:
  assumes "unat (caplen hdr) \<le> length buf"
    "list_all (\<lambda>(at, n). n \<in> {2, 4, 8 :: nat} \<and> at + n < 2 ^ 32) fs"
  shows "\<exists>more b. swap_fields (captured_to hdr) fs buf = Inr (more, b) \<and> within (unat (caplen hdr)) buf b \<and>
    (more \<longrightarrow> list_all (\<lambda>(at, n). captured_to hdr (at + n)) fs)"
  by (rule swap_fields_stays [OF fields_captured [OF assms(2)] assms(1)])

lemma swap_isodescs_stays:
  assumes "unat (caplen hdr) \<le> length buf" "unat (caplen hdr) < 2 ^ 31" "at < 2 ^ 31 + 16"
  shows "stays (unat (caplen hdr)) buf (swap_isodescs hdr n at buf)"
  using assms
proof (induction n arbitrary: "at" buf)
  case (Suc n)
  have "list_all (\<lambda>(at, n). n \<in> {2, 4, 8 :: nat} \<and> at + n < 2 ^ 32) [(at, 4), (at + 4, 4), (at + 8, 4)]"
    using Suc.prems(3) by simp
  from captured_fields [OF Suc.prems(1) this]
  obtain more b where b: "swap_fields (captured_to hdr) [(at, 4), (at + 4, 4), (at + 8, 4)] buf = Inr (more, b)"
    "within (unat (caplen hdr)) buf b" "more \<longrightarrow> captured_to hdr (at + 8 + 4)"
    by auto
  show ?case
  proof (cases more)
    case True
    then have "at + 16 < 2 ^ 31 + 16" using captured_to_le [of hdr "at + 8 + 4"] b(3) Suc.prems(2,3) by simp
    then have "stays (unat (caplen hdr)) b (swap_isodescs hdr n (at + 16) b)"
      using Suc.IH [of b "at + 16"] Suc.prems(1,2) within_length [OF b(2)] by simp
    then show ?thesis using True b(1,2) by (auto simp: stays_def intro: within_trans)
  next
    case False
    then show ?thesis using b(1,2) by simp
  qed
qed simp

lemma swap_linux_usb_header_stays:
  assumes "unat (caplen hdr) \<le> length buf" "unat (caplen hdr) < 2 ^ 31"
  shows "stays (unat (caplen hdr)) buf (swap_linux_usb_header hdr buf header_len_64_bytes)"
proof -
  let ?k = "unat (caplen hdr)"
  note fields = captured_fields [of hdr]
  obtain m1 b1 where 1: "swap_fields (captured_to hdr) [(0, 8), (12, 2), (16, 8), (24, 4), (28, 4), (32, 4), (36, 4)] buf = Inr (m1, b1)"
    "within ?k buf b1" "m1 \<longrightarrow> captured_to hdr 40"
    using fields [of buf "[(0, 8), (12, 2), (16, 8), (24, 4), (28, 4), (32, 4), (36, 4)]"] assms(1) by auto
  show ?thesis
  proof (cases m1)
    case False
    then show ?thesis using 1(1,2) by (simp add: swap_linux_usb_header_def)
  next
    case True
    then have l: "40 \<le> ?k" using 1(3) captured_to_le [of hdr 40] by simp
    then have t: "rd_byte 9 b1 = Inr (b1 ! 9)" using assms(1) within_length [OF 1(2)] by (simp add: rd_byte_def)
    obtain m2 b2 where 2: "(if b1 ! 9 = 0 then swap_fields (captured_to hdr) [(40, 4), (44, 4)] b1 else Inr (True, b1)) = Inr (m2, b2)"
      "within ?k b1 b2"
      using fields [of b1 "[(40, 4), (44, 4)]"] assms(1) within_length [OF 1(2)] by (cases "b1 ! 9 = 0") auto
    have w2: "within ?k buf b2" by (rule within_trans [OF 1(2) 2(2)])
    obtain m3 b3 where 3: "swap_fields (captured_to hdr) [(48, 4), (52, 4), (56, 4), (60, 4)] b2 = Inr (m3, b3)"
      "within ?k b2 b3" "m3 \<longrightarrow> captured_to hdr 64"
      using fields [of b2 "[(48, 4), (52, 4), (56, 4), (60, 4)]"] assms(1) within_length [OF w2] by auto
    have w3: "within ?k buf b3" by (rule within_trans [OF w2 3(2)])
    have "64 \<le> ?k" if m3 using that 3(3) captured_to_le [of hdr 64] by simp
    then have n: "m3 \<Longrightarrow> \<exists>ndesc. rd_field 60 b3 = Inr ndesc"
      using assms(1) within_length [OF w3] by (simp add: rd_field_def rd_at_def rd_def)
    have iso: "stays ?k buf (swap_isodescs hdr d 64 b3)" for d
      using swap_isodescs_stays [of hdr b3 64 d] assms within_length [OF w3]
      by (auto simp: stays_def intro: within_trans [OF w3])
    show ?thesis
      using n iso w2 w3 unfolding swap_linux_usb_header_def 1(1) bind_r.simps prod.case t 2(1) 3(1)
      using True by (auto simp: stays_def intro: within_trans)
  qed
qed

lemma swap_pflog_header_stays:
  assumes "unat (caplen hdr) \<le> length buf"
  shows "stays (unat (caplen hdr)) buf (swap_pflog_header hdr buf)"
proof (cases "caplen hdr < 48 \<or> pkt_len hdr < 48")
  case False
  then have "48 \<le> unat (caplen hdr)" by (simp add: word_le_nat_alt not_less)
  then have "0 < length buf" using assms by linarith
  then have b: "rd_byte 0 buf = Inr (buf ! 0)" by (simp add: rd_byte_def)
  let ?enough = "\<lambda>x. of_nat x \<le> caplen hdr \<and> of_nat x \<le> pkt_len hdr \<and> of_nat x \<le> (ucast (buf ! 0) :: u32)"
  have "x < 2 ^ 32 \<Longrightarrow> ?enough x \<Longrightarrow> x \<le> unat (caplen hdr)" for x
    using captured_to_le [of hdr x] by (simp add: captured_to_def)
  then have "list_all (\<lambda>(at, n). n \<in> {2, 4, 8} \<and> (?enough (at + n) \<longrightarrow> at + n \<le> unat (caplen hdr)))
      [(44, 4), (48, 4), (52, 4), (56, 4)]"
    by (simp add: list_all_iff)
  from swap_fields_stays [OF this assms] False b show ?thesis
    by (auto simp: swap_pflog_header_def simp del: swap_fields.simps)
qed (simp add: swap_pflog_header_def)

lemma swap_can_id_stays:
  assumes "unat (caplen hdr) \<le> length buf" "protocol_at + 2 \<le> header_len" "header_len < 2 ^ 31"
  shows "stays (unat (caplen hdr)) buf (swap_can_id protocol_at header_len hdr buf)"
proof (cases "caplen hdr < of_nat header_len")
  case False
  have u: "unat (of_nat header_len :: u32) = header_len" "unat (of_nat header_len + 4 :: u32) = header_len + 4"
    using assms(3) by (simp_all add: unat_of_nat unat_word_ariths)
  have "header_len \<le> unat (caplen hdr)" using False u(1) by (simp add: word_le_nat_alt not_less)
  then have r: "rd_at protocol_at 2 buf = Inr (take 2 (drop protocol_at buf))"
    using assms(1,2) by (simp add: rd_at_def rd_def)
  have f: "\<not> caplen hdr < of_nat header_len + 4 \<Longrightarrow> stays (unat (caplen hdr)) buf (swap_field header_len 4 buf)"
    using swap_field_stays [of header_len 4 "unat (caplen hdr)" buf] assms(1) u(2)
    by (simp add: stays_def word_less_nat_alt)
  show ?thesis using r f by (simp add: swap_can_id_def)
qed (simp add: swap_can_id_def)

lemma swap_tlvs_stays:
  assumes "p + unat cap \<le> k" "k \<le> length buf"
  shows "stays k buf (swap_tlvs cap len p buf)"
  using assms
proof (induction cap len p buf rule: swap_tlvs.induct)
  case (1 cap len p buf)
  show ?case
  proof (cases "cap < 4")
    case False
    then have c: "4 \<le> unat cap" by (simp add: word_le_nat_alt not_less)
    obtain b where b: "swap_field (p + 2) 2 buf = Inr b" "within k buf b"
      using swap_field_stays [of "p + 2" 2 k buf] c "1.prems" by auto
    obtain d where d: "swap_field p 2 b = Inr d" "within k b d"
      using swap_field_stays [of p 2 k b] c "1.prems" within_length [OF b(2)] by auto
    have w: "within k buf d" by (rule within_trans [OF b(2) d(2)])
    have r: "rd_at p 2 d = Inr (take 2 (drop p d))"
      using c "1.prems" within_length [OF w] by (simp add: rd_at_def rd_def)
    define sz where "sz = tlv_size (le_word (take 2 (drop p d)))"
    have "stays k d (swap_tlvs (cap - ucast sz) (len - ucast sz) (p + unat sz) d)"
      if "\<not> (sz < 4 \<or> cap < ucast sz \<or> len < ucast sz)"
    proof -
      have s: "(ucast sz :: u32) \<le> cap" using that by (simp add: not_less)
      then have "unat (cap - ucast sz) + unat sz = unat cap"
        using unat_sub [OF s] by (simp add: unat_ucast_u16 word_le_nat_alt)
      then show ?thesis
        using "1.IH" [OF False b(1) d(1) r sz_def that] "1.prems" within_length [OF w] by simp
    qed
    then have "stays k buf (if sz < 4 \<or> cap < ucast sz \<or> len < ucast sz then Inr d
        else swap_tlvs (cap - ucast sz) (len - ucast sz) (p + unat sz) d)"
      using w by (auto simp: stays_def intro: within_trans)
    then show ?thesis
      using False b(1) by (subst swap_tlvs.simps) (simp add: d(1) r sz_def [symmetric])
  qed (simp add: swap_tlvs.simps)
qed

lemma swap_nflog_header_stays:
  assumes "unat (caplen hdr) \<le> length buf"
  shows "stays (unat (caplen hdr)) buf (swap_nflog_header hdr buf)"
proof (cases "caplen hdr < 4")
  case False
  then have c: "(4 :: u32) \<le> caplen hdr" by simp
  then have u: "4 + unat (caplen hdr - 4) = unat (caplen hdr)"
    using unat_sub [OF c] by (simp add: word_le_nat_alt)
  have "rd_byte 1 buf = Inr (buf ! 1)" using u assms by (simp add: rd_byte_def)
  then show ?thesis
    using swap_tlvs_stays [of 4 "caplen hdr - 4" "unat (caplen hdr)" buf "pkt_len hdr - 4"] u assms
    by (simp add: swap_nflog_header_def)
qed (simp add: swap_nflog_header_def)

lemma swap_pseudo_headers_stays:
  assumes "unat (caplen hdr) \<le> length buf" "unat (caplen hdr) < 2 ^ 31"
  shows "stays (unat (caplen hdr)) buf (swap_pseudo_headers linktype hdr buf)"
  unfolding swap_pseudo_headers_def swap_linux_sll_header_def swap_linux_sll2_header_def
  using swap_pflog_header_stays [OF assms(1)] swap_linux_usb_header_stays [OF assms] swap_nflog_header_stays [OF assms(1)]
    swap_can_id_stays [OF assms(1), of 14 16] swap_can_id_stays [OF assms(1), of 0 20]
  by simp

lemma desc_ends_ok:
  assumes "at + unat left \<le> length buf"
  shows "\<exists>v. desc_ends n at left acc buf = Inr v"
  using assms
proof (induction n arbitrary: "at" left acc)
  case (Suc n)
  show ?case
  proof (cases "left < 16")
    case False
    then have l: "(16 :: u32) \<le> left" by simp
    then have u: "16 + unat (left - 16) = unat left" using unat_sub [OF l] by (simp add: word_le_nat_alt)
    have "\<exists>x. rd_field (at + 8) buf = Inr x" "\<exists>x. rd_field (at + 4) buf = Inr x"
      using u Suc.prems by (simp_all add: rd_field_def rd_at_def rd_def)
    then obtain x y where r: "rd_field (at + 8) buf = Inr x" "rd_field (at + 4) buf = Inr y" by blast
    have "at + 16 + unat (left - 16) \<le> length buf" using u Suc.prems by simp
    from Suc.IH [OF this] show ?thesis using False r by simp
  qed simp
qed simp

text \<open>The correction changes nothing but the length on the network, which it never leaves below the captured length.\<close>

definition corrected :: "pcap_pkthdr \<Rightarrow> pcap_pkthdr \<Rightarrow> bool" where
  "corrected hdr hdr' \<longleftrightarrow> ts_sec hdr' = ts_sec hdr \<and> ts_usec hdr' = ts_usec hdr \<and> caplen hdr' = caplen hdr \<and>
     (pkt_len hdr' \<noteq> pkt_len hdr \<longrightarrow> caplen hdr \<le> pkt_len hdr')"

lemma corrected_refl [simp]: "corrected hdr hdr"
  by (simp add: corrected_def)

lemma fix_length_ok:
  assumes "unat (caplen hdr) \<le> length buf" "64 \<le> caplen hdr"
  shows "\<exists>h. fix_linux_usb_mmapped_length hdr buf = Inr h \<and> corrected hdr h"
proof -
  have l: "64 \<le> unat (caplen hdr)" using assms(2) by (simp add: word_le_nat_alt)
  have u: "64 + unat (caplen hdr - 64) = unat (caplen hdr)" using unat_sub [OF assms(2)] l by simp
  have r: "rd_byte 15 buf = Inr (buf ! 15)" "rd_byte 9 buf = Inr (buf ! 9)" "rd_byte 8 buf = Inr (buf ! 8)"
    "rd_byte 10 buf = Inr (buf ! 10)" "rd_field 60 buf = Inr (le_word (take 4 (drop 60 buf)))"
    "rd_field 32 buf = Inr (le_word (take 4 (drop 32 buf)))"
    using l assms(1) by (simp_all add: rd_byte_def rd_field_def rd_at_def rd_def)
  obtain v where v: "desc_ends (unat (le_word (take 4 (drop 60 buf)) :: u32)) 64 (caplen hdr - 64) 0 buf = Inr v"
    using desc_ends_ok [of 64 "caplen hdr - 64" buf] u assms(1) by auto
  show ?thesis
    unfolding fix_linux_usb_mmapped_length_def r bind_r.simps v Let_def
    by (simp add: corrected_def)
qed

lemma fixup_ok:
  assumes "unat (caplen hdr) \<le> length buf"
  shows "\<exists>h. fixup_pcap_pkthdr linktype hdr buf = Inr h \<and> corrected hdr h"
proof (cases "linktype = DLT_USB_LINUX_MMAPPED \<and> 64 \<le> caplen hdr")
  case True
  then have l: "64 \<le> unat (caplen hdr)" by (simp add: word_le_nat_alt)
  have r: "rd_byte 15 buf = Inr (buf ! 15)" "rd_field 60 buf = Inr (le_word (take 4 (drop 60 buf)))"
    "rd_field 32 buf = Inr (le_word (take 4 (drop 32 buf)))"
    using l assms by (simp_all add: rd_byte_def rd_field_def rd_at_def rd_def)
  show ?thesis
    using True fix_length_ok [OF assms] unfolding fixup_pcap_pkthdr_def r bind_r.simps by simp
qed (auto simp: fixup_pcap_pkthdr_def)

lemma post_process_ok:
  assumes "unat (caplen hdr) \<le> length buf" "unat (caplen hdr) < 2 ^ 31"
  shows "\<exists>h buf'. pcap_post_process linktype swapped hdr buf = Inr (h, buf') \<and>
    within (unat (caplen hdr)) buf buf' \<and> corrected hdr h"
proof -
  obtain b where b: "(if swapped then swap_pseudo_headers linktype hdr buf else Inr buf) = Inr b" "within (unat (caplen hdr)) buf b"
    using swap_pseudo_headers_stays [OF assms, of linktype] by (cases swapped) (auto simp: stays_def)
  obtain h where "fixup_pcap_pkthdr linktype hdr b = Inr h" "corrected hdr h"
    using fixup_ok [of hdr b linktype] assms(1) within_length [OF b(2)] by auto
  then show ?thesis using b by (simp add: pcap_post_process_def)
qed

text \<open>Link types without a pseudo-header, as Ethernet.\<close>

lemma post_process_plain:
  assumes "linktype \<notin> {DLT_PFLOG, DLT_LINUX_SLL, DLT_LINUX_SLL2, DLT_USB_LINUX, DLT_USB_LINUX_MMAPPED, DLT_NFLOG}"
  shows "pcap_post_process linktype swapped hdr buf = Inr (hdr, buf)"
  using assms by (simp add: pcap_post_process_def swap_pseudo_headers_def fixup_pcap_pkthdr_def)

end
