(* ===== verification/Linktype.thy ===== *)
theory Linktype
  imports Pseudo_Header
begin

text \<open>
  Link types in capture files, \<open>libpcap1.10.4/pcap-common.c\<close> with the constants of \<open>pcap/dlt.h\<close>: a file has a
  \<open>LINKTYPE_\<close> number, the programs a \<open>DLT_\<close> number, which on some systems is another one. The numbers are those of Linux.
\<close>

definition DLT_EN10MB :: int where "DLT_EN10MB = 1"
definition DLT_PFSYNC :: int where "DLT_PFSYNC = 246"
definition DLT_PKTAP :: int where "DLT_PKTAP = 258"
definition LINKTYPE_PFSYNC :: int where "LINKTYPE_PFSYNC = 246"
definition LINKTYPE_PKTAP :: int where "LINKTYPE_PKTAP = 258"
definition LINKTYPE_ATM_CLIP :: int where "LINKTYPE_ATM_CLIP = 106"
definition DLT_DBUS :: int where "DLT_DBUS = 231"
definition DLT_USBPCAP :: int where "DLT_USBPCAP = 249"
definition DLT_EBHSCR :: int where "DLT_EBHSCR = 279"

abbreviation MATCHING_MIN :: int where "MATCHING_MIN \<equiv> 104"
abbreviation MATCHING_MAX :: int where "MATCHING_MAX \<equiv> 289"

definition MAXIMUM_SNAPLEN :: u32 where "MAXIMUM_SNAPLEN = 262144"

text \<open>\<open>map\<close>: pairs of a \<open>DLT_\<close> and a \<open>LINKTYPE_\<close> number; \<open>DLT_FR\<close> does not exist on Linux.\<close>

definition linktype_map :: "(int \<times> int) list" where
  "linktype_map = [(0, 0), (1, 1), (2, 2), (3, 3), (4, 4), (5, 5), (6, 6), (7, 7), (8, 8), (9, 9), (10, 10), (99, 99),
     (11, 100), (12, 101), (15, 102), (16, 103), (112, 112), (104, 104), (19, 106), (50, 50), (51, 51)]"

definition dlt_to_linktype :: "int \<Rightarrow> int" where
  "dlt_to_linktype dlt =
    (if dlt = DLT_PFSYNC then LINKTYPE_PFSYNC
     else if dlt = DLT_PKTAP then LINKTYPE_PKTAP
     else if MATCHING_MIN \<le> dlt \<and> dlt \<le> MATCHING_MAX then dlt
     else case map_of linktype_map dlt of Some l \<Rightarrow> l | None \<Rightarrow> - 1)"

definition linktype_to_dlt :: "int \<Rightarrow> int" where
  "linktype_to_dlt linktype =
    (if linktype = LINKTYPE_PFSYNC then DLT_PFSYNC
     else if linktype = LINKTYPE_PKTAP then DLT_PKTAP
     else if MATCHING_MIN \<le> linktype \<and> linktype \<le> MATCHING_MAX \<and> linktype \<noteq> LINKTYPE_ATM_CLIP then linktype
     else case map_of (map prod.swap linktype_map) linktype of Some d \<Rightarrow> d | None \<Rightarrow> linktype)"

definition max_snaplen_for_dlt :: "int \<Rightarrow> u32" where
  "max_snaplen_for_dlt dlt =
    (if dlt = DLT_DBUS then 128 * 1024 * 1024
     else if dlt = DLT_EBHSCR then 8 * 1024 * 1024
     else if dlt = DLT_USBPCAP then 1024 * 1024
     else MAXIMUM_SNAPLEN)"

lemma max_snaplen_bound: "0 < unat (max_snaplen_for_dlt dlt)" "unat (max_snaplen_for_dlt dlt) \<le> 2 ^ 27"
  by (simp_all add: max_snaplen_for_dlt_def MAXIMUM_SNAPLEN_def)

lemmas linktype_defs = dlt_to_linktype_def linktype_to_dlt_def linktype_map_def LINKTYPE_PFSYNC_def DLT_PFSYNC_def
  LINKTYPE_PKTAP_def DLT_PKTAP_def LINKTYPE_ATM_CLIP_def

lemma linktype_round_trip:
  assumes "dlt_to_linktype dlt \<noteq> - 1"
  shows "linktype_to_dlt (dlt_to_linktype dlt) = dlt \<longleftrightarrow> dlt \<noteq> 106"
  using assms by (auto simp: linktype_defs split: if_splits option.splits)

lemma linktype_range: "dlt_to_linktype dlt \<in> {- 1..289}"
  by (auto simp: linktype_defs split: if_splits option.splits)

text \<open>The number in a file stands for the right link type. Every \<open>DLT_\<close> number that can be written to a file is read
  back as itself, with one exception: 106, the number that a file has for \<open>DLT_ATM_CLIP\<close>.\<close>

lemma linktype_reads_back:
  assumes "dlt_to_linktype dlt \<noteq> - 1"
  shows "linktype_to_dlt (dlt_to_linktype dlt) = (if dlt = 106 then 19 else dlt)"
  using assms linktype_round_trip [of dlt] by (auto simp: linktype_defs split: if_splits option.splits)

end
