(* ===== verification/Savefile.thy ===== *)
theory Savefile
  imports Linktype Bpf "HOL-Library.Signed_Division"
begin

text \<open>
  Capture files: \<open>libpcap1.10.4/sf-pcap.c\<close> reads and writes them, \<open>savefile.c\<close> opens them and runs the packets through
  the filter, \<open>pcap.c\<close> has the calls that the programs make. The memory that \<open>malloc\<close> gives, the contents of the file
  and the errors of the file system are arguments. A write that does not fit in the buffer of the reader is a fault.
\<close>

section \<open>Files and memory\<close>

text \<open>A file to read: the bytes from the current position on, and whether a read that comes short is an error.\<close>

record infile =
  unread :: "byte list"
  broken :: bool

definition fread :: "nat \<Rightarrow> infile \<Rightarrow> byte list \<times> infile" where
  "fread n f = (take n (unread f), f\<lparr>unread := drop n (unread f)\<rparr>)"

text \<open>A file to write: its bytes, the room left on the disk, and the error indicator. \<open>fwrite\<close> of one object.\<close>

record outfile =
  written :: "byte list"
  room :: nat
  out_error :: bool

definition fwrite :: "byte list \<Rightarrow> outfile \<Rightarrow> bool \<times> outfile" where
  "fwrite bs f = (bs \<noteq> [] \<and> length bs \<le> room f,
     f\<lparr>written := written f @ take (room f) bs, room := room f - length bs, out_error := out_error f \<or> room f < length bs\<rparr>)"

text \<open>The heap: for a size, \<open>None\<close> or a block with unknown contents; \<open>handle_alloc\<close> is whether there is memory for a
  handle. \<open>scratch_mem\<close> is the memory that the filter machine finds in its array.\<close>

record env =
  alloc :: "nat \<Rightarrow> byte list option"
  handle_alloc :: bool
  scratch_mem :: "u32 list"

definition blocks :: "env \<Rightarrow> bool" where
  "blocks e \<longleftrightarrow> (\<forall>n b. alloc e n = Some b \<longrightarrow> length b = n)"

definition realloc :: "env \<Rightarrow> byte list \<Rightarrow> nat \<Rightarrow> byte list option" where
  "realloc e old n = (case alloc e n of None \<Rightarrow> None | Some b \<Rightarrow> Some (take n old @ drop (length old) b))"

section \<open>The handle\<close>

definition TCPDUMP_MAGIC :: u32 where "TCPDUMP_MAGIC = 0xa1b2c3d4"
definition KUZNETZOV_TCPDUMP_MAGIC :: u32 where "KUZNETZOV_TCPDUMP_MAGIC = 0xa1b2cd34"
definition NAVTEL_TCPDUMP_MAGIC :: u32 where "NAVTEL_TCPDUMP_MAGIC = 0xa12b3c4d"
definition NSEC_TCPDUMP_MAGIC :: u32 where "NSEC_TCPDUMP_MAGIC = 0xa1b23c4d"

definition PCAP_TSTAMP_PRECISION_MICRO :: u32 where "PCAP_TSTAMP_PRECISION_MICRO = 0"
definition PCAP_TSTAMP_PRECISION_NANO :: u32 where "PCAP_TSTAMP_PRECISION_NANO = 1"

definition INT_MAX :: u32 where "INT_MAX = 0x7fffffff"

datatype swapped_type = NOT_SWAPPED | SWAPPED | MAYBE_SWAPPED
datatype tstamp_scale_type = PASS_THROUGH | SCALE_UP | SCALE_DOWN

datatype sf_error = ReadError | Truncated nat nat | ArchaicFormat | UnsupportedVersion u16 u16 | UnknownPrecision u32
  | OutOfMemory | CaplenOverSnaplen u32 u32 | CaplenOverMaximum u32 u32 | UnknownFormat | NullFile
  | NotActivated | UnsupportedLinktype int | NullName | CannotOpen | CannotWrite | CannotSeek
  | DifferentPrecision | DifferentByteOrder | NotAppendable | NotPcap | DifferentLinktype | DifferentSnaplen
  | InvalidProgram

text \<open>\<open>snapshot\<close> and \<open>bufsize\<close> are positive and at most \<open>INT_MAX\<close>; the buffer is a block of \<open>bufsize\<close> bytes.\<close>

record pcap_t =
  swapped :: bool
  version_major :: u16
  version_minor :: u16
  linktype :: int
  linktype_ext :: u32
  snapshot :: u32
  tstamp_precision :: u32
  hdrsize :: nat
  lengths_swapped :: swapped_type
  scale_type :: tstamp_scale_type
  bufsize :: u32
  buffer :: "byte list"
  rfile :: infile
  fcode :: "bpf_insn list option"
  break_loop :: bool
  activated :: bool
  errbuf :: "sf_error option"

section \<open>Opening a capture file\<close>

definition pcap_adjust_snapshot :: "int \<Rightarrow> u32 \<Rightarrow> u32" where
  "pcap_adjust_snapshot lt snaplen = (if snaplen = 0 \<or> INT_MAX < snaplen then max_snaplen_for_dlt lt else snaplen)"

definition is_magic :: "u32 \<Rightarrow> bool" where
  "is_magic m \<longleftrightarrow> m = TCPDUMP_MAGIC \<or> m = KUZNETZOV_TCPDUMP_MAGIC \<or> m = NSEC_TCPDUMP_MAGIC"

text \<open>The header of the file, as the structure in memory.\<close>

record pcap_file_header =
  fh_version_major :: u16
  fh_version_minor :: u16
  fh_thiszone :: u32
  fh_sigfigs :: u32
  fh_snaplen :: u32
  fh_linktype :: u32

definition load_file_header :: "byte list \<Rightarrow> pcap_file_header" where
  "load_file_header b = \<lparr>fh_version_major = get 0 2 b, fh_version_minor = get 2 2 b, fh_thiszone = get 4 4 b,
     fh_sigfigs = get 8 4 b, fh_snaplen = get 12 4 b, fh_linktype = get 16 4 b\<rparr>"

definition swap_file_header :: "pcap_file_header \<Rightarrow> pcap_file_header" where
  "swap_file_header h = \<lparr>fh_version_major = SWAPSHORT (fh_version_major h), fh_version_minor = SWAPSHORT (fh_version_minor h),
     fh_thiszone = SWAPLONG (fh_thiszone h), fh_sigfigs = SWAPLONG (fh_sigfigs h),
     fh_snaplen = SWAPLONG (fh_snaplen h), fh_linktype = SWAPLONG (fh_linktype h)\<rparr>"

definition lengths_of_version :: "u16 \<Rightarrow> u16 \<Rightarrow> swapped_type" where
  "lengths_of_version major minor =
    (if major = 2 then (if minor < 3 then SWAPPED else if minor = 3 then MAYBE_SWAPPED else NOT_SWAPPED)
     else if major = 543 then SWAPPED else NOT_SWAPPED)"

definition scale_of :: "u32 \<Rightarrow> u32 \<Rightarrow> tstamp_scale_type option" where
  "scale_of precision magic =
    (if precision = PCAP_TSTAMP_PRECISION_MICRO then Some (if magic = NSEC_TCPDUMP_MAGIC then SCALE_DOWN else PASS_THROUGH)
     else if precision = PCAP_TSTAMP_PRECISION_NANO then Some (if magic = NSEC_TCPDUMP_MAGIC then PASS_THROUGH else SCALE_UP)
     else None)"

text \<open>\<open>NotMine\<close>: the file has another format; otherwise an error, or a handle.\<close>

datatype check = NotMine | CheckError sf_error | Found pcap_t

text \<open>A file with the modified format that came from an Ethernet device has room for a header that was made up.\<close>

definition patched_snapshot :: "bool \<Rightarrow> int \<Rightarrow> u32 \<Rightarrow> u32" where
  "patched_snapshot patched lt snap =
    (if patched \<and> lt = DLT_EN10MB then (if snap \<le> INT_MAX - 14 then snap + 14 else INT_MAX) else snap)"

text \<open>The second half of \<open>pcap_check_header\<close>: the handle for a file with a good header.\<close>

definition new_handle :: "env \<Rightarrow> bool \<Rightarrow> u32 \<Rightarrow> pcap_file_header \<Rightarrow> infile \<Rightarrow> u32 \<Rightarrow> check" where
  "new_handle e sw magic hdr fp precision =
    (if \<not> handle_alloc e then CheckError OutOfMemory
     else case scale_of precision magic of
       None \<Rightarrow> CheckError (UnknownPrecision precision)
     | Some sc \<Rightarrow>
         let lt = linktype_to_dlt (uint (fh_linktype hdr AND 0x03FFFFFF));
             patched = (magic = KUZNETZOV_TCPDUMP_MAGIC);
             snap = patched_snapshot patched lt (pcap_adjust_snapshot lt (fh_snaplen hdr));
             bsz = (if 2048 < snap then 2048 else snap) in
         case alloc e (unat bsz) of
           None \<Rightarrow> CheckError OutOfMemory
         | Some b \<Rightarrow> Found \<lparr>swapped = sw, version_major = fh_version_major hdr, version_minor = fh_version_minor hdr,
             linktype = lt, linktype_ext = fh_linktype hdr AND 0xFC000000, snapshot = snap, tstamp_precision = precision,
             hdrsize = (if patched then 24 else 16),
             lengths_swapped = lengths_of_version (fh_version_major hdr) (fh_version_minor hdr), scale_type = sc,
             bufsize = bsz, buffer = b, rfile = fp, fcode = None, break_loop = False, activated = False, errbuf = None\<rparr>)"

definition supported_version :: "u16 \<Rightarrow> u16 \<Rightarrow> bool" where
  "supported_version major minor \<longleftrightarrow> major = 2 \<and> minor \<le> 4 \<or> major = 543 \<and> minor = 0"

definition pcap_check_header :: "env \<Rightarrow> byte list \<Rightarrow> infile \<Rightarrow> u32 \<Rightarrow> check" where
  "pcap_check_header e magic fp precision =
    (let m = le_word magic; sw = \<not> is_magic m; m = (if sw then SWAPLONG m else m) in
     if \<not> is_magic m then NotMine
     else
       let (b, fp) = fread 20 fp in
       if length b \<noteq> 20 then CheckError (if broken fp then ReadError else Truncated 24 (length b))
       else
         let hdr = (if sw then swap_file_header (load_file_header b) else load_file_header b) in
         if fh_version_major hdr < 2 then CheckError ArchaicFormat
         else if \<not> supported_version (fh_version_major hdr) (fh_version_minor hdr)
         then CheckError (UnsupportedVersion (fh_version_major hdr) (fh_version_minor hdr))
         else new_handle e sw m hdr fp precision)"

text \<open>\<open>ng\<close> is the check for the other format, \<open>pcap_ng_check_header\<close>, which comes second. A null file is \<open>None\<close>.\<close>

definition pcap_fopen_offline_with_tstamp_precision ::
    "env \<Rightarrow> (byte list \<Rightarrow> infile \<Rightarrow> u32 \<Rightarrow> check) \<Rightarrow> infile option \<Rightarrow> u32 \<Rightarrow> sf_error + pcap_t" where
  "pcap_fopen_offline_with_tstamp_precision e ng file precision = (case file of
     None \<Rightarrow> Inl NullFile
   | Some fp \<Rightarrow>
       let (magic, fp) = fread 4 fp in
       if length magic \<noteq> 4 then Inl (if broken fp then ReadError else Truncated 4 (length magic))
       else case pcap_check_header e magic fp precision of
         Found p \<Rightarrow> Inr (p\<lparr>activated := True\<rparr>)
       | CheckError err \<Rightarrow> Inl err
       | NotMine \<Rightarrow> (case ng magic fp precision of
           Found p \<Rightarrow> Inr (p\<lparr>activated := True\<rparr>)
         | CheckError err \<Rightarrow> Inl err
         | NotMine \<Rightarrow> Inl UnknownFormat))"

text \<open>\<open>-\<close> is the standard input; otherwise \<open>fopen\<close> looks the name up.\<close>

definition pcap_open_offline_with_tstamp_precision :: "env \<Rightarrow> (byte list \<Rightarrow> infile \<Rightarrow> u32 \<Rightarrow> check) \<Rightarrow> infile option
    \<Rightarrow> (byte list \<Rightarrow> infile option) \<Rightarrow> byte list option \<Rightarrow> u32 \<Rightarrow> sf_error + pcap_t" where
  "pcap_open_offline_with_tstamp_precision e ng stdin fopen fname precision = (case fname of
     None \<Rightarrow> Inl NullName
   | Some name \<Rightarrow>
       if cstr name = bytes_of ''-'' then
         (case stdin of None \<Rightarrow> Inl CannotOpen | Some fp \<Rightarrow> pcap_fopen_offline_with_tstamp_precision e ng (Some fp) precision)
       else (case fopen (cstr name) of
           None \<Rightarrow> Inl CannotOpen
         | Some fp \<Rightarrow> pcap_fopen_offline_with_tstamp_precision e ng (Some fp) precision))"

definition pcap_open_offline :: "env \<Rightarrow> (byte list \<Rightarrow> infile \<Rightarrow> u32 \<Rightarrow> check) \<Rightarrow> infile option
    \<Rightarrow> (byte list \<Rightarrow> infile option) \<Rightarrow> byte list option \<Rightarrow> sf_error + pcap_t" where
  "pcap_open_offline e ng stdin fopen fname =
    pcap_open_offline_with_tstamp_precision e ng stdin fopen fname PCAP_TSTAMP_PRECISION_MICRO"

section \<open>Reading a packet\<close>

text \<open>The header of a packet. The seconds and microseconds of a file are signed, but a turned value is unsigned.\<close>

definition load_pkthdr :: "bool \<Rightarrow> byte list \<Rightarrow> pcap_pkthdr" where
  "load_pkthdr sw b =
    (if sw then \<lparr>ts_sec = uint (SWAPLONG (get 0 4 b)), ts_usec = uint (SWAPLONG (get 4 4 b)),
       caplen = SWAPLONG (get 8 4 b), pkt_len = SWAPLONG (get 12 4 b)\<rparr>
     else \<lparr>ts_sec = sint (get 0 4 b :: u32), ts_usec = sint (get 4 4 b :: u32), caplen = get 8 4 b, pkt_len = get 12 4 b\<rparr>)"

definition scale_usec :: "tstamp_scale_type \<Rightarrow> int \<Rightarrow> int" where
  "scale_usec sc us = (case sc of PASS_THROUGH \<Rightarrow> us | SCALE_UP \<Rightarrow> us * 1000 | SCALE_DOWN \<Rightarrow> us sdiv 1000)"

definition order_lengths :: "swapped_type \<Rightarrow> pcap_pkthdr \<Rightarrow> pcap_pkthdr" where
  "order_lengths sw hdr =
    (if sw = SWAPPED \<or> sw = MAYBE_SWAPPED \<and> pkt_len hdr < caplen hdr
     then hdr\<lparr>caplen := pkt_len hdr, pkt_len := caplen hdr\<rparr> else hdr)"

definition packet_header :: "pcap_t \<Rightarrow> byte list \<Rightarrow> pcap_pkthdr" where
  "packet_header p b =
    (let hdr = load_pkthdr (swapped p) b
     in order_lengths (lengths_swapped p) (hdr\<lparr>ts_usec := scale_usec (scale_type p) (ts_usec hdr)\<rparr>))"

definition grow_buffer :: "env \<Rightarrow> pcap_t \<Rightarrow> u32 \<Rightarrow> pcap_t option" where
  "grow_buffer e p bsz = (case realloc e (buffer p) (unat bsz) of
     None \<Rightarrow> None | Some b \<Rightarrow> Some (p\<lparr>buffer := b, bufsize := bsz\<rparr>))"

definition round_up_pow2 :: "u32 \<Rightarrow> u32" where
  "round_up_pow2 n =
    (let n = n - 1; n = n OR drop_bit 1 n; n = n OR drop_bit 2 n; n = n OR drop_bit 4 n; n = n OR drop_bit 8 n;
         n = n OR drop_bit 16 n in n + 1)"

definition fread_buffer :: "nat \<Rightarrow> pcap_t \<Rightarrow> (nat \<times> pcap_t) res" where
  "fread_buffer n p =
    (if length (buffer p) < n then Inl WriteOverrun
     else let (bs, f) = fread n (rfile p) in
       Inr (length bs, p\<lparr>buffer := bs @ drop (length bs) (buffer p), rfile := f\<rparr>))"

text \<open>The rest of a packet that is cut off, in pieces of at most 4096 bytes; a failure has the number of bytes read.\<close>

function discard :: "nat \<Rightarrow> nat \<Rightarrow> infile \<Rightarrow> nat \<times> infile + infile" where
  "discard n bytes_read f =
    (if n = 0 then Inr f
     else case fread (min n 4096) f of (bs, f) \<Rightarrow>
       if length bs \<noteq> min n 4096 then Inl (bytes_read + length bs, f)
       else discard (n - length bs) (bytes_read + length bs) f)"
  by pat_completeness auto
termination by (relation "measure (\<lambda>(n, bytes_read, f). n)") auto

declare discard.simps [simp del]

datatype next_packet = Packet pcap_pkthdr | Eof | Failed

definition fail_with :: "sf_error \<Rightarrow> pcap_t \<Rightarrow> (next_packet \<times> pcap_t) res" where
  "fail_with err p = Inr (Failed, p\<lparr>errbuf := Some err\<rparr>)"

definition short_read :: "infile \<Rightarrow> nat \<Rightarrow> nat \<Rightarrow> sf_error" where
  "short_read f wanted got = (if broken f then ReadError else Truncated wanted got)"

definition deliver :: "pcap_pkthdr \<Rightarrow> pcap_t \<Rightarrow> (next_packet \<times> pcap_t) res" where
  "deliver hdr p = bind_r (pcap_post_process (linktype p) (swapped p) hdr (buffer p)) (\<lambda>(hdr, buf).
     Inr (Packet hdr, p\<lparr>buffer := buf\<rparr>))"

text \<open>A packet that is longer than the snapshot length of the file is cut off; the data of a packet is at the start
  of the buffer.\<close>

definition read_cut_packet :: "env \<Rightarrow> pcap_pkthdr \<Rightarrow> pcap_t \<Rightarrow> (next_packet \<times> pcap_t) res" where
  "read_cut_packet e hdr p =
    (case (if bufsize p < caplen hdr then grow_buffer e p (snapshot p) else Some p) of
       None \<Rightarrow> fail_with OutOfMemory p
     | Some p \<Rightarrow> bind_r (fread_buffer (unat (snapshot p)) p) (\<lambda>(amt_read, p).
         if amt_read \<noteq> unat (snapshot p) then fail_with (short_read (rfile p) (unat (snapshot p)) amt_read) p
         else case discard (unat (caplen hdr - snapshot p)) amt_read (rfile p) of
           Inl (bytes_read, f) \<Rightarrow> fail_with (short_read f (unat (caplen hdr)) bytes_read) (p\<lparr>rfile := f\<rparr>)
         | Inr f \<Rightarrow> deliver (hdr\<lparr>caplen := snapshot p\<rparr>) (p\<lparr>rfile := f\<rparr>)))"

definition read_whole_packet :: "env \<Rightarrow> pcap_pkthdr \<Rightarrow> pcap_t \<Rightarrow> (next_packet \<times> pcap_t) res" where
  "read_whole_packet e hdr p =
    (let n = round_up_pow2 (caplen hdr) in
     case (if bufsize p < caplen hdr then grow_buffer e p (if snapshot p < n then snapshot p else n) else Some p) of
       None \<Rightarrow> fail_with OutOfMemory p
     | Some p \<Rightarrow> bind_r (fread_buffer (unat (caplen hdr)) p) (\<lambda>(amt_read, p).
         if amt_read \<noteq> unat (caplen hdr) then fail_with (short_read (rfile p) (unat (caplen hdr)) amt_read) p
         else deliver hdr p))"

definition pcap_next_packet :: "env \<Rightarrow> pcap_t \<Rightarrow> (next_packet \<times> pcap_t) res" where
  "pcap_next_packet e p =
    (case fread (hdrsize p) (rfile p) of (b, f) \<Rightarrow>
     let p = p\<lparr>rfile := f\<rparr> in
     if length b \<noteq> hdrsize p then
       (if broken f then fail_with ReadError p
        else if b \<noteq> [] then fail_with (Truncated (hdrsize p) (length b)) p
        else Inr (Eof, p))
     else
       let hdr = packet_header p b in
       if max_snaplen_for_dlt (linktype p) < caplen hdr then
         fail_with (if snapshot p < caplen hdr then CaplenOverSnaplen (caplen hdr) (snapshot p)
           else CaplenOverMaximum (caplen hdr) (max_snaplen_for_dlt (linktype p))) p
       else if snapshot p < caplen hdr then read_cut_packet e hdr p
       else read_whole_packet e hdr p)"

section \<open>Running the packets through the filter\<close>

datatype crash = MemoryFault fault | FilterFault bpf_fault

text \<open>Whether the filter takes the packet; \<open>None\<close> if the machine does not stop.\<close>

definition passes :: "env \<Rightarrow> bpf_insn list option \<Rightarrow> pcap_pkthdr \<Rightarrow> byte list \<Rightarrow> (crash + bool) option" where
  "passes e prog hdr data = (case prog of
     None \<Rightarrow> Some (Inr True)
   | Some f \<Rightarrow> (case pcap_filter (Some f) data (pkt_len hdr) (caplen hdr) (scratch_mem e) of
       Some (Returned v) \<Rightarrow> Some (Inr (v \<noteq> 0))
     | Some (Broken err) \<Rightarrow> Some (Inl (FilterFault err))
     | _ \<Rightarrow> None))"

text \<open>A callback gets the header and the memory at the data pointer; it changes the state of the program, and it may call
  \<open>pcap_breakloop\<close>.\<close>

type_synonym 's callback = "pcap_pkthdr \<Rightarrow> byte list \<Rightarrow> 's \<Rightarrow> 's \<times> bool"

definition pcap_breakloop :: "pcap_t \<Rightarrow> pcap_t" where
  "pcap_breakloop p = p\<lparr>break_loop := True\<rparr>"

definition call_back :: "'s callback \<Rightarrow> pcap_pkthdr \<Rightarrow> pcap_t \<Rightarrow> 's \<Rightarrow> pcap_t \<times> 's" where
  "call_back cb hdr p s = (case cb hdr (buffer p) s of (s, brk) \<Rightarrow> (if brk then pcap_breakloop p else p, s))"

partial_function (option) offline_packets :: "env \<Rightarrow> 's callback \<Rightarrow> int \<Rightarrow> int \<Rightarrow> pcap_t \<Rightarrow> 's
    \<Rightarrow> (crash + int \<times> pcap_t \<times> 's) option" where
  "offline_packets e cb cnt n p s =
    (if break_loop p then
       Some (Inr (if n = 0 then (- 2, p\<lparr>break_loop := False\<rparr>, s) else (n, p, s)))
     else case pcap_next_packet e p of
       Inl err \<Rightarrow> Some (Inl (MemoryFault err))
     | Inr (status, p) \<Rightarrow> (case status of
         Failed \<Rightarrow> Some (Inr (- 1, p, s))
       | Eof \<Rightarrow> Some (Inr (n, p, s))
       | Packet hdr \<Rightarrow> Option.bind (passes e (fcode p) hdr (buffer p)) (\<lambda>r. case r of
           Inl err \<Rightarrow> Some (Inl err)
         | Inr ok \<Rightarrow>
             if ok then
               (case call_back cb hdr p s of (p, s) \<Rightarrow>
                 if cnt \<le> n + 1 then Some (Inr (n + 1, p, s)) else offline_packets e cb cnt (n + 1) p s)
             else offline_packets e cb cnt n p s)))"

definition pcap_offline_read :: "env \<Rightarrow> pcap_t \<Rightarrow> int \<Rightarrow> 's callback \<Rightarrow> 's \<Rightarrow> (crash + int \<times> pcap_t \<times> 's) option" where
  "pcap_offline_read e p cnt cb s = offline_packets e cb (if cnt \<le> 0 then 2147483647 else cnt) 0 p s"

text \<open>\<open>pcap_loop\<close> of a capture file.\<close>

partial_function (option) pcap_loop_offline :: "env \<Rightarrow> pcap_t \<Rightarrow> int \<Rightarrow> 's callback \<Rightarrow> 's
    \<Rightarrow> (crash + int \<times> pcap_t \<times> 's) option" where
  "pcap_loop_offline e p cnt cb s = Option.bind (pcap_offline_read e p cnt cb s) (\<lambda>r. case r of
     Inl err \<Rightarrow> Some (Inl err)
   | Inr (n, p, s) \<Rightarrow>
       if n \<le> 0 then Some (Inr (n, p, s))
       else if cnt \<le> 0 then pcap_loop_offline e p cnt cb s
       else if cnt - n \<le> 0 then Some (Inr (0, p, s))
       else pcap_loop_offline e p (cnt - n) cb s)"

definition pcap_oneshot :: "(pcap_pkthdr \<times> byte list) option callback" where
  "pcap_oneshot hdr pkt s = (Some (hdr, pkt), False)"

text \<open>\<open>pcap_next_ex\<close> of a capture file: the status, and what the two pointers then lead to.\<close>

definition pcap_next_ex :: "env \<Rightarrow> pcap_t \<Rightarrow> (crash + int \<times> pcap_t \<times> (pcap_pkthdr \<times> byte list) option) option" where
  "pcap_next_ex e p = Option.bind (pcap_offline_read e p 1 pcap_oneshot None) (\<lambda>r. Some (case r of
     Inl err \<Rightarrow> Inl err
   | Inr (status, p, pkt) \<Rightarrow> Inr (if status = 0 then - 2 else status, p, pkt)))"

definition pcap_next :: "env \<Rightarrow> pcap_t \<Rightarrow> (crash + pcap_t \<times> (pcap_pkthdr \<times> byte list) option) option" where
  "pcap_next e p = Option.bind (pcap_offline_read e p 1 pcap_oneshot None) (\<lambda>r. Some (case r of
     Inl err \<Rightarrow> Inl err
   | Inr (status, p, pkt) \<Rightarrow> Inr (p, if status \<le> 0 then None else pkt)))"

text \<open>The program is copied; when there is no memory for the copy, the handle is left without a filter.\<close>

definition install_bpf_program :: "env \<Rightarrow> pcap_t \<Rightarrow> bpf_insn list \<Rightarrow> int \<times> pcap_t" where
  "install_bpf_program e p prog =
    (if \<not> pcap_validate_filter prog then (- 1, p\<lparr>errbuf := Some InvalidProgram\<rparr>)
     else case alloc e (8 * length prog) of
       None \<Rightarrow> (- 1, p\<lparr>fcode := None, errbuf := Some OutOfMemory\<rparr>)
     | Some _ \<Rightarrow> (0, p\<lparr>fcode := Some prog\<rparr>))"

section \<open>Writing\<close>

definition file_header_bytes :: "u32 \<Rightarrow> u32 \<Rightarrow> u32 \<Rightarrow> byte list" where
  "file_header_bytes magic lt snaplen = le_bytes 4 magic @ le_bytes 2 (2 :: u16) @ le_bytes 2 (4 :: u16) @
     le_bytes 4 (0 :: u32) @ le_bytes 4 (0 :: u32) @ le_bytes 4 snaplen @ le_bytes 4 lt"

definition magic_for :: "pcap_t \<Rightarrow> u32" where
  "magic_for p = (if tstamp_precision p = PCAP_TSTAMP_PRECISION_NANO then NSEC_TCPDUMP_MAGIC else TCPDUMP_MAGIC)"

definition sf_write_header :: "pcap_t \<Rightarrow> outfile \<Rightarrow> u32 \<Rightarrow> u32 \<Rightarrow> int \<times> outfile" where
  "sf_write_header p fp lt snaplen = (case fwrite (file_header_bytes (magic_for p) lt snaplen) fp of
     (ok, fp) \<Rightarrow> (if ok then 0 else - 1, fp))"

text \<open>The seconds and microseconds are cut to 32 bits.\<close>

definition pkthdr_bytes :: "pcap_pkthdr \<Rightarrow> byte list" where
  "pkthdr_bytes h = le_bytes 4 (word_of_int (ts_sec h) :: u32) @ le_bytes 4 (word_of_int (ts_usec h) :: u32) @
     le_bytes 4 (caplen h) @ le_bytes 4 (pkt_len h)"

definition pcap_dump :: "pcap_pkthdr \<Rightarrow> byte list \<Rightarrow> outfile \<Rightarrow> outfile res" where
  "pcap_dump h sp f =
    (if out_error f then Inr f
     else case fwrite (pkthdr_bytes h) f of (ok, f) \<Rightarrow>
       if ok then bind_r (rd (unat (caplen h)) sp) (\<lambda>bs. Inr (snd (fwrite bs f))) else Inr f)"

definition pcap_setup_dump :: "pcap_t \<Rightarrow> u32 \<Rightarrow> outfile \<Rightarrow> sf_error + outfile" where
  "pcap_setup_dump p lt f = (case sf_write_header p f lt (snapshot p) of
     (r, f) \<Rightarrow> if r = - 1 then Inl CannotWrite else Inr f)"

text \<open>\<open>fopen\<close> of mode \<open>wb\<close>: an empty file, or a null pointer.\<close>

definition pcap_dump_open :: "outfile \<Rightarrow> (byte list \<Rightarrow> outfile option) \<Rightarrow> pcap_t \<Rightarrow> byte list option \<Rightarrow> sf_error + outfile" where
  "pcap_dump_open stdout fopen p fname =
    (if \<not> activated p then Inl NotActivated
     else
       let lt = dlt_to_linktype (linktype p) in
       if lt = - 1 then Inl (UnsupportedLinktype (linktype p))
       else
         let lt = word_of_int lt OR linktype_ext p in
         case fname of
           None \<Rightarrow> Inl NullName
         | Some name \<Rightarrow>
             if cstr name = bytes_of ''-'' then pcap_setup_dump p lt stdout
             else (case fopen (cstr name) of None \<Rightarrow> Inl CannotOpen | Some f \<Rightarrow> pcap_setup_dump p lt f))"

text \<open>A file that is opened with mode \<open>ab+\<close>: it has its old contents, and whether reading it fails, and the two seeks.\<close>

record appfile =
  app_out :: outfile
  app_broken :: bool
  seek_set_ok :: bool
  seek_end_ok :: bool

definition check_appendable :: "pcap_t \<Rightarrow> u32 \<Rightarrow> byte list \<Rightarrow> sf_error option" where
  "check_appendable p lt ph =
    (let magic = get 0 4 ph; hdr = load_file_header (drop 4 ph) in
     if magic = TCPDUMP_MAGIC \<and> tstamp_precision p \<noteq> PCAP_TSTAMP_PRECISION_MICRO then Some DifferentPrecision
     else if magic = NSEC_TCPDUMP_MAGIC \<and> tstamp_precision p \<noteq> PCAP_TSTAMP_PRECISION_NANO then Some DifferentPrecision
     else if magic = SWAPLONG TCPDUMP_MAGIC \<or> magic = SWAPLONG NSEC_TCPDUMP_MAGIC then Some DifferentByteOrder
     else if magic \<in> {KUZNETZOV_TCPDUMP_MAGIC, SWAPLONG KUZNETZOV_TCPDUMP_MAGIC, NAVTEL_TCPDUMP_MAGIC, SWAPLONG NAVTEL_TCPDUMP_MAGIC}
     then Some NotAppendable
     else if magic \<noteq> TCPDUMP_MAGIC \<and> magic \<noteq> NSEC_TCPDUMP_MAGIC then Some NotPcap
     else if fh_version_major hdr \<noteq> 2 \<or> fh_version_minor hdr \<noteq> 4
     then Some (UnsupportedVersion (fh_version_major hdr) (fh_version_minor hdr))
     else if lt \<noteq> fh_linktype hdr then Some DifferentLinktype
     else if snapshot p \<noteq> fh_snaplen hdr then Some DifferentSnaplen
     else None)"

definition pcap_dump_open_append :: "outfile \<Rightarrow> (byte list \<Rightarrow> appfile option) \<Rightarrow> pcap_t \<Rightarrow> byte list option \<Rightarrow> sf_error + outfile" where
  "pcap_dump_open_append stdout fopen p fname =
    (let lt = dlt_to_linktype (linktype p) in
     if lt = - 1 then Inl (UnsupportedLinktype (linktype p))
     else case fname of
       None \<Rightarrow> Inl NullName
     | Some name \<Rightarrow>
         if cstr name = bytes_of ''-'' then pcap_setup_dump p (word_of_int lt) stdout
         else (case fopen (cstr name) of
             None \<Rightarrow> Inl CannotOpen
           | Some f \<Rightarrow>
               if \<not> seek_set_ok f then Inl CannotSeek
               else
                 let ph = take 24 (written (app_out f)) in
                 if length ph \<noteq> 24 \<and> app_broken f then Inl ReadError
                 else if length ph \<noteq> 24 \<and> ph \<noteq> [] then Inl (Truncated 24 (length ph))
                 else
                   let checked = (if ph \<noteq> [] then
                         (case check_appendable p (word_of_int lt) ph of None \<Rightarrow> Inr (app_out f) | Some err \<Rightarrow> Inl err)
                       else (case sf_write_header p (app_out f) (word_of_int lt) (snapshot p) of
                           (r, out) \<Rightarrow> if r = - 1 then Inl CannotWrite else Inr out))
                   in case checked of Inl err \<Rightarrow> Inl err | Inr out \<Rightarrow> if seek_end_ok f then Inr out else Inl CannotSeek))"

end
