(* ===== verification/Savefile_Safe.thy ===== *)
theory Savefile_Safe
  imports Savefile Bpf_Valid
begin

text \<open>
  That the reader of capture files stays inside its buffer, and what a read changes of the handle.
\<close>

section \<open>The buffer of the reader\<close>

definition reader_ok :: "pcap_t \<Rightarrow> bool" where
  "reader_ok p \<longleftrightarrow> 0 < unat (snapshot p) \<and> unat (snapshot p) < 2 ^ 31 \<and> length (buffer p) = unat (bufsize p) \<and>
     unat (bufsize p) \<le> unat (snapshot p) \<and> hdrsize p \<in> {16, 24}"

lemma adjust_snapshot_bound: "0 < unat (pcap_adjust_snapshot lt s)" "unat (pcap_adjust_snapshot lt s) < 2 ^ 31"
proof -
  have "unat (max_snaplen_for_dlt lt) < 2 ^ 31" using max_snaplen_bound(2) [of lt] by simp
  then show "0 < unat (pcap_adjust_snapshot lt s)" "unat (pcap_adjust_snapshot lt s) < 2 ^ 31"
    using max_snaplen_bound(1) [of lt]
    by (auto simp: pcap_adjust_snapshot_def INT_MAX_def word_le_nat_alt word_less_nat_alt unat_gt_0 not_less)
qed

lemma patched_snapshot_bound:
  assumes "0 < unat s" "unat s < 2 ^ 31"
  shows "0 < unat (patched_snapshot b lt s)" "unat (patched_snapshot b lt s) < 2 ^ 31"
proof -
  have "s \<le> INT_MAX - 14 \<Longrightarrow> unat (s + 14) = unat s + 14 \<and> unat s + 14 < 2 ^ 31"
    by (simp add: INT_MAX_def word_le_nat_alt unat_word_ariths)
  then show "0 < unat (patched_snapshot b lt s)" "unat (patched_snapshot b lt s) < 2 ^ 31"
    using assms by (auto simp: patched_snapshot_def INT_MAX_def)
qed

lemma new_handle_ok:
  assumes "new_handle e sw m hdr fp precision = Found p" "blocks e"
  shows "reader_ok p"
  using assms patched_snapshot_bound [OF adjust_snapshot_bound]
  by (auto simp: new_handle_def Let_def reader_ok_def blocks_def word_less_nat_alt split: if_splits option.splits)

lemma check_header_ok:
  assumes "pcap_check_header e magic fp precision = Found p" "blocks e"
  shows "reader_ok p"
  using assms(1) new_handle_ok [OF _ assms(2)]
  by (auto simp: pcap_check_header_def Let_def split: prod.splits if_splits)

lemma less_bits:
  fixes w :: u32
  shows "unat w < 2 ^ 31 \<longleftrightarrow> \<not> bit w 31"
proof -
  have "unat w < 2 ^ 31 \<longleftrightarrow> take_bit 31 w = w"
    by (metis take_bit_eq_self_iff_drop_bit_eq_0 unsigned_take_bit_eq take_bit_nat_eq_self_iff word_unat_eq_iff)
  also have "\<dots> \<longleftrightarrow> \<not> bit w 31"
  proof
    assume "take_bit 31 w = w"
    then show "\<not> bit w 31" by (metis bit_take_bit_iff less_irrefl)
  next
    assume b: "\<not> bit w 31"
    show "take_bit 31 w = w"
    proof (rule bit_word_eqI)
      fix n assume n: "n < LENGTH(32)"
      show "bit (take_bit 31 w) n = bit w n"
        using b n by (cases "n = 31") (auto simp: bit_take_bit_iff)
    qed
  qed
  finally show ?thesis .
qed

lemma round_up_ge:
  assumes "n \<noteq> 0" "unat n \<le> 2 ^ 31"
  shows "n \<le> round_up_pow2 n"
proof -
  define m where "m = n - 1"
  have m: "unat m + 1 = unat n" using assms(1) by (simp add: m_def unat_minus_one unat_gt_0 Suc_leI)
  then have b: "\<not> bit m 31" using assms(2) less_bits [of m] by simp
  have hi: "32 \<le> k \<Longrightarrow> \<not> bit m k" for k using bit_imp_le_length [of m k] by auto
  define r where "r = (let n = m; n = n OR drop_bit 1 n; n = n OR drop_bit 2 n; n = n OR drop_bit 4 n; n = n OR drop_bit 8 n
    in n OR drop_bit 16 n)"
  have "m \<le> r" unfolding r_def Let_def by (rule order_trans [OF _ le_word_or2])+ simp
  moreover have "\<not> bit r 31" using b hi unfolding r_def Let_def by (simp add: bit_simps)
  ultimately have "unat n \<le> unat (r + 1)"
    using less_bits [of r] m by (simp add: word_le_nat_alt unat_word_ariths)
  then show ?thesis by (simp add: round_up_pow2_def Let_def r_def m_def word_le_nat_alt)
qed

text \<open>What a read keeps of the handle.\<close>

definition fixed_part :: "pcap_t \<Rightarrow> pcap_t" where
  "fixed_part p = p\<lparr>buffer := [], bufsize := 0, rfile := \<lparr>unread = [], broken = False\<rparr>, errbuf := None\<rparr>"

lemma fixed_part_upd [simp]:
  "fixed_part (p\<lparr>buffer := b\<rparr>) = fixed_part p" "fixed_part (p\<lparr>bufsize := n\<rparr>) = fixed_part p"
  "fixed_part (p\<lparr>rfile := f\<rparr>) = fixed_part p" "fixed_part (p\<lparr>errbuf := err\<rparr>) = fixed_part p"
  by (simp_all add: fixed_part_def)

lemma fixed_partD:
  assumes "fixed_part p = fixed_part q"
  shows "swapped p = swapped q" "linktype p = linktype q" "snapshot p = snapshot q" "hdrsize p = hdrsize q"
    "lengths_swapped p = lengths_swapped q" "scale_type p = scale_type q" "fcode p = fcode q" "break_loop p = break_loop q"
  using arg_cong [OF assms, of swapped] arg_cong [OF assms, of linktype] arg_cong [OF assms, of snapshot]
    arg_cong [OF assms, of hdrsize] arg_cong [OF assms, of lengths_swapped] arg_cong [OF assms, of scale_type]
    arg_cong [OF assms, of fcode] arg_cong [OF assms, of break_loop]
  by (simp_all add: fixed_part_def)

text \<open>The outcome of a read of a packet: no fault, a good handle, and for a packet that its data is in the buffer; the
  file has become shorter by the header.\<close>

definition good_read :: "nat \<Rightarrow> pcap_t \<Rightarrow> (next_packet \<times> pcap_t) res \<Rightarrow> bool" where
  "good_read n p r \<longleftrightarrow> (\<exists>st q. r = Inr (st, q) \<and> reader_ok q \<and> fixed_part q = fixed_part p \<and>
     (\<forall>hdr. st = Packet hdr \<longrightarrow> caplen hdr \<le> snapshot q \<and> unat (caplen hdr) \<le> length (buffer q) \<and>
        caplen hdr \<le> max_snaplen_for_dlt (linktype q)) \<and>
     length (unread (rfile q)) \<le> n)"

lemma reader_ok_upd [simp]: "reader_ok (p\<lparr>rfile := f\<rparr>) = reader_ok p" "reader_ok (p\<lparr>errbuf := err\<rparr>) = reader_ok p"
  by (simp_all add: reader_ok_def)

lemma good_fail: "reader_ok p \<Longrightarrow> length (unread (rfile p)) \<le> n \<Longrightarrow> good_read n p (fail_with err p)"
  by (simp add: good_read_def fail_with_def)

lemma good_read_fixed: "fixed_part p = fixed_part q \<Longrightarrow> good_read n p r \<longleftrightarrow> good_read n q r"
  by (simp add: good_read_def)

lemma grow_buffer_ok:
  assumes "grow_buffer e p n = Some q" "blocks e" "reader_ok p" "unat n \<le> unat (snapshot p)"
  shows "reader_ok q \<and> bufsize q = n \<and> fixed_part q = fixed_part p \<and> rfile q = rfile p"
proof -
  from assms(1) obtain b where b: "alloc e (unat n) = Some b" "q = p\<lparr>buffer := take (unat n) (buffer p) @ drop (length (buffer p)) b, bufsize := n\<rparr>"
    by (auto simp: grow_buffer_def realloc_def split: option.splits)
  have "length b = unat n" using assms(2) b(1) by (simp add: blocks_def)
  then show ?thesis using assms(3,4) b(2) by (auto simp: reader_ok_def)
qed

lemma fread_buffer_ok:
  assumes "reader_ok p" "n \<le> length (buffer p)"
  shows "\<exists>q. fread_buffer n p = Inr (length (take n (unread (rfile p))), q) \<and> reader_ok q \<and> fixed_part q = fixed_part p \<and>
    unread (rfile q) = drop n (unread (rfile p)) \<and> broken (rfile q) = broken (rfile p) \<and>
    length (buffer q) = length (buffer p) \<and> take (length (take n (unread (rfile p)))) (buffer q) = take n (unread (rfile p))"
  using assms by (auto simp: fread_buffer_def fread_def reader_ok_def min_def)

lemma discard_rest: "case discard n got f of Inl (_, g) \<Rightarrow> length (unread g) \<le> length (unread f) |
    Inr g \<Rightarrow> length (unread g) \<le> length (unread f)"
proof (induction n got f rule: discard.induct)
  case (1 n got f)
  show ?case
  proof (cases "n = 0 \<or> length (take (min n 4096) (unread f)) \<noteq> min n 4096")
    case True
    then show ?thesis by (subst discard.simps) (auto simp: fread_def)
  next
    case False
    let ?bs = "take (min n 4096) (unread f)" and ?f = "f\<lparr>unread := drop (min n 4096) (unread f)\<rparr>"
    have "discard n got f = discard (n - length ?bs) (got + length ?bs) ?f"
      using False by (subst discard.simps) (simp add: fread_def)
    moreover have "case discard (n - length ?bs) (got + length ?bs) ?f of Inl (_, g) \<Rightarrow> length (unread g) \<le> length (unread ?f) |
        Inr g \<Rightarrow> length (unread g) \<le> length (unread ?f)"
      using False by (intro "1.IH") (auto simp: fread_def)
    ultimately show ?thesis by (auto split: sum.splits)
  qed
qed

lemma deliver_ok:
  assumes "reader_ok p" "unat (caplen hdr) \<le> length (buffer p)" "caplen hdr \<le> snapshot p" "length (unread (rfile p)) \<le> n"
    "caplen hdr \<le> max_snaplen_for_dlt (linktype p)"
  shows "good_read n p (deliver hdr p)"
proof -
  have "unat (caplen hdr) < 2 ^ 31" using assms(1,3) by (simp add: reader_ok_def word_le_nat_alt)
  from post_process_ok [OF assms(2) this, of "linktype p" "swapped p"] show ?thesis
    using assms by (auto simp: deliver_def good_read_def reader_ok_def within_def corrected_def)
qed

text \<open>The buffer, grown or not, has the size that the read needs.\<close>

lemma maybe_grow:
  assumes "(if bufsize p < need then grow_buffer e p n else Some p) = Some q" "blocks e" "reader_ok p"
    "unat n \<le> unat (snapshot p)" "need \<le> n \<or> n = snapshot p"
  shows "reader_ok q \<and> fixed_part q = fixed_part p \<and> rfile q = rfile p \<and> (bufsize q = n \<or> need \<le> bufsize q)"
  using assms grow_buffer_ok [of e p n q] by (auto split: if_splits)

lemma read_cut_packet_ok:
  assumes "reader_ok p" "blocks e" "snapshot p < caplen hdr" "length (unread (rfile p)) \<le> n"
    "caplen hdr \<le> max_snaplen_for_dlt (linktype p)"
  shows "good_read n p (read_cut_packet e hdr p)"
proof (cases "if bufsize p < caplen hdr then grow_buffer e p (snapshot p) else Some p")
  case None
  then show ?thesis using assms(1,4) by (simp add: read_cut_packet_def good_fail)
next
  case (Some q)
  have q: "reader_ok q" "fixed_part q = fixed_part p" "rfile q = rfile p" "bufsize q = snapshot p \<or> caplen hdr \<le> bufsize q"
    using maybe_grow [OF Some assms(2,1)] by auto
  have qp: "snapshot q = snapshot p" "linktype q = linktype p" using fixed_partD [OF q(2)] by auto
  have "unat (snapshot p) \<le> unat (bufsize q)"
    using q(4) assms(3) by (auto simp: word_le_nat_alt word_less_nat_alt)
  then have l: "unat (snapshot q) \<le> length (buffer q)" using q(1) qp by (simp add: reader_ok_def)
  obtain r where r: "fread_buffer (unat (snapshot q)) q = Inr (length (take (unat (snapshot q)) (unread (rfile q))), r)"
    "reader_ok r" "fixed_part r = fixed_part q" "unread (rfile r) = drop (unat (snapshot q)) (unread (rfile q))"
    "length (buffer r) = length (buffer q)"
    using fread_buffer_ok [OF q(1) l] by blast
  have rp: "snapshot r = snapshot p" "linktype r = linktype p" using fixed_partD [OF r(3)] qp by auto
  have rn: "length (unread (rfile r)) \<le> n" using assms(4) r(4) q(3) by simp
  have goal: "good_read n r (if length (take (unat (snapshot q)) (unread (rfile q))) \<noteq> unat (snapshot r)
      then fail_with (short_read (rfile r) (unat (snapshot r)) (length (take (unat (snapshot q)) (unread (rfile q))))) r
      else case discard (unat (caplen hdr - snapshot r)) (length (take (unat (snapshot q)) (unread (rfile q)))) (rfile r) of
        Inl (bytes_read, f) \<Rightarrow> fail_with (short_read f (unat (caplen hdr)) bytes_read) (r\<lparr>rfile := f\<rparr>)
      | Inr f \<Rightarrow> deliver (hdr\<lparr>caplen := snapshot r\<rparr>) (r\<lparr>rfile := f\<rparr>))"
  proof (cases "length (take (unat (snapshot q)) (unread (rfile q))) = unat (snapshot r)")
    case False
    then show ?thesis using r(2) rn by (simp add: good_fail)
  next
    case True
    let ?d = "discard (unat (caplen hdr - snapshot r)) (length (take (unat (snapshot q)) (unread (rfile q)))) (rfile r)"
    have dr: "case ?d of Inl (_, g) \<Rightarrow> length (unread g) \<le> n | Inr g \<Rightarrow> length (unread g) \<le> n"
      using discard_rest [where n = "unat (caplen hdr - snapshot r)" and got = "length (take (unat (snapshot q)) (unread (rfile q)))" and f = "rfile r"] rn
      by (auto split: sum.splits)
    show ?thesis
    proof (cases ?d)
      case (Inl x)
      obtain k f where x: "x = (k, f)" by (cases x)
      have "good_read n (r\<lparr>rfile := f\<rparr>) (fail_with (short_read f (unat (caplen hdr)) k) (r\<lparr>rfile := f\<rparr>))"
        using r(2) dr Inl x by (intro good_fail) simp_all
      then show ?thesis using True Inl x by (simp add: good_read_def)
    next
      case (Inr f)
      have "good_read n (r\<lparr>rfile := f\<rparr>) (deliver (hdr\<lparr>caplen := snapshot r\<rparr>) (r\<lparr>rfile := f\<rparr>))"
        using r(2,5) dr Inr l qp rp assms(3,5) by (intro deliver_ok) auto
      then show ?thesis using True Inr by (simp add: good_read_def)
    qed
  qed
  have "read_cut_packet e hdr p = (if length (take (unat (snapshot q)) (unread (rfile q))) \<noteq> unat (snapshot r)
      then fail_with (short_read (rfile r) (unat (snapshot r)) (length (take (unat (snapshot q)) (unread (rfile q))))) r
      else case discard (unat (caplen hdr - snapshot r)) (length (take (unat (snapshot q)) (unread (rfile q)))) (rfile r) of
        Inl (bytes_read, f) \<Rightarrow> fail_with (short_read f (unat (caplen hdr)) bytes_read) (r\<lparr>rfile := f\<rparr>)
      | Inr f \<Rightarrow> deliver (hdr\<lparr>caplen := snapshot r\<rparr>) (r\<lparr>rfile := f\<rparr>))"
    unfolding read_cut_packet_def Some option.case r(1) bind_r.simps prod.case ..
  then show ?thesis using goal good_read_fixed [of r p n] r(3) q(2) by simp
qed

lemma needed_buffer:
  assumes "(if bufsize p < caplen hdr then grow_buffer e p
      (if snapshot p < round_up_pow2 (caplen hdr) then snapshot p else round_up_pow2 (caplen hdr)) else Some p) = Some q"
    and "blocks e" "reader_ok p" "caplen hdr \<le> snapshot p" "caplen hdr \<le> max_snaplen_for_dlt (linktype p)"
  shows "reader_ok q \<and> fixed_part q = fixed_part p \<and> rfile q = rfile p \<and> unat (caplen hdr) \<le> length (buffer q)"
proof (cases "bufsize p < caplen hdr")
  case True
  let ?n = "if snapshot p < round_up_pow2 (caplen hdr) then snapshot p else round_up_pow2 (caplen hdr)"
  have "caplen hdr \<noteq> 0" using True by auto
  moreover have "unat (caplen hdr) \<le> 2 ^ 31"
    using max_snaplen_bound(2) [of "linktype p"] assms(5) by (simp add: word_le_nat_alt)
  ultimately have "caplen hdr \<le> ?n" using round_up_ge [of "caplen hdr"] assms(4) by simp
  moreover have "grow_buffer e p ?n = Some q" using True assms(1) by simp
  moreover have "unat ?n \<le> unat (snapshot p)" by (auto simp: word_less_nat_alt)
  ultimately have "reader_ok q \<and> caplen hdr \<le> bufsize q \<and> fixed_part q = fixed_part p \<and> rfile q = rfile p"
    using grow_buffer_ok [OF _ assms(2,3)] by metis
  then show ?thesis by (simp add: reader_ok_def word_le_nat_alt)
next
  case False
  then have "q = p" using assms(1) by simp
  moreover have "unat (caplen hdr) \<le> unat (bufsize p)" using False by (simp add: word_le_nat_alt not_less)
  ultimately show ?thesis using assms(3) by (simp add: reader_ok_def)
qed

lemma read_whole_packet_ok:
  assumes "reader_ok p" "blocks e" "caplen hdr \<le> snapshot p" "length (unread (rfile p)) \<le> n"
    "caplen hdr \<le> max_snaplen_for_dlt (linktype p)"
  shows "good_read n p (read_whole_packet e hdr p)"
proof (cases "if bufsize p < caplen hdr then grow_buffer e p
    (if snapshot p < round_up_pow2 (caplen hdr) then snapshot p else round_up_pow2 (caplen hdr)) else Some p")
  case None
  then show ?thesis using assms(1,4) by (simp add: read_whole_packet_def Let_def good_fail)
next
  case (Some q)
  have q: "reader_ok q" "fixed_part q = fixed_part p" "rfile q = rfile p" and l: "unat (caplen hdr) \<le> length (buffer q)"
    using needed_buffer [OF Some assms(2,1,3,5)] by auto
  have qp: "snapshot q = snapshot p" "linktype q = linktype p" using fixed_partD [OF q(2)] by auto
  obtain r where r: "fread_buffer (unat (caplen hdr)) q = Inr (length (take (unat (caplen hdr)) (unread (rfile q))), r)"
    "reader_ok r" "fixed_part r = fixed_part q" "unread (rfile r) = drop (unat (caplen hdr)) (unread (rfile q))"
    "length (buffer r) = length (buffer q)"
    using fread_buffer_ok [OF q(1) l] by blast
  have rp: "snapshot r = snapshot p" "linktype r = linktype p" using fixed_partD [OF r(3)] qp by auto
  have rn: "length (unread (rfile r)) \<le> n" using assms(4) r(4) q(3) by simp
  have "good_read n r (if length (take (unat (caplen hdr)) (unread (rfile q))) \<noteq> unat (caplen hdr)
      then fail_with (short_read (rfile r) (unat (caplen hdr)) (length (take (unat (caplen hdr)) (unread (rfile q))))) r
      else deliver hdr r)"
    using good_fail [OF r(2) rn] deliver_ok [OF r(2) _ _ rn] l r(5) rp assms(3,5) by simp
  moreover have "read_whole_packet e hdr p = (if length (take (unat (caplen hdr)) (unread (rfile q))) \<noteq> unat (caplen hdr)
      then fail_with (short_read (rfile r) (unat (caplen hdr)) (length (take (unat (caplen hdr)) (unread (rfile q))))) r
      else deliver hdr r)"
    unfolding read_whole_packet_def Let_def Some option.case r(1) bind_r.simps prod.case ..
  ultimately show ?thesis using good_read_fixed [of r p n] r(3) q(2) by simp
qed

lemma next_packet_ok:
  assumes "reader_ok p" "blocks e"
  shows "\<exists>st q. pcap_next_packet e p = Inr (st, q) \<and> reader_ok q \<and> fixed_part q = fixed_part p \<and>
     length (unread (rfile q)) \<le> length (unread (rfile p)) \<and>
     (\<forall>hdr. st = Packet hdr \<longrightarrow> caplen hdr \<le> snapshot q \<and> unat (caplen hdr) \<le> length (buffer q) \<and>
        caplen hdr \<le> max_snaplen_for_dlt (linktype q) \<and> length (unread (rfile q)) + 16 \<le> length (unread (rfile p)))"
proof -
  let ?b = "take (hdrsize p) (unread (rfile p))" and ?f = "(rfile p)\<lparr>unread := drop (hdrsize p) (unread (rfile p))\<rparr>"
  let ?p = "p\<lparr>rfile := ?f\<rparr>" and ?h = "packet_header (p\<lparr>rfile := ?f\<rparr>) (take (hdrsize p) (unread (rfile p)))"
  have ok: "reader_ok ?p" using assms(1) by simp
  show ?thesis
  proof (cases "length ?b = hdrsize p")
    case False
    then show ?thesis
      using assms(1) by (auto simp: pcap_next_packet_def fread_def Let_def fail_with_def)
  next
    case True
    let ?n = "length (unread (rfile p)) - 16"
    have n: "length (unread (rfile ?p)) \<le> ?n" "16 \<le> length (unread (rfile p))"
      using True assms(1) by (auto simp: reader_ok_def)
    have "good_read ?n ?p (pcap_next_packet e p)"
      using read_cut_packet_ok [OF ok assms(2), of ?h ?n] read_whole_packet_ok [OF ok assms(2), of ?h ?n] good_fail [OF ok, of ?n] n(1) True
      unfolding pcap_next_packet_def fread_def Let_def by (simp add: not_less del: length_take)
    then show ?thesis using n(2) unfolding good_read_def by fastforce
  qed
qed

section \<open>Every read of a capture file ends\<close>

text \<open>A filter that decides on every packet.\<close>

definition total_filter :: "env \<Rightarrow> bpf_insn list option \<Rightarrow> bool" where
  "total_filter e prog \<longleftrightarrow> (\<forall>hdr data. unat (caplen hdr) \<le> length data \<longrightarrow> (\<exists>ok. passes e prog hdr data = Some (Inr ok)))"

lemma total_filter_none: "total_filter e None"
  by (auto simp add: total_filter_def passes_def)

lemma total_filter_checked:
  assumes "pcap_validate_filter f" "length f < 2 ^ 31" "forward f" "known f" "length (scratch_mem e) = BPF_MEMWORDS"
  shows "total_filter e (Some f)"
  unfolding total_filter_def
proof (intro allI impI)
  fix hdr :: pcap_pkthdr and data :: "byte list"
  assume "unat (caplen hdr) \<le> length data"
  from program_returns [OF assms(1,2) this assms(5,3,4), of "pkt_len hdr" None]
  show "\<exists>ok. passes e (Some f) hdr data = Some (Inr ok)" by (auto simp: passes_def pcap_filter_def)
qed

lemma call_back_handle:
  "reader_ok (fst (call_back cb hdr p s)) = reader_ok p" "fcode (fst (call_back cb hdr p s)) = fcode p"
  "rfile (fst (call_back cb hdr p s)) = rfile p"
  by (simp_all add: call_back_def pcap_breakloop_def reader_ok_def split: prod.split)

lemma offline_packets_return:
  assumes "reader_ok p" "blocks e" "total_filter e (fcode p)" "0 \<le> n"
  shows "\<exists>k q t. offline_packets e cb cnt n p s = Some (Inr (k, q, t)) \<and> reader_ok q \<and> fcode q = fcode p \<and>
    length (unread (rfile q)) \<le> length (unread (rfile p)) \<and> (n < k \<longrightarrow> length (unread (rfile q)) < length (unread (rfile p)))"
  using assms(1,3,4)
proof (induction "length (unread (rfile p))" arbitrary: p n s rule: less_induct)
  case less
  show ?case
  proof (cases "break_loop p")
    case True
    then show ?thesis using less.prems(1,3) by (subst offline_packets.simps) (auto simp: reader_ok_def)
  next
    case False
    obtain st q where q: "pcap_next_packet e p = Inr (st, q)" "reader_ok q" "fixed_part q = fixed_part p"
      "\<forall>hdr. st = Packet hdr \<longrightarrow> unat (caplen hdr) \<le> length (buffer q) \<and> length (unread (rfile q)) + 16 \<le> length (unread (rfile p))"
      "length (unread (rfile q)) \<le> length (unread (rfile p))"
      using next_packet_ok [OF less.prems(1) assms(2)] by blast
    have f: "fcode q = fcode p" using fixed_partD [OF q(3)] by simp
    show ?thesis
    proof (cases st)
      case (Packet hdr)
      then have l: "unat (caplen hdr) \<le> length (buffer q)" "length (unread (rfile q)) < length (unread (rfile p))"
        using q(4) by auto
      obtain ok where ok: "passes e (fcode q) hdr (buffer q) = Some (Inr ok)"
        using less.prems(2) l(1) f by (auto simp: total_filter_def)
      obtain r t where r: "call_back cb hdr q s = (r, t)" by (cases "call_back cb hdr q s")
      have rr: "reader_ok r" "fcode r = fcode p" "rfile r = rfile q"
        using call_back_handle [of cb hdr q s] r q(2) f by simp_all
      have 1: "\<exists>k q' t'. offline_packets e cb cnt n q s = Some (Inr (k, q', t')) \<and> reader_ok q' \<and> fcode q' = fcode p \<and>
          length (unread (rfile q')) \<le> length (unread (rfile q))"
        using less.hyps [OF l(2) q(2), where n = n and s = s] less.prems(2,3) f by (simp, blast)
      have 2: "\<exists>k q' t'. offline_packets e cb cnt (n + 1) r t = Some (Inr (k, q', t')) \<and> reader_ok q' \<and> fcode q' = fcode p \<and>
          length (unread (rfile q')) \<le> length (unread (rfile q))"
        using less.hyps [of r, where n = "n + 1" and s = t] less.prems(2,3) rr l(2) by (simp, blast)
      show ?thesis
      proof (cases "ok \<and> cnt \<le> n + 1")
        case True
        then show ?thesis using \<open>\<not> break_loop p\<close> q(1) Packet ok r rr l(2) by (subst offline_packets.simps) simp
      next
        case c: False
        show ?thesis
        proof (cases ok)
          case True
          from 2 obtain k q' t' where "offline_packets e cb cnt (n + 1) r t = Some (Inr (k, q', t'))" "reader_ok q'"
            "fcode q' = fcode p" "length (unread (rfile q')) \<le> length (unread (rfile q))" by blast
          then show ?thesis using \<open>\<not> break_loop p\<close> q(1) Packet ok r True c l(2) by (subst offline_packets.simps) auto
        next
          case no: False
          from 1 obtain k q' t' where "offline_packets e cb cnt n q s = Some (Inr (k, q', t'))" "reader_ok q'"
            "fcode q' = fcode p" "length (unread (rfile q')) \<le> length (unread (rfile q))" by blast
          then show ?thesis using \<open>\<not> break_loop p\<close> q(1) Packet ok no l(2) by (subst offline_packets.simps) auto
        qed
      qed
    next
      case Eof
      then show ?thesis using False q(1,2,5) f less.prems(3) by (subst offline_packets.simps) simp
    next
      case Failed
      then show ?thesis using False q(1,2,5) f less.prems(3) by (subst offline_packets.simps) simp
    qed
  qed
qed

lemma loop_returns:
  assumes "reader_ok p" "blocks e" "total_filter e (fcode p)"
  shows "\<exists>k q t. pcap_loop_offline e p cnt cb s = Some (Inr (k, q, t)) \<and> k \<le> 0 \<and> reader_ok q"
  using assms(1,3)
proof (induction "length (unread (rfile p))" arbitrary: p s cnt rule: less_induct)
  case less
  obtain k q t where r: "pcap_offline_read e p cnt cb s = Some (Inr (k, q, t))" "reader_ok q" "fcode q = fcode p"
    "0 < k \<longrightarrow> length (unread (rfile q)) < length (unread (rfile p))"
    using offline_packets_return [OF less.prems(1) assms(2) less.prems(2) order_refl, of cb "if cnt \<le> 0 then 2147483647 else cnt" s]
    unfolding pcap_offline_read_def by blast
  have "0 < k \<Longrightarrow> \<exists>k q' t'. pcap_loop_offline e q c cb t = Some (Inr (k, q', t')) \<and> k \<le> 0 \<and> reader_ok q'" for c
    using less.hyps [of q, where s = t and cnt = c] less.prems(2) r(2-4) by simp
  then show ?case using r(1,2) by (subst pcap_loop_offline.simps) auto
qed

end
