(* ===== verification/Savefile_Roundtrip.thy ===== *)
theory Savefile_Roundtrip
  imports Savefile_Safe
begin

text \<open>
  Reading what was written: a file as a host of either byte order writes it, the loop over a file, complete or cut off, appending,
  and that the loop ends whatever the file holds.
\<close>

section \<open>Files in both byte orders\<close>

text \<open>A number, a packet header and a file header as a host of either byte order writes them: \<open>sw\<close> is whether it is the
  opposite one.\<close>

definition enc2 :: "bool \<Rightarrow> u16 \<Rightarrow> byte list" where
  "enc2 sw w = (if sw then be_bytes 2 w else le_bytes 2 w)"

definition enc4 :: "bool \<Rightarrow> u32 \<Rightarrow> byte list" where
  "enc4 sw w = (if sw then be_bytes 4 w else le_bytes 4 w)"

definition pkthdr_as :: "bool \<Rightarrow> pcap_pkthdr \<Rightarrow> byte list" where
  "pkthdr_as sw h = enc4 sw (word_of_int (ts_sec h)) @ enc4 sw (word_of_int (ts_usec h)) @ enc4 sw (caplen h) @
     enc4 sw (pkt_len h)"

definition record_as :: "bool \<Rightarrow> pcap_pkthdr \<times> byte list \<Rightarrow> byte list" where
  "record_as sw = (\<lambda>(h, d). pkthdr_as sw h @ d)"

definition file_as :: "bool \<Rightarrow> u32 \<Rightarrow> u32 \<Rightarrow> u32 \<Rightarrow> byte list" where
  "file_as sw magic lt snaplen = enc4 sw magic @ enc2 sw 2 @ enc2 sw 4 @ enc4 sw 0 @ enc4 sw 0 @ enc4 sw snaplen @ enc4 sw lt"

lemma native: "pkthdr_bytes h = pkthdr_as False h" "file_header_bytes magic lt snaplen = file_as False magic lt snaplen"
  by (simp_all add: pkthdr_bytes_def pkthdr_as_def file_header_bytes_def file_as_def enc4_def enc2_def)

lemma length_enc [simp]: "length (enc2 sw w) = 2" "length (enc4 sw v) = 4"
  by (simp_all add: enc2_def enc4_def width)

lemma length_as [simp]: "length (pkthdr_as sw h) = 16" "length (file_as sw magic lt snaplen) = 24"
  by (simp_all add: pkthdr_as_def file_as_def)

lemma read_enc: "(if sw then SWAPSHORT (le_word (enc2 sw w)) else le_word (enc2 sw w)) = w"
  "(if sw then SWAPLONG (le_word (enc4 sw v)) else le_word (enc4 sw v)) = v"
  by (simp_all add: enc2_def enc4_def SWAP_be_word width)

text \<open>Times that a file keeps.\<close>

definition ts_ok :: "bool \<Rightarrow> pcap_pkthdr \<Rightarrow> bool" where
  "ts_ok sw h \<longleftrightarrow> (if sw then 0 \<le> ts_sec h \<and> ts_sec h < 2 ^ 32 \<and> 0 \<le> ts_usec h \<and> ts_usec h < 2 ^ 32
     else - (2 ^ 31) \<le> ts_sec h \<and> ts_sec h < 2 ^ 31 \<and> - (2 ^ 31) \<le> ts_usec h \<and> ts_usec h < 2 ^ 31)"

lemma uint_of_int: "0 \<le> i \<Longrightarrow> i < 2 ^ 32 \<Longrightarrow> uint (word_of_int i :: u32) = i"
  by (simp add: unsigned_of_int take_bit_int_eq_self)

lemma sint_of_int: "- (2 ^ 31) \<le> i \<Longrightarrow> i < 2 ^ 31 \<Longrightarrow> sint (word_of_int i :: u32) = i"
  by (simp add: signed_of_int signed_take_bit_int_eq_self)

lemma load_pkthdr_as:
  assumes "ts_ok sw h"
  shows "load_pkthdr sw (pkthdr_as sw h) = h"
proof (cases sw)
  case True
  then show ?thesis using assms read_enc(2) [of True]
    by (simp add: load_pkthdr_def pkthdr_as_def get_def ts_ok_def uint_of_int)
next
  case False
  then show ?thesis using assms read_enc(2) [of False]
    by (simp add: load_pkthdr_def pkthdr_as_def get_def ts_ok_def sint_of_int)
qed

lemma load_file_as:
  "(if sw then swap_file_header (load_file_header (drop 4 (file_as sw magic lt snaplen)))
    else load_file_header (drop 4 (file_as sw magic lt snaplen))) =
   \<lparr>fh_version_major = 2, fh_version_minor = 4, fh_thiszone = 0, fh_sigfigs = 0, fh_snaplen = snaplen, fh_linktype = lt\<rparr>"
  using read_enc [of sw] by (cases sw) (simp_all add: swap_file_header_def load_file_header_def file_as_def get_def)

section \<open>Reading one record\<close>

text \<open>A heap that serves every request.\<close>

definition ample :: "env \<Rightarrow> bool" where
  "ample e \<longleftrightarrow> handle_alloc e \<and> (\<forall>n. \<exists>b. alloc e n = Some b \<and> length b = n)"

lemma ample_blocks: "ample e \<Longrightarrow> blocks e"
  unfolding ample_def blocks_def by (metis option.inject)

text \<open>A handle for a file of the current format, whose packets need no correction.\<close>

definition plain_link :: "bool \<Rightarrow> int \<Rightarrow> bool" where
  "plain_link sw lt \<longleftrightarrow> lt \<noteq> DLT_USB_LINUX_MMAPPED \<and>
     (sw \<longrightarrow> lt \<notin> {DLT_PFLOG, DLT_LINUX_SLL, DLT_LINUX_SLL2, DLT_USB_LINUX, DLT_NFLOG})"

lemma post_process_plain_link: "plain_link sw lt \<Longrightarrow> pcap_post_process lt sw hdr buf = Inr (hdr, buf)"
  by (auto simp: plain_link_def pcap_post_process_def swap_pseudo_headers_def fixup_pcap_pkthdr_def)

definition plain_reader :: "pcap_t \<Rightarrow> bool" where
  "plain_reader p \<longleftrightarrow> reader_ok p \<and> hdrsize p = 16 \<and> lengths_swapped p = NOT_SWAPPED \<and> scale_type p = PASS_THROUGH \<and>
     plain_link (swapped p) (linktype p)"

lemma plain_reader_fixed: "fixed_part p = fixed_part q \<Longrightarrow> reader_ok p \<Longrightarrow> plain_reader q \<Longrightarrow> plain_reader p"
  using fixed_partD [of p q] by (simp add: plain_reader_def)

text \<open>A packet that fits a file: the captured bytes and the times.\<close>

definition packet_ok :: "bool \<Rightarrow> u32 \<Rightarrow> int \<Rightarrow> pcap_pkthdr \<times> byte list \<Rightarrow> bool" where
  "packet_ok sw snaplen lt = (\<lambda>(h, d). length d = unat (caplen h) \<and> caplen h \<le> snaplen \<and> caplen h \<le> max_snaplen_for_dlt lt \<and>
     ts_ok sw h)"

lemma grow_ample:
  assumes "ample e"
  shows "\<exists>q. grow_buffer e p n = Some q"
  using assms unfolding ample_def grow_buffer_def realloc_def by (metis option.case(2))

lemma next_plain:
  assumes "plain_reader p" "ts_ok (swapped p) h" "unread (rfile p) = pkthdr_as (swapped p) h @ ys"
    "caplen h \<le> snapshot p" "caplen h \<le> max_snaplen_for_dlt (linktype p)"
  shows "pcap_next_packet e p = read_whole_packet e h (p\<lparr>rfile := (rfile p)\<lparr>unread := ys\<rparr>\<rparr>)"
proof -
  have "packet_header (p\<lparr>rfile := (rfile p)\<lparr>unread := ys\<rparr>\<rparr>) (pkthdr_as (swapped p) h) = h"
    using assms(1,2) by (simp add: packet_header_def load_pkthdr_as plain_reader_def scale_usec_def order_lengths_def)
  then show ?thesis
    using assms(1,3-5) by (simp add: pcap_next_packet_def fread_def plain_reader_def not_less [symmetric])
qed

lemma whole_plain:
  assumes "plain_reader p" "ample e" "caplen h \<le> snapshot p" "caplen h \<le> max_snaplen_for_dlt (linktype p)"
  shows "\<exists>st q. read_whole_packet e h p = Inr (st, q) \<and> reader_ok q \<and> fixed_part q = fixed_part p \<and>
    unread (rfile q) = drop (unat (caplen h)) (unread (rfile p)) \<and> broken (rfile q) = broken (rfile p) \<and>
    (if unat (caplen h) \<le> length (unread (rfile p))
     then st = Packet h \<and> take (unat (caplen h)) (buffer q) = take (unat (caplen h)) (unread (rfile p)) \<and>
       unat (caplen h) \<le> length (buffer q)
     else st = Failed)"
proof -
  let ?n = "if snapshot p < round_up_pow2 (caplen h) then snapshot p else round_up_pow2 (caplen h)"
  have ok: "reader_ok p" using assms(1) by (simp add: plain_reader_def)
  obtain q where q: "(if bufsize p < caplen h then grow_buffer e p ?n else Some p) = Some q"
    using grow_ample [OF assms(2)] by (cases "bufsize p < caplen h") auto
  have qp: "reader_ok q" "fixed_part q = fixed_part p" "rfile q = rfile p" "unat (caplen h) \<le> length (buffer q)"
    using needed_buffer [OF q ample_blocks [OF assms(2)] ok assms(3,4)] by auto
  obtain r where r: "fread_buffer (unat (caplen h)) q = Inr (length (take (unat (caplen h)) (unread (rfile p))), r)"
    "reader_ok r" "fixed_part r = fixed_part p" "unread (rfile r) = drop (unat (caplen h)) (unread (rfile p))"
    "broken (rfile r) = broken (rfile p)" "length (buffer r) = length (buffer q)"
    "take (length (take (unat (caplen h)) (unread (rfile p)))) (buffer r) = take (unat (caplen h)) (unread (rfile p))"
    using fread_buffer_ok [OF qp(1,4)] qp(2,3) by auto
  have d: "deliver h r = Inr (Packet h, r)"
  proof -
    have "linktype r = linktype p" "swapped r = swapped p" using fixed_partD [OF r(3)] by simp_all
    then show ?thesis using assms(1) by (simp add: deliver_def post_process_plain_link plain_reader_def)
  qed
  have "read_whole_packet e h p = (if length (take (unat (caplen h)) (unread (rfile p))) \<noteq> unat (caplen h)
      then fail_with (short_read (rfile r) (unat (caplen h)) (length (take (unat (caplen h)) (unread (rfile p))))) r
      else deliver h r)"
    unfolding read_whole_packet_def Let_def q option.case r(1) bind_r.simps prod.case ..
  then show ?thesis using r qp(4) d by (auto simp: fail_with_def min_def)
qed

section \<open>Reading a file that is cut off\<close>

text \<open>How many of the records are complete in the first \<open>k\<close> bytes, and whether the cut is between two records.\<close>

fun complete :: "nat \<Rightarrow> byte list list \<Rightarrow> nat" where
  "complete k [] = 0"
| "complete k (r # rs) = (if length r \<le> k then Suc (complete (k - length r) rs) else 0)"

fun clean_cut :: "nat \<Rightarrow> byte list list \<Rightarrow> bool" where
  "clean_cut k [] \<longleftrightarrow> True"
| "clean_cut k (r # rs) \<longleftrightarrow> (if length r \<le> k then clean_cut (k - length r) rs else k = 0)"

lemma complete_all: "length (concat rs) \<le> k \<Longrightarrow> complete k rs = length rs \<and> clean_cut k rs"
  by (induction rs arbitrary: k) auto

text \<open>A program that looks only at the captured bytes of a packet and does not stop, and the packets that a filter takes.\<close>

definition reads_captured :: "'s callback \<Rightarrow> bool" where
  "reads_captured cb \<longleftrightarrow> (\<forall>h m s. cb h m s = (fst (cb h (take (unat (caplen h)) m) s), False))"

definition decides :: "env \<Rightarrow> bpf_insn list option \<Rightarrow> (pcap_pkthdr \<Rightarrow> byte list \<Rightarrow> bool) \<Rightarrow> bool" where
  "decides e prog P \<longleftrightarrow> (\<forall>h m. unat (caplen h) \<le> length m \<longrightarrow>
     passes e prog h m = Some (Inr (P h (take (unat (caplen h)) m))))"

definition feed :: "'s callback \<Rightarrow> (pcap_pkthdr \<times> byte list) list \<Rightarrow> 's \<Rightarrow> 's" where
  "feed cb ps s = fold (\<lambda>(h, d) s. fst (cb h d s)) ps s"

lemma feed_simps [simp]: "feed cb [] s = s" "feed cb ((h, d) # ps) s = feed cb ps (fst (cb h d s))"
  by (simp_all add: feed_def)

abbreviation taken :: "(pcap_pkthdr \<Rightarrow> byte list \<Rightarrow> bool) \<Rightarrow> (pcap_pkthdr \<times> byte list) list \<Rightarrow> (pcap_pkthdr \<times> byte list) list" where
  "taken P \<equiv> filter (\<lambda>(h, d). P h d)"

lemma eof_plain:
  assumes "plain_reader p" "unread (rfile p) = []" "\<not> broken (rfile p)"
  shows "pcap_next_packet e p = Inr (Eof, p\<lparr>rfile := (rfile p)\<lparr>unread := []\<rparr>\<rparr>)"
  using assms by (simp add: pcap_next_packet_def fread_def plain_reader_def)

lemma cut_plain:
  assumes "plain_reader p" "ample e" "packet_ok (swapped p) (snapshot p) (linktype p) (h, d)"
    and "unread (rfile p) = take k (record_as (swapped p) (h, d))" "0 < k" "k < length (record_as (swapped p) (h, d))"
  shows "\<exists>q. pcap_next_packet e p = Inr (Failed, q) \<and> reader_ok q"
proof (cases "k < 16")
  case True
  then have r: "unread (rfile p) = take k (pkthdr_as (swapped p) h)" using assms(4) by (simp add: record_as_def)
  then have "length (unread (rfile p)) = k" using True by simp
  then show ?thesis
    using assms(1,5) True by (auto simp: pcap_next_packet_def fread_def plain_reader_def fail_with_def Let_def)
next
  case False
  let ?p = "p\<lparr>rfile := (rfile p)\<lparr>unread := take (k - 16) d\<rparr>\<rparr>"
  have r: "unread (rfile p) = pkthdr_as (swapped p) h @ take (k - 16) d" using False assms(4) by (simp add: record_as_def)
  have ok: "caplen h \<le> snapshot p" "caplen h \<le> max_snaplen_for_dlt (linktype p)" "ts_ok (swapped p) h" "length d = unat (caplen h)"
    using assms(3) by (simp_all add: packet_ok_def)
  have n: "pcap_next_packet e p = read_whole_packet e h ?p" by (rule next_plain [OF assms(1) ok(3) r ok(1,2)])
  have "k - 16 < unat (caplen h)" using assms(6) False ok(4) by (simp add: record_as_def)
  moreover have "plain_reader ?p" using assms(1) by (simp add: plain_reader_def)
  ultimately show ?thesis using whole_plain [of ?p e h] assms(2) ok(1,2,4) n by auto
qed

lemma offline_cut:
  assumes "ample e" "decides e prog P" "reads_captured cb"
    and "list_all (packet_ok sw snap lt) ps"
    and "plain_reader p" "swapped p = sw" "snapshot p = snap" "linktype p = lt" "fcode p = prog" "\<not> break_loop p"
    and "unread (rfile p) = take k (concat (map (record_as sw) ps))" "\<not> broken (rfile p)"
    and "0 \<le> n" "n + int (length ps) < cnt"
  shows "\<exists>q. offline_packets e cb cnt n p s =
      Some (Inr (if clean_cut k (map (record_as sw) ps)
          then n + int (length (taken P (take (complete k (map (record_as sw) ps)) ps))) else - 1, q,
        feed cb (taken P (take (complete k (map (record_as sw) ps)) ps)) s)) \<and>
    plain_reader q \<and> fixed_part q = fixed_part p \<and>
    (clean_cut k (map (record_as sw) ps) \<longrightarrow> unread (rfile q) = [] \<and> \<not> broken (rfile q))"
  using assms(4-)
proof (induction ps arbitrary: k n p s)
  case Nil
  then show ?case by (subst offline_packets.simps) (simp add: eof_plain plain_reader_def)
next
  case (Cons pk ps)
  obtain h d where hd: "pk = (h, d)" by (cases pk)
  let ?r = "record_as sw (h, d)"
  have ok: "caplen h \<le> snapshot p" "caplen h \<le> max_snaplen_for_dlt (linktype p)" "ts_ok (swapped p) h" "length d = unat (caplen h)"
    using Cons.prems by (simp_all add: packet_ok_def hd)
  show ?case
  proof (cases "length ?r \<le> k")
    case False
    show ?thesis
    proof (cases "k = 0")
      case True
      then show ?thesis using False Cons.prems
        by (subst offline_packets.simps) (simp add: eof_plain plain_reader_def hd)
    next
      case k: False
      have "unread (rfile p) = take k ?r" using Cons.prems(8) False by (simp add: hd)
      then obtain q where "pcap_next_packet e p = Inr (Failed, q)" "reader_ok q" "fixed_part q = fixed_part p"
        using cut_plain [OF Cons.prems(2) assms(1), of h d k] next_packet_ok [OF _ ample_blocks [OF assms(1)], of p]
          Cons.prems(1-5) False k by (auto simp: hd plain_reader_def)
      then show ?thesis using False k Cons.prems(2,7)
        by (subst offline_packets.simps) (auto simp: hd intro: plain_reader_fixed)
    qed
  next
    case True
    let ?k = "k - length ?r"
    let ?ys = "d @ take ?k (concat (map (record_as sw) ps))"
    have r: "unread (rfile p) = pkthdr_as (swapped p) h @ ?ys"
      using Cons.prems(3,8) True by (simp add: hd record_as_def)
    let ?p = "p\<lparr>rfile := (rfile p)\<lparr>unread := ?ys\<rparr>\<rparr>"
    have "plain_reader ?p" using Cons.prems(2) by (simp add: plain_reader_def)
    from whole_plain [OF this assms(1), of h] ok(1,2,4)
    obtain q where q: "read_whole_packet e h ?p = Inr (Packet h, q)" "reader_ok q" "fixed_part q = fixed_part p"
      "unread (rfile q) = take ?k (concat (map (record_as sw) ps))" "broken (rfile q) = broken (rfile p)"
      "take (unat (caplen h)) (buffer q) = d" "unat (caplen h) \<le> length (buffer q)"
      by auto
    have n: "pcap_next_packet e p = Inr (Packet h, q)"
      using next_plain [OF Cons.prems(2) ok(3) r ok(1,2)] q(1) by simp
    note fq = fixed_partD [OF q(3)]
    have pass: "passes e (fcode q) h (buffer q) = Some (Inr (P h d))"
      using assms(2) q(6,7) fq Cons.prems(6) by (simp add: decides_def)
    have c: "call_back cb h q s = (q, fst (cb h d s))"
      using spec [OF spec [OF spec [OF assms(3) [unfolded reads_captured_def], of h], of "buffer q"], of s] q(6)
      by (simp add: call_back_def)
    have plain: "plain_reader q" by (rule plain_reader_fixed [OF q(3,2) Cons.prems(2)])
    have step: "offline_packets e cb cnt n p s =
        (if P h d then offline_packets e cb cnt (n + 1) q (fst (cb h d s)) else offline_packets e cb cnt n q s)"
      using Cons.prems(7,10,11) by (subst offline_packets.simps) (simp add: n pass c hd)
    have prems: "list_all (packet_ok sw snap lt) ps" "swapped q = sw" "snapshot q = snap" "linktype q = lt" "fcode q = prog"
      "\<not> break_loop q" "\<not> broken (rfile q)"
      using Cons.prems fq q(5) by simp_all
    have n1: "0 \<le> n + 1" "n + 1 + int (length ps) < cnt" "n + int (length ps) < cnt" using Cons.prems(10,11) by simp_all
    let ?ps = "take (complete ?k (map (record_as sw) ps)) ps"
    have a: "clean_cut k (map (record_as sw) (pk # ps)) = clean_cut ?k (map (record_as sw) ps)"
      "taken P (take (complete k (map (record_as sw) (pk # ps))) (pk # ps)) = (if P h d then [(h, d)] else []) @ taken P ?ps"
      using True by (simp_all add: hd)
    show ?thesis
    proof (cases "P h d")
      case True
      note IH = Cons.IH [OF prems(1) plain prems(2-6) q(4) prems(7) n1(1,2), of "fst (cb h d s)"]
      show ?thesis using IH True step q(3) unfolding a
        by (cases "clean_cut ?k (map (record_as sw) ps)") (simp_all add: add.assoc)
    next
      case False
      note IH = Cons.IH [OF prems(1) plain prems(2-6) q(4) prems(7) Cons.prems(10) n1(3), of s]
      show ?thesis using IH False step q(3) unfolding a by (cases "clean_cut ?k (map (record_as sw) ps)") simp_all
    qed
  qed
qed

lemma loop_cut:
  assumes "ample e" "decides e prog P" "reads_captured cb"
    and "list_all (packet_ok sw snap lt) ps" "length ps < 2 ^ 31 - 1"
    and "plain_reader p" "swapped p = sw" "snapshot p = snap" "linktype p = lt" "fcode p = prog" "\<not> break_loop p"
    and "unread (rfile p) = take k (concat (map (record_as sw) ps))" "\<not> broken (rfile p)"
  shows "\<exists>q. pcap_loop_offline e p 0 cb s =
      Some (Inr (if clean_cut k (map (record_as sw) ps) then 0 else - 1, q,
        feed cb (taken P (take (complete k (map (record_as sw) ps)) ps)) s))"
proof -
  let ?ps = "taken P (take (complete k (map (record_as sw) ps)) ps)"
  obtain q where q: "pcap_offline_read e p 0 cb s =
      Some (Inr (if clean_cut k (map (record_as sw) ps) then int (length ?ps) else - 1, q, feed cb ?ps s))"
    "plain_reader q" "fixed_part q = fixed_part p"
    "clean_cut k (map (record_as sw) ps) \<longrightarrow> unread (rfile q) = [] \<and> \<not> broken (rfile q)"
    using offline_cut [OF assms(1-4,6-13), of 0 2147483647 s] assms(5) by (auto simp: pcap_offline_read_def)
  have "\<not> break_loop q" using fixed_partD(8) [OF q(3)] assms(11) by simp
  then have "pcap_loop_offline e q 0 cb t = Some (Inr (0, q\<lparr>rfile := (rfile q)\<lparr>unread := []\<rparr>\<rparr>, t))"
    if "clean_cut k (map (record_as sw) ps)" for t
    using q(2,4) that
    by (subst pcap_loop_offline.simps, subst pcap_offline_read_def, subst offline_packets.simps) (simp add: eof_plain)
  then show ?thesis using q(1) by (subst pcap_loop_offline.simps) auto
qed

section \<open>Opening and writing\<close>

lemma magic_as:
  assumes "is_magic m"
  shows "\<not> is_magic (le_word (enc4 sw m)) \<longleftrightarrow> sw"
    "(if sw then SWAPLONG (le_word (enc4 sw m)) else le_word (enc4 sw m)) = m"
proof -
  have "\<not> is_magic (SWAPLONG m)"
    using assms by (auto simp: is_magic_def TCPDUMP_MAGIC_def KUZNETZOV_TCPDUMP_MAGIC_def NSEC_TCPDUMP_MAGIC_def SWAPLONG_def)
  then show "\<not> is_magic (le_word (enc4 sw m)) \<longleftrightarrow> sw" using assms by (simp add: enc4_def SWAP_word)
qed (rule read_enc(2))

lemma take_file_as:
  "take 4 (file_as sw magic lt snaplen @ body) = enc4 sw magic"
  "take 20 (drop 4 (file_as sw magic lt snaplen @ body)) = drop 4 (file_as sw magic lt snaplen)"
  "drop 24 (file_as sw magic lt snaplen @ body) = body"
  by (simp_all add: file_as_def)


definition magic_of :: "u32 \<Rightarrow> u32" where
  "magic_of precision = (if precision = PCAP_TSTAMP_PRECISION_NANO then NSEC_TCPDUMP_MAGIC else TCPDUMP_MAGIC)"

text \<open>The handle for a file of the current version in the precision that the reader wants.\<close>

lemma open_file_as:
  assumes "ample e" "precision \<in> {PCAP_TSTAMP_PRECISION_MICRO, PCAP_TSTAMP_PRECISION_NANO}"
    and "snaplen \<noteq> 0" "snaplen \<le> INT_MAX" "lt = linktype_to_dlt (uint (l AND 0x03FFFFFF))" "plain_link sw lt"
  shows "\<exists>p. pcap_fopen_offline_with_tstamp_precision e ng
      (Some \<lparr>unread = file_as sw (magic_of precision) l snaplen @ body, broken = b\<rparr>) precision = Inr p \<and>
    plain_reader p \<and> swapped p = sw \<and> snapshot p = snaplen \<and> linktype p = lt \<and> fcode p = None \<and> \<not> break_loop p \<and>
    rfile p = \<lparr>unread = body, broken = b\<rparr> \<and> tstamp_precision p = precision \<and> linktype_ext p = l AND 0xFC000000"
proof -
  let ?file = "file_as sw (magic_of precision) l snaplen" and ?hdr = "\<lparr>fh_version_major = 2, fh_version_minor = 4,
    fh_thiszone = 0, fh_sigfigs = 0, fh_snaplen = snaplen, fh_linktype = l\<rparr>"
  have m: "is_magic (magic_of precision)" "magic_of precision \<noteq> KUZNETZOV_TCPDUMP_MAGIC"
    "scale_of precision (magic_of precision) = Some PASS_THROUGH"
    using assms(2) by (auto simp: magic_of_def is_magic_def NSEC_TCPDUMP_MAGIC_def TCPDUMP_MAGIC_def
        KUZNETZOV_TCPDUMP_MAGIC_def scale_of_def PCAP_TSTAMP_PRECISION_MICRO_def PCAP_TSTAMP_PRECISION_NANO_def)
  have snap: "patched_snapshot False lt (pcap_adjust_snapshot lt snaplen) = snaplen"
    using assms(3,4) by (auto simp: patched_snapshot_def pcap_adjust_snapshot_def dest: leD)
  obtain p where p: "new_handle e sw (magic_of precision) ?hdr \<lparr>unread = body, broken = b\<rparr> precision = Found p"
    "swapped p = sw" "snapshot p = snaplen" "linktype p = lt" "fcode p = None" "\<not> break_loop p"
    "rfile p = \<lparr>unread = body, broken = b\<rparr>" "tstamp_precision p = precision" "linktype_ext p = l AND 0xFC000000"
    "hdrsize p = 16" "lengths_swapped p = NOT_SWAPPED" "scale_type p = PASS_THROUGH"
  proof -
    let ?bsz = "if 2048 < snaplen then 2048 else snaplen"
    obtain buf where buf: "alloc e (unat ?bsz) = Some buf" using assms(1) by (auto simp: ample_def)
    have h: "handle_alloc e" "(magic_of precision = KUZNETZOV_TCPDUMP_MAGIC) = False"
      "lengths_of_version 2 4 = NOT_SWAPPED" using assms(1) m(2) by (simp_all add: ample_def lengths_of_version_def)
    have "new_handle e sw (magic_of precision) ?hdr \<lparr>unread = body, broken = b\<rparr> precision =
      Found \<lparr>swapped = sw, version_major = 2, version_minor = 4, linktype = lt, linktype_ext = l AND 0xFC000000,
        snapshot = snaplen, tstamp_precision = precision, hdrsize = 16, lengths_swapped = NOT_SWAPPED,
        scale_type = PASS_THROUGH, bufsize = ?bsz, buffer = buf, rfile = \<lparr>unread = body, broken = b\<rparr>, fcode = None,
        break_loop = False, activated = False, errbuf = None\<rparr>"
      unfolding new_handle_def Let_def
      by (simp only: pcap_file_header.select_convs h m(3) assms(5) [symmetric] snap buf option.case if_False if_True simp_thms)
    then show ?thesis using that by simp
  qed
  have check: "pcap_check_header e (enc4 sw (magic_of precision))
      \<lparr>unread = drop 4 (?file @ body), broken = b\<rparr> precision = Found p"
  proof -
    have f: "fread 20 \<lparr>unread = drop 4 (?file @ body), broken = b\<rparr> = (drop 4 ?file, \<lparr>unread = body, broken = b\<rparr>)"
      by (simp add: fread_def)
    show ?thesis
      unfolding pcap_check_header_def Let_def f magic_as [OF m(1)] prod.case load_file_as
      using m(1) p(1) by (simp add: supported_version_def)
  qed
  have "fread 4 \<lparr>unread = ?file @ body, broken = b\<rparr> = (enc4 sw (magic_of precision), \<lparr>unread = drop 4 (?file @ body), broken = b\<rparr>)"
    by (simp add: fread_def take_file_as del: drop_append take_append)
  then have "pcap_fopen_offline_with_tstamp_precision e ng (Some \<lparr>unread = ?file @ body, broken = b\<rparr>) precision =
      Inr (p\<lparr>activated := True\<rparr>)"
    by (simp only: pcap_fopen_offline_with_tstamp_precision_def option.case prod.case Let_def check check.case) simp
  moreover have "plain_reader (p\<lparr>activated := True\<rparr>)"
    using check_header_ok [OF check ample_blocks [OF assms(1)]] p assms(6) by (simp add: plain_reader_def reader_ok_def)
  ultimately show ?thesis using p by simp
qed

text \<open>Packets that are written one after the other.\<close>

fun dump_all :: "(pcap_pkthdr \<times> byte list) list \<Rightarrow> outfile \<Rightarrow> outfile res" where
  "dump_all [] f = Inr f"
| "dump_all ((h, d) # ps) f = bind_r (pcap_dump h d f) (dump_all ps)"

lemma dump_after_error: "out_error f \<Longrightarrow> dump_all ps f = Inr f"
  by (induction ps) (auto simp: pcap_dump_def)

lemma dump_all_written:
  assumes "list_all (\<lambda>(h, d). length d = unat (caplen h)) ps" "\<not> out_error f"
  shows "\<exists>g. dump_all ps f = Inr g \<and> written g = written f @ take (room f) (concat (map (record_as False) ps))"
  using assms
proof (induction ps arbitrary: f)
  case (Cons pk ps)
  obtain h d where pk: "pk = (h, d)" by (cases pk)
  have d: "length d = unat (caplen h)" using Cons.prems(1) by (simp add: pk)
  show ?case
  proof (cases "16 \<le> room f")
    case False
    then have "pcap_dump h d f = Inr (f\<lparr>written := written f @ take (room f) (pkthdr_bytes h), room := 0, out_error := True\<rparr>)"
      using Cons.prems(2) by (simp add: pcap_dump_def fwrite_def native)
    then show ?thesis using False by (simp add: pk dump_after_error native record_as_def)
  next
    case True
    let ?f = "f\<lparr>written := written f @ pkthdr_bytes h, room := room f - 16\<rparr>"
    let ?g = "?f\<lparr>written := written ?f @ take (room ?f) d, room := room ?f - length d, out_error := room ?f < length d\<rparr>"
    have w: "pcap_dump h d f = Inr ?g"
    proof -
      have l: "length (pkthdr_bytes h) = 16" by (simp add: native)
      then have "pkthdr_bytes h \<noteq> []" by auto
      then show ?thesis using l True Cons.prems(2) d by (simp add: pcap_dump_def fwrite_def rd_def)
    qed
    show ?thesis
    proof (cases "length d \<le> room f - 16")
      case False
      then show ?thesis using True by (simp add: pk w dump_after_error native record_as_def)
    next
      case d: True
      then have "\<not> out_error ?g" by simp
      from Cons.IH [OF _ this] Cons.prems(1) show ?thesis
        using True d by (auto simp: pk w native record_as_def diff_diff_eq)
    qed
  qed
qed simp

text \<open>A handle whose packets can be written to a file and read back.\<close>

definition writer_ok :: "pcap_t \<Rightarrow> bool" where
  "writer_ok p \<longleftrightarrow> activated p \<and> dlt_to_linktype (linktype p) \<noteq> - 1 \<and> linktype p \<noteq> 106 \<and> linktype p \<noteq> DLT_USB_LINUX_MMAPPED \<and>
     linktype_ext p AND 0x03FFFFFF = 0 \<and> snapshot p \<noteq> 0 \<and> snapshot p \<le> INT_MAX \<and>
     tstamp_precision p \<in> {PCAP_TSTAMP_PRECISION_MICRO, PCAP_TSTAMP_PRECISION_NANO}"

lemma linktype_bits:
  assumes "writer_ok p"
  shows "(word_of_int (dlt_to_linktype (linktype p)) :: u32) AND 0x03FFFFFF = word_of_int (dlt_to_linktype (linktype p))"
    "uint (word_of_int (dlt_to_linktype (linktype p)) :: u32) = dlt_to_linktype (linktype p)"
proof -
  let ?l = "dlt_to_linktype (linktype p)"
  have l: "0 \<le> ?l" "?l \<le> 289" using linktype_range [of "linktype p"] assms by (auto simp: writer_ok_def)
  show u: "uint (word_of_int ?l :: u32) = ?l" using l by (simp add: unsigned_of_int take_bit_int_eq_self)
  have "(0x03FFFFFF :: u32) = mask 26" by (simp add: mask_eq_exp_minus_1)
  moreover have "take_bit 26 (word_of_int ?l :: u32) = word_of_int ?l"
    using l by (simp add: word_uint_eq_iff unsigned_take_bit_eq u take_bit_int_eq_self)
  ultimately show "(word_of_int ?l :: u32) AND 0x03FFFFFF = word_of_int ?l" by (simp add: take_bit_eq_mask)
qed

lemma linktype_in_file:
  assumes "writer_ok p"
  shows "linktype_to_dlt (uint ((word_of_int (dlt_to_linktype (linktype p)) OR linktype_ext p) AND 0x03FFFFFF)) = linktype p"
proof -
  let ?l = "dlt_to_linktype (linktype p)"
  have "(word_of_int ?l OR linktype_ext p) AND 0x03FFFFFF =
      (word_of_int ?l AND 0x03FFFFFF) OR (linktype_ext p AND (0x03FFFFFF :: u32))"
    by (rule bit.conj_disj_distrib2)
  then have "uint ((word_of_int ?l OR linktype_ext p) AND 0x03FFFFFF) = ?l"
    using assms linktype_bits [OF assms] by (simp add: writer_ok_def)
  then show ?thesis using assms linktype_round_trip [of "linktype p"] by (simp add: writer_ok_def)
qed

lemma dump_open_ok:
  assumes "writer_ok p" "cstr name \<noteq> bytes_of ''-''" "24 \<le> n"
    and "fopen (cstr name) = Some \<lparr>written = [], room = n, out_error = False\<rparr>"
  shows "pcap_dump_open stdout fopen p (Some name) = Inr
    \<lparr>written = file_as False (magic_of (tstamp_precision p)) (word_of_int (dlt_to_linktype (linktype p)) OR linktype_ext p)
      (snapshot p), room = n - 24, out_error = False\<rparr>"
proof -
  have m: "magic_for p = magic_of (tstamp_precision p)" by (simp add: magic_for_def magic_of_def)
  have w: "fwrite (file_as False magic l s) \<lparr>written = [], room = n, out_error = False\<rparr> =
      (True, \<lparr>written = file_as False magic l s, room = n - 24, out_error = False\<rparr>)" for magic l s
  proof -
    have "file_as False magic l s \<noteq> []" using length_as(2) [of False magic l s] by (metis list.size(3) zero_neq_numeral)
    then show ?thesis using assms(3) by (simp add: fwrite_def)
  qed
  show ?thesis
    using assms by (simp add: pcap_dump_open_def writer_ok_def pcap_setup_dump_def sf_write_header_def native m w)
qed

text \<open>C32: what is written to a capture file is read back, also when the disk fills up. For a handle with an ordinary link
  type, and packets that fit its snapshot length and whose times fit 32 bits: the file that \<open>pcap_dump_open\<close> and
  \<open>pcap_dump\<close> leave on a disk with room for \<open>n\<close> bytes opens with the same link type and snapshot length, and
  \<open>pcap_loop\<close> hands the program exactly the packets that are complete on the disk, with their headers, in order; it
  returns 0 if the file ends after a packet and -1 if it ends inside of one. With enough room these are all packets.\<close>

theorem dump_then_read:
  assumes "ample e" "writer_ok w" "cstr name \<noteq> bytes_of ''-''" "24 \<le> n"
    and "fopen (cstr name) = Some \<lparr>written = [], room = n, out_error = False\<rparr>"
    and "list_all (packet_ok False (snapshot w) (linktype w)) ps" "length ps < 2 ^ 31 - 1" "reads_captured cb"
  shows "\<exists>f g p q r. pcap_dump_open stdout fopen w (Some name) = Inr f \<and> dump_all ps f = Inr g \<and>
    pcap_fopen_offline_with_tstamp_precision e ng (Some \<lparr>unread = written g, broken = False\<rparr>) (tstamp_precision w) = Inr p \<and>
    linktype p = linktype w \<and> snapshot p = snapshot w \<and>
    pcap_loop_offline e p 0 cb s = Some (Inr (r, q, feed cb (take (complete (n - 24) (map (record_as False) ps)) ps) s)) \<and>
    r = (if clean_cut (n - 24) (map (record_as False) ps) then 0 else - 1) \<and>
    (24 + length (concat (map (record_as False) ps)) \<le> n \<longrightarrow>
      pcap_loop_offline e p 0 cb s = Some (Inr (0, q, feed cb ps s)))"
proof -
  let ?l = "word_of_int (dlt_to_linktype (linktype w)) OR linktype_ext w" and ?rs = "map (record_as False) ps"
  let ?hd = "file_as False (magic_of (tstamp_precision w)) ?l (snapshot w)"
  let ?f = "\<lparr>written = ?hd, room = n - 24, out_error = False\<rparr>"
  have f: "pcap_dump_open stdout fopen w (Some name) = Inr ?f" using assms(2-5) by (intro dump_open_ok)
  have "list_all (\<lambda>(h, d). length d = unat (caplen h)) ps"
    using assms(6) by (auto simp: list_all_iff packet_ok_def)
  from dump_all_written [OF this, of ?f] obtain g where
    g: "dump_all ps ?f = Inr g" "written g = ?hd @ take (n - 24) (concat ?rs)" by auto
  have "plain_link False (linktype w)" "snapshot w \<noteq> 0" "snapshot w \<le> INT_MAX"
    "tstamp_precision w \<in> {PCAP_TSTAMP_PRECISION_MICRO, PCAP_TSTAMP_PRECISION_NANO}"
    using assms(2) by (auto simp: writer_ok_def plain_link_def)
  from open_file_as [OF assms(1) this(4,2,3) linktype_in_file [OF assms(2), symmetric] this(1), of ng "take (n - 24) (concat ?rs)" False]
  obtain p where p: "pcap_fopen_offline_with_tstamp_precision e ng (Some \<lparr>unread = written g, broken = False\<rparr>) (tstamp_precision w) = Inr p"
    "plain_reader p" "swapped p = False" "snapshot p = snapshot w" "linktype p = linktype w" "fcode p = None" "\<not> break_loop p"
    "rfile p = \<lparr>unread = take (n - 24) (concat ?rs), broken = False\<rparr>"
    by (auto simp: g(2))
  have d: "decides e None (\<lambda>_ _. True)" by (simp add: decides_def passes_def)
  have t: "taken (\<lambda>_ _. True) xs = xs" for xs :: "(pcap_pkthdr \<times> byte list) list" by (induction xs) auto
  obtain q where q: "pcap_loop_offline e p 0 cb s = Some (Inr (if clean_cut (n - 24) ?rs then 0 else - 1, q,
      feed cb (take (complete (n - 24) ?rs) ps) s))"
    using loop_cut [OF assms(1) d assms(8,6,7) p(2-7), of "n - 24" s] p(8) by (auto simp: t)
  have "24 + length (concat ?rs) \<le> n \<longrightarrow> pcap_loop_offline e p 0 cb s = Some (Inr (0, q, feed cb ps s))"
    using complete_all [of ?rs "n - 24"] q by auto
  then show ?thesis using f g(1) p(1,4,5) q by blast
qed

text \<open>C36: the byte order of the host that wrote a file makes no difference. For an ordinary link type, and packets whose
  times are not before 1970 and fit 31 bits, a program gets the same packets, in the same order, from the file of a host
  of the own byte order and from that of a host of the opposite one.\<close>

theorem byte_order_irrelevant:
  assumes "ample e" "precision \<in> {PCAP_TSTAMP_PRECISION_MICRO, PCAP_TSTAMP_PRECISION_NANO}"
    and "snaplen \<noteq> 0" "snaplen \<le> INT_MAX" "lt = linktype_to_dlt (uint (l AND 0x03FFFFFF))" "plain_link True lt"
    and "list_all (\<lambda>p. packet_ok False snaplen lt p \<and> packet_ok True snaplen lt p) ps" "length ps < 2 ^ 31 - 1"
    and "reads_captured cb"
  shows "\<exists>p q. pcap_fopen_offline_with_tstamp_precision e ng (Some \<lparr>unread = file_as sw (magic_of precision) l snaplen @
      concat (map (record_as sw) ps), broken = False\<rparr>) precision = Inr p \<and> swapped p = sw \<and>
    pcap_loop_offline e p 0 cb s = Some (Inr (0, q, feed cb ps s))"
proof -
  let ?rs = "map (record_as sw) ps"
  have pl: "plain_link sw lt" using assms(6) by (auto simp: plain_link_def)
  from open_file_as [OF assms(1-5) pl, of ng "concat ?rs" False] obtain p where p:
    "pcap_fopen_offline_with_tstamp_precision e ng (Some \<lparr>unread = file_as sw (magic_of precision) l snaplen @ concat ?rs,
      broken = False\<rparr>) precision = Inr p"
    "plain_reader p" "swapped p = sw" "snapshot p = snaplen" "linktype p = lt" "fcode p = None" "\<not> break_loop p"
    "rfile p = \<lparr>unread = concat ?rs, broken = False\<rparr>" by blast
  have d: "decides e None (\<lambda>_ _. True)" by (simp add: decides_def passes_def)
  have t: "taken (\<lambda>_ _. True) xs = xs" for xs :: "(pcap_pkthdr \<times> byte list) list" by (induction xs) auto
  have ok: "list_all (packet_ok sw snaplen lt) ps" using assms(7) by (cases sw) (auto simp: list_all_iff)
  have r: "unread (rfile p) = take (length (concat ?rs)) (concat ?rs)" "\<not> broken (rfile p)" by (simp_all add: p(8))
  obtain q where "pcap_loop_offline e p 0 cb s = Some (Inr (0, q, feed cb ps s))"
    using loop_cut [OF assms(1) d assms(9) ok assms(8) p(2-7) r, of s] complete_all [OF order_refl, of ?rs]
    by (auto simp: t)
  then show ?thesis using p(1,3) by blast
qed

text \<open>The seconds of a file are signed for the own byte order only: the last second before 1970 comes out of a file of the
  other byte order as a second of the year 2106.\<close>

lemma byte_order_before_1970:
  assumes "ts_sec h = - 1"
  shows "ts_sec (load_pkthdr False (pkthdr_as False h)) = - 1" "ts_sec (load_pkthdr True (pkthdr_as True h)) = 2 ^ 32 - 1"
  using assms read_enc(2) [of True] read_enc(2) [of False]
  by (simp_all add: load_pkthdr_def pkthdr_as_def get_def unsigned_minus_1_eq_mask mask_eq_exp_minus_1)

section \<open>Appending\<close>

lemma dump_all_append: "dump_all (ps @ qs) f = bind_r (dump_all ps f) (dump_all qs)"
  by (induction ps f rule: dump_all.induct) (auto simp: bind_r_assoc intro: bind_r_cong)

lemma dump_all_fits:
  assumes "list_all (\<lambda>(h, d). length d = unat (caplen h)) ps" "\<not> out_error f"
    "length (concat (map (record_as False) ps)) \<le> room f"
  shows "dump_all ps f = Inr (f\<lparr>written := written f @ concat (map (record_as False) ps),
    room := room f - length (concat (map (record_as False) ps))\<rparr>)"
  using assms
proof (induction ps arbitrary: f)
  case (Cons pk ps)
  obtain h d where pk: "pk = (h, d)" by (cases pk)
  let ?f = "f\<lparr>written := written f @ record_as False (h, d), room := room f - (16 + length d)\<rparr>"
  have l: "length (pkthdr_bytes h) = 16" by (simp add: native)
  then have "pkthdr_bytes h \<noteq> []" by auto
  then have "pcap_dump h d f = Inr ?f"
    using l Cons.prems by (simp add: pk pcap_dump_def fwrite_def rd_def record_as_def native diff_diff_eq)
  then show ?case
    using Cons.IH [of ?f] Cons.prems by (simp add: pk record_as_def diff_diff_eq)
qed simp

lemma appendable_header:
  assumes "writer_ok w" "hdr = file_as False (magic_of (tstamp_precision w)) l (snapshot w)"
  shows "check_appendable w l' hdr = (if l' = l then None else Some DifferentLinktype)"
proof -
  have g: "get 0 4 hdr = magic_of (tstamp_precision w)"
    using read_enc(2) [of False] by (simp add: assms(2) file_as_def get_def)
  have h: "load_file_header (drop 4 hdr) = \<lparr>fh_version_major = 2, fh_version_minor = 4, fh_thiszone = 0, fh_sigfigs = 0,
      fh_snaplen = snapshot w, fh_linktype = l\<rparr>"
    using load_file_as [of False] by (simp add: assms(2))
  have "tstamp_precision w = PCAP_TSTAMP_PRECISION_MICRO \<or> tstamp_precision w = PCAP_TSTAMP_PRECISION_NANO"
    using assms(1) by (simp add: writer_ok_def)
  then show ?thesis
    unfolding check_appendable_def Let_def g h
    by (auto simp: magic_of_def PCAP_TSTAMP_PRECISION_MICRO_def PCAP_TSTAMP_PRECISION_NANO_def TCPDUMP_MAGIC_def
        NSEC_TCPDUMP_MAGIC_def KUZNETZOV_TCPDUMP_MAGIC_def NAVTEL_TCPDUMP_MAGIC_def SWAPLONG_def)
qed

text \<open>A file can be written in parts. When a handle wrote packets to a file and the file is opened again for appending
  with the same handle, the packets that follow come after the first ones as if the file had never been closed. This
  holds for a handle without extra bits in its link type; with such bits the file that the handle itself wrote is refused,
  because \<open>pcap_dump_open_append\<close> leaves them out.\<close>

lemma append_continues:
  assumes "writer_ok w" "cstr name \<noteq> bytes_of ''-''" "24 + length (concat (map (record_as False) ps)) \<le> n"
    and "fopen (cstr name) = Some \<lparr>written = [], room = n, out_error = False\<rparr>"
    and "list_all (packet_ok False (snapshot w) (linktype w)) ps"
    and "pcap_dump_open stdout fopen w (Some name) = Inr f" "dump_all ps f = Inr g"
    and "reopen (cstr name) = Some \<lparr>app_out = g, app_broken = b, seek_set_ok = True, seek_end_ok = True\<rparr>"
  shows "if linktype_ext w = 0
    then pcap_dump_open_append stdout reopen w (Some name) = Inr g \<and> dump_all qs g = dump_all (ps @ qs) f
    else pcap_dump_open_append stdout reopen w (Some name) = Inl DifferentLinktype"
proof -
  let ?d = "word_of_int (dlt_to_linktype (linktype w)) :: u32" and ?rs = "concat (map (record_as False) ps)"
  let ?hd = "file_as False (magic_of (tstamp_precision w)) (?d OR linktype_ext w) (snapshot w)"
  have n: "24 \<le> n" using assms(3) by simp
  have f: "f = \<lparr>written = ?hd, room = n - 24, out_error = False\<rparr>"
    using dump_open_ok [of w name n fopen stdout] assms(1,2,4,6) n by simp
  have "list_all (\<lambda>(h, d). length d = unat (caplen h)) ps"
    using assms(5) by (auto simp: list_all_iff packet_ok_def)
  then have g: "written g = ?hd @ ?rs" using dump_all_fits [of ps f] assms(3,7) by (auto simp: f)
  have t: "take 24 (written g) = ?hd" "?hd \<noteq> []"
    using length_as(2) [of False "magic_of (tstamp_precision w)" "?d OR linktype_ext w" "snapshot w"]
    by (auto simp: g simp del: length_as)
  have l: "dlt_to_linktype (linktype w) \<noteq> - 1" using assms(1) by (simp add: writer_ok_def)
  have "?d = ?d OR linktype_ext w \<longleftrightarrow> linktype_ext w = 0"
  proof
    assume e: "?d = ?d OR linktype_ext w"
    have "linktype_ext w = linktype_ext w AND (?d OR linktype_ext w)" by (simp add: bit.conj_disj_distrib)
    also have "\<dots> = linktype_ext w AND ?d" using e by simp
    also have "\<dots> = linktype_ext w AND (?d AND 0x03FFFFFF)" using linktype_bits [OF assms(1)] by simp
    also have "\<dots> = (linktype_ext w AND 0x03FFFFFF) AND ?d" by (simp only: ac_simps)
    also have "\<dots> = 0" using assms(1) by (simp add: writer_ok_def)
    finally show "linktype_ext w = 0" .
  qed simp
  then show ?thesis
    using assms(2,8) l t appendable_header [OF assms(1) refl, of ?d "?d OR linktype_ext w"] assms(7)
    by (cases "linktype_ext w = 0") (simp_all add: pcap_dump_open_append_def Let_def dump_all_append)
qed

section \<open>What holds for every file\<close>

text \<open>The handles that reading a file packet by packet leads to, until something fails.\<close>

inductive reads :: "env \<Rightarrow> pcap_t \<Rightarrow> pcap_t \<Rightarrow> bool" for e where
  reads_start: "reads e p p"
| reads_packet: "reads e p q \<Longrightarrow> pcap_next_packet e q = Inr (Packet hdr, r) \<Longrightarrow> reads e p r"

lemma reads_ok:
  assumes "reads e p q" "reader_ok p" "blocks e"
  shows "reader_ok q \<and> fixed_part q = fixed_part p"
  using assms
proof (induction rule: reads.induct)
  case (reads_packet p q hdr r)
  then show ?case using next_packet_ok [of q e] by auto
qed simp

text \<open>A file of this format: the check for the other one is not asked.\<close>

lemma fopen_ok:
  assumes "pcap_fopen_offline_with_tstamp_precision e (\<lambda>_ _ _. NotMine) file precision = Inr p" "blocks e"
  shows "reader_ok p \<and> fcode p = None"
proof -
  obtain m fp q where q: "pcap_check_header e m fp precision = Found q" "p = q\<lparr>activated := True\<rparr>"
    using assms(1) by (auto simp: pcap_fopen_offline_with_tstamp_precision_def Let_def split: option.splits prod.splits
        if_splits check.splits)
  have "fcode q = None"
    using q(1) by (auto simp: pcap_check_header_def new_handle_def Let_def split: prod.splits if_splits option.splits)
  then show ?thesis using check_header_ok [OF q(1) assms(2)] by (simp add: q(2) reader_ok_def)
qed

text \<open>C33: the reader stays inside of its buffer. Whatever the bytes of a file are, and after any number of packets: the next
  read does not write outside of the buffer, the buffer is never larger than the snapshot length of the file, and a packet
  that is delivered has all its captured bytes in the buffer, at most the snapshot length and at most the maximum for its
  link type, which is at most 128 MiB.\<close>

theorem reader_stays_in_buffer:
  assumes "blocks e" "pcap_fopen_offline_with_tstamp_precision e (\<lambda>_ _ _. NotMine) file precision = Inr p" "reads e p q"
  shows "\<exists>st r. pcap_next_packet e q = Inr (st, r) \<and> unat (snapshot p) < 2 ^ 31 \<and>
    length (buffer r) = unat (bufsize r) \<and> length (buffer r) \<le> unat (snapshot p) \<and>
    (\<forall>hdr. st = Packet hdr \<longrightarrow> unat (caplen hdr) \<le> length (buffer r) \<and> unat (caplen hdr) \<le> unat (snapshot p) \<and>
      caplen hdr \<le> max_snaplen_for_dlt (linktype p) \<and> unat (caplen hdr) \<le> 2 ^ 27)"
proof -
  have q: "reader_ok q" "fixed_part q = fixed_part p" "reader_ok p"
    using reads_ok [OF assms(3) _ assms(1)] fopen_ok [OF assms(2,1)] by auto
  obtain st r where r: "pcap_next_packet e q = Inr (st, r)" "reader_ok r" "fixed_part r = fixed_part q"
    "\<forall>hdr. st = Packet hdr \<longrightarrow> caplen hdr \<le> snapshot r \<and> unat (caplen hdr) \<le> length (buffer r) \<and>
        caplen hdr \<le> max_snaplen_for_dlt (linktype r)"
    using next_packet_ok [OF q(1) assms(1)] by blast
  have "snapshot r = snapshot p" "linktype r = linktype p" using fixed_partD [of r p] r(3) q(2) by auto
  moreover have "hdr \<le> max_snaplen_for_dlt lt \<Longrightarrow> unat hdr \<le> 2 ^ 27" for hdr :: u32 and lt
    using max_snaplen_bound(2) [of lt] by (simp add: word_le_nat_alt)
  ultimately show ?thesis using r q(3) by (auto simp: reader_ok_def word_le_nat_alt)
qed

text \<open>C34: reading a capture file always comes to an end. Whatever the bytes of the file are, and whatever program without
  backward jumps and unknown instructions is installed as the filter, or refused, or not copied for want of memory:
  \<open>pcap_loop\<close> with any count and any callback returns, with a count of 0 or an error, and no fault of the memory or the
  filter happens.\<close>

theorem capture_file_loop_returns:
  assumes "blocks e" "length (scratch_mem e) = BPF_MEMWORDS"
    and "pcap_fopen_offline_with_tstamp_precision e (\<lambda>_ _ _. NotMine) file precision = Inr p"
    and "length prog < 2 ^ 31" "forward prog" "known prog"
  shows "\<exists>n q t. pcap_loop_offline e (snd (install_bpf_program e p prog)) cnt cb s = Some (Inr (n, q, t)) \<and> n \<le> 0"
proof -
  let ?p = "snd (install_bpf_program e p prog)"
  have p: "reader_ok p" "fcode p = None" using fopen_ok [OF assms(3,1)] by auto
  have "reader_ok ?p" using p(1) by (simp add: install_bpf_program_def reader_ok_def split: option.split)
  moreover have "total_filter e (fcode ?p)"
    using p(2) total_filter_none total_filter_checked [OF _ assms(4-6,2)]
    by (auto simp: install_bpf_program_def split: option.split)
  ultimately show ?thesis using loop_returns [OF _ assms(1), of ?p cnt cb s] by blast
qed

section \<open>A concrete file\<close>

definition env_example :: env where
  "env_example = \<lparr>alloc = (\<lambda>n. Some (replicate n 0)), handle_alloc = True, scratch_mem = replicate 16 0\<rparr>"

lemma ample_example: "ample env_example"
  by (simp add: ample_def env_example_def)

definition packet_example :: "pcap_pkthdr \<times> byte list" where
  "packet_example = (\<lparr>ts_sec = 5, ts_usec = 7, caplen = 2, pkt_len = 60\<rparr>, [1, 2])"

lemma packet_ok_example: "packet_ok sw 100 DLT_EN10MB packet_example"
  by (simp add: packet_ok_def packet_example_def ts_ok_def max_snaplen_for_dlt_def DLT_EN10MB_def DLT_DBUS_def
      DLT_EBHSCR_def DLT_USBPCAP_def MAXIMUM_SNAPLEN_def)

definition file_example :: "bool \<Rightarrow> byte list" where
  "file_example sw = file_as sw (magic_of PCAP_TSTAMP_PRECISION_MICRO) 1 100 @ concat (map (record_as sw) [packet_example])"

definition log_callback :: "(pcap_pkthdr \<times> byte list) list callback" where
  "log_callback = (\<lambda>h d s. (s @ [(h, take (unat (caplen h)) d)], False))"

lemma log_reads_captured: "reads_captured log_callback"
  by (simp add: reads_captured_def log_callback_def)

lemma plain_example: "plain_link sw DLT_EN10MB"
  by (simp add: plain_link_def DLT_EN10MB_def DLT_PFLOG_def DLT_LINUX_SLL_def DLT_LINUX_SLL2_def DLT_USB_LINUX_def
      DLT_USB_LINUX_MMAPPED_def DLT_NFLOG_def)

lemma linktype_example: "DLT_EN10MB = linktype_to_dlt (uint ((1 :: u32) AND 0x03FFFFFF))"
  by (simp add: DLT_EN10MB_def linktype_defs)

lemma open_example: "\<exists>p. pcap_fopen_offline_with_tstamp_precision env_example ng
    (Some \<lparr>unread = file_example sw, broken = False\<rparr>) PCAP_TSTAMP_PRECISION_MICRO = Inr p \<and> snapshot p = 100 \<and> linktype p = DLT_EN10MB"
  using open_file_as [where precision = PCAP_TSTAMP_PRECISION_MICRO and snaplen = 100 and ng = ng and b = False and sw = sw
      and body = "concat (map (record_as sw) [packet_example])", OF ample_example _ _ _ linktype_example plain_example]
  by (auto simp: file_example_def INT_MAX_def)

theorem reader_stays_in_buffer_witness:
  "\<exists>p st r. pcap_fopen_offline_with_tstamp_precision env_example (\<lambda>_ _ _. NotMine)
      (Some \<lparr>unread = file_example True, broken = False\<rparr>) PCAP_TSTAMP_PRECISION_MICRO = Inr p \<and>
    pcap_next_packet env_example p = Inr (st, r) \<and> length (buffer r) \<le> 100"
proof -
  obtain p where p: "pcap_fopen_offline_with_tstamp_precision env_example (\<lambda>_ _ _. NotMine)
      (Some \<lparr>unread = file_example True, broken = False\<rparr>) PCAP_TSTAMP_PRECISION_MICRO = Inr p" "snapshot p = 100"
    using open_example by blast
  from reader_stays_in_buffer [OF ample_blocks [OF ample_example] p(1) reads_start] p show ?thesis by auto
qed

theorem capture_file_loop_returns_witness:
  "\<exists>p n q t. pcap_fopen_offline_with_tstamp_precision env_example (\<lambda>_ _ _. NotMine)
      (Some \<lparr>unread = file_example True, broken = False\<rparr>) PCAP_TSTAMP_PRECISION_MICRO = Inr p \<and>
    pcap_loop_offline env_example (snd (install_bpf_program env_example p
      [\<lparr>insn_code = code_of RET_K, insn_jt = 0, insn_jf = 0, insn_k = 1\<rparr>])) 0 log_callback [] = Some (Inr (n, q, t)) \<and> n \<le> 0"
proof -
  obtain p where p: "pcap_fopen_offline_with_tstamp_precision env_example (\<lambda>_ _ _. NotMine)
      (Some \<lparr>unread = file_example True, broken = False\<rparr>) PCAP_TSTAMP_PRECISION_MICRO = Inr p"
    using open_example by blast
  have "length (scratch_mem env_example) = BPF_MEMWORDS" by (simp add: env_example_def BPF_MEMWORDS_def)
  from capture_file_loop_returns [OF ample_blocks [OF ample_example] this p,
      of "[\<lparr>insn_code = code_of RET_K, insn_jt = 0, insn_jf = 0, insn_k = 1\<rparr>]" 0 log_callback "[]"]
  show ?thesis using p by (auto simp: forward_def known_def code_of_inject simp del: code_of.simps)
qed

definition writer_example :: pcap_t where
  "writer_example = \<lparr>swapped = False, version_major = 2, version_minor = 4, linktype = DLT_EN10MB, linktype_ext = 0,
     snapshot = 100, tstamp_precision = PCAP_TSTAMP_PRECISION_MICRO, hdrsize = 16, lengths_swapped = NOT_SWAPPED,
     scale_type = PASS_THROUGH, bufsize = 100, buffer = replicate 100 0, rfile = \<lparr>unread = [], broken = False\<rparr>, fcode = None,
     break_loop = False, activated = True, errbuf = None\<rparr>"

lemma writer_ok_example: "writer_ok writer_example"
  by (simp add: writer_ok_def writer_example_def linktype_defs DLT_EN10MB_def DLT_USB_LINUX_MMAPPED_def INT_MAX_def)

theorem dump_then_read_witness:
  "\<exists>f g p q. pcap_dump_open \<lparr>written = [], room = 0, out_error = False\<rparr>
      (\<lambda>_. Some \<lparr>written = [], room = 50, out_error = False\<rparr>) writer_example (Some [65, 0]) = Inr f \<and>
    dump_all [packet_example, packet_example] f = Inr g \<and>
    pcap_fopen_offline_with_tstamp_precision env_example (\<lambda>_ _ _. NotMine) (Some \<lparr>unread = written g, broken = False\<rparr>)
      PCAP_TSTAMP_PRECISION_MICRO = Inr p \<and>
    pcap_loop_offline env_example p 0 log_callback [] = Some (Inr (- 1, q, [packet_example]))"
proof -
  have l: "length (record_as False packet_example) = 18" by (simp add: record_as_def packet_example_def)
  have "feed log_callback [packet_example] [] = [packet_example]"
    by (simp add: packet_example_def log_callback_def)
  then show ?thesis
    using dump_then_read [where name = "[65, 0]" and n = 50 and fopen = "\<lambda>_. Some \<lparr>written = [], room = 50, out_error = False\<rparr>"
        and ps = "[packet_example, packet_example]" and cb = log_callback and ng = "\<lambda>_ _ _. NotMine" and s = "[]"
        and stdout = "\<lparr>written = [], room = 0, out_error = False\<rparr>", OF ample_example writer_ok_example]
      packet_ok_example [of False] log_reads_captured l
    by (auto simp: writer_example_def cstr_def bytes_of_def)
qed

theorem byte_order_irrelevant_witness:
  "\<exists>p q. pcap_fopen_offline_with_tstamp_precision env_example (\<lambda>_ _ _. NotMine)
      (Some \<lparr>unread = file_example True, broken = False\<rparr>) PCAP_TSTAMP_PRECISION_MICRO = Inr p \<and> swapped p \<and>
    pcap_loop_offline env_example p 0 log_callback [] = Some (Inr (0, q, [packet_example]))"
proof -
  have "feed log_callback [packet_example] [] = [packet_example]"
    by (simp add: packet_example_def log_callback_def)
  then show ?thesis
    using byte_order_irrelevant [where precision = PCAP_TSTAMP_PRECISION_MICRO and snaplen = 100 and ps = "[packet_example]"
        and cb = log_callback and ng = "\<lambda>_ _ _. NotMine" and sw = True and s = "[]",
        OF ample_example _ _ _ linktype_example plain_example] packet_ok_example log_reads_captured
    by (auto simp: INT_MAX_def file_example_def)
qed

end
