(* ===== verification/Capture.thy ===== *)
theory Capture
  imports Filter_Correct Savefile_Roundtrip Provas
begin

text \<open>
  A capture file through a compiled filter, and the repeater of captures over the library: what a filter looks at, the loop over
  a filtered file, and the packets that \<open>envia_pacotes_pcap.c\<close> sends of a file.
\<close>

section \<open>A filter looks only at the captured bytes\<close>

lemma load_packet_take:
  assumes "load_packet (take n p) sz i \<noteq> None"
  shows "load_packet p sz i = load_packet (take n p) sz i"
  using assms by (auto simp: load_packet_def drop_take min_def split: if_splits)

lemma step_take:
  assumes "unat c \<le> length p"
  shows "bpf_step f p w c aux s = bpf_step f (take (unat c) p) w c aux s"
proof -
  let ?q = "take (unat c) p"
  have le: "unat c \<le> length ?q" using assms by simp
  have a: "load_packet p sz i = load_packet ?q sz i" if "\<not> abs_rejected sz i c" for sz i
    by (rule load_packet_take [OF load_packet_abs [OF that le]])
  have b: "load_packet p sz (x + i) = load_packet ?q sz (x + i)" if "\<not> ind_rejected sz x i c" for sz x i
    by (rule load_packet_take [OF load_packet_ind [OF that le]])
  have m: "load_packet p SzB i = load_packet ?q SzB i" if "\<not> c \<le> i" for i
    using a [of SzB i] that by (simp add: abs_rejected_def)
  have "exec_op p w c aux i op s = exec_op ?q w c aux i op s" for i op s
  proof (cases op)
    case (ALU x src)
    then show ?thesis by (cases src) simp_all
  qed (simp_all add: a b m)
  then show ?thesis by (simp add: bpf_step_def Let_def split: option.split)
qed

lemma filter_take:
  assumes "unat c \<le> length p"
  shows "pcap_filter_with_aux_data (Some f) p w c aux m = pcap_filter_with_aux_data (Some f) (take (unat c) p) w c aux m"
proof -
  have "bpf_step f p w c aux = bpf_step f (take (unat c) p) w c aux"
    using step_take [OF assms] by blast
  then show ?thesis by (simp add: pcap_filter_with_aux_data_def bpf_run_def)
qed

text \<open>So a compiled filter answers for the captured bytes.\<close>

lemma compiled_captured:
  assumes "correct_for n v f" "unat c \<le> length p"
  shows "pcap_filter_with_aux_data (Some f) p w c aux m = Some (Returned (if ether_proto_matches v (take (unat c) p) then n else 0))"
proof -
  have "length (take (unat c) p) = unat c" using assms(2) by simp
  then show ?thesis
    using conjunct2 [OF assms(1) [unfolded correct_for_def], rule_format, of "take (unat c) p" w aux m] unat_u32_less [of c]
      filter_take [OF assms(2)] by simp
qed

lemma compiled_decides:
  assumes "correct_for n v f" "n \<noteq> 0"
  shows "decides e (Some f) (\<lambda>h d. ether_proto_matches v d)"
  using compiled_captured [OF assms(1)] assms(2) by (simp add: decides_def passes_def pcap_filter_def)

text \<open>C25: a capture file is read through a compiled filter. The program that \<open>pcap_compile\<close> makes of \<open>ether proto v\<close> for
  Ethernet is accepted by \<open>pcap_setfilter\<close>, and \<open>pcap_loop\<close> over a complete file, whatever its ordinary link type, then hands the
  program exactly the packets that pass the tests of the expression on Ethernet, with their headers and in order.\<close>

theorem filtered_file:
  assumes "ample e" "precision \<in> {PCAP_TSTAMP_PRECISION_MICRO, PCAP_TSTAMP_PRECISION_NANO}"
    and "snaplen \<noteq> 0" "snaplen \<le> INT_MAX" "lt = linktype_to_dlt (uint (l AND 0x03FFFFFF))" "plain_link sw lt"
    and "list_all (packet_ok sw snaplen lt) ps" "length ps < 2 ^ 31 - 1" "reads_captured cb"
  shows "\<exists>p f p' q. pcap_fopen_offline_with_tstamp_precision e ng (Some \<lparr>unread = file_as sw (magic_of precision) l snaplen @
      concat (map (record_as sw) ps), broken = False\<rparr>) precision = Inr p \<and>
    compile_ether_proto (snapshot p) v = Some f \<and> install_bpf_program e p f = (0, p') \<and>
    pcap_loop_offline e p' 0 cb s = Some (Inr (0, q, feed cb (filter (\<lambda>(h, d). ether_proto_matches v d) ps) s))"
proof -
  let ?rs = "map (record_as sw) ps"
  from open_file_as [OF assms(1-6), of ng "concat ?rs" False] obtain p where p:
    "pcap_fopen_offline_with_tstamp_precision e ng (Some \<lparr>unread = file_as sw (magic_of precision) l snaplen @ concat ?rs,
      broken = False\<rparr>) precision = Inr p"
    "plain_reader p" "swapped p = sw" "snapshot p = snaplen" "linktype p = lt" "\<not> break_loop p"
    "rfile p = \<lparr>unread = concat ?rs, broken = False\<rparr>" by blast
  obtain f where f: "compile_ether_proto snaplen v = Some f" "correct_for snaplen v f"
    using compile_correct [OF assms(3)] by blast
  let ?p = "p\<lparr>fcode := Some f\<rparr>"
  obtain b where "alloc e (8 * length f) = Some b" using assms(1) by (auto simp: ample_def)
  then have i: "install_bpf_program e p f = (0, ?p)"
    using f(2) by (simp add: install_bpf_program_def correct_for_def)
  have pl: "plain_reader ?p" using p(2) by (simp add: plain_reader_def reader_ok_def)
  have r: "unread (rfile ?p) = take (length (concat ?rs)) (concat ?rs)" "\<not> broken (rfile ?p)" by (simp_all add: p(7))
  have "swapped ?p = sw" "snapshot ?p = snaplen" "linktype ?p = lt" "fcode ?p = Some f" "\<not> break_loop ?p"
    using p by simp_all
  from loop_cut [OF assms(1) compiled_decides [OF f(2) assms(3)] assms(9,7,8) pl this r, of s]
  obtain q where "pcap_loop_offline e ?p 0 cb s = Some (Inr (0, q, feed cb (filter (\<lambda>(h, d). ether_proto_matches v d) ps) s))"
    using complete_all [OF order_refl, of ?rs] by auto
  then show ?thesis using p(1,4) f(1) i by blast
qed

section \<open>The repeater of a capture file\<close>

text \<open>What \<open>pcap_next_ex\<close> reports on the file, one call after the other: the data pointer leads to the whole buffer, and
  the length is that on the network.\<close>

partial_function (option) leituras_de :: "env \<Rightarrow> pcap_t \<Rightarrow> (crash + leitura list) option" where
  "leituras_de e p = Option.bind (pcap_next_ex e p) (\<lambda>r. case r of
     Inl err \<Rightarrow> Some (Inl err)
   | Inr (st, q, pkt) \<Rightarrow>
       (case pkt of
         Some x \<Rightarrow> Option.bind (leituras_de e q) (\<lambda>ls.
           Some (map_sum id ((#) (Pacote (snd x) (unat (pkt_len (fst x))))) ls))
       | None \<Rightarrow> Some (Inr [if st = - 2 then Fim else Erro])))"

lemma next_ex_record:
  assumes "plain_reader p" "ample e" "packet_ok (swapped p) (snapshot p) (linktype p) (h, d)" "fcode p = None" "\<not> break_loop p"
    and "unread (rfile p) = record_as (swapped p) (h, d) @ ys"
  shows "\<exists>q. pcap_next_ex e p = Some (Inr (1, q, Some (h, buffer q))) \<and> take (unat (caplen h)) (buffer q) = d \<and>
    unat (caplen h) \<le> length (buffer q) \<and> plain_reader q \<and> fixed_part q = fixed_part p \<and> unread (rfile q) = ys \<and>
    broken (rfile q) = broken (rfile p)"
proof -
  let ?p = "p\<lparr>rfile := (rfile p)\<lparr>unread := d @ ys\<rparr>\<rparr>"
  have ok: "caplen h \<le> snapshot p" "caplen h \<le> max_snaplen_for_dlt (linktype p)" "ts_ok (swapped p) h" "length d = unat (caplen h)"
    using assms(3) by (simp_all add: packet_ok_def)
  have r: "unread (rfile p) = pkthdr_as (swapped p) h @ (d @ ys)" using assms(6) by (simp add: record_as_def)
  have "plain_reader ?p" using assms(1) by (simp add: plain_reader_def)
  from whole_plain [OF this assms(2), of h] ok(1,2,4)
  obtain q where q: "read_whole_packet e h ?p = Inr (Packet h, q)" "reader_ok q" "fixed_part q = fixed_part p"
    "unread (rfile q) = ys" "broken (rfile q) = broken (rfile p)" "take (unat (caplen h)) (buffer q) = d"
    "unat (caplen h) \<le> length (buffer q)" by auto
  have n: "pcap_next_packet e p = Inr (Packet h, q)" using next_plain [OF assms(1) ok(3) r ok(1,2)] q(1) by simp
  have "fcode q = None" using fixed_partD(7) [OF q(3)] assms(4) by simp
  then have "pcap_next_ex e p = Some (Inr (1, q, Some (h, buffer q)))"
    unfolding pcap_next_ex_def pcap_offline_read_def
    by (subst offline_packets.simps) (simp add: assms(5) n passes_def call_back_def pcap_oneshot_def)
  then show ?thesis using q plain_reader_fixed [OF q(3,2) assms(1)] by blast
qed

lemma next_ex_eof:
  assumes "plain_reader p" "unread (rfile p) = []" "\<not> broken (rfile p)" "\<not> break_loop p"
  shows "\<exists>q. pcap_next_ex e p = Some (Inr (- 2, q, None))"
  unfolding pcap_next_ex_def pcap_offline_read_def
  by (subst offline_packets.simps) (simp add: assms eof_plain)

text \<open>A reading is resent through the first bytes of the buffer only.\<close>

fun trim :: "leitura \<Rightarrow> leitura" where
  "trim (Pacote b n) = Pacote (take n b) n" | "trim Tempo = Tempo" | "trim Fim = Fim" | "trim Erro = Erro"

lemma resend_trim: "resend_packet os (take n b) n p = resend_packet os b n p"
  by (simp add: resend_packet_def rd_def)

lemma reenvia_trim: "reenvia os q (map trim ls) n p = reenvia os q ls n p"
  by (induction os q ls n p rule: reenvia.induct) (auto simp: resend_trim intro!: bind_r_cong)

lemma leituras_records:
  assumes "plain_reader p" "ample e" "list_all (packet_ok (swapped p) (snapshot p) (linktype p)) ps" "fcode p = None" "\<not> break_loop p"
    and "unread (rfile p) = concat (map (record_as (swapped p)) ps)" "\<not> broken (rfile p)"
    and "list_all (\<lambda>(h, d). pkt_len h = caplen h) ps"
  shows "\<exists>ls. leituras_de e p = Some (Inr ls) \<and> map trim ls = map (whole \<circ> snd) ps @ [Fim]"
  using assms(1,3-)
proof (induction ps arbitrary: p)
  case Nil
  then obtain q where "pcap_next_ex e p = Some (Inr (- 2, q, None))" using next_ex_eof [of p e] by auto
  then show ?case by (subst leituras_de.simps) simp
next
  case (Cons pk ps)
  obtain h d where hd: "pk = (h, d)" by (cases pk)
  obtain q where q: "pcap_next_ex e p = Some (Inr (1, q, Some (h, buffer q)))" "take (unat (caplen h)) (buffer q) = d"
    "unat (caplen h) \<le> length (buffer q)" "plain_reader q" "fixed_part q = fixed_part p"
    "unread (rfile q) = concat (map (record_as (swapped p)) ps)" "broken (rfile q) = broken (rfile p)"
    using next_ex_record [of p e h d "concat (map (record_as (swapped p)) ps)"] Cons.prems assms(2) by (auto simp: hd)
  note f = fixed_partD [OF q(5)]
  obtain ls where ls: "leituras_de e q = Some (Inr ls)" "map trim ls = map (whole \<circ> snd) ps @ [Fim]"
    using Cons.IH [OF q(4)] Cons.prems q(6,7) f by auto
  have "pkt_len h = caplen h" "length d = unat (caplen h)" using Cons.prems(2,7) by (simp_all add: hd packet_ok_def)
  then show ?case using q(1,2) ls by (subst leituras_de.simps) (simp add: hd whole_def)
qed

text \<open>C40: the repeater sends what a capture file holds. For a file with packets that were captured whole, of a host of
  either byte order, and an interface that takes everything, \<open>envia_pacotes\<close> sends the first packets of the file, as
  many as its third argument says (1000 without it, all of them for 0), unchanged and in order, and counts them.\<close>

theorem repeater_sends_file:
  assumes "ample e" "snaplen \<noteq> 0" "snaplen \<le> INT_MAX" "lt = linktype_to_dlt (uint (l AND 0x03FFFFFF))" "plain_link sw lt"
    and "list_all (\<lambda>p. packet_ok sw snaplen lt p \<and> pkt_len (fst p) = caplen (fst p)) ps" "length ps < 2 ^ 32"
    and "content = file_as sw (magic_of PCAP_TSTAMP_PRECISION_MICRO) l snaplen @ concat (map (record_as sw) ps)"
    and "sends_all os" "3 \<le> length argv" "cstr (argv ! 1) \<noteq> bytes_of ''-''"
    and "fopen (cstr (argv ! 1)) = Some \<lparr>unread = content, broken = False\<rparr>"
  shows "\<exists>h ls w. pcap_open_offline e ng stdin fopen (Some (argv ! 1)) = Inr h \<and> leituras_de e h = Some (Inr ls) \<and>
    envia_pacotes_main os (\<lambda>_. Some ls) True argv p =
      (let n = (if length argv = 4 then ucast (strtoul 10 (argv ! 3)) else 1000 :: u32);
           m = (if n = 0 then map snd ps else take (unat n) (map snd ps)) in
       Inr (0, of_nat (length m), p\<lparr>pw := w, sent := sent p @ map (\<lambda>b. ([], b)) m\<rparr>))"
proof -
  have o: "pcap_open_offline e ng stdin fopen (Some (argv ! 1)) =
      pcap_fopen_offline_with_tstamp_precision e ng (Some \<lparr>unread = content, broken = False\<rparr>) PCAP_TSTAMP_PRECISION_MICRO"
    using assms(11,12) by (simp add: pcap_open_offline_def pcap_open_offline_with_tstamp_precision_def)
  from open_file_as [OF assms(1) _ assms(2-5), of PCAP_TSTAMP_PRECISION_MICRO ng "concat (map (record_as sw) ps)" False]
  obtain h where h: "pcap_fopen_offline_with_tstamp_precision e ng (Some \<lparr>unread = content, broken = False\<rparr>)
      PCAP_TSTAMP_PRECISION_MICRO = Inr h" "plain_reader h" "swapped h = sw" "snapshot h = snaplen" "linktype h = lt"
    "fcode h = None" "\<not> break_loop h" "rfile h = \<lparr>unread = concat (map (record_as sw) ps), broken = False\<rparr>"
    unfolding assms(8) by blast
  obtain ls where ls: "leituras_de e h = Some (Inr ls)" "map trim ls = map (whole \<circ> snd) ps @ [Fim]"
    using leituras_records [of h e ps] h(2-) assms(1,6) by (auto simp: list_all_iff split_beta)
  define n where "n = (if length argv = 4 then ucast (strtoul 10 (argv ! 3)) else 1000 :: u32)"
  have r: "reenvia os n ls 0 p = reenvia os n (map whole (map snd ps) @ [Fim]) 0 p"
    using reenvia_trim [of os n ls 0 p] ls(2) by simp
  obtain w where w: "reenvia os n (map whole (map snd ps) @ [Fim]) 0 p =
    (let m = (if n = 0 then map snd ps else take (unat n) (map snd ps)) in
     Inr (of_nat (length m), p\<lparr>pw := w, sent := sent p @ map (\<lambda>b. ([], b)) m\<rparr>))"
    using reenvia_sends [OF assms(9), of "map snd ps" n p] assms(7) by auto
  have "envia_pacotes_main os (\<lambda>_. Some ls) True argv p = bind_r (reenvia os n ls 0 p) (\<lambda>s. Inr (0, s))"
    using assms(10) unfolding envia_pacotes_main_def n_def by simp
  then show ?thesis using o h(1) ls(1) r w unfolding n_def [symmetric] by (auto simp: Let_def)
qed

section \<open>Concrete runs\<close>

definition frame_example :: "byte list \<Rightarrow> pcap_pkthdr \<times> byte list" where
  "frame_example ty = (\<lparr>ts_sec = 5, ts_usec = 7, caplen = 16, pkt_len = 16\<rparr>, replicate 12 0 @ ty @ [1, 2])"

lemma frame_ok_example: "length ty = 2 \<Longrightarrow> packet_ok sw 100 DLT_EN10MB (frame_example ty)"
  by (simp add: packet_ok_def frame_example_def ts_ok_def max_snaplen_for_dlt_def DLT_EN10MB_def DLT_DBUS_def
      DLT_EBHSCR_def DLT_USBPCAP_def MAXIMUM_SNAPLEN_def)

lemma frame_matches_example:
  "ether_proto_matches 0x1234 (snd (frame_example [0x12, 0x34]))" "\<not> ether_proto_matches 0x1234 (snd (frame_example [8, 0]))"
  by (simp_all add: frame_example_def ether_proto_matches_def field_def be_word_def LLCSAP_ISONS_def LLCSAP_IP_def LLCSAP_NETBEUI_def
      LLCSAP_IPX_def ETHERTYPE_ATALK_def ETHERTYPE_AARP_def ETHERMTU_def)

theorem filtered_file_witness:
  "\<exists>p f p' q. pcap_fopen_offline_with_tstamp_precision env_example (\<lambda>_ _ _. NotMine) (Some \<lparr>unread =
      file_as True (magic_of PCAP_TSTAMP_PRECISION_MICRO) 1 100 @
      concat (map (record_as True) [frame_example [8, 0], frame_example [0x12, 0x34]]), broken = False\<rparr>) PCAP_TSTAMP_PRECISION_MICRO = Inr p \<and>
    compile_ether_proto (snapshot p) 0x1234 = Some f \<and> install_bpf_program env_example p f = (0, p') \<and>
    pcap_loop_offline env_example p' 0 log_callback [] = Some (Inr (0, q, [frame_example [0x12, 0x34]]))"
proof -
  let ?ps = "[frame_example [8, 0], frame_example [0x12, 0x34]]"
  have f: "filter (\<lambda>(h, d). ether_proto_matches 0x1234 d) ?ps = [frame_example [0x12, 0x34]]"
    using frame_matches_example by (simp add: split_beta)
  have "feed log_callback [frame_example [0x12, 0x34]] [] = [frame_example [0x12, 0x34]]"
    by (simp add: log_callback_def frame_example_def)
  then show ?thesis
    using filtered_file [where precision = PCAP_TSTAMP_PRECISION_MICRO and snaplen = 100 and ps = ?ps and v = "0x1234"
        and cb = log_callback and ng = "\<lambda>_ _ _. NotMine" and sw = True and s = "[]", unfolded f,
        OF ample_example _ _ _ linktype_example plain_example] frame_ok_example log_reads_captured
    by (auto simp: INT_MAX_def)
qed

theorem repeater_sends_file_witness:
  "\<exists>h ls n q. pcap_open_offline env_example (\<lambda>_ _ _. NotMine) None (\<lambda>_. Some \<lparr>unread =
      file_as True (magic_of PCAP_TSTAMP_PRECISION_MICRO) 1 100 @
      concat (map (record_as True) [frame_example [8, 0], frame_example [0x12, 0x34]]), broken = False\<rparr>) (Some [65, 0]) = Inr h \<and>
    leituras_de env_example h = Some (Inr ls) \<and>
    envia_pacotes_main (os_example []) (\<lambda>_. Some ls) True [[], [65, 0], [66, 0]] proc_example = Inr (0, n, q) \<and>
    sent q = [([], snd (frame_example [8, 0])), ([], snd (frame_example [0x12, 0x34]))]"
proof -
  let ?ps = "[frame_example [8, 0], frame_example [0x12, 0x34]]" and ?argv = "[[], [65, 0], [66, 0]] :: byte list list"
  have c: "cstr (?argv ! 1) \<noteq> bytes_of ''-''" by (simp add: cstr_def bytes_of_def)
  have s: "sends_all (os_example [])" by (simp add: sends_all_def os_example_def)
  have l: "pkt_len (fst (frame_example ty)) = caplen (fst (frame_example ty))" for ty by (simp add: frame_example_def)
  show ?thesis
    using repeater_sends_file [where snaplen = 100 and ps = ?ps and sw = True and argv = ?argv and os = "os_example []"
        and p = proc_example and ng = "\<lambda>_ _ _. NotMine" and stdin = None and content = "file_as True (magic_of PCAP_TSTAMP_PRECISION_MICRO) 1 100 @
      concat (map (record_as True) ?ps)" and fopen = "\<lambda>_. Some \<lparr>unread = file_as True (magic_of PCAP_TSTAMP_PRECISION_MICRO) 1 100 @
      concat (map (record_as True) ?ps), broken = False\<rparr>", OF ample_example _ _ linktype_example plain_example _ _ refl s _ c]
      frame_ok_example l by (auto simp: INT_MAX_def proc_example_def Let_def)
qed

end
