(* ===== verification/Live_Frame.thy ===== *)
theory Live_Frame
  imports Savefile_Roundtrip
begin

text \<open>
  Live capture on Linux, \<open>libpcap1.10.4/pcap-linux.c\<close>: what is done with one packet of the ring that the library shares
  with the kernel. A frame is the memory from its header to the end of its block, with the fields of the header that the
  code reads; a pointer into it is an offset. The kernel has put the packet at \<open>tp_mac\<close> and an address behind the header.
  The library builds the headers it adds in the room in front of the packet.
\<close>

section \<open>Frames and handles\<close>

record tpacket =
  tp_status :: u32
  tp_len :: u32
  tp_snaplen :: u32
  tp_mac :: u16
  tp_sec :: u32
  tp_nsec :: u32
  tp_vlan_tci :: u16
  tp_vlan_tpid :: u16
  fr_mem :: "byte list"

record sockaddr_ll =
  sll_protocol :: u16
  sll_ifindex :: int
  sll_hatype :: u16
  sll_pkttype :: byte
  sll_halen :: byte
  sll_addr :: "byte list"

datatype pcap_direction = PCAP_D_INOUT | PCAP_D_IN | PCAP_D_OUT

datatype live_error = CorruptedFrame u16 u32 u32 | NoRoomForSll | CannotPoll | InvalidPolling | Hangup | NoError
  | ErrorOnSocket int | CannotReadEvent | ShortEvent int | InterfaceGone | CannotGetFlags | GetsocknameFailed
  | NoFilter | CannotRemoveFilter | CannotRemoveTotalFilter | CannotGetFdFlags | CannotSetNonblocking | DrainFailed
  | CannotRestoreFdFlags | NoMemoryForFilter | SendOnAny | SendCooked | SendFailed | NoStatistics

text \<open>The handle: the common part, and the private one. The ring is the list of its blocks, \<open>None\<close> while the kernel owns
  a block; the current packet is the rest of the packets of the current block. \<open>attached\<close> is the filter on the socket. The last
  field counts how often the kernel was looked at.\<close>

record live =
  lp :: pcap_t
  direction :: pcap_direction
  ring :: "tpacket list option list"
  ring_offset :: nat
  filter_in_userland :: bool
  blocks_to_filter :: int
  timeout :: int
  poll_timeout :: int
  breakloop_fd :: bool
  cooked :: bool
  ifindex :: int
  lo_ifindex :: int
  netdown :: bool
  vlan_offset :: int
  tp_hdrlen :: nat
  current_packet :: "tpacket list option"
  attached :: "bpf_insn list option"
  live_errbuf :: "live_error option"
  now :: nat

definition PACKET_OUTGOING :: byte where "PACKET_OUTGOING = 4"
definition ARPHRD_CAN :: u16 where "ARPHRD_CAN = 280"
definition TP_STATUS_VLAN_VALID :: u32 where "TP_STATUS_VLAN_VALID = 0x10"
definition TP_STATUS_VLAN_TPID_VALID :: u32 where "TP_STATUS_VLAN_TPID_VALID = 0x40"
definition ETH_P_8021Q :: u16 where "ETH_P_8021Q = 0x8100"
definition SLL_HDR_LEN :: nat where "SLL_HDR_LEN = 16"
definition SLL2_HDR_LEN :: nat where "SLL2_HDR_LEN = 20"
definition VLAN_TAG_LEN :: nat where "VLAN_TAG_LEN = 4"
definition CANFD_BRS :: byte where "CANFD_BRS = 0x01"
definition CANFD_ESI :: byte where "CANFD_ESI = 0x02"
definition CANFD_FDF :: byte where "CANFD_FDF = 0x04"

lemmas live_consts = PACKET_OUTGOING_def ARPHRD_CAN_def SLL_HDR_LEN_def SLL2_HDR_LEN_def VLAN_TAG_LEN_def
  DLT_EN10MB_def DLT_LINUX_SLL_def DLT_LINUX_SLL2_def

definition VLAN_VALID :: "tpacket \<Rightarrow> bool" where
  "VLAN_VALID h \<longleftrightarrow> tp_vlan_tci h \<noteq> 0 \<or> tp_status h AND TP_STATUS_VLAN_VALID \<noteq> 0"

definition VLAN_TPID :: "tpacket \<Rightarrow> u16" where
  "VLAN_TPID h = (if tp_vlan_tpid h \<noteq> 0 \<or> tp_status h AND TP_STATUS_VLAN_TPID_VALID \<noteq> 0 then tp_vlan_tpid h else ETH_P_8021Q)"

definition TPACKET_ALIGN :: "nat \<Rightarrow> nat" where
  "TPACKET_ALIGN n = (n + 15) div 16 * 16"

text \<open>Where the vlan tag goes: the offset of the type field.\<close>

definition set_vlan_offset :: "live \<Rightarrow> live" where
  "set_vlan_offset l = l\<lparr>vlan_offset :=
     (if linktype (lp l) = DLT_EN10MB then 12 else if linktype (lp l) = DLT_LINUX_SLL then int SLL_HDR_LEN - 2 else - 1)\<rparr>"

section \<open>Memory of a frame\<close>

definition peek :: "int \<Rightarrow> nat \<Rightarrow> byte list \<Rightarrow> byte list res" where
  "peek at n mem = (if at < 0 then Inl ReadOverrun else rd_at (nat at) n mem)"

definition poke :: "int \<Rightarrow> byte list \<Rightarrow> byte list \<Rightarrow> byte list res" where
  "poke at bs mem = (if at < 0 \<or> length mem < nat at + length bs then Inl WriteOverrun else Inr (put_bytes (nat at) bs mem))"

definition read_sll :: "live \<Rightarrow> byte list \<Rightarrow> sockaddr_ll res" where
  "read_sll l mem = bind_r (peek (int (TPACKET_ALIGN (tp_hdrlen l))) 20 mem) (\<lambda>b.
     Inr \<lparr>sll_protocol = get 2 2 b, sll_ifindex = sint (get 4 4 b :: u32), sll_hatype = get 8 2 b, sll_pkttype = b ! 10,
       sll_halen = b ! 11, sll_addr = take 8 (drop 12 b)\<rparr>)"

section \<open>What is done with a packet\<close>

definition linux_check_direction :: "live \<Rightarrow> sockaddr_ll \<Rightarrow> bool" where
  "linux_check_direction l sll =
    (if sll_pkttype sll = PACKET_OUTGOING then
       (if sll_ifindex sll = lo_ifindex l then False
        else if sll_hatype sll = ARPHRD_CAN \<and> direction l \<noteq> PCAP_D_OUT then False
        else direction l \<noteq> PCAP_D_IN)
     else direction l \<noteq> PCAP_D_OUT)"

text \<open>The header that a packet of a cooked capture gets; \<open>htons\<close> and \<open>htonl\<close> turn the bytes on this host.\<close>

definition sll_header_bytes :: "sockaddr_ll \<Rightarrow> byte list" where
  "sll_header_bytes a = le_bytes 2 (SWAPSHORT (ucast (sll_pkttype a))) @ le_bytes 2 (SWAPSHORT (sll_hatype a)) @
     le_bytes 2 (SWAPSHORT (ucast (sll_halen a))) @ sll_addr a @ le_bytes 2 (sll_protocol a)"

definition sll2_header_bytes :: "sockaddr_ll \<Rightarrow> byte list" where
  "sll2_header_bytes a = le_bytes 2 (sll_protocol a) @ le_bytes 2 (0 :: u16) @
     le_bytes 4 (SWAPLONG (word_of_int (sll_ifindex a))) @ le_bytes 2 (SWAPSHORT (sll_hatype a)) @
     [sll_pkttype a, sll_halen a] @ sll_addr a"

definition cooked_header :: "live \<Rightarrow> sockaddr_ll \<Rightarrow> byte list" where
  "cooked_header l a = (if linktype (lp l) = DLT_LINUX_SLL2 then sll2_header_bytes a else sll_header_bytes a)"

text \<open>The header is put in front of the packet, if it does not reach into the address; \<open>None\<close> if it does.\<close>

definition add_cooked_header :: "live \<Rightarrow> sockaddr_ll \<Rightarrow> int \<Rightarrow> byte list \<Rightarrow> (int \<times> byte list) option res" where
  "add_cooked_header l a bp mem =
    (let bp = bp - int (length (cooked_header l a)) in
     if bp < int (TPACKET_ALIGN (tp_hdrlen l) + 20) then Inr None
     else bind_r (poke bp (cooked_header l a) mem) (\<lambda>mem. Inr (Some (bp, mem))))"

text \<open>The header of a frame of a CAN bus.\<close>

definition fix_can_header :: "sockaddr_ll \<Rightarrow> int \<Rightarrow> byte list \<Rightarrow> byte list res" where
  "fix_can_header a bp mem = bind_r (peek bp 8 mem) (\<lambda>b.
     let can_id = le_bytes 4 (SWAPLONG (get 0 4 b));
         rest = (if SWAPSHORT (sll_protocol a) = LINUX_SLL_P_CANFD
           then [(b ! 5 OR CANFD_FDF) AND NOT (CANFD_FDF OR CANFD_ESI OR CANFD_BRS), 0, 0]
           else [b ! 5 AND NOT CANFD_FDF, b ! 6, b ! 7]) in
     poke bp (can_id @ [b ! 4] @ rest) mem)"

definition start_of_packet :: "live \<Rightarrow> sockaddr_ll \<Rightarrow> tpacket \<Rightarrow> (int \<times> byte list) option res" where
  "start_of_packet l a fr =
    (let bp = int (unat (tp_mac fr)) in
     if cooked l then add_cooked_header l a bp (fr_mem fr)
     else if sll_hatype a = ARPHRD_CAN then bind_r (fix_can_header a bp (fr_mem fr)) (\<lambda>mem. Inr (Some (bp, mem)))
     else Inr (Some (bp, fr_mem fr)))"

text \<open>The filter runs on the packet without its vlan tag, which is in the auxiliary data; \<open>None\<close> if it does not stop.\<close>

definition userland_filter :: "env \<Rightarrow> live \<Rightarrow> tpacket \<Rightarrow> int \<Rightarrow> byte list \<Rightarrow> u32 \<Rightarrow> (crash + bool) option" where
  "userland_filter e l fr bp mem snaplen =
    (if filter_in_userland l \<and> fcode (lp l) \<noteq> None then
       let aux = \<lparr>vlan_tag_present = (if VLAN_VALID fr then 1 else 0), vlan_tag = tp_vlan_tci fr AND 0x0fff\<rparr> in
       case pcap_filter_with_aux_data (fcode (lp l)) (drop (nat bp) mem) (tp_len fr) snaplen (Some aux) (scratch_mem e) of
         Some (Returned v) \<Rightarrow> Some (Inr (v \<noteq> 0))
       | Some (Broken err) \<Rightarrow> Some (Inl (FilterFault err))
       | _ \<Rightarrow> None
     else Some (Inr True))"

text \<open>The tag goes in front of the type field: what is before it is moved down.\<close>

definition insert_vlan_tag :: "live \<Rightarrow> tpacket \<Rightarrow> pcap_pkthdr \<Rightarrow> int \<Rightarrow> byte list \<Rightarrow> (pcap_pkthdr \<times> int \<times> byte list) res" where
  "insert_vlan_tag l fr hdr bp mem =
    (if VLAN_VALID fr \<and> vlan_offset l \<noteq> - 1 \<and> nat (vlan_offset l) \<le> unat (tp_snaplen fr) then
       bind_r (peek bp (nat (vlan_offset l)) mem) (\<lambda>before.
       bind_r (poke (bp - int VLAN_TAG_LEN) (before @ le_bytes 2 (SWAPSHORT (VLAN_TPID fr)) @
         le_bytes 2 (SWAPSHORT (tp_vlan_tci fr))) mem) (\<lambda>mem.
       Inr (hdr\<lparr>caplen := caplen hdr + of_nat VLAN_TAG_LEN, pkt_len := pkt_len hdr + of_nat VLAN_TAG_LEN\<rparr>,
         bp - int VLAN_TAG_LEN, mem)))
     else Inr (hdr, bp, mem))"

definition packet_header_of :: "live \<Rightarrow> tpacket \<Rightarrow> pcap_pkthdr" where
  "packet_header_of l fr =
    (let extra = (if cooked l then (if linktype (lp l) = DLT_LINUX_SLL2 then of_nat SLL2_HDR_LEN else of_nat SLL_HDR_LEN) else 0) in
     \<lparr>ts_sec = uint (tp_sec fr),
      ts_usec = uint (if tstamp_precision (lp l) = PCAP_TSTAMP_PRECISION_NANO then tp_nsec fr else tp_nsec fr div 1000),
      caplen = tp_snaplen fr + extra, pkt_len = tp_len fr + extra\<rparr>)"

definition trim_to_snapshot :: "live \<Rightarrow> pcap_pkthdr \<Rightarrow> pcap_pkthdr" where
  "trim_to_snapshot l hdr = (if snapshot (lp l) < caplen hdr then hdr\<lparr>caplen := snapshot (lp l)\<rparr> else hdr)"

datatype verdict = Bad live_error | Skipped | Handed pcap_pkthdr "byte list"

definition lift_r :: "'a res \<Rightarrow> ('a \<Rightarrow> (crash + 'b) option) \<Rightarrow> (crash + 'b) option" where
  "lift_r r g = (case r of Inl err \<Rightarrow> Some (Inl (MemoryFault err)) | Inr x \<Rightarrow> g x)"

definition judge_packet :: "env \<Rightarrow> live \<Rightarrow> tpacket \<Rightarrow> (crash + verdict) option" where
  "judge_packet e l fr =
    (if bufsize (lp l) < ucast (tp_mac fr) + tp_snaplen fr then
       Some (Inr (Bad (CorruptedFrame (tp_mac fr) (tp_snaplen fr) (bufsize (lp l)))))
     else lift_r (read_sll l (fr_mem fr)) (\<lambda>a.
       lift_r (start_of_packet l a fr) (\<lambda>start. case start of
         None \<Rightarrow> Some (Inr (Bad NoRoomForSll))
       | Some (bp, mem) \<Rightarrow>
           Option.bind (userland_filter e l fr bp mem (caplen (packet_header_of l fr))) (\<lambda>r. case r of
             Inl err \<Rightarrow> Some (Inl err)
           | Inr ok \<Rightarrow>
               if \<not> ok then Some (Inr Skipped)
               else if \<not> linux_check_direction l a then Some (Inr Skipped)
               else lift_r (insert_vlan_tag l fr (packet_header_of l fr) bp mem) (\<lambda>(hdr, bp, mem).
                 Some (Inr (Handed (trim_to_snapshot l hdr) (drop (nat bp) mem))))))))"

text \<open>The callback may call \<open>pcap_breakloop\<close>, which also writes to the event descriptor.\<close>

definition pcap_handle_packet_mmap :: "env \<Rightarrow> 's callback \<Rightarrow> tpacket \<Rightarrow> live \<Rightarrow> 's \<Rightarrow> (crash + int \<times> live \<times> 's) option" where
  "pcap_handle_packet_mmap e cb fr l s = Option.bind (judge_packet e l fr) (\<lambda>r. Some (case r of
     Inl err \<Rightarrow> Inl err
   | Inr (Bad err) \<Rightarrow> Inr (- 1, l\<lparr>live_errbuf := Some err\<rparr>, s)
   | Inr Skipped \<Rightarrow> Inr (0, l, s)
   | Inr (Handed hdr data) \<Rightarrow> (case cb hdr data s of
       (s, brk) \<Rightarrow> Inr (1, if brk then l\<lparr>lp := pcap_breakloop (lp l)\<rparr> else l, s))))"

section \<open>What the kernel promises of a frame\<close>

text \<open>The packet is behind the address, with room for what the library adds, and inside of the frame.\<close>

definition added_room :: "live \<Rightarrow> nat" where
  "added_room l = (if cooked l then 20 else 4)"

definition frame_ok :: "live \<Rightarrow> tpacket \<Rightarrow> bool" where
  "frame_ok l fr \<longleftrightarrow> TPACKET_ALIGN (tp_hdrlen l) + 20 + added_room l \<le> unat (tp_mac fr) \<and>
     unat (tp_mac fr) + unat (tp_snaplen fr) \<le> length (fr_mem fr) \<and>
     unat (tp_mac fr) + 8 \<le> length (fr_mem fr) \<and>
     unat (tp_mac fr) + unat (tp_snaplen fr) \<le> unat (bufsize (lp l))"

definition live_ok :: "live \<Rightarrow> bool" where
  "live_ok l \<longleftrightarrow> bufsize (lp l) \<le> INT_MAX \<and>
     vlan_offset l = (if linktype (lp l) = DLT_EN10MB then 12 else if linktype (lp l) = DLT_LINUX_SLL then 14 else - 1) \<and>
     (cooked l \<longrightarrow> linktype (lp l) = DLT_LINUX_SLL \<or> linktype (lp l) = DLT_LINUX_SLL2) \<and>
     0 < length (ring l) \<and> ring_offset l < length (ring l)"

lemma peek_ok: "0 \<le> at \<Longrightarrow> nat at + n \<le> length mem \<Longrightarrow> peek at n mem = Inr (take n (drop (nat at) mem))"
  by (simp add: peek_def rd_at_def rd_def)

lemma poke_ok: "0 \<le> at \<Longrightarrow> nat at + length bs \<le> length mem \<Longrightarrow> poke at bs mem = Inr (put_bytes (nat at) bs mem)"
  by (simp add: poke_def)

lemma frame_sll:
  assumes "frame_ok l fr"
  shows "\<exists>a. read_sll l (fr_mem fr) = Inr a \<and> length (sll_addr a) = 8"
proof -
  have "TPACKET_ALIGN (tp_hdrlen l) + 20 \<le> length (fr_mem fr)" using assms by (simp add: frame_ok_def)
  then show ?thesis by (simp add: read_sll_def peek_ok)
qed

lemma length_cooked_header:
  "length (sll_addr a) = 8 \<Longrightarrow> length (cooked_header l a) = (if linktype (lp l) = DLT_LINUX_SLL2 then 20 else 16)"
  by (simp add: cooked_header_def sll_header_bytes_def sll2_header_bytes_def)

text \<open>The packet as the program and the filter see it, before a tag goes in.\<close>

definition start_offset :: "live \<Rightarrow> tpacket \<Rightarrow> nat" where
  "start_offset l fr = unat (tp_mac fr) - (if cooked l then (if linktype (lp l) = DLT_LINUX_SLL2 then 20 else 16) else 0)"

lemma frame_start:
  assumes "frame_ok l fr" "length (sll_addr a) = 8"
  shows "\<exists>mem. start_of_packet l a fr = Inr (Some (int (start_offset l fr), mem)) \<and> length mem = length (fr_mem fr) \<and>
    (\<not> cooked l \<longrightarrow> sll_hatype a \<noteq> ARPHRD_CAN \<longrightarrow> mem = fr_mem fr) \<and>
    (cooked l \<longrightarrow> drop (start_offset l fr) mem = cooked_header l a @ drop (unat (tp_mac fr)) (fr_mem fr))"
proof (cases "cooked l")
  case True
  let ?n = "length (cooked_header l a)"
  have n: "?n = (if linktype (lp l) = DLT_LINUX_SLL2 then 20 else 16)" by (rule length_cooked_header [OF assms(2)])
  then have o: "start_offset l fr = unat (tp_mac fr) - ?n" using True by (simp add: start_offset_def)
  have le: "TPACKET_ALIGN (tp_hdrlen l) + 20 + ?n \<le> unat (tp_mac fr)" "unat (tp_mac fr) \<le> length (fr_mem fr)"
    using assms(1) True n by (auto simp: frame_ok_def added_room_def)
  obtain m where m: "m = unat (tp_mac fr)" by blast
  let ?s = "start_offset l fr" and ?h = "cooked_header l a"
  have s: "?s + ?n = m" "int m - int ?n = int ?s" "\<not> int ?s < int (TPACKET_ALIGN (tp_hdrlen l) + 20)" "m \<le> length (fr_mem fr)"
    using o [folded m] le [folded m] by simp_all
  have "poke (int ?s) ?h (fr_mem fr) = Inr (put_bytes ?s ?h (fr_mem fr))"
    using poke_ok [of "int ?s" ?h "fr_mem fr"] s by simp
  then have "add_cooked_header l a (int m) (fr_mem fr) = Inr (Some (int ?s, put_bytes ?s ?h (fr_mem fr)))"
    unfolding add_cooked_header_def Let_def s(2) using s(3) by simp
  then have "start_of_packet l a fr = Inr (Some (int ?s, put_bytes ?s ?h (fr_mem fr)))"
    using True by (simp add: start_of_packet_def Let_def m del: of_nat_unat)
  moreover have "drop ?s (put_bytes ?s ?h (fr_mem fr)) = ?h @ drop m (fr_mem fr)"
    unfolding put_bytes_def s(1) using s(1,4) by simp
  ultimately show ?thesis using True s(1,4) by (simp add: length_put_bytes m)
next
  case False
  have le: "unat (tp_mac fr) + 8 \<le> length (fr_mem fr)" using assms(1) by (simp add: frame_ok_def)
  show ?thesis
  proof (cases "sll_hatype a = ARPHRD_CAN")
    case True
    then show ?thesis using False le
      by (simp add: start_of_packet_def start_offset_def fix_can_header_def Let_def peek_ok poke_ok length_put_bytes)
  qed (use False in \<open>simp add: start_of_packet_def start_offset_def\<close>)
qed

lemma header_caplen:
  assumes "frame_ok l fr" "live_ok l"
  shows "unat (caplen (packet_header_of l fr)) = unat (tp_snaplen fr) + (unat (tp_mac fr) - start_offset l fr)"
    "start_offset l fr + unat (caplen (packet_header_of l fr)) \<le> length (fr_mem fr)"
    "unat (caplen (packet_header_of l fr)) + 4 < 2 ^ 32" "4 \<le> start_offset l fr"
proof -
  have s: "unat (tp_mac fr) + unat (tp_snaplen fr) < 2 ^ 31" "unat (tp_mac fr) + unat (tp_snaplen fr) \<le> length (fr_mem fr)"
    "(if cooked l then 20 else 4) + 20 \<le> unat (tp_mac fr)"
    using assms by (auto simp: frame_ok_def live_ok_def INT_MAX_def word_le_nat_alt added_room_def)
  have a: "unat (tp_snaplen fr + 20) = unat (tp_snaplen fr) + 20" "unat (tp_snaplen fr + 16) = unat (tp_snaplen fr) + 16"
    using s by (auto simp: unat_word_ariths)
  show c: "unat (caplen (packet_header_of l fr)) = unat (tp_snaplen fr) + (unat (tp_mac fr) - start_offset l fr)"
    using s a by (auto simp: packet_header_of_def start_offset_def SLL_HDR_LEN_def SLL2_HDR_LEN_def)
  show "start_offset l fr + unat (caplen (packet_header_of l fr)) \<le> length (fr_mem fr)"
    "unat (caplen (packet_header_of l fr)) + 4 < 2 ^ 32" "4 \<le> start_offset l fr"
    unfolding c using s by (auto simp: start_offset_def)
qed

text \<open>The tag in front of the type field.\<close>

definition tagged :: "live \<Rightarrow> tpacket \<Rightarrow> bool" where
  "tagged l fr \<longleftrightarrow> VLAN_VALID fr \<and> vlan_offset l \<noteq> - 1 \<and> nat (vlan_offset l) \<le> unat (tp_snaplen fr)"

definition tag_bytes :: "tpacket \<Rightarrow> byte list" where
  "tag_bytes fr = le_bytes 2 (SWAPSHORT (VLAN_TPID fr)) @ le_bytes 2 (SWAPSHORT (tp_vlan_tci fr))"

lemma length_tag_bytes [simp]: "length (tag_bytes fr) = 4"
  by (simp add: tag_bytes_def)

definition with_tag :: "live \<Rightarrow> tpacket \<Rightarrow> byte list \<Rightarrow> byte list" where
  "with_tag l fr d = (if tagged l fr then take (nat (vlan_offset l)) d @ tag_bytes fr @ drop (nat (vlan_offset l)) d else d)"

lemma tag_inserted:
  assumes "tagged l fr" "4 \<le> bp" "bp + nat (vlan_offset l) \<le> length mem"
  shows "\<exists>mem'. insert_vlan_tag l fr hdr (int bp) mem =
      Inr (hdr\<lparr>caplen := caplen hdr + 4, pkt_len := pkt_len hdr + 4\<rparr>, int (bp - 4), mem') \<and>
    drop (bp - 4) mem' = with_tag l fr (drop bp mem)"
proof -
  let ?v = "nat (vlan_offset l)"
  let ?bs = "take ?v (drop bp mem) @ tag_bytes fr"
  have l: "length ?bs = ?v + 4" using assms(3) by simp
  have i: "int bp - int VLAN_TAG_LEN = int (bp - 4)" using assms(2) by (simp add: VLAN_TAG_LEN_def)
  have "nat (int (bp - 4)) + length ?bs \<le> length mem" unfolding l using assms(2,3) by simp
  then have p: "poke (int (bp - 4)) ?bs mem = Inr (put_bytes (bp - 4) ?bs mem)"
    using poke_ok [of "int (bp - 4)" ?bs mem] by simp
  have e: "bp - 4 + length ?bs = bp + ?v" unfolding l using assms(2) by simp
  have d: "drop (bp - 4) (put_bytes (bp - 4) ?bs mem) = ?bs @ drop ?v (drop bp mem)"
    unfolding put_bytes_def e using assms(2,3) by (simp add: add.commute)
  have k: "peek (int bp) ?v mem = Inr (take ?v (drop bp mem))" using assms(3) peek_ok [of "int bp" ?v mem] by simp
  have "insert_vlan_tag l fr hdr (int bp) mem =
      Inr (hdr\<lparr>caplen := caplen hdr + 4, pkt_len := pkt_len hdr + 4\<rparr>, int (bp - 4), put_bytes (bp - 4) ?bs mem)"
    using assms(1) p unfolding insert_vlan_tag_def tagged_def i k tag_bytes_def
    by (simp only: if_True bind_r.simps k) (simp add: VLAN_TAG_LEN_def)
  then show ?thesis using d assms(1) by (simp add: with_tag_def)
qed

section \<open>What becomes of a frame\<close>

text \<open>The captured bytes before a tag goes in, and whether the direction is the one that is asked for.\<close>

definition seen :: "live \<Rightarrow> tpacket \<Rightarrow> byte list" where
  "seen l fr = (case read_sll l (fr_mem fr) of
     Inl err \<Rightarrow> []
   | Inr a \<Rightarrow> (case start_of_packet l a fr of
       Inr (Some (bp, mem)) \<Rightarrow> take (unat (caplen (packet_header_of l fr))) (drop (nat bp) mem)
     | _ \<Rightarrow> []))"

definition wanted :: "live \<Rightarrow> tpacket \<Rightarrow> bool" where
  "wanted l fr \<longleftrightarrow> (case read_sll l (fr_mem fr) of Inl err \<Rightarrow> False | Inr a \<Rightarrow> linux_check_direction l a)"

text \<open>A filter that sorts the packets by a property of their captured bytes.\<close>

definition sorts :: "env \<Rightarrow> bpf_insn list option \<Rightarrow> (byte list \<Rightarrow> bool) \<Rightarrow> bool" where
  "sorts e prog P \<longleftrightarrow> (\<forall>p w c aux. unat c \<le> length p \<longrightarrow>
     (\<exists>v. pcap_filter_with_aux_data prog p w c aux (scratch_mem e) = Some (Returned v) \<and> (v \<noteq> 0 \<longleftrightarrow> P (take (unat c) p))))"

definition handed_header :: "live \<Rightarrow> tpacket \<Rightarrow> pcap_pkthdr" where
  "handed_header l fr = (let h = packet_header_of l fr in
     trim_to_snapshot l (if tagged l fr then h\<lparr>caplen := caplen h + 4, pkt_len := pkt_len h + 4\<rparr> else h))"

lemma take_with_tag:
  "nat (vlan_offset l) \<le> n \<or> \<not> tagged l fr \<Longrightarrow>
   with_tag l fr (take n d) = take (if tagged l fr then n + 4 else n) (with_tag l fr d)"
  by (auto simp: with_tag_def min_def drop_take)

lemma judge_ok:
  assumes "frame_ok l fr" "live_ok l" "filter_in_userland l \<Longrightarrow> sorts e (fcode (lp l)) P"
  shows "\<exists>data. judge_packet e l fr = Some (Inr (if (filter_in_userland l \<longrightarrow> fcode (lp l) \<noteq> None \<longrightarrow> P (seen l fr)) \<and> wanted l fr
       then Handed (handed_header l fr) data else Skipped)) \<and>
    unat (caplen (handed_header l fr)) \<le> length data \<and> caplen (handed_header l fr) \<le> snapshot (lp l) \<and>
    take (unat (caplen (handed_header l fr))) data = take (unat (snapshot (lp l))) (with_tag l fr (seen l fr))"
proof -
  obtain a where a: "read_sll l (fr_mem fr) = Inr a" "length (sll_addr a) = 8" using frame_sll [OF assms(1)] by blast
  obtain mem where mem: "start_of_packet l a fr = Inr (Some (int (start_offset l fr), mem))" "length mem = length (fr_mem fr)"
    using frame_start [OF assms(1) a(2)] by blast
  let ?h = "packet_header_of l fr" and ?s = "start_offset l fr"
  note c = header_caplen [OF assms(1,2)]
  have sn: "seen l fr = take (unat (caplen ?h)) (drop ?s mem)" by (simp add: seen_def a(1) mem(1))
  have w: "wanted l fr = linux_check_direction l a" by (simp add: wanted_def a(1))
  have size: "\<not> bufsize (lp l) < ucast (tp_mac fr) + tp_snaplen fr"
  proof -
    have "unat (ucast (tp_mac fr) :: u32) = unat (tp_mac fr)"
      using unsigned_less [of "tp_mac fr", where 'a = nat] by (simp add: unsigned_ucast_eq take_bit_nat_eq_self)
    moreover have "unat (tp_mac fr) + unat (tp_snaplen fr) \<le> unat (bufsize (lp l))" using assms(1) by (simp add: frame_ok_def)
    ultimately show ?thesis
      using unat_u32_less [of "bufsize (lp l)"] by (simp add: word_less_nat_alt unat_word_ariths not_less)
  qed
  have f: "userland_filter e l fr (int ?s) mem (caplen ?h) =
      Some (Inr (filter_in_userland l \<longrightarrow> fcode (lp l) \<noteq> None \<longrightarrow> P (seen l fr)))"
  proof (cases "filter_in_userland l \<and> fcode (lp l) \<noteq> None")
    case True
    have "unat (caplen ?h) \<le> length (drop ?s mem)" using c(2) mem(2) by simp
    from assms(3) [unfolded sorts_def, rule_format, OF _ this, of "tp_len fr"
      "Some \<lparr>vlan_tag_present = (if VLAN_VALID fr then 1 else 0), vlan_tag = tp_vlan_tci fr AND 0x0fff\<rparr>"] True
    show ?thesis by (auto simp: userland_filter_def sn)
  qed (auto simp: userland_filter_def)
  have j: "judge_packet e l fr = (if (filter_in_userland l \<longrightarrow> fcode (lp l) \<noteq> None \<longrightarrow> P (seen l fr)) \<and> wanted l fr
      then lift_r (insert_vlan_tag l fr ?h (int ?s) mem) (\<lambda>(hdr, bp, mem).
        Some (Inr (Handed (trim_to_snapshot l hdr) (drop (nat bp) mem)))) else Some (Inr Skipped))"
    using size by (simp add: judge_packet_def a(1) mem(1) f w lift_r_def)
  obtain mem' where t: "insert_vlan_tag l fr ?h (int ?s) mem =
      Inr (if tagged l fr then ?h\<lparr>caplen := caplen ?h + 4, pkt_len := pkt_len ?h + 4\<rparr> else ?h,
        int (if tagged l fr then ?s - 4 else ?s), mem')"
    "drop (if tagged l fr then ?s - 4 else ?s) mem' = with_tag l fr (drop ?s mem)"
  proof (cases "tagged l fr")
    case True
    have "?s + nat (vlan_offset l) \<le> length mem" using True c(1,2) mem(2) by (simp add: tagged_def)
    from tag_inserted [OF True c(4) this, of ?h] show ?thesis using that True by auto
  next
    case False
    have "insert_vlan_tag l fr ?h (int ?s) mem = Inr (?h, int ?s, mem)"
      using False unfolding insert_vlan_tag_def tagged_def by (simp only: if_False)
    then show ?thesis using that [of mem] False by (simp add: with_tag_def)
  qed
  let ?d = "with_tag l fr (drop ?s mem)" and ?k = "caplen (if tagged l fr then ?h\<lparr>caplen := caplen ?h + 4, pkt_len := pkt_len ?h + 4\<rparr> else ?h)"
  have k: "unat ?k = (if tagged l fr then unat (caplen ?h) + 4 else unat (caplen ?h))"
    using c(3) by (simp add: unat_word_ariths)
  have v: "nat (vlan_offset l) \<le> unat (caplen ?h) \<or> \<not> tagged l fr" using c(1) by (auto simp: tagged_def)
  have ld: "unat ?k \<le> length ?d"
    unfolding k using c(2) v mem(2) by (auto simp: with_tag_def)
  have "with_tag l fr (seen l fr) = take (unat ?k) ?d" unfolding sn k by (rule take_with_tag [OF v])
  then have "take (unat (caplen (handed_header l fr))) ?d = take (unat (snapshot (lp l))) (with_tag l fr (seen l fr))"
    "caplen (handed_header l fr) \<le> snapshot (lp l)" "unat (caplen (handed_header l fr)) \<le> length ?d"
    using ld by (auto simp: handed_header_def Let_def trim_to_snapshot_def min_def word_le_nat_alt word_less_nat_alt not_less)
  then show ?thesis unfolding j t(1) using t(2) by (auto simp: lift_r_def handed_header_def Let_def)
qed

lemma seen_raw:
  assumes "frame_ok l fr" "\<not> cooked l" "read_sll l (fr_mem fr) = Inr a" "sll_hatype a \<noteq> ARPHRD_CAN"
  shows "seen l fr = take (unat (tp_snaplen fr)) (drop (unat (tp_mac fr)) (fr_mem fr))"
  using assms by (simp add: seen_def start_of_packet_def packet_header_of_def)

text \<open>The mark of a CAN FD frame is set and cleared again at once: no such frame is delivered with it.\<close>

lemma can_fd_mark_lost:
  assumes "0 \<le> bp" "nat bp + 8 \<le> length mem" "SWAPSHORT (sll_protocol a) = LINUX_SLL_P_CANFD"
  shows "\<exists>mem'. fix_can_header a bp mem = Inr mem' \<and> (mem' ! (nat bp + 5)) AND CANFD_FDF = 0"
proof -
  have "((b OR CANFD_FDF) AND NOT (CANFD_FDF OR CANFD_ESI OR CANFD_BRS)) AND CANFD_FDF = 0" for b
    by (rule bit_word_eqI) (auto simp: bit_simps)
  then show ?thesis using assms
    by (simp add: fix_can_header_def Let_def peek_ok poke_ok put_bytes_def nth_append numeral_eq_Suc)
qed

end
