(* ===== verification/Live_Ring.thy ===== *)
theory Live_Ring
  imports Live_Frame Capture
begin

text \<open>
  The ring of packets of \<open>libpcap1.10.4/pcap-linux.c\<close>: waiting for the kernel, the two reading loops, \<open>pcap_loop\<close> of a
  device, and the installation of a filter. Another agent, the kernel, fills blocks of the ring while the library reads.
  Its behaviour is a parameter: what it has handed over when the library looks at the ring for the \<open>t\<close>-th time, and what
  \<open>poll\<close> then reports.
\<close>

section \<open>The kernel\<close>

text \<open>One call of \<open>poll\<close>, with the results of the calls that a report may lead to: the error of the socket, the number of
  bytes read from the event descriptor, the address of the socket (its interface, or nothing when the call fails) and the
  flags of the device (whether it is up, or whether the failure means that it is gone). \<open>called_break\<close> says that another
  thread or a signal handler called \<open>pcap_breakloop\<close> meanwhile.\<close>

record poll_report =
  poll_ret :: int
  interrupted :: bool
  called_break :: bool
  revents_socket :: u16
  socket_error :: int
  revents_event :: u16
  event_read :: int
  socket_name :: "int option"
  device_flags :: "bool + bool"

record kernel =
  hands :: "nat \<Rightarrow> tpacket list list"
  polls :: "nat \<Rightarrow> poll_report"

definition POLLIN :: u16 where "POLLIN = 0x001"
definition POLLERR :: u16 where "POLLERR = 0x008"
definition POLLHUP :: u16 where "POLLHUP = 0x010"
definition POLLNVAL :: u16 where "POLLNVAL = 0x020"
definition POLLRDHUP :: u16 where "POLLRDHUP = 0x2000"
definition ENETDOWN :: int where "ENETDOWN = 100"
definition PCAP_ERROR :: int where "PCAP_ERROR = - 1"
definition PCAP_ERROR_BREAK :: int where "PCAP_ERROR_BREAK = - 2"
definition LIVE_INT_MAX :: int where "LIVE_INT_MAX = 2147483647"

text \<open>The kernel fills the blocks in the order of the ring, after those that are filled and from the current one on; when
  no block is free, packets are lost.\<close>

definition rotated :: "live \<Rightarrow> tpacket list option list" where
  "rotated l = drop (ring_offset l) (ring l) @ take (ring_offset l) (ring l)"

definition filled :: "live \<Rightarrow> nat" where
  "filled l = length (takeWhile (\<lambda>b. b \<noteq> None) (rotated l))"

definition hand_block :: "tpacket list \<Rightarrow> live \<Rightarrow> live" where
  "hand_block fs l = (if filled l < length (ring l)
     then l\<lparr>ring := (ring l)[(ring_offset l + filled l) mod length (ring l) := Some fs]\<rparr> else l)"

definition tick :: "kernel \<Rightarrow> live \<Rightarrow> live" where
  "tick k l = (fold hand_block (hands k (now l)) l)\<lparr>now := now l + 1\<rparr>"

text \<open>Whether the current block belongs to the library.\<close>

definition acquire :: "kernel \<Rightarrow> live \<Rightarrow> bool \<times> live" where
  "acquire k l = (let l = tick k l in (ring l ! ring_offset l \<noteq> None, l))"

section \<open>Waiting\<close>

definition set_poll_timeout :: "bool \<Rightarrow> bool \<Rightarrow> live \<Rightarrow> live" where
  "set_poll_timeout v3 broken_v3 l = l\<lparr>poll_timeout :=
     (if timeout l = 0 then (if v3 \<and> broken_v3 then 1 else - 1)
      else if 0 < timeout l then (if v3 \<and> \<not> broken_v3 then - 1 else timeout l)
      else 0)\<rparr>"

definition pcap_breakloop_linux :: "live \<Rightarrow> live" where
  "pcap_breakloop_linux l = l\<lparr>lp := pcap_breakloop (lp l)\<rparr>"

definition pcap_getnonblock_linux :: "live \<Rightarrow> bool" where
  "pcap_getnonblock_linux l \<longleftrightarrow> timeout l < 0"

text \<open>The two flags say whether the mode of the descriptor could be set and an event descriptor opened.\<close>

definition pcap_setnonblock_linux :: "bool \<Rightarrow> bool \<Rightarrow> bool \<Rightarrow> bool \<Rightarrow> bool \<Rightarrow> live \<Rightarrow> int \<times> live" where
  "pcap_setnonblock_linux fd_ok event_ok v3 broken_v3 nonblock l =
    (if \<not> fd_ok then (- 1, l)
     else if nonblock then
       (let l = (if 0 \<le> timeout l then l\<lparr>timeout := NOT (timeout l)\<rparr> else l) in
        (0, set_poll_timeout v3 broken_v3 (l\<lparr>breakloop_fd := False\<rparr>)))
     else if \<not> breakloop_fd l \<and> \<not> event_ok then (- 1, l\<lparr>live_errbuf := Some CannotReadEvent\<rparr>)
     else
       (let l = l\<lparr>breakloop_fd := True\<rparr>; l = (if timeout l < 0 then l\<lparr>timeout := NOT (timeout l)\<rparr> else l) in
        (0, set_poll_timeout v3 broken_v3 l)))"

definition device_still_exists :: "poll_report \<Rightarrow> live \<Rightarrow> int \<times> live" where
  "device_still_exists rep l =
    (if ifindex l = - 1 then (1, l)
     else (case socket_name rep of
         None \<Rightarrow> (- 1, l\<lparr>live_errbuf := Some GetsocknameFailed\<rparr>)
       | Some i \<Rightarrow> (if i = - 1 then 0 else 1, l)))"

text \<open>What a report of \<open>poll\<close> leads to: the function returns, there may be packets, or it goes on.\<close>

datatype waiting = Return int live | MayRead live | GoOn live

definition fail_wait :: "live_error \<Rightarrow> live \<Rightarrow> waiting" where
  "fail_wait err l = Return PCAP_ERROR (l\<lparr>live_errbuf := Some err\<rparr>)"

definition told_to_break :: "live \<Rightarrow> waiting" where
  "told_to_break l = (if break_loop (lp l) then Return PCAP_ERROR_BREAK (l\<lparr>lp := (lp l)\<lparr>break_loop := False\<rparr>\<rparr>) else GoOn l)"

definition event_descriptor :: "poll_report \<Rightarrow> live \<Rightarrow> waiting" where
  "event_descriptor rep l =
    (if breakloop_fd l \<and> revents_event rep AND POLLIN \<noteq> 0 then
       (if event_read rep = - 1 then fail_wait CannotReadEvent l
        else if event_read rep \<noteq> 0 \<and> event_read rep < 8 then fail_wait (ShortEvent (event_read rep)) l
        else told_to_break l)
     else GoOn l)"

definition socket_events :: "poll_report \<Rightarrow> live \<Rightarrow> waiting" where
  "socket_events rep l =
    (let r = revents_socket rep in
     if r = POLLIN then MayRead l
     else if r AND POLLNVAL \<noteq> 0 then fail_wait InvalidPolling l
     else if r AND (POLLHUP OR POLLRDHUP) \<noteq> 0 then fail_wait Hangup l
     else if r AND POLLERR \<noteq> 0 then
       (if socket_error rep = ENETDOWN then event_descriptor rep (l\<lparr>netdown := True\<rparr>)
        else if socket_error rep = 0 then fail_wait NoError l
        else fail_wait (ErrorOnSocket (socket_error rep)) l)
     else event_descriptor rep l)"

definition poll_result :: "poll_report \<Rightarrow> live \<Rightarrow> waiting" where
  "poll_result rep l =
    (if poll_ret rep < 0 then (if \<not> interrupted rep then fail_wait CannotPoll l else told_to_break l)
     else if 0 < poll_ret rep then socket_events rep l
     else GoOn l)"

text \<open>After an error that says that the network is down: whether the device is still there, and up again.\<close>

definition check_netdown :: "poll_report \<Rightarrow> live \<Rightarrow> waiting" where
  "check_netdown rep l =
    (if \<not> netdown l then GoOn l
     else case device_still_exists rep l of (e, l) \<Rightarrow>
       if e = 0 then fail_wait InterfaceGone l
       else (case device_flags rep of
           Inl gone \<Rightarrow> fail_wait (if gone then InterfaceGone else CannotGetFlags) l
         | Inr up \<Rightarrow> GoOn (if up then l\<lparr>netdown := False\<rparr> else l)))"

partial_function (option) pcap_wait_for_frames_mmap :: "kernel \<Rightarrow> live \<Rightarrow> (int \<times> live) option" where
  "pcap_wait_for_frames_mmap k l =
    (let rep = polls k (now l); l = tick k l; l = (if called_break rep then pcap_breakloop_linux l else l) in
     case poll_result rep l of
       Return r l \<Rightarrow> Some (r, l)
     | MayRead l \<Rightarrow> Some (0, l)
     | GoOn l \<Rightarrow> (case check_netdown rep l of
         Return r l \<Rightarrow> Some (r, l)
       | MayRead l \<Rightarrow> Some (0, l)
       | GoOn l \<Rightarrow> if poll_timeout l = 0 then Some (0, l) else pcap_wait_for_frames_mmap k l))"

section \<open>Reading\<close>

text \<open>A block goes back to the kernel, and the count of blocks whose packets the old filter may have passed goes down.\<close>

definition release_block :: "live \<Rightarrow> live" where
  "release_block l =
    (let l = l\<lparr>ring := (ring l)[ring_offset l := None]\<rparr>;
         l = (if 0 < blocks_to_filter l then
                l\<lparr>blocks_to_filter := blocks_to_filter l - 1,
                  filter_in_userland := (if blocks_to_filter l - 1 = 0 then False else filter_in_userland l)\<rparr>
              else l) in
     l\<lparr>ring_offset := (if length (ring l) \<le> ring_offset l + 1 then 0 else ring_offset l + 1)\<rparr>)"

definition clear_break :: "live \<Rightarrow> live" where
  "clear_break l = l\<lparr>lp := (lp l)\<lparr>break_loop := False\<rparr>\<rparr>"

text \<open>With the second version of the interface a block of the ring is one packet.\<close>

partial_function (option) read_frames_v2 :: "env \<Rightarrow> kernel \<Rightarrow> 's callback \<Rightarrow> int \<Rightarrow> int \<Rightarrow> live \<Rightarrow> 's
    \<Rightarrow> (crash + int \<times> live \<times> 's) option" where
  "read_frames_v2 e k cb max_packets pkts l s =
    (if max_packets \<le> pkts then Some (Inr (pkts, l, s))
     else case acquire k l of (own, l) \<Rightarrow>
       (case ring l ! ring_offset l of
         None \<Rightarrow> Some (Inr (pkts, l, s))
       | Some [] \<Rightarrow> Some (Inl (MemoryFault ReadOverrun))
       | Some (fr # _) \<Rightarrow> Option.bind (pcap_handle_packet_mmap e cb fr l s) (\<lambda>r. case r of
           Inl err \<Rightarrow> Some (Inl err)
         | Inr (ret, l, s) \<Rightarrow>
             if ret < 0 then Some (Inr (ret, l, s))
             else if break_loop (lp l) then Some (Inr (PCAP_ERROR_BREAK, clear_break (release_block l), s))
             else read_frames_v2 e k cb max_packets (if ret = 1 then pkts + 1 else pkts) (release_block l) s)))"

definition unlimited :: "int \<Rightarrow> int" where
  "unlimited max_packets = (if max_packets \<le> 0 then LIVE_INT_MAX else max_packets)"

definition pcap_read_linux_mmap_v2 :: "env \<Rightarrow> kernel \<Rightarrow> 's callback \<Rightarrow> int \<Rightarrow> live \<Rightarrow> 's \<Rightarrow> (crash + int \<times> live \<times> 's) option" where
  "pcap_read_linux_mmap_v2 e k cb max_packets l s =
    (case acquire k l of (own, l) \<Rightarrow>
     Option.bind (if own then Some (0, l) else pcap_wait_for_frames_mmap k l) (\<lambda>(ret, l).
     if ret \<noteq> 0 then Some (Inr (ret, l, s)) else read_frames_v2 e k cb (unlimited max_packets) 0 l s))"

text \<open>With the third version a block holds several packets. The inner loop: at most \<open>n\<close> of them; a result below zero is
  the one of a packet, and 0 says that the loop ended.\<close>

fun read_packets_v3 :: "env \<Rightarrow> 's callback \<Rightarrow> nat \<Rightarrow> int \<Rightarrow> live \<Rightarrow> 's \<Rightarrow> (crash + int \<times> int \<times> live \<times> 's) option" where
  "read_packets_v3 e cb 0 pkts l s = Some (Inr (0, pkts, l, s))"
| "read_packets_v3 e cb (Suc n) pkts l s =
    (if break_loop (lp l) then Some (Inr (0, pkts, l, s))
     else case current_packet l of
       Some (fr # frs) \<Rightarrow> Option.bind (pcap_handle_packet_mmap e cb fr l s) (\<lambda>r. case r of
           Inl err \<Rightarrow> Some (Inl err)
         | Inr (ret, l, s) \<Rightarrow>
             if ret < 0 then Some (Inr (ret, pkts, l\<lparr>current_packet := None\<rparr>, s))
             else read_packets_v3 e cb n (if ret = 1 then pkts + 1 else pkts) (l\<lparr>current_packet := Some frs\<rparr>) s)
     | _ \<Rightarrow> Some (Inl (MemoryFault ReadOverrun)))"

text \<open>The loop over the blocks; the flag says that the function returns.\<close>

partial_function (option) read_blocks_v3 :: "env \<Rightarrow> kernel \<Rightarrow> 's callback \<Rightarrow> int \<Rightarrow> int \<Rightarrow> live \<Rightarrow> 's
    \<Rightarrow> (crash + bool \<times> int \<times> live \<times> 's) option" where
  "read_blocks_v3 e k cb max_packets pkts l s =
    (if max_packets \<le> pkts then Some (Inr (False, pkts, l, s))
     else
       let l = (if current_packet l = None then (case acquire k l of (own, l) \<Rightarrow> l\<lparr>current_packet := ring l ! ring_offset l\<rparr>) else l) in
       case current_packet l of
         None \<Rightarrow> Some (Inr (False, pkts, l, s))
       | Some frs \<Rightarrow> Option.bind (read_packets_v3 e cb (min (length frs) (nat (max_packets - pkts))) pkts l s) (\<lambda>r. case r of
           Inl err \<Rightarrow> Some (Inl err)
         | Inr (ret, pkts, l, s) \<Rightarrow>
             if ret < 0 then Some (Inr (True, ret, l, s))
             else
               let l = (if current_packet l = Some [] then (release_block l)\<lparr>current_packet := None\<rparr> else l) in
               if break_loop (lp l) then Some (Inr (True, PCAP_ERROR_BREAK, clear_break l, s))
               else read_blocks_v3 e k cb max_packets pkts l s))"

partial_function (option) pcap_read_linux_mmap_v3 :: "env \<Rightarrow> kernel \<Rightarrow> 's callback \<Rightarrow> int \<Rightarrow> live \<Rightarrow> 's
    \<Rightarrow> (crash + int \<times> live \<times> 's) option" where
  "pcap_read_linux_mmap_v3 e k cb max_packets l s =
    Option.bind
      (if current_packet l = None then (case acquire k l of (own, l) \<Rightarrow>
         if own then Some (0, l) else pcap_wait_for_frames_mmap k l)
       else Some (0, l)) (\<lambda>(ret, l).
    if ret \<noteq> 0 then Some (Inr (ret, l, s))
    else case acquire k l of (own, l) \<Rightarrow>
      if \<not> own then (if timeout l = 0 then pcap_read_linux_mmap_v3 e k cb max_packets l s else Some (Inr (0, l, s)))
      else Option.bind (read_blocks_v3 e k cb (unlimited max_packets) 0 l s) (\<lambda>r. case r of
          Inl err \<Rightarrow> Some (Inl err)
        | Inr (done, ret, l, s) \<Rightarrow>
            if done then Some (Inr (ret, l, s))
            else if ret = 0 \<and> timeout l = 0 then pcap_read_linux_mmap_v3 e k cb (unlimited max_packets) l s
            else Some (Inr (ret, l, s))))"

text \<open>\<open>pcap_loop\<close> of a device.\<close>

definition read_op :: "bool \<Rightarrow> env \<Rightarrow> kernel \<Rightarrow> 's callback \<Rightarrow> int \<Rightarrow> live \<Rightarrow> 's \<Rightarrow> (crash + int \<times> live \<times> 's) option" where
  "read_op v3 e k cb cnt l s = (if v3 then pcap_read_linux_mmap_v3 e k cb cnt l s else pcap_read_linux_mmap_v2 e k cb cnt l s)"

partial_function (option) pcap_loop_live :: "bool \<Rightarrow> env \<Rightarrow> kernel \<Rightarrow> live \<Rightarrow> int \<Rightarrow> 's callback \<Rightarrow> 's
    \<Rightarrow> (crash + int \<times> live \<times> 's) option" where
  "pcap_loop_live v3 e k l cnt cb s = Option.bind (read_op v3 e k cb cnt l s) (\<lambda>r. case r of
     Inl err \<Rightarrow> Some (Inl err)
   | Inr (n, l, s) \<Rightarrow>
       if n = 0 then pcap_loop_live v3 e k l cnt cb s
       else if n < 0 then Some (Inr (n, l, s))
       else if cnt \<le> 0 then pcap_loop_live v3 e k l cnt cb s
       else if cnt - n \<le> 0 then Some (Inr (0, l, s))
       else pcap_loop_live v3 e k l (cnt - n) cb s)"

section \<open>Installing a filter\<close>

definition SKF_AD_OFF :: u32 where "SKF_AD_OFF = - 0x1000"
definition SKF_AD_PROTOCOL :: u32 where "SKF_AD_PROTOCOL = 0"
definition SKF_AD_PKTTYPE :: u32 where "SKF_AD_PKTTYPE = 4"
definition SKF_AD_IFINDEX :: u32 where "SKF_AD_IFINDEX = 8"
definition USHRT_MAX :: nat where "USHRT_MAX = 65535"

text \<open>The offset of a load of a cooked capture, for the kernel, which sees the packet without the header that the library
  builds; \<open>None\<close> for a field of the header that the kernel has no offset for.\<close>

definition fix_offset :: "live \<Rightarrow> bpf_insn \<Rightarrow> bpf_insn option" where
  "fix_offset l p =
    (let k = insn_k p in
     if SKF_AD_OFF \<le> k then Some p
     else if linktype (lp l) = DLT_LINUX_SLL2 then
       (if of_nat SLL2_HDR_LEN \<le> k then Some (p\<lparr>insn_k := k - of_nat SLL2_HDR_LEN\<rparr>)
        else if k = 0 then Some (p\<lparr>insn_k := SKF_AD_OFF + SKF_AD_PROTOCOL\<rparr>)
        else if k = 4 then Some (p\<lparr>insn_k := SKF_AD_OFF + SKF_AD_IFINDEX\<rparr>)
        else if k = 10 then Some (p\<lparr>insn_k := SKF_AD_OFF + SKF_AD_PKTTYPE\<rparr>)
        else if 0 < sint k then None
        else Some p)
     else
       (if of_nat SLL_HDR_LEN \<le> k then Some (p\<lparr>insn_k := k - of_nat SLL_HDR_LEN\<rparr>)
        else if k = 0 then Some (p\<lparr>insn_k := SKF_AD_OFF + SKF_AD_PKTTYPE\<rparr>)
        else if k = 14 then Some (p\<lparr>insn_k := SKF_AD_OFF + SKF_AD_PROTOCOL\<rparr>)
        else if 0 < sint k then None
        else Some p))"

definition fix_insn :: "live \<Rightarrow> bpf_insn \<Rightarrow> bpf_insn option" where
  "fix_insn l p =
    (if BPF_CLASS (insn_code p) \<in> {BPF_LD, BPF_LDX} \<and> BPF_MODE (insn_code p) \<in> {BPF_ABS, BPF_IND, BPF_MSH} \<and> cooked l
     then fix_offset l p else Some p)"

fun fix_program :: "live \<Rightarrow> bpf_insn list \<Rightarrow> bpf_insn list option" where
  "fix_program l [] = Some []"
| "fix_program l (p # ps) = Option.bind (fix_insn l p) (\<lambda>p. Option.bind (fix_program l ps) (\<lambda>ps. Some (p # ps)))"

text \<open>What the system calls of the installation answer: whether the filter that rejects everything can be attached, the
  mode of the descriptor read and set, the queue drained and the mode restored, the new filter attached, and a filter
  removed, in the first and in the second place where that is done.\<close>

record filter_calls =
  filter_malloc :: bool
  attach_total :: bool
  fd_flags_read :: bool
  fd_nonblocking :: bool
  queue_drained :: bool
  fd_flags_restored :: bool
  attach_filter :: bool
  total_removed :: bool
  filter_removed :: bool

definition total_fcode :: "bpf_insn list" where
  "total_fcode = [\<lparr>insn_code = code_of RET_K, insn_jt = 0, insn_jf = 0, insn_k = 0\<rparr>]"

definition reset_kernel_filter :: "bool \<Rightarrow> live \<Rightarrow> int \<times> live" where
  "reset_kernel_filter ok l = (if ok then (0, l\<lparr>attached := None\<rparr>) else (- 1, l))"

definition attach_new :: "filter_calls \<Rightarrow> bool \<Rightarrow> bpf_insn list \<Rightarrow> live \<Rightarrow> int \<times> live" where
  "attach_new c total_filter_on f l =
    (if attach_filter c then (0, l\<lparr>attached := Some f\<rparr>)
     else if total_filter_on then
       (case reset_kernel_filter (total_removed c) l of (r, l) \<Rightarrow>
         if r = - 1 then (- 2, l\<lparr>live_errbuf := Some CannotRemoveTotalFilter\<rparr>) else (- 1, l))
     else (- 1, l))"

definition set_kernel_filter :: "filter_calls \<Rightarrow> bpf_insn list \<Rightarrow> live \<Rightarrow> int \<times> live" where
  "set_kernel_filter c f l =
    (if attach_total c then
       let l = l\<lparr>attached := Some total_fcode\<rparr> in
       if \<not> fd_flags_read c then (- 2, l\<lparr>live_errbuf := Some CannotGetFdFlags\<rparr>)
       else if \<not> fd_nonblocking c then (- 2, l\<lparr>live_errbuf := Some CannotSetNonblocking\<rparr>)
       else if \<not> queue_drained c then (- 2, (snd (reset_kernel_filter (total_removed c) l))\<lparr>live_errbuf := Some DrainFailed\<rparr>)
       else if \<not> fd_flags_restored c then (- 2, l\<lparr>live_errbuf := Some CannotRestoreFdFlags\<rparr>)
       else attach_new c True f l
     else attach_new c False f l)"

text \<open>The walk back over the ring, which counts the free blocks.\<close>

definition block_before :: "live \<Rightarrow> nat \<Rightarrow> nat" where
  "block_before l i = (if i = 0 then length (ring l) - 1 else i - 1)"

fun free_behind :: "live \<Rightarrow> nat \<Rightarrow> nat \<Rightarrow> nat" where
  "free_behind l i 0 = 0"
| "free_behind l i (Suc n) =
    (if ring l ! block_before l i \<noteq> None then 0 else Suc (free_behind l (block_before l i) n))"

definition count_blocks_to_filter :: "live \<Rightarrow> live" where
  "count_blocks_to_filter l =
    (let n = free_behind l (block_before l (ring_offset l)) (length (ring l)); n = (if n \<noteq> 0 then n - 1 else n) in
     l\<lparr>blocks_to_filter := int (length (ring l)) - int n, filter_in_userland := True\<rparr>)"

definition pcap_setfilter_linux :: "env \<Rightarrow> kernel \<Rightarrow> filter_calls \<Rightarrow> live \<Rightarrow> bpf_insn list option \<Rightarrow> int \<times> live" where
  "pcap_setfilter_linux e k c l prog = (case prog of
     None \<Rightarrow> (- 1, l\<lparr>live_errbuf := Some NoFilter\<rparr>)
   | Some prog \<Rightarrow> (case install_bpf_program e (lp l) prog of (r, p) \<Rightarrow>
       let l = l\<lparr>lp := p\<rparr> in
       if r < 0 then (- 1, l)
       else
         let l = l\<lparr>filter_in_userland := True\<rparr>; simple = length prog \<le> USHRT_MAX in
         if simple \<and> \<not> filter_malloc c then (- 1, l\<lparr>live_errbuf := Some NoMemoryForFilter\<rparr>)
         else (case (if simple then fix_program l prog else None) of
             None \<Rightarrow> (case reset_kernel_filter (filter_removed c) l of (r, l) \<Rightarrow>
               if r = - 1 then (- 1, l\<lparr>live_errbuf := Some CannotRemoveFilter\<rparr>) else (0, l))
           | Some f \<Rightarrow> (case set_kernel_filter c f l of (err, l) \<Rightarrow>
               if err = 0 then (0, count_blocks_to_filter (tick k (l\<lparr>filter_in_userland := False\<rparr>)))
               else (case reset_kernel_filter (filter_removed c) l of (r, l) \<Rightarrow>
                 if r = - 1 then (- 1, l\<lparr>live_errbuf := Some CannotRemoveFilter\<rparr>)
                 else if err = - 2 then (- 1, l) else (0, l))))))"

section \<open>Other operations\<close>

text \<open>\<open>result\<close> is the result of \<open>send\<close>.\<close>

definition pcap_inject_linux :: "int \<Rightarrow> live \<Rightarrow> int \<times> live" where
  "pcap_inject_linux result l =
    (if ifindex l = - 1 then (- 1, l\<lparr>live_errbuf := Some SendOnAny\<rparr>)
     else if cooked l then (- 1, l\<lparr>live_errbuf := Some SendCooked\<rparr>)
     else if result = - 1 then (- 1, l\<lparr>live_errbuf := Some SendFailed\<rparr>)
     else (result, l))"

definition pcap_setdirection_linux :: "pcap_direction \<Rightarrow> live \<Rightarrow> int \<times> live" where
  "pcap_setdirection_linux d l = (0, l\<lparr>direction := d\<rparr>)"

text \<open>The statistics: a running total of counters that every call sets to zero, and the packets that the device dropped since
  the handle was made. \<open>if_drops\<close> is what \<open>linux_if_drops\<close> reads from the system, \<open>kstats\<close> the counters of the socket.\<close>

record pcap_stat =
  ps_recv :: u32
  ps_drop :: u32
  ps_ifdrop :: u32

record statistics =
  stat :: pcap_stat
  sysfs_dropped :: int

definition pcap_stats_linux :: "bool \<Rightarrow> int \<Rightarrow> (u32 \<times> u32) option \<Rightarrow> statistics \<Rightarrow> pcap_stat option \<times> statistics" where
  "pcap_stats_linux promisc if_drops kstats h =
    (let h = (if promisc then h\<lparr>sysfs_dropped := if_drops,
           stat := (stat h)\<lparr>ps_ifdrop := ps_ifdrop (stat h) + word_of_int (if_drops - sysfs_dropped h)\<rparr>\<rparr> else h) in
     case kstats of
       None \<Rightarrow> (None, h)
     | Some (packets, drops) \<Rightarrow>
         (let st = (stat h)\<lparr>ps_recv := ps_recv (stat h) + packets, ps_drop := ps_drop (stat h) + drops\<rparr> in
          (Some st, h\<lparr>stat := st\<rparr>)))"

end
