(* ===== verification/Live_Queue.thy ===== *)
theory Live_Queue
  imports Live_Ring
begin

text \<open>
  The ring of the library and the kernel is a bounded queue of blocks, and what the library counts when it installs a filter.
\<close>

section \<open>The ring as a queue\<close>

text \<open>The blocks of the library in the order in which it reads them, and that they are together.\<close>

definition view :: "live \<Rightarrow> tpacket list list" where
  "view l = map the (takeWhile (\<lambda>b. b \<noteq> None) (rotated l))"

definition ring_ok :: "live \<Rightarrow> bool" where
  "ring_ok l \<longleftrightarrow> ring_offset l < length (ring l) \<and>
     rotated l = map Some (view l) @ replicate (length (ring l) - length (view l)) None"

lemma length_rotated [simp]: "length (rotated l) = length (ring l)"
  by (simp add: rotated_def)

lemma length_view: "length (view l) = filled l"
  by (simp add: view_def filled_def)

lemma view_le: "length (view l) \<le> length (ring l)"
  using length_takeWhile_le [of _ "rotated l"] by (simp add: view_def)

lemma takeWhile_view: "takeWhile (\<lambda>b. b \<noteq> None) (map Some bs @ replicate n None) = map Some bs"
  by (induction bs) (cases n, auto)

lemma viewI:
  assumes "rotated l = map Some bs @ replicate (length (ring l) - length bs) None" "ring_offset l < length (ring l)"
  shows "view l = bs \<and> ring_ok l"
proof -
  have "view l = bs" unfolding view_def assms(1) takeWhile_view by (simp add: comp_def)
  then show ?thesis using assms by (simp add: ring_ok_def)
qed

lemma ring_position:
  assumes "k < c" "i < (c :: nat)"
  shows "(k + i) mod c = (if k + i < c then k + i else k + i - c)"
  using assms by (simp add: mod_if [of "k + i"] mod_less)

lemma rotated_nth:
  assumes "ring_offset l < length (ring l)" "i < length (ring l)"
  shows "rotated l ! i = ring l ! ((ring_offset l + i) mod length (ring l))"
proof (cases "ring_offset l + i < length (ring l)")
  case True
  then have "i < length (ring l) - ring_offset l" by simp
  then show ?thesis using True by (simp add: rotated_def nth_append)
next
  case False
  then have "\<not> i < length (ring l) - ring_offset l" "i - (length (ring l) - ring_offset l) = ring_offset l + i - length (ring l)"
    "ring_offset l + i - length (ring l) < ring_offset l"
    using assms by auto
  then show ?thesis using assms False by (simp add: rotated_def nth_append ring_position)
qed

lemma current_block:
  assumes "ring_ok l"
  shows "ring l ! ring_offset l = (case view l of [] \<Rightarrow> None | b # bs \<Rightarrow> Some b)"
proof -
  have o: "ring_offset l < length (ring l)" using assms by (simp add: ring_ok_def)
  have "0 < length (ring l)" using o by linarith
  then have "ring l ! ring_offset l = rotated l ! 0" using rotated_nth [OF o, of 0] o by simp
  also have "\<dots> = (case view l of [] \<Rightarrow> None | b # bs \<Rightarrow> Some b)"
    using assms \<open>0 < length (ring l)\<close> by (auto simp: ring_ok_def split: list.split simp del: length_greater_0_conv)
  finally show ?thesis .
qed

text \<open>A block that is handed over comes last; a block that is released was the first.\<close>

lemma rotated_update:
  assumes "ring_offset l < length (ring l)" "i < length (ring l)" "ring l' = (ring l)[(ring_offset l + i) mod length (ring l) := x]"
    and "ring_offset l' = ring_offset l"
  shows "rotated l' = (rotated l)[i := x]"
proof (rule nth_equalityI)
  show "length (rotated l') = length ((rotated l)[i := x])" using assms(3) by simp
  fix j assume "j < length (rotated l')"
  then have j: "j < length (ring l)" using assms(3) by simp
  have inj: "(ring_offset l + i) mod length (ring l) = (ring_offset l + j) mod length (ring l) \<longleftrightarrow> i = j"
    unfolding ring_position [OF assms(1,2)] ring_position [OF assms(1) j] using assms(1,2) j by auto
  have "(ring_offset l + j) mod length (ring l) < length (ring l)" using assms(1) by (intro mod_less_divisor) linarith
  then show "rotated l' ! j = (rotated l)[i := x] ! j"
    using rotated_nth [of l' j] rotated_nth [OF assms(1) j] assms j inj by (auto simp: nth_list_update)
qed

lemma hand_block_view:
  assumes "ring_ok l"
  shows "ring_ok (hand_block fs l) \<and> view (hand_block fs l) = (if length (view l) < length (ring l) then view l @ [fs] else view l)"
proof (cases "length (view l) < length (ring l)")
  case True
  let ?n = "length (view l)" and ?l = "hand_block fs l"
  have r: "ring ?l = (ring l)[(ring_offset l + ?n) mod length (ring l) := Some fs]" "ring_offset ?l = ring_offset l"
    using True by (simp_all add: hand_block_def length_view)
  have o: "ring_offset l < length (ring l)" using assms by (simp add: ring_ok_def)
  have "rotated ?l = (map Some (view l) @ replicate (length (ring l) - ?n) None)[?n := Some fs]"
    using rotated_update [OF o True r] assms by (simp add: ring_ok_def)
  also have "\<dots> = map Some (view l @ [fs]) @ replicate (length (ring l) - Suc ?n) None"
    using True by (simp add: list_update_append Suc_diff_Suc [symmetric])
  finally have "view ?l = view l @ [fs] \<and> ring_ok ?l"
    using o r by (intro viewI) simp_all
  then show ?thesis using True by simp
qed (use assms in \<open>simp add: hand_block_def length_view\<close>)

lemma release_view:
  assumes "ring_ok l" "view l \<noteq> []"
  shows "ring_ok (release_block l) \<and> view (release_block l) = tl (view l)"
proof -
  let ?l = "release_block l" and ?c = "length (ring l)"
  obtain b bs where v: "view l = b # bs" using assms(2) by (cases "view l") auto
  have o: "ring_offset l < ?c" using assms(1) by (simp add: ring_ok_def)
  have r: "ring ?l = (ring l)[ring_offset l := None]"
    "ring_offset ?l = (if ?c \<le> ring_offset l + 1 then 0 else ring_offset l + 1)"
    by (simp_all add: release_block_def Let_def)
  have le: "length bs < ?c" using view_le [of l] by (simp add: v)
  have rot: "rotated l = Some b # map Some bs @ replicate (?c - Suc (length bs)) None"
    using assms(1) by (simp add: ring_ok_def v)
  have "rotated ?l = tl (rotated l) @ [None]"
  proof (cases "?c \<le> ring_offset l + 1")
    case True
    then have c: "?c = Suc (ring_offset l)" using o by simp
    then have "drop (ring_offset l) (ring l) = [ring l ! ring_offset l]" by (simp add: Cons_nth_drop_Suc [symmetric])
    moreover have "(ring l)[ring_offset l := None] = take (ring_offset l) (ring l) @ [None]"
      using c by (simp add: list_eq_iff_nth_eq nth_append nth_list_update)
    ultimately show ?thesis using True by (simp add: rotated_def r)
  next
    case False
    have "drop (Suc (ring_offset l)) ((ring l)[ring_offset l := None]) = drop (Suc (ring_offset l)) (ring l)"
      "take (Suc (ring_offset l)) ((ring l)[ring_offset l := None]) = take (ring_offset l) (ring l) @ [None]"
      using o by (simp_all add: take_Suc_conv_app_nth)
    then show ?thesis using False o by (simp add: rotated_def r tl_drop [symmetric] drop_Suc tl_append split: list.split)
  qed
  also have "\<dots> = map Some bs @ replicate (?c - length bs) None"
    using le by (simp add: rot replicate_append_same Suc_diff_Suc [symmetric])
  finally have "view ?l = bs \<and> ring_ok ?l"
    using o le by (intro viewI) (auto simp: r)
  then show ?thesis by (simp add: v)
qed

text \<open>What the reading loops need of the ring: blocks come out in the order in which they were put in, and a block that is
  put into a full ring is lost.\<close>

locale block_queue =
  fixes cap :: "'q \<Rightarrow> nat" and blocks :: "'q \<Rightarrow> 'b list" and put :: "'b \<Rightarrow> 'q \<Rightarrow> 'q" and release :: "'q \<Rightarrow> 'q"
    and ok :: "'q \<Rightarrow> bool"
  assumes put_ok: "ok q \<Longrightarrow> ok (put b q) \<and> cap (put b q) = cap q \<and>
      blocks (put b q) = (if length (blocks q) < cap q then blocks q @ [b] else blocks q)"
    and release_ok: "ok q \<Longrightarrow> blocks q \<noteq> [] \<Longrightarrow> ok (release q) \<and> cap (release q) = cap q \<and> blocks (release q) = tl (blocks q)"
    and within_cap: "ok q \<Longrightarrow> length (blocks q) \<le> cap q"
begin

lemma put_all:
  "ok q \<Longrightarrow> ok (fold put bs q) \<and> cap (fold put bs q) = cap q \<and>
    blocks (fold put bs q) = blocks q @ take (cap q - length (blocks q)) bs"
proof (induction bs arbitrary: q)
  case (Cons b bs)
  note p = put_ok [OF Cons.prems, of b] and ih = Cons.IH [of "put b q"]
  show ?case
  proof (cases "length (blocks q) < cap q")
    case True
    then show ?thesis using p ih by (simp add: Suc_diff_Suc [symmetric])
  next
    case False
    then show ?thesis using p ih by simp
  qed
qed simp

text \<open>The first \<open>n\<close> blocks of a queue come out before anything that is put in.\<close>

lemma release_all:
  "ok q \<Longrightarrow> n \<le> length (blocks q) \<Longrightarrow> ok ((release ^^ n) q) \<and> cap ((release ^^ n) q) = cap q \<and>
    blocks ((release ^^ n) q) = drop n (blocks q)"
proof (induction n)
  case (Suc n)
  then have "blocks ((release ^^ n) q) \<noteq> []" by (auto simp: drop_eq_Nil)
  then show ?case using Suc release_ok [of "(release ^^ n) q"] by (simp add: drop_Suc tl_drop)
qed simp

end

interpretation ring_queue: block_queue "\<lambda>l. length (ring l)" view hand_block release_block ring_ok
proof
  show "ring_ok l \<Longrightarrow> length (view l) \<le> length (ring l)" for l by (rule view_le)
  show "ring_ok l \<Longrightarrow> ring_ok (hand_block b l) \<and> length (ring (hand_block b l)) = length (ring l) \<and>
      view (hand_block b l) = (if length (view l) < length (ring l) then view l @ [b] else view l)" for l b
    using hand_block_view [of l b] by (simp add: hand_block_def)
  show "ring_ok l \<Longrightarrow> view l \<noteq> [] \<Longrightarrow> ring_ok (release_block l) \<and> length (ring (release_block l)) = length (ring l) \<and>
      view (release_block l) = tl (view l)" for l
    using release_view [of l] by (simp add: release_block_def Let_def)
qed

section \<open>The blocks that were filled before a filter was installed\<close>

lemma ring_free:
  assumes "ring_ok l" "j < length (ring l)"
  shows "ring l ! ((ring_offset l + j) mod length (ring l)) \<noteq> None \<longleftrightarrow> j < length (view l)"
proof -
  have r: "rotated l = map Some (view l) @ replicate (length (ring l) - length (view l)) None" "ring_offset l < length (ring l)"
    using assms(1) by (simp_all add: ring_ok_def)
  show ?thesis
  proof (cases "j < length (view l)")
    case True
    then show ?thesis unfolding rotated_nth [OF r(2) assms(2), symmetric] unfolding r(1) by (simp add: nth_append)
  next
    case False
    then show ?thesis using assms(2) unfolding rotated_nth [OF r(2) assms(2), symmetric] unfolding r(1) by (simp add: nth_append)
  qed
qed

lemma block_before_position:
  assumes "ring_offset l < length (ring l)" "Suc j < length (ring l)"
  shows "block_before l ((ring_offset l + Suc j) mod length (ring l)) = (ring_offset l + j) mod length (ring l)"
proof -
  have j: "j < length (ring l)" using assms(2) by simp
  show ?thesis
    unfolding ring_position [OF assms] ring_position [OF assms(1) j] using assms by (auto simp: block_before_def)
qed

lemma block_before_first:
  assumes "ring_offset l < length (ring l)"
  shows "block_before l (ring_offset l) = (ring_offset l + (length (ring l) - 1)) mod length (ring l)"
proof -
  have j: "length (ring l) - 1 < length (ring l)" using assms by simp
  show ?thesis unfolding ring_position [OF assms j] using assms by (auto simp: block_before_def)
qed

lemma free_behind_empty:
  assumes "ring_ok l" "view l = []" "i < length (ring l)"
  shows "free_behind l i n = n"
  using assms(3)
proof (induction n arbitrary: i)
  case (Suc n)
  have b: "block_before l i < length (ring l)" using Suc.prems by (auto simp: block_before_def)
  have "rotated l = replicate (length (ring l)) None" using assms(1,2) by (simp add: ring_ok_def)
  then have "set (ring l) \<subseteq> {None}" using arg_cong [of _ _ set, OF \<open>rotated l = _\<close>]
    by (auto simp: rotated_def set_drop_subset dest: in_set_takeD) (metis append_take_drop_id Un_iff insert_iff empty_iff set_append set_replicate_conv_if)
  then have "ring l ! block_before l i = None" using b by (metis nth_mem singletonD subsetD)
  then show ?case using Suc.IH [OF b] by simp
qed simp

lemma free_behind_used:
  assumes "ring_ok l" "view l \<noteq> []" "k < length (ring l)" "length (view l) \<le> k \<or> length (view l) = length (ring l)"
  shows "free_behind l ((ring_offset l + k) mod length (ring l)) n = min n (k - length (view l))"
  using assms(3,4)
proof (induction n arbitrary: k)
  case (Suc n)
  have o: "ring_offset l < length (ring l)" using assms(1) by (simp add: ring_ok_def)
  show ?case
  proof (cases "length (view l) < k")
    case True
    then obtain j where j: "k = Suc j" by (cases k) auto
    have "\<not> ring l ! ((ring_offset l + j) mod length (ring l)) \<noteq> None"
      unfolding ring_free [OF assms(1), of j, OF Suc_lessD [OF Suc.prems(1) [unfolded j]]] using True j by simp
    then show ?thesis
      using Suc.IH [of j] Suc.prems True block_before_position [OF o Suc.prems(1) [unfolded j]] by (simp add: j Suc_diff_le)
  next
    case False
    have "ring l ! block_before l ((ring_offset l + k) mod length (ring l)) \<noteq> None"
    proof (cases k)
      case 0
      then have "length (view l) = length (ring l)" using Suc.prems assms(2) by auto
      moreover have "(ring_offset l + 0) mod length (ring l) = ring_offset l" using o by simp
      ultimately show ?thesis using ring_free [OF assms(1), of "length (ring l) - 1"] block_before_first [OF o] o
        by (simp add: 0)
    next
      case (Suc j)
      then have "j < length (view l)" using False Suc.prems by auto
      then show ?thesis using ring_free [OF assms(1), of j] block_before_position [OF o] Suc.prems(1) by (simp add: Suc)
    qed
    then show ?thesis using False by simp
  qed
qed simp

text \<open>The number that \<open>pcap_setfilter\<close> arrives at: the walk begins one block too far, so one block more is filtered.\<close>

lemma blocks_counted:
  assumes "ring_ok l"
  shows "blocks_to_filter (count_blocks_to_filter l) =
    int (if view l = [] then 1 else if length (view l) + 1 < length (ring l) then length (view l) + 2 else length (ring l))"
proof -
  have o: "ring_offset l < length (ring l)" using assms by (simp add: ring_ok_def)
  let ?c = "length (ring l)" and ?u = "length (view l)"
  have k: "?c - 1 < ?c" using o by simp
  have "free_behind l (block_before l (ring_offset l)) ?c = (if view l = [] then ?c else ?c - 1 - ?u)"
  proof (cases "view l = []")
    case True
    have "block_before l (ring_offset l) < ?c" using o by (auto simp: block_before_def)
    then show ?thesis using free_behind_empty [OF assms True] True by simp
  next
    case False
    have "?u \<le> ?c - 1 \<or> ?u = ?c" using view_le [of l] by linarith
    then show ?thesis unfolding block_before_first [OF o]
      using free_behind_used [OF assms False k] False by simp
  qed
  then show ?thesis using o view_le [of l] by (auto simp: count_blocks_to_filter_def Let_def)
qed

end
