(* ===== verification/Live_Filter.thy ===== *)
theory Live_Filter
  imports Live_Queue "HOL-Library.Sublist"
begin

text \<open>
  A capture through a filter: what the program gets while the kernel fills the ring and the library reads it. The filter was
  installed while the ring held packets that the kernel had not put through it, and these are filtered by the library.
\<close>

section \<open>The part of the handle that does not change\<close>

definition static_part :: "live \<Rightarrow> live" where
  "static_part l = l\<lparr>lp := (lp l)\<lparr>fcode := None, break_loop := False, errbuf := None\<rparr>, attached := None, ring := [], ring_offset := 0, filter_in_userland := False,
     blocks_to_filter := 0, netdown := False, current_packet := None, live_errbuf := None, now := 0\<rparr>"

lemma static_partD:
  assumes "static_part l = static_part l'"
  shows "cooked l = cooked l'" "snapshot (lp l) = snapshot (lp l')" "bufsize (lp l) = bufsize (lp l')"
    "linktype (lp l) = linktype (lp l')" "tstamp_precision (lp l) = tstamp_precision (lp l')" "direction l = direction l'"
    "lo_ifindex l = lo_ifindex l'" "tp_hdrlen l = tp_hdrlen l'" "vlan_offset l = vlan_offset l'"
  using arg_cong [OF assms, of cooked] arg_cong [OF assms, of "snapshot \<circ> lp"]
    arg_cong [OF assms, of "bufsize \<circ> lp"] arg_cong [OF assms, of "linktype \<circ> lp"] arg_cong [OF assms, of "tstamp_precision \<circ> lp"]
    arg_cong [OF assms, of direction] arg_cong [OF assms, of lo_ifindex] arg_cong [OF assms, of tp_hdrlen]
    arg_cong [OF assms, of vlan_offset]
  by (simp_all add: static_part_def)

lemma static_frame:
  assumes "static_part l = static_part l'"
  shows "frame_ok l fr = frame_ok l' fr" "seen l fr = seen l' fr" "wanted l fr = wanted l' fr"
    "handed_header l fr = handed_header l' fr" "with_tag l fr d = with_tag l' fr d"
proof -
  note d = static_partD [OF assms]
  have r: "read_sll l = read_sll l'" by (simp add: read_sll_def d fun_eq_iff)
  have h: "packet_header_of l = packet_header_of l'" by (simp add: packet_header_of_def d fun_eq_iff)
  have c: "cooked_header l = cooked_header l'" by (simp add: cooked_header_def d fun_eq_iff)
  have a: "add_cooked_header l = add_cooked_header l'" by (simp add: add_cooked_header_def Let_def c d fun_eq_iff)
  have st: "start_of_packet l = start_of_packet l'" by (simp add: start_of_packet_def Let_def a d fun_eq_iff)
  have t: "tagged l fr = tagged l' fr" by (simp add: tagged_def d)
  show "frame_ok l fr = frame_ok l' fr" by (simp add: frame_ok_def added_room_def d)
  show "seen l fr = seen l' fr" unfolding seen_def r st h ..
  show "wanted l fr = wanted l' fr" by (simp add: wanted_def r linux_check_direction_def d split: sum.split)
  show "handed_header l fr = handed_header l' fr" by (simp add: handed_header_def trim_to_snapshot_def Let_def h t d)
  show "with_tag l fr d = with_tag l' fr d" by (simp add: with_tag_def t d)
qed

lemma static_tick [simp]: "static_part (tick k l) = static_part l"
proof -
  have "static_part (fold hand_block bs l) = static_part l" for bs
    by (induction bs arbitrary: l) (auto simp: hand_block_def static_part_def)
  then show ?thesis by (simp add: tick_def static_part_def)
qed

lemma lp_tick [simp]: "lp (tick k l) = lp l"
proof -
  have "lp (fold hand_block bs l) = lp l" for bs
    by (induction bs arbitrary: l) (auto simp: hand_block_def)
  then show ?thesis by (simp add: tick_def)
qed

lemma lp_release [simp]: "lp (release_block l) = lp l"
  by (simp add: release_block_def Let_def)

lemma static_release [simp]: "static_part (release_block l) = static_part l"
  by (simp add: release_block_def static_part_def Let_def)

section \<open>A capture in progress\<close>

text \<open>What the program gets of a frame, and of a list of frames through a filter.\<close>

definition delivered :: "live \<Rightarrow> tpacket \<Rightarrow> pcap_pkthdr \<times> byte list" where
  "delivered l fr = (handed_header l fr, take (unat (snapshot (lp l))) (with_tag l fr (seen l fr)))"

definition deliveries :: "live \<Rightarrow> (byte list \<Rightarrow> bool) \<Rightarrow> tpacket list \<Rightarrow> (pcap_pkthdr \<times> byte list) list" where
  "deliveries l P frs = map (delivered l) (filter (\<lambda>fr. P (seen l fr) \<and> wanted l fr) frs)"

text \<open>The blocks that the kernel hands over in a stretch of time.\<close>

definition handed_in :: "kernel \<Rightarrow> nat \<Rightarrow> nat \<Rightarrow> tpacket list list" where
  "handed_in k t u = concat (map (hands k) [t..<u])"

definition block_ok :: "live \<Rightarrow> tpacket list \<Rightarrow> bool" where
  "block_ok l b \<longleftrightarrow> b \<noteq> [] \<and> (\<forall>fr \<in> set b. frame_ok l fr)"

text \<open>The kernel puts what comes after the installation through its filter; only the first block may have been on its way
  before, and it may not when the ring had no room for it.\<close>

definition filters_from :: "kernel \<Rightarrow> bool \<Rightarrow> nat \<Rightarrow> (tpacket \<Rightarrow> bool) \<Rightarrow> bool" where
  "filters_from k full t Pf \<longleftrightarrow> (\<forall>u \<ge> t. \<forall>b \<in> set (if handed_in k t u = [] \<and> \<not> full then tl (hands k u) else hands k u).
     \<forall>fr \<in> set b. Pf fr)"

text \<open>The ring, as it is shared; which blocks are to be filtered; and what became of the frames so far.\<close>

definition ring_shared :: "live \<Rightarrow> live \<Rightarrow> bool" where
  "ring_shared l0 l \<longleftrightarrow> static_part l = static_part l0 \<and> fcode (lp l) = fcode (lp l0) \<and> length (ring l) = length (ring l0) \<and>
     ring_ok l \<and> (\<forall>b \<in> set (view l). block_ok l0 b)"

definition filter_covers :: "kernel \<Rightarrow> live \<Rightarrow> (tpacket \<Rightarrow> bool) \<Rightarrow> live \<Rightarrow> bool" where
  "filter_covers k l0 Pf l \<longleftrightarrow> filter_in_userland l \<and> blocks_to_filter l = 0 \<or>
     0 \<le> blocks_to_filter l \<and> (filter_in_userland l \<longleftrightarrow> 0 < blocks_to_filter l) \<and>
     (\<forall>b \<in> set (drop (nat (blocks_to_filter l)) (view l)). \<forall>fr \<in> set b. Pf fr) \<and>
     filters_from k (length (view l0) = length (ring l0)) (now l0) Pf \<and>
     (length (view l0) = length (ring l0) \<or> handed_in k (now l0) (now l) \<noteq> [] \<or> int (length (view l)) < blocks_to_filter l)"

definition frames_read :: "kernel \<Rightarrow> live \<Rightarrow> tpacket list \<Rightarrow> live \<Rightarrow> bool" where
  "frames_read k l0 frs l \<longleftrightarrow> now l0 \<le> now l \<and> (\<exists>bs. subseq bs (handed_in k (now l0) (now l)) \<and>
     (length (view l0) + length (handed_in k (now l0) (now l)) \<le> length (ring l0) \<longrightarrow> bs = handed_in k (now l0) (now l)) \<and>
     frs @ map hd (view l) = map hd (view l0 @ bs))"

definition capturing :: "kernel \<Rightarrow> live \<Rightarrow> (tpacket \<Rightarrow> bool) \<Rightarrow> tpacket list \<Rightarrow> live \<Rightarrow> bool" where
  "capturing k l0 Pf frs l \<longleftrightarrow> ring_shared l0 l \<and> filter_covers k l0 Pf l \<and> frames_read k l0 frs l"

definition kernel_ok :: "kernel \<Rightarrow> live \<Rightarrow> bool" where
  "kernel_ok k l0 \<longleftrightarrow> (\<forall>t. \<forall>b \<in> set (hands k t). block_ok l0 b)"

text \<open>Only these fields matter.\<close>

definition same_ring :: "live \<Rightarrow> live \<Rightarrow> bool" where
  "same_ring l l' \<longleftrightarrow> static_part l = static_part l' \<and> fcode (lp l) = fcode (lp l') \<and> ring l = ring l' \<and> ring_offset l = ring_offset l' \<and>
     filter_in_userland l = filter_in_userland l' \<and> blocks_to_filter l = blocks_to_filter l' \<and> now l = now l'"

lemma same_ring_view:
  assumes "same_ring l l'"
  shows "view l = view l'" "ring_ok l = ring_ok l'"
proof -
  show "view l = view l'" using assms by (simp add: view_def rotated_def same_ring_def)
  then show "ring_ok l = ring_ok l'" using assms by (simp add: ring_ok_def rotated_def same_ring_def)
qed

lemma capturing_same:
  assumes "same_ring l l'" "capturing k l0 Pf frs l"
  shows "capturing k l0 Pf frs l'"
  using assms same_ring_view [OF assms(1)]
  by (simp add: capturing_def ring_shared_def filter_covers_def frames_read_def same_ring_def)

lemma tick_view:
  assumes "ring_ok l"
  shows "ring_ok (tick k l)" "length (ring (tick k l)) = length (ring l)"
    "view (tick k l) = view l @ take (length (ring l) - length (view l)) (hands k (now l))" "now (tick k l) = Suc (now l)"
    "filter_in_userland (tick k l) = filter_in_userland l" "blocks_to_filter (tick k l) = blocks_to_filter l"
proof -
  let ?l = "fold hand_block (hands k (now l)) l"
  have s: "ring (tick k l) = ring ?l" "ring_offset (tick k l) = ring_offset ?l" by (simp_all add: tick_def)
  then have v: "view (tick k l) = view ?l" by (simp add: view_def rotated_def)
  from ring_queue.put_all [OF assms, of "hands k (now l)"]
  show "view (tick k l) = view l @ take (length (ring l) - length (view l)) (hands k (now l))"
    "length (ring (tick k l)) = length (ring l)" "ring_ok (tick k l)"
    using v s by (simp_all add: ring_ok_def rotated_def)
  have "now (fold hand_block bs q) = now q \<and> filter_in_userland (fold hand_block bs q) = filter_in_userland q \<and>
      blocks_to_filter (fold hand_block bs q) = blocks_to_filter q" for bs q
    by (induction bs arbitrary: q) (simp_all add: hand_block_def)
  then show "now (tick k l) = Suc (now l)" "filter_in_userland (tick k l) = filter_in_userland l"
    "blocks_to_filter (tick k l) = blocks_to_filter l" by (simp_all add: tick_def)
qed

lemma handed_in_Suc: "t \<le> u \<Longrightarrow> handed_in k t (Suc u) = handed_in k t u @ hands k u"
  by (simp add: handed_in_def)

text \<open>While the kernel hands over blocks, and when the library gives one back.\<close>

lemma capturing_tick:
  assumes "capturing k l0 Pf frs l" "kernel_ok k l0"
  shows "capturing k l0 Pf frs (tick k l)"
proof -
  let ?c = "length (ring l0)" and ?bs = "hands k (now l)" and ?u = "length (view l)" and ?b = "blocks_to_filter l"
  have rs: "ring_shared l0 l" "filter_covers k l0 Pf l" and fr: "frames_read k l0 frs l" using assms(1) by (simp_all add: capturing_def)
  then have ok: "ring_ok l" "length (ring l) = ?c" "static_part l = static_part l0" by (simp_all add: ring_shared_def)
  note t = tick_view [OF ok(1), of k, unfolded ok(2)]
  obtain bs where bs: "now l0 \<le> now l" "subseq bs (handed_in k (now l0) (now l))"
    "length (view l0) + length (handed_in k (now l0) (now l)) \<le> ?c \<longrightarrow> bs = handed_in k (now l0) (now l)"
    "frs @ map hd (view l) = map hd (view l0 @ bs)" using fr by (auto simp: frames_read_def)
  note h = handed_in_Suc [OF bs(1), of k]
  have new: "set (take (?c - ?u) ?bs) \<subseteq> set ?bs" by (rule set_take_subset)
  have "ring_shared l0 (tick k l)"
    using rs(1) assms(2) t ok new by (auto simp: ring_shared_def kernel_ok_def)
  moreover have "frames_read k l0 frs (tick k l)"
    unfolding frames_read_def t(4) h
  proof (intro conjI exI)
    show "now l0 \<le> Suc (now l)" using bs(1) by simp
    show "subseq (bs @ take (?c - ?u) ?bs) (handed_in k (now l0) (now l) @ ?bs)"
      using bs(2) prefix_imp_subseq [OF take_is_prefix, of "?c - ?u" ?bs] by (rule list_emb_append_mono)
    show "frs @ map hd (view (tick k l)) = map hd (view l0 @ bs @ take (?c - ?u) ?bs)"
      unfolding t(3) using bs(4) by simp
    have "?u \<le> length (view l0) + length bs" using arg_cong [OF bs(4), of length] by simp
    then show "length (view l0) + length (handed_in k (now l0) (now l) @ ?bs) \<le> ?c \<longrightarrow>
        bs @ take (?c - ?u) ?bs = handed_in k (now l0) (now l) @ ?bs" using bs(3) by auto
  qed
  moreover have "filter_covers k l0 Pf (tick k l)"
  proof (cases "filter_in_userland l \<and> ?b = 0")
    case True
    then show ?thesis by (simp add: filter_covers_def t)
  next
    case False
    let ?full = "length (view l0) = ?c" and ?done = "handed_in k (now l0) (now l) \<noteq> []"
    have f: "0 \<le> ?b" "filter_in_userland l \<longleftrightarrow> 0 < ?b" "\<forall>b \<in> set (drop (nat ?b) (view l)). \<forall>fr \<in> set b. Pf fr"
      "filters_from k ?full (now l0) Pf" "?full \<or> ?done \<or> int ?u < ?b"
      using rs(2) False by (auto simp: filter_covers_def)
    have late: "\<forall>b \<in> set (if \<not> ?done \<and> \<not> ?full then tl ?bs else ?bs). \<forall>fr \<in> set b. Pf fr"
      using f(4) bs(1) by (simp add: filters_from_def)
    have "\<forall>b \<in> set (drop (nat ?b) (view (tick k l))). \<forall>fr \<in> set b. Pf fr"
    proof (cases "\<not> ?done \<and> \<not> ?full")
      case True
      have "nat ?b = ?u + Suc (nat ?b - Suc ?u)" using True f(5) by auto
      then obtain m where m: "nat ?b = ?u + Suc m" by blast
      have "set (drop (nat ?b) (view (tick k l))) \<subseteq> set (tl ?bs)"
        unfolding t(3) m by (auto simp: drop_Suc tl_take dest!: in_set_dropD in_set_takeD)
      then show ?thesis using late True by auto
    next
      case False
      have "set (drop (nat ?b) (view (tick k l))) \<subseteq> set (drop (nat ?b) (view l)) \<union> set ?bs"
        unfolding t(3) by (auto dest!: in_set_dropD in_set_takeD)
      then show ?thesis using late False f(3) by (auto split: if_splits)
    qed
    moreover have "?full \<or> handed_in k (now l0) (now l) @ ?bs \<noteq> [] \<or> int (length (view (tick k l))) < ?b"
      using f(5) unfolding t(3) by (cases ?bs) auto
    ultimately show ?thesis using f unfolding filter_covers_def t h by blast
  qed
  ultimately show ?thesis by (simp add: capturing_def)
qed

lemma capturing_release:
  assumes "capturing k l0 Pf frs l" "view l = b # bs"
  shows "capturing k l0 Pf (frs @ [hd b]) (release_block l)" "view (release_block l) = bs"
    "now (release_block l) = now l" "length (ring (release_block l)) = length (ring l)"
proof -
  have rs: "ring_shared l0 l" "filter_covers k l0 Pf l" "frames_read k l0 frs l" using assms(1) by (simp_all add: capturing_def)
  then have "ring_ok l" by (simp add: ring_shared_def)
  from release_view [OF this] have v: "ring_ok (release_block l)" "view (release_block l) = bs" using assms(2) by simp_all
  show n: "now (release_block l) = now l" and r: "length (ring (release_block l)) = length (ring l)"
    by (simp_all add: release_block_def Let_def)
  show "view (release_block l) = bs" by (simp add: v)
  have "ring_shared l0 (release_block l)" using rs(1) assms(2) v by (simp add: ring_shared_def r)
  moreover have "frames_read k l0 (frs @ [hd b]) (release_block l)" using rs(3) assms(2) v by (simp add: frames_read_def n)
  moreover have "filter_covers k l0 Pf (release_block l)"
  proof (cases "0 < blocks_to_filter l")
    case True
    then have s: "nat (blocks_to_filter l) = Suc (nat (blocks_to_filter l - 1))" by simp
    have "blocks_to_filter (release_block l) = blocks_to_filter l - 1"
      "filter_in_userland (release_block l) = (if blocks_to_filter l - 1 = 0 then False else filter_in_userland l)"
      using True by (simp_all add: release_block_def Let_def)
    then show ?thesis using rs(2) True s unfolding filter_covers_def n v(2) assms(2) by auto
  next
    case False
    then have "blocks_to_filter (release_block l) = blocks_to_filter l" "filter_in_userland (release_block l) = filter_in_userland l"
      by (simp_all add: release_block_def Let_def)
    then show ?thesis using rs(2) False unfolding filter_covers_def n v(2) assms(2) by auto
  qed
  ultimately show "capturing k l0 Pf (frs @ [hd b]) (release_block l)" by (simp add: capturing_def)
qed

section \<open>That the capture makes progress\<close>

text \<open>The capture ends: from some time on the kernel hands over nothing more, and every call of \<open>poll\<close> is interrupted by a
  signal whose handler calls \<open>pcap_breakloop\<close>.\<close>

definition ends_at :: "kernel \<Rightarrow> nat \<Rightarrow> bool" where
  "ends_at k T \<longleftrightarrow> (\<forall>t \<ge> T. hands k t = [] \<and> called_break (polls k t) \<and> poll_ret (polls k t) < 0 \<and> interrupted (polls k t))"

text \<open>Until then nothing goes wrong: when packets come, \<open>poll\<close> reports them, and otherwise it runs out of time or is
  interrupted without a request to stop.\<close>

definition quiet_until :: "kernel \<Rightarrow> nat \<Rightarrow> bool" where
  "quiet_until k T \<longleftrightarrow> (\<forall>t < T. \<not> called_break (polls k t) \<and> (0 < poll_ret (polls k t) \<and> revents_socket (polls k t) = POLLIN \<or>
     hands k t = [] \<and> (poll_ret (polls k t) = 0 \<or> poll_ret (polls k t) < 0 \<and> interrupted (polls k t))))"

definition calm :: "kernel \<Rightarrow> nat \<Rightarrow> live \<Rightarrow> bool" where
  "calm k T l \<longleftrightarrow> quiet_until k T \<and> \<not> break_loop (lp l) \<and> \<not> netdown l"

definition work_left :: "nat \<Rightarrow> live \<Rightarrow> nat" where
  "work_left T l = (T - now l) * Suc (length (ring l)) + length (view l)"

lemma work_tick:
  assumes "ring_ok l" "ends_at k T"
  shows "work_left T (tick k l) < work_left T l \<or> T \<le> now l \<and> view (tick k l) = view l \<and> work_left T (tick k l) = work_left T l"
proof (cases "now l < T")
  case True
  then obtain d where d: "T - now l = Suc d" by (metis Suc_diff_Suc)
  then have "T - Suc (now l) = d" by simp
  moreover have "length (view (tick k l)) \<le> length (ring l)" using view_le [of "tick k l"] tick_view(2) [OF assms(1)] by simp
  ultimately show ?thesis unfolding work_left_def tick_view(2,4) [OF assms(1)] d by simp
next
  case False
  then have "hands k (now l) = []" using assms(2) by (simp add: ends_at_def)
  then show ?thesis using False unfolding work_left_def tick_view [OF assms(1)] by simp
qed

lemma work_release:
  assumes "ring_ok l" "view l \<noteq> []"
  shows "work_left T (release_block l) < work_left T l"
proof -
  have "now (release_block l) = now l" "length (ring (release_block l)) = length (ring l)" by (simp_all add: release_block_def Let_def)
  moreover have "length (view (release_block l)) < length (view l)"
    using release_view [OF assms] assms(2) by (simp add: length_tl)
  ultimately show ?thesis by (simp add: work_left_def)
qed

lemma same_ring_simps [simp]:
  "same_ring l (l\<lparr>lp := (lp l)\<lparr>break_loop := b\<rparr>\<rparr>)" "same_ring l (l\<lparr>netdown := b\<rparr>)" "same_ring l (l\<lparr>live_errbuf := err\<rparr>)"
  "same_ring l (pcap_breakloop_linux l)" "same_ring l l" "same_ring l (clear_break l)"
  by (simp_all add: same_ring_def static_part_def pcap_breakloop_linux_def pcap_breakloop_def clear_break_def)

lemma same_ring_trans: "same_ring l l' \<Longrightarrow> same_ring l' l'' \<Longrightarrow> same_ring l l''"
  by (simp add: same_ring_def)

lemma work_same: "same_ring l l' \<Longrightarrow> work_left T l' = work_left T l"
  using same_ring_view(1) [of l l'] by (simp add: work_left_def same_ring_def)

text \<open>What the parts of the waiting do to the handle.\<close>

fun waits :: "live \<Rightarrow> waiting \<Rightarrow> bool" where
  "waits l (Return r l') \<longleftrightarrow> r < 0 \<and> same_ring l l'"
| "waits l (MayRead l') \<longleftrightarrow> same_ring l l'"
| "waits l (GoOn l') \<longleftrightarrow> same_ring l l'"

lemma waits_told: "waits l (told_to_break l)"
  by (simp add: told_to_break_def PCAP_ERROR_BREAK_def)

lemma waits_fail: "same_ring l l' \<Longrightarrow> waits l (fail_wait err l')"
  by (simp add: fail_wait_def PCAP_ERROR_def same_ring_trans [OF _ same_ring_simps(3)])

lemma waits_event: "waits l (event_descriptor rep l)"
  by (simp add: event_descriptor_def waits_told waits_fail)

lemma waits_poll: "waits l (poll_result rep l)"
proof -
  have "waits l w" if "waits (l\<lparr>netdown := True\<rparr>) w" for w
    using that same_ring_trans [OF same_ring_simps(2) [of l True]] by (cases w) auto
  then show ?thesis
    using waits_event [of l] waits_event [of "l\<lparr>netdown := True\<rparr>"]
    by (simp add: poll_result_def socket_events_def Let_def waits_told waits_fail)
qed

lemma waits_netdown: "waits l (check_netdown rep l)"
proof -
  have "same_ring l (snd (device_still_exists rep l))" by (simp add: device_still_exists_def split: option.split)
  then show ?thesis
    by (auto simp: check_netdown_def waits_fail split: prod.split sum.split intro: same_ring_trans [OF _ same_ring_simps(2)])
qed

lemma calm_tick: "calm k T l \<Longrightarrow> calm k T (tick k l)"
proof -
  have "break_loop (lp (fold hand_block bs x)) = break_loop (lp x) \<and> netdown (fold hand_block bs x) = netdown x" for bs x
    by (induction bs arbitrary: x) (simp_all add: hand_block_def)
  then show "calm k T l \<Longrightarrow> calm k T (tick k l)" by (simp add: calm_def tick_def)
qed

text \<open>One turn of the waiting.\<close>

definition turn :: "kernel \<Rightarrow> live \<Rightarrow> waiting" where
  "turn k l = (let rep = polls k (now l); l = tick k l; l = (if called_break rep then pcap_breakloop_linux l else l) in
     case poll_result rep l of GoOn l \<Rightarrow> check_netdown rep l | w \<Rightarrow> w)"

lemma wait_turn:
  "pcap_wait_for_frames_mmap k l = (case turn k l of Return r l \<Rightarrow> Some (r, l) | MayRead l \<Rightarrow> Some (0, l)
     | GoOn l \<Rightarrow> if poll_timeout l = 0 then Some (0, l) else pcap_wait_for_frames_mmap k l)"
  by (subst pcap_wait_for_frames_mmap.simps) (simp add: turn_def Let_def split: waiting.split)

lemma turn_waits: "waits (tick k l) (turn k l)"
proof -
  let ?rep = "polls k (now l)"
  let ?l = "if called_break ?rep then pcap_breakloop_linux (tick k l) else tick k l"
  have t: "turn k l = (case poll_result ?rep ?l of GoOn l \<Rightarrow> check_netdown ?rep l | w \<Rightarrow> w)" by (simp add: turn_def Let_def)
  have w: "waits (tick k l) w" if "waits l1 w" "same_ring (tick k l) l1" for l1 w
    using that same_ring_trans [OF that(2)] by (cases w) auto
  have p: "waits (tick k l) (poll_result ?rep ?l)" by (rule w [OF waits_poll]) simp
  show ?thesis
  proof (cases "poll_result ?rep ?l")
    case (GoOn l1)
    then have "same_ring (tick k l) l1" using p by simp
    then show ?thesis unfolding t GoOn waiting.case by (rule w [OF waits_netdown])
  qed (use p t in simp_all)
qed

lemma turn_calm:
  assumes "calm k T l" "now l < T"
  shows "(\<exists>l'. turn k l = MayRead l' \<and> calm k T l') \<or> turn k l = GoOn (tick k l) \<and> calm k T (tick k l) \<and> hands k (now l) = []"
proof -
  let ?rep = "polls k (now l)"
  have "\<not> called_break ?rep" "0 < poll_ret ?rep \<and> revents_socket ?rep = POLLIN \<or> hands k (now l) = [] \<and>
      (poll_ret ?rep = 0 \<or> poll_ret ?rep < 0 \<and> interrupted ?rep)" using assms by (auto simp: calm_def quiet_until_def)
  then show ?thesis using calm_tick [OF assms(1)]
    by (auto simp: turn_def poll_result_def socket_events_def told_to_break_def check_netdown_def calm_def)
qed

lemma wait_ended:
  assumes "capturing k l0 Pf frs l" "kernel_ok k l0" "ends_at k T" "T \<le> now l"
  shows "\<exists>l'. pcap_wait_for_frames_mmap k l = Some (PCAP_ERROR_BREAK, l') \<and> capturing k l0 Pf frs l' \<and> view l' = view l \<and> T \<le> now l'"
proof -
  let ?rep = "polls k (now l)" and ?l = "pcap_breakloop_linux (tick k l)"
  have e: "called_break ?rep" "poll_ret ?rep < 0" "interrupted ?rep" "hands k (now l) = []"
    using assms(3,4) by (simp_all add: ends_at_def)
  have ok: "ring_ok l" using assms(1) by (simp add: capturing_def ring_shared_def)
  have "break_loop (lp ?l)" by (simp add: pcap_breakloop_linux_def pcap_breakloop_def)
  then have w: "pcap_wait_for_frames_mmap k l = Some (PCAP_ERROR_BREAK, clear_break ?l)"
    by (subst pcap_wait_for_frames_mmap.simps) (simp add: e poll_result_def told_to_break_def clear_break_def Let_def)
  have s: "same_ring (tick k l) (clear_break ?l)" by (rule same_ring_trans [OF same_ring_simps(4,6)])
  have "now (clear_break ?l) = Suc (now l)" using s tick_view(4) [OF ok] by (simp add: same_ring_def)
  moreover have "view (clear_break ?l) = view l"
    using same_ring_view(1) [OF s] tick_view(3) [OF ok, of k] e(4) by simp
  ultimately show ?thesis using w capturing_same [OF s capturing_tick [OF assms(1,2)]] assms(4) by auto
qed

lemma wait_returns:
  assumes "capturing k l0 Pf frs l" "kernel_ok k l0" "ends_at k T"
  shows "\<exists>r l'. pcap_wait_for_frames_mmap k l = Some (r, l') \<and> capturing k l0 Pf frs l' \<and>
    (r = 0 \<and> work_left T l' < work_left T l \<and> (calm k T l \<longrightarrow> calm k T l') \<or>
     r < 0 \<and> (calm k T l \<and> view l = [] \<longrightarrow> r = PCAP_ERROR_BREAK \<and> view l' = [] \<and> T \<le> now l'))"
  using assms(1)
proof (induction "T - now l" arbitrary: l)
  case 0
  have "T \<le> now l" using 0(1) by simp
  from wait_ended [OF 0(2) assms(2,3) this] show ?case by (auto simp: PCAP_ERROR_BREAK_def)
next
  case (Suc d)
  have ok: "ring_ok l" using Suc.prems by (simp add: capturing_def ring_shared_def)
  have c: "capturing k l0 Pf frs l'" "work_left T l' < work_left T l" if "same_ring (tick k l) l'" for l'
    using capturing_same [OF that capturing_tick [OF Suc.prems assms(2)]] work_same [OF that] work_tick [OF ok assms(3)] Suc.hyps(2)
    by auto
  have q: "(\<exists>l'. turn k l = MayRead l' \<and> calm k T l') \<or> turn k l = GoOn (tick k l) \<and> calm k T (tick k l) \<and> hands k (now l) = []"
    if "calm k T l" using turn_calm [OF that] Suc.hyps(2) by simp
  show ?case
  proof (cases "turn k l")
    case (Return r l')
    then show ?thesis using turn_waits [of k l] c(1) q by (auto simp: wait_turn [of k l])
  next
    case (MayRead l')
    then show ?thesis using turn_waits [of k l] c q by (auto simp: wait_turn [of k l])
  next
    case (GoOn l2)
    then have s: "same_ring (tick k l) l2" using turn_waits [of k l] by simp
    have q2: "calm k T l2 \<and> hands k (now l) = []" if "calm k T l" using q [OF that] GoOn by auto
    have v: "view l2 = []" if "calm k T l" "view l = []"
      using same_ring_view(1) [OF s] tick_view(3) [OF ok, of k] q2 [OF that(1)] that(2) by simp
    have "now l2 = Suc (now l)" using s tick_view(4) [OF ok, of k] by (simp add: same_ring_def)
    then have "d = T - now l2" using Suc.hyps(2) by simp
    from Suc.hyps(1) [OF this c(1) [OF s]] show ?thesis
      using GoOn q2 v c [OF s] by (cases "poll_timeout l2 = 0") (auto simp: wait_turn [of k l])
  qed
qed

section \<open>Reading\<close>

text \<open>A callback that looks at the captured bytes only.\<close>

definition looks_captured :: "'s callback \<Rightarrow> bool" where
  "looks_captured cb \<longleftrightarrow> (\<forall>h m s. cb h m s = cb h (take (unat (caplen h)) m) s)"

definition never_breaks :: "'s callback \<Rightarrow> bool" where
  "never_breaks cb \<longleftrightarrow> (\<forall>h m s. \<not> snd (cb h m s))"

text \<open>What the capture rests on: the kernel, the handle when it began, and the filter.\<close>

definition set_up :: "env \<Rightarrow> kernel \<Rightarrow> live \<Rightarrow> (byte list \<Rightarrow> bool) \<Rightarrow> nat \<Rightarrow> bool" where
  "set_up e k l0 P T \<longleftrightarrow> kernel_ok k l0 \<and> ends_at k T \<and> live_ok l0 \<and> fcode (lp l0) \<noteq> None \<and> sorts e (fcode (lp l0)) P"

abbreviation capturing_by :: "kernel \<Rightarrow> live \<Rightarrow> (byte list \<Rightarrow> bool) \<Rightarrow> tpacket list \<Rightarrow> live \<Rightarrow> bool" where
  "capturing_by k l0 P \<equiv> capturing k l0 (\<lambda>fr. P (seen l0 fr))"

lemma live_ok_static:
  assumes "static_part l = static_part l0" "ring_ok l" "length (ring l) = length (ring l0)" "live_ok l0"
  shows "live_ok l"
  using assms(2-) unfolding live_ok_def static_partD [OF assms(1)] by (simp add: ring_ok_def)

lemma deliveries_append: "deliveries l P (xs @ ys) = deliveries l P xs @ deliveries l P ys"
  by (simp add: deliveries_def)

lemma feed_append: "feed cb (xs @ ys) s = feed cb ys (feed cb xs s)"
  by (simp add: feed_def)

lemma handle_captured:
  assumes "set_up e k l0 P T" "capturing_by k l0 P frs l" "view l = b # bs" "looks_captured cb"
  shows "\<exists>ret l'. pcap_handle_packet_mmap e cb (hd b) l s = Some (Inr (ret, l', feed cb (deliveries l0 P [hd b]) s)) \<and>
    0 \<le> ret \<and> same_ring l l' \<and> (never_breaks cb \<longrightarrow> l' = l)"
proof -
  let ?fr = "hd b"
  have up: "live_ok l0" "fcode (lp l0) \<noteq> None" "sorts e (fcode (lp l0)) P" using assms(1) by (simp_all add: set_up_def)
  have rs: "ring_shared l0 l" "filter_covers k l0 (\<lambda>fr. P (seen l0 fr)) l" using assms(2) by (simp_all add: capturing_def)
  then have st: "static_part l = static_part l0" and ok: "ring_ok l" "length (ring l) = length (ring l0)" "block_ok l0 b"
    and fc: "fcode (lp l) = fcode (lp l0)"
    using assms(3) by (simp_all add: ring_shared_def)
  note d = static_partD [OF st] and f = static_frame [OF st]
  have fr: "frame_ok l ?fr" "?fr \<in> set b" using ok(3) f(1) by (simp_all add: block_ok_def)
  have pass: "P (seen l0 ?fr)" if "\<not> filter_in_userland l"
    using rs(2) that fr(2) unfolding filter_covers_def assms(3) by auto
  from judge_ok [OF fr(1) live_ok_static [OF st ok(1,2) up(1)], of e P, unfolded d f fc] up(3)
  obtain data where j: "judge_packet e l ?fr = Some (Inr (if (filter_in_userland l \<longrightarrow> P (seen l0 ?fr)) \<and> wanted l0 ?fr
      then Handed (handed_header l0 ?fr) data else Skipped))"
    "take (unat (caplen (handed_header l0 ?fr))) data = snd (delivered l0 ?fr)"
    using up(2) by (auto simp: delivered_def)
  let ?c = "cb (handed_header l0 ?fr) data s"
  have c: "?c = cb (handed_header l0 ?fr) (snd (delivered l0 ?fr)) s"
    using assms(4) j(2) unfolding looks_captured_def by metis
  have p: "(filter_in_userland l \<longrightarrow> P (seen l0 ?fr)) \<longleftrightarrow> P (seen l0 ?fr)" using pass by blast
  show ?thesis
  proof (cases "P (seen l0 ?fr) \<and> wanted l0 ?fr")
    case True
    then have "pcap_handle_packet_mmap e cb ?fr l s =
        Some (Inr (1, if snd ?c then l\<lparr>lp := pcap_breakloop (lp l)\<rparr> else l, fst ?c))"
      by (simp add: pcap_handle_packet_mmap_def j(1) split: prod.split)
    moreover have "fst ?c = feed cb (deliveries l0 P [?fr]) s"
      using True unfolding c by (simp add: deliveries_def delivered_def)
    ultimately show ?thesis by (auto simp: never_breaks_def pcap_breakloop_def)
  next
    case False
    then have "pcap_handle_packet_mmap e cb ?fr l s = Some (Inr (0, l, s))"
      by (auto simp: pcap_handle_packet_mmap_def j(1) p)
    then show ?thesis using False by (auto simp: deliveries_def)
  qed
qed

lemma same_ring_release: "same_ring l l' \<Longrightarrow> same_ring (release_block l) (release_block l')"
  by (auto simp: same_ring_def release_block_def Let_def static_part_def)

lemma frames_return:
  assumes "set_up e k l0 P T" "capturing_by k l0 P frs l" "looks_captured cb"
  shows "\<exists>n l' t gs. read_frames_v2 e k cb mx pkts l s = Some (Inr (n, l', t)) \<and> capturing_by k l0 P (frs @ gs) l' \<and>
    t = feed cb (deliveries l0 P gs) s \<and> work_left T l' \<le> work_left T l \<and>
    (pkts < mx \<and> view l \<noteq> [] \<longrightarrow> work_left T l' < work_left T l) \<and>
    (never_breaks cb \<and> calm k T l \<longrightarrow> pkts \<le> n \<and> calm k T l')"
  using assms(2)
proof (induction "work_left T l" arbitrary: l frs pkts s rule: less_induct)
  case less
  have k: "kernel_ok k l0" "ends_at k T" using assms(1) by (simp_all add: set_up_def)
  have ok: "ring_ok l" using less.prems by (simp add: capturing_def ring_shared_def)
  show ?case
  proof (cases "mx \<le> pkts")
    case True
    then show ?thesis using less.prems by (subst read_frames_v2.simps) (auto intro!: exI [of _ "[]"] simp: deliveries_def)
  next
    case False
    let ?t = "tick k l"
    have c: "capturing_by k l0 P frs ?t" by (rule capturing_tick [OF less.prems k(1)])
    have w: "work_left T ?t \<le> work_left T l" using work_tick [OF ok k(2)] by auto
    have okt: "ring_ok ?t" using c by (simp add: capturing_def ring_shared_def)
    show ?thesis
    proof (cases "view ?t")
      case Nil
      have "read_frames_v2 e k cb mx pkts l s = Some (Inr (pkts, ?t, s))"
        using current_block [OF okt] Nil False by (subst read_frames_v2.simps) (simp add: acquire_def Let_def)
      moreover have "view l \<noteq> [] \<longrightarrow> work_left T ?t < work_left T l" using work_tick [OF ok k(2)] Nil by auto
      ultimately show ?thesis using c w calm_tick by (auto intro!: exI [of _ "[]"] simp: deliveries_def)
    next
      case (Cons b bs)
      have bok: "block_ok l0 b" using c Cons by (simp add: capturing_def ring_shared_def)
      then have cur: "ring ?t ! ring_offset ?t = Some (hd b # tl b)" using current_block [OF okt] Cons by (simp add: block_ok_def)
      from handle_captured [OF assms(1) c Cons assms(3), of s] obtain ret l1 where
        h: "pcap_handle_packet_mmap e cb (hd b) ?t s = Some (Inr (ret, l1, feed cb (deliveries l0 P [hd b]) s))"
          "0 \<le> ret" "same_ring ?t l1" "never_breaks cb \<longrightarrow> l1 = ?t" by blast
      let ?r = "release_block l1" and ?s = "feed cb (deliveries l0 P [hd b]) s"
      note c1 = capturing_same [OF h(3) c]
      have v1: "view l1 = b # bs" using same_ring_view(1) [OF h(3)] Cons by simp
      note cr = capturing_release [OF c1 v1]
      have ok1: "ring_ok l1" using c1 by (simp add: capturing_def ring_shared_def)
      have wr: "work_left T ?r < work_left T l"
        using work_release [OF ok1] v1 work_same [OF h(3)] w by (metis less_le_trans list.distinct(1))
      show ?thesis
      proof (cases "break_loop (lp l1)")
        case True
        then have "read_frames_v2 e k cb mx pkts l s = Some (Inr (PCAP_ERROR_BREAK, clear_break ?r, ?s))"
          using False h(2) by (subst read_frames_v2.simps) (simp add: acquire_def Let_def cur h(1))
        moreover have "\<not> (never_breaks cb \<and> calm k T l)" using True h(4) calm_tick [of k T l] by (auto simp: calm_def)
        ultimately show ?thesis
          using capturing_same [OF same_ring_simps(6) cr(1)] work_same [OF same_ring_simps(6), of T ?r] wr
          by (auto intro!: exI [of _ "[hd b]"])
      next
        case nb: False
        let ?p = "if ret = 1 then pkts + 1 else pkts"
        have step: "read_frames_v2 e k cb mx pkts l s = read_frames_v2 e k cb mx ?p ?r ?s"
          using False nb h(2) by (subst read_frames_v2.simps) (simp add: acquire_def Let_def cur h(1))
        from less.hyps [OF wr cr(1), of ?p ?s] obtain n l' t gs where
          i: "read_frames_v2 e k cb mx ?p ?r ?s = Some (Inr (n, l', t))" "capturing_by k l0 P ((frs @ [hd b]) @ gs) l'"
            "t = feed cb (deliveries l0 P gs) ?s" "work_left T l' \<le> work_left T ?r"
            "never_breaks cb \<and> calm k T ?r \<longrightarrow> ?p \<le> n \<and> calm k T l'" by blast
        have "calm k T ?r" if "never_breaks cb" "calm k T l"
          using h(4) that calm_tick [OF that(2)] by (auto simp: calm_def release_block_def Let_def)
        moreover have "deliveries l0 P (hd b # gs) = deliveries l0 P [hd b] @ deliveries l0 P gs"
          by (simp add: deliveries_def)
        ultimately show ?thesis using step i wr
          by (intro exI [of _ n] exI [of _ l'] exI [of _ t] exI [of _ "hd b # gs"]) (auto simp: feed_append split: if_splits)
      qed
    qed
  qed
qed

lemma read_returns:
  assumes "set_up e k l0 P T" "capturing_by k l0 P frs l" "looks_captured cb"
  shows "\<exists>n l' t gs. pcap_read_linux_mmap_v2 e k cb mx l s = Some (Inr (n, l', t)) \<and> capturing_by k l0 P (frs @ gs) l' \<and>
    t = feed cb (deliveries l0 P gs) s \<and> (0 \<le> n \<longrightarrow> work_left T l' < work_left T l) \<and>
    (never_breaks cb \<and> calm k T l \<longrightarrow> 0 \<le> n \<and> calm k T l' \<or> n = PCAP_ERROR_BREAK \<and> view l' = [] \<and> T \<le> now l')"
proof -
  let ?t = "tick k l"
  have k: "kernel_ok k l0" "ends_at k T" using assms(1) by (simp_all add: set_up_def)
  have ok: "ring_ok l" using assms(2) by (simp add: capturing_def ring_shared_def)
  have c: "capturing_by k l0 P frs ?t" by (rule capturing_tick [OF assms(2) k(1)])
  have w: "work_left T ?t \<le> work_left T l" using work_tick [OF ok k(2)] by auto
  have okt: "ring_ok ?t" using c by (simp add: capturing_def ring_shared_def)
  have mx: "0 < unlimited mx" by (simp add: unlimited_def LIVE_INT_MAX_def)
  show ?thesis
  proof (cases "view ?t = []")
    case True
    then have r: "pcap_read_linux_mmap_v2 e k cb mx l s = Option.bind (pcap_wait_for_frames_mmap k ?t) (\<lambda>(ret, l).
        if ret \<noteq> 0 then Some (Inr (ret, l, s)) else read_frames_v2 e k cb (unlimited mx) 0 l s)"
      using current_block [OF okt] by (simp add: pcap_read_linux_mmap_v2_def acquire_def Let_def)
    obtain r1 l1 where p: "pcap_wait_for_frames_mmap k ?t = Some (r1, l1)" "capturing_by k l0 P frs l1"
      "r1 = 0 \<and> work_left T l1 < work_left T ?t \<and> (calm k T ?t \<longrightarrow> calm k T l1) \<or>
       r1 < 0 \<and> (calm k T ?t \<and> view ?t = [] \<longrightarrow> r1 = PCAP_ERROR_BREAK \<and> view l1 = [] \<and> T \<le> now l1)"
      using wait_returns [OF c k] by blast
    show ?thesis
    proof (cases "r1 = 0")
      case True
      with p(3) have "work_left T l1 < work_left T l" "calm k T l \<longrightarrow> calm k T l1" using w calm_tick by auto
      with frames_return [OF assms(1) p(2) assms(3), of "unlimited mx" 0 s] show ?thesis
        unfolding r p(1) using True by fastforce
    next
      case False
      then have "pcap_read_linux_mmap_v2 e k cb mx l s = Some (Inr (r1, l1, s))" using r p(1) by simp
      then show ?thesis using p(2,3) False True calm_tick [of k T l] by (auto intro!: exI [of _ "[]"] simp: deliveries_def)
    qed
  next
    case False
    then have r: "pcap_read_linux_mmap_v2 e k cb mx l s = read_frames_v2 e k cb (unlimited mx) 0 ?t s"
      using current_block [OF okt] by (auto simp: pcap_read_linux_mmap_v2_def acquire_def Let_def split: list.splits)
    from frames_return [OF assms(1) c assms(3), of "unlimited mx" 0 s] mx False w show ?thesis
      unfolding r using calm_tick [of k T l] by fastforce
  qed
qed

lemma loop_live_returns:
  assumes "set_up e k l0 P T" "capturing_by k l0 P frs l" "looks_captured cb"
  shows "\<exists>n l' t gs. pcap_loop_live False e k l cnt cb s = Some (Inr (n, l', t)) \<and> capturing_by k l0 P (frs @ gs) l' \<and>
    t = feed cb (deliveries l0 P gs) s \<and>
    (never_breaks cb \<and> calm k T l \<and> cnt \<le> 0 \<longrightarrow> n = PCAP_ERROR_BREAK \<and> view l' = [] \<and> T \<le> now l')"
  using assms(2)
proof (induction "work_left T l" arbitrary: l frs cnt s rule: less_induct)
  case less
  from read_returns [OF assms(1) less.prems assms(3), of cnt s] obtain n l1 t gs where
    r: "pcap_read_linux_mmap_v2 e k cb cnt l s = Some (Inr (n, l1, t))" "capturing_by k l0 P (frs @ gs) l1"
      "t = feed cb (deliveries l0 P gs) s" "0 \<le> n \<longrightarrow> work_left T l1 < work_left T l"
      "never_breaks cb \<and> calm k T l \<longrightarrow> 0 \<le> n \<and> calm k T l1 \<or> n = PCAP_ERROR_BREAK \<and> view l1 = [] \<and> T \<le> now l1" by blast
  have step: "pcap_loop_live False e k l cnt cb s = (if n = 0 then pcap_loop_live False e k l1 cnt cb t
      else if n < 0 then Some (Inr (n, l1, t)) else if cnt \<le> 0 then pcap_loop_live False e k l1 cnt cb t
      else if cnt - n \<le> 0 then Some (Inr (0, l1, t)) else pcap_loop_live False e k l1 (cnt - n) cb t)"
    by (subst pcap_loop_live.simps) (simp add: read_op_def r(1))
  show ?case
  proof (cases "n < 0 \<or> 0 < n \<and> 0 < cnt \<and> cnt - n \<le> 0")
    case True
    then show ?thesis using step r by (auto simp: PCAP_ERROR_BREAK_def)
  next
    case False
    define m where "m = (if n = 0 \<or> cnt \<le> 0 then cnt else cnt - n)"
    have s: "pcap_loop_live False e k l cnt cb s = pcap_loop_live False e k l1 m cb t" using step False by (auto simp: m_def)
    have "work_left T l1 < work_left T l" using r(4) False by auto
    from less.hyps [OF this r(2), of m t] obtain n' l' t' hs where
      i: "pcap_loop_live False e k l1 m cb t = Some (Inr (n', l', t'))" "capturing_by k l0 P ((frs @ gs) @ hs) l'"
        "t' = feed cb (deliveries l0 P hs) t"
        "never_breaks cb \<and> calm k T l1 \<and> m \<le> 0 \<longrightarrow> n' = PCAP_ERROR_BREAK \<and> view l' = [] \<and> T \<le> now l'" by blast
    have "never_breaks cb \<and> calm k T l \<and> cnt \<le> 0 \<longrightarrow> calm k T l1 \<and> m \<le> 0"
      using r(5) False by (auto simp: m_def PCAP_ERROR_BREAK_def)
    then show ?thesis using s i r(3)
      by (intro exI [of _ n'] exI [of _ l'] exI [of _ t'] exI [of _ "gs @ hs"]) (auto simp: deliveries_append feed_append)
  qed
qed


section \<open>From the installation on\<close>

lemma field_take: "at + w \<le> n \<Longrightarrow> field (take n p) at w = field p at w"
  by (auto simp: field_def drop_take min_def)

lemma matches_take:
  assumes "22 \<le> n"
  shows "ether_proto_matches v (take n p) \<longleftrightarrow> ether_proto_matches v p"
proof -
  have f: "field (take n p) 12 2 = field p 12 2" "field (take n p) 14 1 = field p 14 1" "field (take n p) 14 2 = field p 14 2"
    "field (take n p) 14 4 = field p 14 4" "field (take n p) 18 4 = field p 18 4" "22 \<le> length (take n p) \<longleftrightarrow> 22 \<le> length p"
    using assms by (auto simp: field_take)
  show ?thesis unfolding ether_proto_matches_def f ..
qed

text \<open>A frame that the kernel puts into the ring after its filter \<open>prog\<close> accepted the packet: its captured bytes are as many
  of the packet as the filter says.\<close>

definition accepted_by :: "env \<Rightarrow> bpf_insn list \<Rightarrow> live \<Rightarrow> tpacket \<Rightarrow> bool" where
  "accepted_by e prog l fr \<longleftrightarrow> (\<exists>p w aux r. length p < 2 ^ 32 \<and> r \<noteq> 0 \<and>
     pcap_filter_with_aux_data (Some prog) p w (of_nat (length p)) aux (scratch_mem e) = Some (Returned r) \<and>
     seen l fr = take (unat r) p)"

lemma accepted_matches:
  assumes "correct_for n v prog" "22 \<le> n" "accepted_by e prog l fr"
  shows "ether_proto_matches v (seen l fr)"
proof -
  obtain p w aux r where a: "length p < 2 ^ 32" "r \<noteq> 0" "seen l fr = take (unat r) p"
    "pcap_filter_with_aux_data (Some prog) p w (of_nat (length p)) aux (scratch_mem e) = Some (Returned r)"
    using assms(3) by (auto simp: accepted_by_def)
  have "ether_proto_matches v p" "r = n"
    using conjunct2 [OF assms(1) [unfolded correct_for_def], rule_format, OF a(1), of w aux "scratch_mem e"] a(2,4)
    by (simp_all split: if_splits)
  moreover have "22 \<le> unat n" using assms(2) by (simp add: word_le_nat_alt)
  ultimately show ?thesis unfolding a(3) by (simp add: matches_take)
qed

lemma compiled_sorts: "correct_for n v prog \<Longrightarrow> n \<noteq> 0 \<Longrightarrow> sorts e (Some prog) (ether_proto_matches v)"
  by (simp add: sorts_def compiled_captured)

lemma fix_program_raw: "\<not> cooked l \<Longrightarrow> fix_program l ps = Some ps"
  by (induction ps) (simp_all add: fix_insn_def)

text \<open>What a successful \<open>pcap_setfilter\<close> leaves: the kernel filters and the library covers what is in the ring, or the library
  filters alone.\<close>

lemma static_count [simp]: "static_part (count_blocks_to_filter l) = static_part l"
  by (simp add: count_blocks_to_filter_def static_part_def Let_def)

lemma set_kernel_part:
  "static_part (snd (set_kernel_filter c f l)) = static_part l \<and> lp (snd (set_kernel_filter c f l)) = lp l \<and>
   ring (snd (set_kernel_filter c f l)) = ring l \<and> ring_offset (snd (set_kernel_filter c f l)) = ring_offset l \<and>
   blocks_to_filter (snd (set_kernel_filter c f l)) = blocks_to_filter l \<and> now (snd (set_kernel_filter c f l)) = now l \<and>
   filter_in_userland (snd (set_kernel_filter c f l)) = filter_in_userland l \<and> netdown (snd (set_kernel_filter c f l)) = netdown l \<and>
   (fst (set_kernel_filter c f l) = 0 \<longrightarrow> attached (snd (set_kernel_filter c f l)) = Some f)"
  by (simp add: set_kernel_filter_def attach_new_def reset_kernel_filter_def static_part_def Let_def)

lemma setfilter_cases:
  assumes "pcap_setfilter_linux e k c l (Some prog) = (0, l1)" "\<not> cooked l"
  obtains (kernel) l2 where "l1 = count_blocks_to_filter (tick k l2)" "static_part l2 = static_part l" "fcode (lp l2) = Some prog"
      "break_loop (lp l2) = break_loop (lp l)" "ring l2 = ring l" "ring_offset l2 = ring_offset l" "now l2 = now l"
      "netdown l2 = netdown l" "attached l1 = Some prog"
  | (library) "static_part l1 = static_part l" "fcode (lp l1) = Some prog" "break_loop (lp l1) = break_loop (lp l)" "ring l1 = ring l"
      "ring_offset l1 = ring_offset l" "now l1 = now l" "filter_in_userland l1" "blocks_to_filter l1 = blocks_to_filter l"
      "netdown l1 = netdown l" "attached l1 = None"
proof -
  obtain r p where i: "install_bpf_program e (lp l) prog = (r, p)" by fastforce
  let ?l = "l\<lparr>lp := p, filter_in_userland := True\<rparr>"
  obtain err l2 where s: "set_kernel_filter c prog ?l = (err, l2)" by fastforce
  note k = set_kernel_part [of c prog ?l, unfolded s fst_conv snd_conv]
  have r: "\<not> r < 0" "length prog \<le> USHRT_MAX \<longrightarrow> filter_malloc c"
    using assms(1) by (auto simp: pcap_setfilter_linux_def i Let_def split: if_splits)
  have p: "p = (lp l)\<lparr>fcode := Some prog\<rparr>" using i r(1)
    by (auto simp: install_bpf_program_def split: if_splits option.splits)
  have st: "static_part ?l = static_part l" by (simp add: static_part_def p)
  have f: "fix_program (l\<lparr>lp := p, filter_in_userland := True\<rparr>) prog = Some prog" by (rule fix_program_raw) (simp add: assms(2))
  have "pcap_setfilter_linux e k c l (Some prog) = (if length prog \<le> USHRT_MAX then
      if err = 0 then (0, count_blocks_to_filter (tick k (l2\<lparr>filter_in_userland := False\<rparr>)))
      else (case reset_kernel_filter (filter_removed c) l2 of (r, l) \<Rightarrow>
        if r = - 1 then (- 1, l\<lparr>live_errbuf := Some CannotRemoveFilter\<rparr>) else if err = - 2 then (- 1, l) else (0, l))
      else (case reset_kernel_filter (filter_removed c) ?l of (r, l) \<Rightarrow>
        if r = - 1 then (- 1, l\<lparr>live_errbuf := Some CannotRemoveFilter\<rparr>) else (0, l)))"
    using r by (simp add: pcap_setfilter_linux_def i Let_def f s)
  then have "(err = 0 \<and> l1 = count_blocks_to_filter (tick k (l2\<lparr>filter_in_userland := False\<rparr>))) \<or>
      l1 = l2\<lparr>attached := None\<rparr> \<or> l1 = ?l\<lparr>attached := None\<rparr>"
    using assms(1) by (cases "length prog \<le> USHRT_MAX"; cases "err = 0"; cases "filter_removed c"; cases "err = - 2")
      (simp_all add: reset_kernel_filter_def)
  then consider "err = 0" "l1 = count_blocks_to_filter (tick k (l2\<lparr>filter_in_userland := False\<rparr>))"
    | l3 where "l1 = l3\<lparr>attached := None\<rparr>" "l3 = l2 \<or> l3 = ?l" by blast
  then show thesis
  proof cases
    case 1
    have "attached (fold hand_block bs q) = attached q" for bs q by (induction bs arbitrary: q) (simp_all add: hand_block_def)
    then have "attached l1 = Some prog" using 1 k by (simp add: count_blocks_to_filter_def Let_def tick_def)
    have "static_part (l2\<lparr>filter_in_userland := False\<rparr>) = static_part l2" by (simp add: static_part_def)
    then have "static_part (l2\<lparr>filter_in_userland := False\<rparr>) = static_part l" using k st by simp
    from kernel [OF 1(2) this] \<open>attached l1 = _\<close> show ?thesis using k by (simp add: p)
  next
    case 2
    have "static_part l1 = static_part l3" by (simp add: 2(1) static_part_def)
    then have "static_part l1 = static_part l" using 2(2) k st by auto
    from library [OF this] show ?thesis using 2 k by (auto simp: p)
  qed
qed

lemma filters_from_mono: "filters_from k full t Pf \<Longrightarrow> (\<And>fr. Pf fr \<Longrightarrow> Pf' fr) \<Longrightarrow> filters_from k full t Pf'"
  unfolding filters_from_def by blast

lemma covers_blocks:
  assumes "ring_ok l"
  shows "blocks_to_filter (count_blocks_to_filter l) \<le> int (length (ring l))"
    "length (view l) = length (ring l) \<or> int (length (view l)) < blocks_to_filter (count_blocks_to_filter l)"
    "0 < blocks_to_filter (count_blocks_to_filter l)" "int (length (view l)) \<le> blocks_to_filter (count_blocks_to_filter l)"
  using view_le [of l] assms unfolding blocks_counted [OF assms] by (auto simp: ring_ok_def)

lemma count_same:
  "view (count_blocks_to_filter l) = view l" "ring (count_blocks_to_filter l) = ring l" "now (count_blocks_to_filter l) = now l"
  "ring_ok (count_blocks_to_filter l) = ring_ok l" "lp (count_blocks_to_filter l) = lp l" "filter_in_userland (count_blocks_to_filter l)"
  "netdown (count_blocks_to_filter l) = netdown l" "attached (count_blocks_to_filter l) = attached l"
  by (simp_all add: count_blocks_to_filter_def view_def rotated_def ring_ok_def Let_def)

lemma frames_read_start: "frames_read k l [] l"
  by (simp add: frames_read_def handed_in_def)

lemma ring_view_cong: "ring l = ring l' \<Longrightarrow> ring_offset l = ring_offset l' \<Longrightarrow> view l = view l' \<and> ring_ok l = ring_ok l'"
  by (simp add: view_def rotated_def ring_ok_def)

lemma filter_installed:
  assumes "correct_for (snapshot (lp l)) v prog" "22 \<le> snapshot (lp l)" "live_ok l" "ring_ok l" "\<not> cooked l" "blocks_to_filter l = 0"
    and "\<forall>b \<in> set (view l). block_ok l b" "kernel_ok k l" "pcap_setfilter_linux e k c l (Some prog) = (0, l1)"
    and "attached l1 \<noteq> None \<Longrightarrow> filters_from k (length (view l1) = length (ring l1)) (now l1) (accepted_by e prog l)"
    and "ends_at k T"
  shows "set_up e k l1 (ether_proto_matches v) T \<and> capturing_by k l1 (ether_proto_matches v) [] l1 \<and> static_part l1 = static_part l \<and>
    (quiet_until k T \<and> \<not> break_loop (lp l) \<and> \<not> netdown l \<longrightarrow> calm k T l1)"
proof -
  have n: "snapshot (lp l) \<noteq> 0" using assms(2) by (auto simp: word_le_nat_alt)
  have s: "static_part l1 = static_part l \<and> fcode (lp l1) = Some prog \<and> break_loop (lp l1) = break_loop (lp l) \<and> netdown l1 = netdown l \<and>
      ring_ok l1 \<and> length (ring l1) = length (ring l) \<and> (\<forall>b \<in> set (view l1). block_ok l b) \<and>
      filter_covers k l1 (\<lambda>fr. ether_proto_matches v (seen l fr)) l1"
    using assms(9,5)
  proof (cases rule: setfilter_cases)
    case (kernel l2)
    have r: "ring_ok l2" "view l2 = view l" "length (ring l2) = length (ring l)"
      using ring_view_cong [OF kernel(5,6)] assms(4) kernel(5) by simp_all
    note t = tick_view [OF r(1), of k] and c = covers_blocks [OF tick_view(1) [OF r(1), of k]]
    have b: "\<forall>b \<in> set (view (tick k l2)). block_ok l b"
      unfolding t(3) using assms(7,8) r(2) by (auto simp: kernel_ok_def dest!: in_set_takeD)
    have f: "filters_from k (length (view l1) = length (ring l1)) (now l1) (\<lambda>fr. ether_proto_matches v (seen l fr))"
      using filters_from_mono [OF assms(10) accepted_matches [OF assms(1,2)]] kernel(9) by simp
    have "filter_covers k l1 (\<lambda>fr. ether_proto_matches v (seen l fr)) l1"
      using f c view_le [of "tick k l2"] unfolding kernel(1) filter_covers_def by (auto simp: count_same)
    moreover have "netdown (tick k l2) = netdown l2"
    proof -
      have "netdown (fold hand_block bs x) = netdown x" for bs x by (induction bs arbitrary: x) (simp_all add: hand_block_def)
      then show ?thesis by (simp add: tick_def)
    qed
    ultimately show ?thesis using kernel b t(1,2) r(3) by (simp add: count_same)
  next
    case library
    then show ?thesis using ring_view_cong [OF library(4,5)] assms(4,6,7) by (simp add: filter_covers_def)
  qed
  then have st: "static_part l1 = static_part l" by blast
  note fr = static_frame [OF st]
  have "block_ok l1 = block_ok l" by (simp add: block_ok_def fr fun_eq_iff)
  then have "capturing_by k l1 (ether_proto_matches v) [] l1" "kernel_ok k l1"
    using s assms(8) frames_read_start by (simp_all add: capturing_def ring_shared_def kernel_ok_def fr)
  moreover have "live_ok l1" using live_ok_static [OF st _ _ assms(3)] s by blast
  ultimately show ?thesis using s assms(11) compiled_sorts [OF assms(1) n] by (simp add: set_up_def calm_def)
qed

lemma handed_in_end:
  assumes "ends_at k T" "T \<le> u"
  shows "handed_in k t u = handed_in k t T"
  using assms(2)
proof (induction u rule: dec_induct)
  case (step u)
  have "hands k u = []" using assms(1) step by (simp add: ends_at_def)
  then show ?case using step by (cases "t \<le> u") (simp_all add: handed_in_def)
qed simp

lemma handed_in_upto: "u \<le> T \<Longrightarrow> t \<le> u \<Longrightarrow> handed_in k t T = handed_in k t u @ handed_in k u T"
  using upt_add_eq_append [of t u "T - u"] by (simp add: handed_in_def)

lemma frames_read_result:
  assumes "frames_read k l0 frs q" "ends_at k T"
  shows "\<exists>bs. subseq bs (handed_in k (now l0) T) \<and> prefix frs (map hd (view l0 @ bs)) \<and>
    (T \<le> now q \<and> view q = [] \<longrightarrow> frs = map hd (view l0 @ bs) \<and>
      (length (view l0) + length (handed_in k (now l0) T) \<le> length (ring l0) \<longrightarrow> bs = handed_in k (now l0) T))"
proof -
  obtain bs where bs: "now l0 \<le> now q" "subseq bs (handed_in k (now l0) (now q))"
    "length (view l0) + length (handed_in k (now l0) (now q)) \<le> length (ring l0) \<longrightarrow> bs = handed_in k (now l0) (now q)"
    "frs @ map hd (view q) = map hd (view l0 @ bs)" using assms(1) by (auto simp: frames_read_def)
  have p: "prefix frs (map hd (view l0 @ bs))" unfolding bs(4) [symmetric] by simp
  show ?thesis
  proof (cases "T \<le> now q")
    case True
    note h = handed_in_end [OF assms(2) True, of "now l0"]
    show ?thesis using bs(2-) p unfolding h by (intro exI [of _ bs]) auto
  next
    case False
    then have "subseq bs (handed_in k (now l0) T)"
      using handed_in_upto [of "now q" T "now l0" k] bs(1,2)
        list_emb_append_mono [of "(=)" bs "handed_in k (now l0) (now q)" "[]" "handed_in k (now q) T"] by simp
    then show ?thesis using p False by (intro exI [of _ bs]) auto
  qed
qed

lemma deliveries_static:
  assumes "static_part l = static_part l'"
  shows "deliveries l P frs = deliveries l' P frs"
proof -
  have "delivered l = delivered l'" by (simp add: delivered_def static_frame [OF assms] static_partD(2) [OF assms] fun_eq_iff)
  then show ?thesis by (simp add: deliveries_def static_frame [OF assms])
qed

lemma live_capture:
  assumes "compile_ether_proto (snapshot (lp l)) v = Some prog" "22 \<le> snapshot (lp l)"
    and "live_ok l" "ring_ok l" "\<not> cooked l" "blocks_to_filter l = 0" "\<forall>b \<in> set (view l). block_ok l b" "kernel_ok k l"
    and "pcap_setfilter_linux e k c l (Some prog) = (0, l1)"
    and "attached l1 \<noteq> None \<Longrightarrow> filters_from k (length (view l1) = length (ring l1)) (now l1) (accepted_by e prog l)"
    and "ends_at k T" "looks_captured cb"
  shows "\<exists>r q bs frs. pcap_loop_live False e k l1 cnt cb s = Some (Inr (r, q, feed cb (deliveries l (ether_proto_matches v) frs) s)) \<and>
    subseq bs (handed_in k (now l1) T) \<and> prefix frs (map hd (view l1 @ bs)) \<and>
    (quiet_until k T \<and> \<not> break_loop (lp l) \<and> \<not> netdown l \<and> never_breaks cb \<and> cnt \<le> 0 \<longrightarrow>
      r = PCAP_ERROR_BREAK \<and> frs = map hd (view l1 @ bs) \<and>
      (length (view l1) + length (handed_in k (now l1) T) \<le> length (ring l1) \<longrightarrow> bs = handed_in k (now l1) T))"
proof -
  have n: "snapshot (lp l) \<noteq> 0" using assms(2) by (auto simp: word_le_nat_alt)
  have "correct_for (snapshot (lp l)) v prog" using compile_correct [OF n, of v] assms(1) by auto
  note i = filter_installed [OF this assms(2-11)]
  have st: "static_part l1 = static_part l" and up: "set_up e k l1 (ether_proto_matches v) T"
    and c: "capturing_by k l1 (ether_proto_matches v) [] l1" using i by blast+
  from loop_live_returns [OF up c assms(12), of cnt s] obtain r q t frs where
    r: "pcap_loop_live False e k l1 cnt cb s = Some (Inr (r, q, t))" "capturing_by k l1 (ether_proto_matches v) frs q"
      "t = feed cb (deliveries l1 (ether_proto_matches v) frs) s"
      "never_breaks cb \<and> calm k T l1 \<and> cnt \<le> 0 \<longrightarrow> r = PCAP_ERROR_BREAK \<and> view q = [] \<and> T \<le> now q" by auto
  have "frames_read k l1 frs q" using r(2) by (simp add: capturing_def)
  from frames_read_result [OF this assms(11)] r(1,3,4) i show ?thesis
    unfolding deliveries_static [OF st] by (intro exI [of _ r] exI [of _ q]) blast
qed

text \<open>C30: a live capture through a filter. The program of \<open>ether proto v\<close> for Ethernet is installed on a device while packets that
  the kernel did not put through it may lie in the ring; the kernel then filters what it hands over, up to one block that was
  already on its way, or it refuses the filter. Whatever blocks it hands over and whatever \<open>poll\<close> reports until the capture is
  stopped, \<open>pcap_loop\<close> returns without a memory fault, and the program gets exactly the packets that match, with the direction
  that is asked for, of a first part of what was in the ring and of what the kernel handed over, in order. If nothing but the
  end stops it, these are all the packets, and none is lost while the ring has room.\<close>

theorem live_filter_exact:
  assumes "compile_ether_proto (snapshot (lp l)) v = Some prog" "22 \<le> snapshot (lp l)"
    and "live_ok l" "ring_ok l" "\<not> cooked l" "blocks_to_filter l = 0" "\<forall>b \<in> set (view l). block_ok l b" "kernel_ok k l"
    and "pcap_setfilter_linux e k c l (Some prog) = (0, l1)"
    and "attached l1 \<noteq> None \<Longrightarrow> filters_from k (length (view l1) = length (ring l1)) (now l1) (accepted_by e prog l)"
    and "ends_at k T" "looks_captured cb"
  shows "\<exists>r q bs frs. pcap_loop_live False e k l1 cnt cb s = Some (Inr (r, q, feed cb (deliveries l (ether_proto_matches v) frs) s)) \<and>
    subseq bs (handed_in k (now l1) T) \<and> prefix frs (map hd (view l1 @ bs)) \<and>
    (quiet_until k T \<and> \<not> break_loop (lp l) \<and> \<not> netdown l \<and> never_breaks cb \<and> cnt \<le> 0 \<longrightarrow>
      r = PCAP_ERROR_BREAK \<and> frs = map hd (view l1 @ bs) \<and>
      (length (view l1) + length (handed_in k (now l1) T) \<le> length (ring l1) \<longrightarrow> bs = handed_in k (now l1) T))"
  by (rule live_capture) (rule assms | assumption)+

section \<open>What the installation counts, and a filter that is taken back\<close>

text \<open>C37: the number of blocks that the library filters itself after the kernel took a filter: all that are filled, and one
  more if there is one, so that a block that was on its way is filtered too; and never more than the ring has.\<close>

theorem filtered_blocks_cover:
  assumes "pcap_setfilter_linux e k c l (Some prog) = (0, l1)" "attached l1 \<noteq> None" "\<not> cooked l" "ring_ok l"
  shows "filter_in_userland l1 \<and> view l1 = view l @ take (length (ring l) - length (view l)) (hands k (now l)) \<and>
    int (min (length (view l1) + 1) (length (ring l))) \<le> blocks_to_filter l1 \<and> blocks_to_filter l1 \<le> int (length (ring l))"
  using assms(1,3)
proof (cases rule: setfilter_cases)
  case (kernel l2)
  have r: "ring_ok l2" "view l2 = view l" "length (ring l2) = length (ring l)"
    using ring_view_cong [OF kernel(5,6)] assms(4) kernel(5) by simp_all
  note t = tick_view [OF r(1), of k] and c = covers_blocks [OF tick_view(1) [OF r(1), of k]]
  show ?thesis using c t(2,3) r kernel(1,7) by (auto simp: count_same)
qed (use assms(2) in simp)

lemma release_counts:
  assumes "0 < blocks_to_filter l"
  shows "blocks_to_filter (release_block l) = blocks_to_filter l - 1"
    "filter_in_userland (release_block l) = (blocks_to_filter l \<noteq> 1 \<and> filter_in_userland l)"
  using assms by (simp_all add: release_block_def Let_def)

lemma releases_count:
  assumes "0 < blocks_to_filter l" "int n < blocks_to_filter l"
  shows "blocks_to_filter ((release_block ^^ n) l) = blocks_to_filter l - int n \<and>
    filter_in_userland ((release_block ^^ n) l) = filter_in_userland l"
  using assms(2)
proof (induction n)
  case (Suc n)
  then show ?case using release_counts [of "(release_block ^^ n) l"] by simp
qed simp

lemma release_attached: "attached ((release_block ^^ n) l) = attached l"
  by (induction n) (simp_all add: release_block_def Let_def)

text \<open>C39: a filter that the kernel refuses is forgotten if an earlier one was still being brought in. When the library
  falls back to filtering itself, the count of the blocks that are left from the earlier filter stays; when so many blocks
  are released, the filter is switched off, though the kernel has none, and a frame is then handed over whatever it is.\<close>

theorem fallback_forgets_filter:
  assumes "pcap_setfilter_linux e k c l (Some prog) = (0, l1)" "attached l1 = None" "\<not> cooked l" "0 < blocks_to_filter l"
    and "q = (release_block ^^ nat (blocks_to_filter l)) l1" "live_ok q" "frame_ok q fr" "wanted q fr"
  shows "filter_in_userland l1 \<and> \<not> filter_in_userland q \<and> attached q = None \<and>
    (\<exists>data. judge_packet e q fr = Some (Inr (Handed (handed_header q fr) data)))"
proof -
  have l1: "filter_in_userland l1" "blocks_to_filter l1 = blocks_to_filter l"
    using assms(1,3) by (cases rule: setfilter_cases; use assms(2) in simp)+
  obtain m where m: "nat (blocks_to_filter l) = Suc m" using assms(4) by (cases "nat (blocks_to_filter l)") auto
  then have "blocks_to_filter l = int m + 1" using assms(4) by simp
  then have "\<not> filter_in_userland q"
    using releases_count [of l1 m] release_counts(2) [of "(release_block ^^ m) l1"] l1 unfolding assms(5) m by simp
  moreover have "attached q = None" unfolding assms(5) release_attached by (rule assms(2))
  ultimately show ?thesis using judge_ok [OF assms(7,6), of e "\<lambda>_. True"] assms(8) l1(1) by auto
qed

section \<open>A concrete capture\<close>

definition frame_of :: "byte list \<Rightarrow> tpacket" where
  "frame_of p = \<lparr>tp_status = 1, tp_len = of_nat (length p), tp_snaplen = of_nat (length p), tp_mac = 96, tp_sec = 5, tp_nsec = 7000,
     tp_vlan_tci = 0, tp_vlan_tpid = 0, fr_mem = replicate 96 0 @ p\<rparr>"

abbreviation frame_live :: "byte list \<Rightarrow> tpacket" where
  "frame_live ty \<equiv> frame_of (snd (frame_example ty))"

definition live_example :: "live" where
  "live_example = \<lparr>lp = writer_example\<lparr>snapshot := 176, bufsize := 2000\<rparr>, direction = PCAP_D_INOUT,
     ring = [Some [frame_live [8, 0]], None, None],
     ring_offset = 0, filter_in_userland = False, blocks_to_filter = 0, timeout = 0, poll_timeout = - 1, breakloop_fd = True,
     cooked = False, ifindex = 2, lo_ifindex = 1, netdown = False, vlan_offset = 12, tp_hdrlen = 48, current_packet = None,
     attached = None, live_errbuf = None, now = 0\<rparr>"

definition report_example :: "bool \<Rightarrow> poll_report" where
  "report_example stop = \<lparr>poll_ret = (if stop then - 1 else 1), interrupted = stop, called_break = stop, revents_socket = POLLIN,
     socket_error = 0, revents_event = 0, event_read = 0, socket_name = None, device_flags = Inl True\<rparr>"

definition kernel_example :: "byte list \<Rightarrow> byte list \<Rightarrow> kernel" where
  "kernel_example a b = \<lparr>hands = (\<lambda>t. if t = 1 then [[frame_of a]] else if t = 2 then [[frame_of b]] else []),
     polls = (\<lambda>t. report_example (4 \<le> t))\<rparr>"

definition calls_example :: "bool \<Rightarrow> filter_calls" where
  "calls_example taken_on = \<lparr>filter_malloc = True, attach_total = True, fd_flags_read = True, fd_nonblocking = True, queue_drained = True,
     fd_flags_restored = True, attach_filter = taken_on, total_removed = True, filter_removed = True\<rparr>"

lemmas live_example_simps = live_example_def writer_example_def frame_of_def

lemma le_word_zeros: "le_word (replicate n 0) = 0"
  by (rule bit_word_eqI) (auto simp: bit_le_word)

lemma frame_of_sll: "read_sll live_example (fr_mem (frame_of p)) = Inr \<lparr>sll_protocol = 0, sll_ifindex = 0, sll_hatype = 0,
    sll_pkttype = 0, sll_halen = 0, sll_addr = replicate 8 0\<rparr>"
proof -
  have m: "take 20 (drop 48 (fr_mem (frame_of p))) = replicate 20 0" "68 \<le> length (fr_mem (frame_of p))"
    by (simp_all add: frame_of_def)
  have "peek 48 20 (fr_mem (frame_of p)) = Inr (replicate 20 0)" using peek_ok [of 48 20] m by simp
  then show ?thesis by (simp add: read_sll_def live_example_def TPACKET_ALIGN_def get_def le_word_zeros)
qed

lemma frame_of_ok: "8 \<le> length p \<Longrightarrow> length p \<le> 176 \<Longrightarrow> frame_ok live_example (frame_of p)"
  by (simp add: frame_ok_def live_example_simps TPACKET_ALIGN_def added_room_def unat_of_nat take_bit_nat_eq_self)

lemma frame_of_seen: "8 \<le> length p \<Longrightarrow> length p \<le> 176 \<Longrightarrow> seen live_example (frame_of p) = p"
  using seen_raw [OF frame_of_ok _ frame_of_sll]
  by (simp add: live_example_simps ARPHRD_CAN_def unat_of_nat take_bit_nat_eq_self)

lemma frame_of_wanted: "wanted live_example (frame_of p)"
  by (simp add: wanted_def frame_of_sll linux_check_direction_def PACKET_OUTGOING_def) (simp add: live_example_def)

lemma frame_of_tagged: "\<not> tagged l (frame_of p)"
  by (simp add: tagged_def VLAN_VALID_def TP_STATUS_VLAN_VALID_def frame_of_def)

lemma length_example: "length ty = 2 \<Longrightarrow> length (snd (frame_example ty)) = 16"
  by (simp add: frame_example_def)

lemma frame_live_delivered: "length ty = 2 \<Longrightarrow> delivered live_example (frame_live ty) = frame_example ty"
  by (simp add: delivered_def frame_of_seen length_example with_tag_def frame_of_tagged handed_header_def packet_header_of_def
      trim_to_snapshot_def)
    (simp add: live_example_simps frame_example_def PCAP_TSTAMP_PRECISION_MICRO_def PCAP_TSTAMP_PRECISION_NANO_def)

lemma live_ok_example: "live_ok live_example"
  by (simp add: live_ok_def live_example_simps live_consts INT_MAX_def)

lemma ring_example: "view live_example = [[frame_live [8, 0]]]" "ring_ok live_example"
  by (simp_all add: view_def ring_ok_def rotated_def live_example_def)

lemma kernel_ok_example:
  assumes "length a \<in> {8..176}" "length b \<in> {8..176}"
  shows "kernel_ok (kernel_example a b) live_example"
  using assms by (auto simp: kernel_ok_def kernel_example_def block_ok_def frame_of_ok)

lemma handed_example: "t \<le> 1 \<Longrightarrow> handed_in (kernel_example a b) t 4 = [[frame_of a], [frame_of b]]"
  by (cases t) (simp_all add: handed_in_def kernel_example_def upt_rec)

lemma kernel_example_run: "ends_at (kernel_example a b) 4" "quiet_until (kernel_example a b) 4"
  by (simp_all add: ends_at_def quiet_until_def kernel_example_def report_example_def)

lemma live_example_calm:
  "\<not> cooked live_example" "blocks_to_filter live_example = 0" "\<not> break_loop (lp live_example)" "\<not> netdown live_example"
  "snapshot (lp live_example) = 176" "\<forall>b \<in> set (view live_example). block_ok live_example b"
  by (simp_all add: ring_example(1) block_ok_def frame_of_ok length_example) (simp_all add: live_example_simps)

text \<open>Of what this kernel hands over after the installation, the last packet went through the filter.\<close>

lemma filters_example:
  assumes "correct_for 176 v prog" "length b \<in> {8..176}" "ether_proto_matches v b" "full = False" "t \<le> 1"
  shows "filters_from (kernel_example a b) full t (accepted_by e prog live_example)"
proof -
  have l: "length b < 2 ^ 32" using assms(2) by simp
  have "pcap_filter_with_aux_data (Some prog) b w (of_nat (length b)) aux m = Some (Returned 176)" for w aux m
    using conjunct2 [OF assms(1) [unfolded correct_for_def], rule_format, OF l] assms(3) by simp
  then have "accepted_by e prog live_example (frame_of b)"
    unfolding accepted_by_def using frame_of_seen [of b] assms(2)
    by (intro exI [of _ b] exI [of _ 0] exI [of _ None] exI [of _ 176]) simp
  moreover have "handed_in (kernel_example a b) t 2 \<noteq> []" using assms(5)
    by (cases t) (simp_all add: handed_in_def kernel_example_def upt_rec)
  ultimately show ?thesis using assms(4,5) by (auto simp: filters_from_def kernel_example_def handed_in_def)
qed

lemma setfilter_example:
  assumes "correct_for 176 v prog"
  shows "\<exists>l1. pcap_setfilter_linux env_example k (calls_example b) live_example (Some prog) = (0, l1)"
proof -
  have i: "install_bpf_program env_example (lp live_example) prog = (0, (lp live_example)\<lparr>fcode := Some prog\<rparr>)"
    using assms by (simp add: install_bpf_program_def correct_for_def env_example_def)
  have f: "fix_program (live_example\<lparr>lp := p, filter_in_userland := True\<rparr>) prog = Some prog" for p
    by (rule fix_program_raw) (simp add: live_example_def)
  show ?thesis
    by (cases "length prog \<le> USHRT_MAX"; cases b)
      (simp_all add: pcap_setfilter_linux_def i f Let_def set_kernel_filter_def attach_new_def reset_kernel_filter_def calls_example_def)
qed

lemma installed_example:
  assumes "pcap_setfilter_linux env_example (kernel_example a b) c live_example (Some prog) = (0, l1)"
  shows "view l1 = [[frame_live [8, 0]]] \<and> length (ring l1) = 3 \<and> now l1 \<le> 1"
proof -
  have e: "ring live_example = [Some [frame_live [8, 0]], None, None]" "now live_example = 0" "\<not> cooked live_example"
    by (simp_all add: live_example_def)
  from assms e(3) show ?thesis
  proof (cases rule: setfilter_cases)
    case (kernel l2)
    have r: "ring_ok l2" "view l2 = [[frame_live [8, 0]]]" using ring_view_cong [OF kernel(5,6)] ring_example by simp_all
    have "hands (kernel_example a b) (now l2) = []" by (simp add: kernel(7) e kernel_example_def)
    then show ?thesis using tick_view [OF r(1), of "kernel_example a b"] r(2) kernel(1,5,7) e by (simp add: count_same)
  next
    case library
    then show ?thesis using ring_view_cong [OF library(4,5)] ring_example(1) e by simp
  qed
qed

theorem live_filter_exact_witness:
  "\<exists>prog l1 q. compile_ether_proto 176 0x1234 = Some prog \<and>
    pcap_setfilter_linux env_example (kernel_example (snd (frame_example [8, 0])) (snd (frame_example [0x12, 0x34])))
      (calls_example True) live_example (Some prog) = (0, l1) \<and>
    pcap_loop_live False env_example (kernel_example (snd (frame_example [8, 0])) (snd (frame_example [0x12, 0x34]))) l1 0
      log_callback [] = Some (Inr (PCAP_ERROR_BREAK, q, [frame_example [0x12, 0x34]]))"
proof -
  let ?k = "kernel_example (snd (frame_example [8, 0])) (snd (frame_example [0x12, 0x34]))"
  note c = live_example_calm
  obtain prog where p: "compile_ether_proto 176 0x1234 = Some prog" "correct_for 176 0x1234 prog"
    using compile_correct [of 176 "0x1234"] by auto
  obtain l1 where l1: "pcap_setfilter_linux env_example ?k (calls_example True) live_example (Some prog) = (0, l1)"
    using setfilter_example [OF p(2)] by blast
  note i = installed_example [OF l1]
  have f: "filters_from ?k (length (view l1) = length (ring l1)) (now l1) (accepted_by env_example prog live_example)"
    by (rule filters_example [OF p(2)]) (use i frame_matches_example(1) in \<open>simp_all add: length_example\<close>)
  have cb: "looks_captured log_callback" "never_breaks log_callback"
    by (simp_all add: looks_captured_def never_breaks_def log_callback_def)
  have k: "kernel_ok ?k live_example" by (rule kernel_ok_example) (simp_all add: length_example)
  from live_filter_exact [OF p(1) [folded c(5)] _ live_ok_example ring_example(2) c(1,2,6) k l1 f kernel_example_run(1) cb(1),
      of 0 "[]"] obtain r q bs frs where
    r: "pcap_loop_live False env_example ?k l1 0 log_callback [] =
        Some (Inr (r, q, feed log_callback (deliveries live_example (ether_proto_matches 0x1234) frs) []))"
      "r = PCAP_ERROR_BREAK" "frs = map hd (view l1 @ bs)" "bs = handed_in ?k (now l1) 4"
    using kernel_example_run(2) cb(2) c i handed_example [of "now l1"] by auto
  have "frs = [frame_live [8, 0], frame_live [8, 0], frame_live [0x12, 0x34]]"
    using r(3,4) handed_example [of "now l1"] i by simp
  then have "feed log_callback (deliveries live_example (ether_proto_matches 0x1234) frs) [] = [frame_example [0x12, 0x34]]"
    using frame_matches_example by (simp add: deliveries_def frame_of_seen length_example frame_of_wanted frame_live_delivered)
      (simp add: frame_example_def log_callback_def)
  then show ?thesis using p(1) l1 r(1,2) by metis
qed

lemma total_fcode_valid: "pcap_validate_filter total_fcode"
  by (simp add: pcap_validate_filter_def total_fcode_def insn_valid_def Let_def upt_rec BPF_CLASS_def)

lemma total_installed: "install_bpf_program env_example p total_fcode = (0, p\<lparr>fcode := Some total_fcode\<rparr>)"
  by (simp add: install_bpf_program_def total_fcode_valid env_example_def)

lemma total_set:
  assumes "\<not> cooked l"
  shows "\<exists>l1. pcap_setfilter_linux env_example k (calls_example b) l (Some total_fcode) = (0, l1) \<and> (attached l1 = None \<longleftrightarrow> \<not> b)"
proof -
  have f: "fix_program (l\<lparr>lp := p, filter_in_userland := True\<rparr>) total_fcode = Some total_fcode" for p
    by (rule fix_program_raw) (simp add: assms)
  have n: "length total_fcode \<le> USHRT_MAX" by (simp add: total_fcode_def USHRT_MAX_def)
  have a: "attached (fold hand_block bs q) = attached q" for bs q by (induction bs arbitrary: q) (simp_all add: hand_block_def)
  show ?thesis
    by (cases b) (simp_all add: pcap_setfilter_linux_def total_installed f n Let_def set_kernel_filter_def attach_new_def
        reset_kernel_filter_def calls_example_def count_same tick_def a)
qed

theorem filtered_blocks_cover_witness:
  "\<exists>l1. pcap_setfilter_linux env_example (kernel_example [] []) (calls_example True) live_example (Some total_fcode) = (0, l1) \<and>
    filter_in_userland l1 \<and> view l1 = [[frame_live [8, 0]]] \<and> 2 \<le> blocks_to_filter l1 \<and> blocks_to_filter l1 \<le> 3"
proof -
  have c: "\<not> cooked live_example" by (simp add: live_example_def)
  obtain l1 where l1: "pcap_setfilter_linux env_example (kernel_example [] []) (calls_example True) live_example (Some total_fcode) = (0, l1)"
    "attached l1 \<noteq> None" using total_set [OF c, of "kernel_example [] []" True] by auto
  have "hands (kernel_example [] []) (now live_example) = []" "length (ring live_example) = 3" by (simp_all add: kernel_example_def live_example_def)
  then show ?thesis using filtered_blocks_cover [OF l1 c ring_example(2)] l1(1) by (auto simp: ring_example(1))
qed

definition pending_example :: live where
  "pending_example = live_example\<lparr>filter_in_userland := True, blocks_to_filter := 2\<rparr>"

lemma release_ring:
  "length (ring (release_block l)) = length (ring l)"
  "ring_offset (release_block l) = (if length (ring l) \<le> ring_offset l + 1 then 0 else ring_offset l + 1)"
  by (simp_all add: release_block_def Let_def)

theorem fallback_forgets_filter_witness:
  "\<exists>l1 data. pcap_setfilter_linux env_example (kernel_example [] []) (calls_example False) pending_example (Some total_fcode) = (0, l1) \<and>
    filter_in_userland l1 \<and> \<not> filter_in_userland (release_block (release_block l1)) \<and>
    judge_packet env_example (release_block (release_block l1)) (frame_live [8, 0]) =
      Some (Inr (Handed (handed_header (release_block (release_block l1)) (frame_live [8, 0])) data))"
proof -
  have c: "\<not> cooked pending_example" "0 < blocks_to_filter pending_example" "blocks_to_filter pending_example = 2"
    by (simp_all add: pending_example_def live_example_def)
  have sp: "static_part pending_example = static_part live_example" by (simp add: pending_example_def static_part_def)
  obtain l1 where l1: "pcap_setfilter_linux env_example (kernel_example [] []) (calls_example False) pending_example (Some total_fcode) = (0, l1)"
    "attached l1 = None" using total_set [OF c(1), of "kernel_example [] []" False] by auto
  let ?q = "release_block (release_block l1)"
  have q: "?q = (release_block ^^ nat (blocks_to_filter pending_example)) l1" by (simp add: c(3) numeral_2_eq_2)
  have s: "static_part ?q = static_part live_example \<and> ring l1 = ring live_example \<and> ring_offset l1 = 0"
    using l1(1) c(1)
  proof (cases rule: setfilter_cases)
    case library
    have "ring pending_example = ring live_example" "ring_offset pending_example = 0"
      by (simp_all add: pending_example_def) (simp add: live_example_def)
    then show ?thesis unfolding static_release library(1,4,5) sp by blast
  qed (use l1(2) in simp)
  note f = static_frame [OF conjunct1 [OF s]]
  have r: "length (ring ?q) = 3" "ring_offset ?q = 2"
    using release_ring [of l1] release_ring [of "release_block l1"] conjunct2 [OF s] by (simp_all add: live_example_def)
  have "live_ok ?q"
    using live_ok_example r unfolding live_ok_def static_partD [OF conjunct1 [OF s]] by auto
  from fallback_forgets_filter [OF l1 c(1,2) q this, of "frame_live [8, 0]"] show ?thesis
    using l1(1) by (auto simp: f frame_of_ok frame_of_wanted length_example)
qed

end
