(* ===== verification/Live_Open.thy ===== *)
theory Live_Open
  imports Live_Filter
begin

text \<open>
  How a device is opened: \<open>pcap_create\<close>, the setters and \<open>pcap_activate\<close> of \<open>libpcap1.10.4/pcap.c\<close>, and what they call in
  \<open>pcap-linux.c\<close> - the link type from the type of the hardware, the socket, and the ring with its geometry. The answers of the
  system are a record. The build is one without \<open>libnl\<close>, so there is no monitor mode.
\<close>

section \<open>Answers of the system\<close>

datatype open_error = PromiscOnAny | SocketDenied | SocketFailed | NoArptype | CloseFailed | UnknownArptype int | NoIndex
  | BindFailed | PromiscFailed | AuxdataFailed | TimestampsFailed | DsaRead | UnknownDsa "byte list" | NoOneshot | NoPacketMmap
  | HeaderLength | NoVersion | NoVersion2 | ReserveFailed | NoMtu | NoOffload | NoSocketType | HardwareDenied | HardwareFailed
  | PacketTimestamp | NoRing | NoMapping | NoFrameList | StatusText int | AlreadyActivated | NoDeviceName

datatype socket_answer = Opened | Denied | Failed

text \<open>\<open>bind\<close>: it fails because the network is down, because the device does not exist, or otherwise; after it the
  pending error of the socket, if that can be read (0 for none; \<open>Some None\<close> is \<open>ENETDOWN\<close>).\<close>

datatype bind_answer = BindNetdown | BindNoDevice | BindFails | NoPending | Pending bool int

datatype hardware_answer = HwGranted bool | HwDenied | HwUnsupported | HwFails

datatype ring_answer = RingGranted | RingNoMemory | RingRefused

text \<open>The answers, in the order in which they are asked for. \<open>arptype\<close> is the type, or whether the device does not exist;
  \<open>dsa_tagging\<close> is nothing without the file and then what was read of it, if it was; a version of the ring has a header of
  the answered length or an error (whether the version is unknown, and whether the whole interface is). The ring is asked for with
  the size of a block, the number of blocks and the number of frames.\<close>

record answers =
  handle_memory :: bool
  precision_memory :: bool
  event_fd :: bool
  device_memory :: bool
  if_drops :: int
  first_socket :: socket_answer
  lo_index :: int
  arptype :: "bool + int"
  is_wifi :: bool
  dsa_tagging :: "byte list option option"
  dlt_memory :: bool
  closed :: bool
  second_socket :: bool
  if_index :: int
  bind_socket :: bind_answer
  promisc_set :: bool
  auxdata_set :: bool
  timestamps_set :: bool
  oneshot_memory :: bool
  header_length :: "nat \<Rightarrow> (bool \<times> bool) + nat"
  version_set :: "nat \<Rightarrow> bool"
  reserve_set :: bool
  mtu :: int
  offload :: int
  socket_type :: "bool option"
  page_size :: nat
  hardware :: hardware_answer
  rx_ring :: "nat \<Rightarrow> nat \<Rightarrow> nat \<Rightarrow> ring_answer"
  mapped :: bool
  frames_memory :: bool
  broken_v3 :: bool
  bind_protocol :: bind_answer
  event_fd_nonblock :: bool

section \<open>Handles\<close>

record pcap_opt =
  device :: "byte list option"
  opt_timeout :: int
  buffer_size :: int
  promisc :: bool
  rfmon :: bool
  immediate :: bool
  nonblock :: bool
  tstamp_type :: int

text \<open>The live part of a handle is the one of the reading loops; a frame of the ring is its offset in the mapping.\<close>

record handle =
  hl :: live
  opt :: pcap_opt
  dlt_list :: "int list"
  tstamp_types :: "int list"
  precisions :: "u32 list"
  tp_version :: nat
  oneshot :: bool
  sysfs :: int
  mmapbuflen :: nat
  ring_frames :: "nat list"
  open_message :: "open_error option"
  fd_open :: bool

definition PCAP_ERROR_ACTIVATED :: int where "PCAP_ERROR_ACTIVATED = - 4"
definition PCAP_ERROR_NO_SUCH_DEVICE :: int where "PCAP_ERROR_NO_SUCH_DEVICE = - 5"
definition PCAP_ERROR_RFMON_NOTSUP :: int where "PCAP_ERROR_RFMON_NOTSUP = - 6"
definition PCAP_ERROR_PERM_DENIED :: int where "PCAP_ERROR_PERM_DENIED = - 8"
definition PCAP_ERROR_IFACE_NOT_UP :: int where "PCAP_ERROR_IFACE_NOT_UP = - 9"
definition PCAP_ERROR_PROMISC_PERM_DENIED :: int where "PCAP_ERROR_PROMISC_PERM_DENIED = - 11"
definition PCAP_ERROR_TSTAMP_PRECISION_NOTSUP :: int where "PCAP_ERROR_TSTAMP_PRECISION_NOTSUP = - 12"
definition PCAP_WARNING :: int where "PCAP_WARNING = 1"
definition PCAP_WARNING_PROMISC_NOTSUP :: int where "PCAP_WARNING_PROMISC_NOTSUP = 2"
definition PCAP_WARNING_TSTAMP_TYPE_NOTSUP :: int where "PCAP_WARNING_TSTAMP_TYPE_NOTSUP = 3"
definition PCAP_TSTAMP_HOST :: int where "PCAP_TSTAMP_HOST = 0"
definition PCAP_TSTAMP_ADAPTER :: int where "PCAP_TSTAMP_ADAPTER = 3"
definition PCAP_TSTAMP_ADAPTER_UNSYNCED :: int where "PCAP_TSTAMP_ADAPTER_UNSYNCED = 4"
definition MAX_LINKHEADER_SIZE :: nat where "MAX_LINKHEADER_SIZE = 256"
definition TPACKET_V2 :: nat where "TPACKET_V2 = 1"
definition TPACKET_V3 :: nat where "TPACKET_V3 = 2"

definition message :: "open_error \<Rightarrow> handle \<Rightarrow> handle" where
  "message err h = h\<lparr>open_message := Some err\<rparr>"

abbreviation upd_live :: "(live \<Rightarrow> live) \<Rightarrow> handle \<Rightarrow> handle" where
  "upd_live f h \<equiv> h\<lparr>hl := f (hl h)\<rparr>"

abbreviation set_linktype :: "int \<Rightarrow> handle \<Rightarrow> handle" where
  "set_linktype lt \<equiv> upd_live (\<lambda>l. l\<lparr>lp := (lp l)\<lparr>linktype := lt\<rparr>\<rparr>)"

section \<open>The link type of a device\<close>

definition dsa_protos :: "(string \<times> int) list" where
  "dsa_protos = [(''none'', DLT_EN10MB), (''brcm'', 281), (''brcm-prepend'', 282), (''dsa'', 284), (''edsa'', 285)]"

definition strip_newline :: "byte list \<Rightarrow> byte list" where
  "strip_newline bs = (if last bs = 10 then butlast bs else bs)"

definition iface_dsa_get_proto_info :: "answers \<Rightarrow> handle \<Rightarrow> int \<times> handle" where
  "iface_dsa_get_proto_info s h = (case dsa_tagging s of
     None \<Rightarrow> (0, h)
   | Some None \<Rightarrow> (PCAP_ERROR, message DsaRead h)
   | Some (Some r) \<Rightarrow>
       if r = [] then (PCAP_ERROR, message DsaRead h)
       else (case find (\<lambda>(name, lt). bytes_of name = strip_newline r) dsa_protos of
           None \<Rightarrow> (PCAP_ERROR, message (UnknownDsa (strip_newline r)) h)
         | Some (name, lt) \<Rightarrow> (if lt = DLT_EN10MB then 0 else 1, set_linktype lt h)))"

definition set_offset :: "nat \<Rightarrow> handle \<Rightarrow> handle" where
  "set_offset n = upd_live (\<lambda>l. l\<lparr>ring_offset := n\<rparr>)"

text \<open>Types of hardware with one link type, which is set with the offset that aligns the payload.\<close>

definition arphrd_linktypes :: "(int \<times> int) list" where
  "arphrd_linktypes = [(2, 2), (3, 202), (4, 4), (5, 5), (280, 227), (7, 129), (801, 105), (802, 119), (803, 127), (513, 104),
     (768, 12), (776, 12), (257, 12), (258, 12), (259, 12), (264, 12), (256, 12), (518, 12), (15, 12), (770, 107), (773, 114),
     (18, 122), (783, 144), (8445, 177), (0xFFFE, 12), (804, 230), (824, 253), (826, 271)]"

definition DLT_RAW :: int where "DLT_RAW = 12"
definition DLT_DOCSIS :: int where "DLT_DOCSIS = 143"
definition DLT_LINUX_IRDA :: int where "DLT_LINUX_IRDA = 144"
definition DLT_LINUX_LAPD :: int where "DLT_LINUX_LAPD = 177"
definition DLT_NETLINK :: int where "DLT_NETLINK = 253"
definition DLT_FC_2 :: int where "DLT_FC_2 = 224"

definition ethernet_type :: "handle \<Rightarrow> handle" where
  "ethernet_type h = set_offset 2 (set_linktype DLT_EN10MB h)"

definition map_arphrd_to_dlt :: "answers \<Rightarrow> byte list \<Rightarrow> int \<Rightarrow> bool \<Rightarrow> handle \<Rightarrow> handle" where
  "map_arphrd_to_dlt s dev arp cooked_ok h =
    (if arp = 1 then
       (if take 10 dev = bytes_of ''cdma_rmnet'' then set_linktype DLT_RAW h
        else if is_wifi s then ethernet_type h
        else (case iface_dsa_get_proto_info s h of (ret, h) \<Rightarrow>
          if ret < 0 then h
          else if ret = 1 then set_offset 2 h
          else ethernet_type (if dlt_memory s then h\<lparr>dlt_list := [DLT_EN10MB, DLT_DOCSIS]\<rparr> else h)))
     else if arp = 23 \<or> arp = 772 then ethernet_type h
     else if arp = 800 \<or> arp = 6 then set_offset 2 (set_linktype 6 h)
     else if arp = 774 then set_offset 3 (set_linktype 10 h)
     else if arp = 19 then set_linktype (if cooked_ok then DLT_LINUX_SLL else - 1) h
     else if arp = 512 then set_linktype (if cooked_ok then DLT_LINUX_SLL else DLT_RAW) h
     else if arp \<in> {784, 785, 786, 787} then
       set_linktype DLT_FC_2 (if dlt_memory s then h\<lparr>dlt_list := [DLT_FC_2, 225, 122]\<rparr> else h)
     else (case map_of arphrd_linktypes arp of Some lt \<Rightarrow> set_linktype lt h | None \<Rightarrow> set_linktype (- 1) h))"

definition set_dlt_list_cooked :: "answers \<Rightarrow> handle \<Rightarrow> handle" where
  "set_dlt_list_cooked s h = h\<lparr>dlt_list := (if dlt_memory s then [DLT_LINUX_SLL, DLT_LINUX_SLL2] else [])\<rparr>"

section \<open>The socket\<close>

text \<open>A step that fails gives the status and the handle.\<close>

type_synonym step = "(int \<times> handle) + handle"

definition need :: "bool \<Rightarrow> open_error \<Rightarrow> handle \<Rightarrow> step" where
  "need ok err h = (if ok then Inr h else Inl (PCAP_ERROR, message err h))"

definition iface_bind :: "bind_answer \<Rightarrow> handle \<Rightarrow> int \<times> handle" where
  "iface_bind b h = (case b of
     BindNetdown \<Rightarrow> (PCAP_ERROR_IFACE_NOT_UP, h)
   | BindNoDevice \<Rightarrow> (PCAP_ERROR_NO_SUCH_DEVICE, h\<lparr>open_message := None\<rparr>)
   | BindFails \<Rightarrow> (PCAP_ERROR, message BindFailed h)
   | NoPending \<Rightarrow> (PCAP_ERROR, message BindFailed h)
   | Pending down err \<Rightarrow> if down then (PCAP_ERROR_IFACE_NOT_UP, h) else if 0 < err then (PCAP_ERROR, message BindFailed h) else (0, h))"

definition bound :: "bind_answer \<Rightarrow> handle \<Rightarrow> step" where
  "bound b h = (case iface_bind b h of (err, h) \<Rightarrow> if err \<noteq> 0 then Inl (err, h) else Inr h)"

definition needs_cooked :: "byte list \<Rightarrow> int \<Rightarrow> bool" where
  "needs_cooked dev lt \<longleftrightarrow> lt \<in> {- 1, DLT_LINUX_SLL, DLT_LINUX_IRDA, DLT_LINUX_LAPD, DLT_NETLINK} \<or>
     lt = DLT_EN10MB \<and> (take 4 dev = bytes_of ''isdn'' \<or> take 4 dev = bytes_of ''isdY'')"

abbreviation link_of :: "handle \<Rightarrow> int" where
  "link_of h \<equiv> linktype (lp (hl h))"

definition reopen_cooked :: "answers \<Rightarrow> int \<Rightarrow> handle \<Rightarrow> (int \<times> handle) + (int \<times> handle)" where
  "reopen_cooked s arp h =
    bind_r (need (closed s) CloseFailed h) (\<lambda>h. bind_r (need (second_socket s) SocketFailed h) (\<lambda>h.
      let h = upd_live (\<lambda>l. l\<lparr>cooked := True\<rparr>) h;
          h = (if dlt_list h \<noteq> [] then set_dlt_list_cooked s h else h);
          h = (if link_of h = - 1 then message (UnknownArptype arp) h else h);
          h = (if link_of h \<notin> {DLT_LINUX_IRDA, DLT_LINUX_LAPD, DLT_NETLINK} then set_linktype DLT_LINUX_SLL h else h) in
      if link_of h = - 1 then Inr (PCAP_WARNING, message (UnknownArptype arp) h) else Inr (0, h)))"

definition raw_socket :: "answers \<Rightarrow> byte list \<Rightarrow> handle \<Rightarrow> (int \<times> handle) + (int \<times> handle)" where
  "raw_socket s dev h =
    (let h = upd_live (\<lambda>l. l\<lparr>cooked := False\<rparr>) h in
     if rfmon (opt h) then Inl (PCAP_ERROR_RFMON_NOTSUP, h)
     else case arptype s of
       Inl gone \<Rightarrow> Inl (if gone then (PCAP_ERROR_NO_SUCH_DEVICE, h\<lparr>open_message := None\<rparr>) else (PCAP_ERROR, message NoArptype h))
     | Inr arp \<Rightarrow>
         let h = map_arphrd_to_dlt s dev arp True h in
         bind_r (if needs_cooked dev (link_of h) then reopen_cooked s arp h else Inr (0, h)) (\<lambda>(status, h).
           let h = upd_live (\<lambda>l. l\<lparr>ifindex := if_index s\<rparr>) h in
           bind_r (need (if_index s \<noteq> - 1) NoIndex h) (\<lambda>h.
           bind_r (bound (bind_socket s) h) (\<lambda>h. Inr (status, h)))))"

definition any_socket :: "answers \<Rightarrow> handle \<Rightarrow> (int \<times> handle) + (int \<times> handle)" where
  "any_socket s h =
    (if rfmon (opt h) then Inl (PCAP_ERROR_RFMON_NOTSUP, h)
     else Inr (0, upd_live (\<lambda>l. l\<lparr>ifindex := - 1\<rparr>)
       (set_dlt_list_cooked s (set_linktype DLT_LINUX_SLL (upd_live (\<lambda>l. l\<lparr>cooked := True\<rparr>) h)))))"

text \<open>The snapshot length has room for a cooked header and a byte.\<close>

definition snapshot_for_cooked :: "handle \<Rightarrow> handle" where
  "snapshot_for_cooked h =
    (let snap = snapshot (lp (hl h));
         snap = (if cooked (hl h) \<and> sint snap < int SLL2_HDR_LEN + 1 then of_nat SLL2_HDR_LEN + 1 else snap) in
     upd_live (\<lambda>l. l\<lparr>lp := (lp l)\<lparr>snapshot := snap, bufsize := snap\<rparr>\<rparr>) h)"

definition setup_socket :: "answers \<Rightarrow> byte list \<Rightarrow> bool \<Rightarrow> handle \<Rightarrow> (int \<times> handle) + (int \<times> handle)" where
  "setup_socket s dev any h = (case first_socket s of
     Denied \<Rightarrow> Inl (PCAP_ERROR_PERM_DENIED, message SocketDenied h)
   | Failed \<Rightarrow> Inl (PCAP_ERROR, message SocketFailed h)
   | Opened \<Rightarrow>
       let h = (if lo_index s = - 1 then message NoIndex h else h);
           h = upd_live (\<lambda>l. l\<lparr>lo_ifindex := lo_index s, ring_offset := 0\<rparr>) h in
       bind_r (if any then any_socket s h else raw_socket s dev h) (\<lambda>(status, h).
       bind_r (need (any \<or> \<not> promisc (opt h) \<or> promisc_set s) PromiscFailed h) (\<lambda>h.
       bind_r (need (auxdata_set s) AuxdataFailed h) (\<lambda>h.
       let h = upd_live (\<lambda>l. l\<lparr>ring_offset := ring_offset l + VLAN_TAG_LEN\<rparr>) h;
           h = upd_live set_vlan_offset (snapshot_for_cooked h) in
       bind_r (need (tstamp_precision (lp (hl h)) \<noteq> PCAP_TSTAMP_PRECISION_NANO \<or> timestamps_set s) TimestampsFailed h) (\<lambda>h.
       Inr (status, h\<lparr>fd_open := True\<rparr>))))))"

section \<open>The ring\<close>

text \<open>The geometry is computed in numbers without bounds: the snapshot length is at most \<open>MAXIMUM_SNAPLEN\<close> and the size
  of the buffer an integer of C, so no sum reaches \<open>2 ^ 32\<close>. Where a product or a shift of the source may, it is written out.\<close>

definition max_frame_len :: "answers \<Rightarrow> nat" where
  "max_frame_len s = (if offload s \<noteq> 0 then max (nat (mtu s)) 65535 else nat (mtu s)) + 18"

definition tp_reserve :: "live \<Rightarrow> nat" where
  "tp_reserve l = VLAN_TAG_LEN + (if cooked l then SLL2_HDR_LEN - 16 else 0)"

text \<open>Where the source expects the packet in a frame of the second version, \<open>dgram\<close> being the type of the socket.\<close>

definition mac_offset :: "live \<Rightarrow> bool \<Rightarrow> nat" where
  "mac_offset l dgram =
    (let maclen = (if dgram then 0 else MAX_LINKHEADER_SIZE); hdrlen = TPACKET_ALIGN (tp_hdrlen l) + 20;
         netoff = TPACKET_ALIGN (hdrlen + (if maclen < 16 then 16 else maclen)) + tp_reserve l in
     netoff - maclen)"

definition tp_frame_size_v2 :: "answers \<Rightarrow> handle \<Rightarrow> bool \<Rightarrow> nat" where
  "tp_frame_size_v2 s h dgram =
    (let frame_size = unat (snapshot (lp (hl h)));
         frame_size = (if link_of h = DLT_EN10MB \<and> max_frame_len s < frame_size then max_frame_len s else frame_size) in
     TPACKET_ALIGN (mac_offset (hl h) dgram + frame_size))"

definition frame_nr :: "handle \<Rightarrow> nat \<Rightarrow> nat" where
  "frame_nr h sz = (nat (buffer_size (opt h)) + sz - 1) div sz"

definition block_size :: "nat \<Rightarrow> nat \<Rightarrow> nat option" where
  "block_size page sz = while_option (\<lambda>b. b < sz) (\<lambda>b. 2 * b mod 2 ^ 32) page"

text \<open>The request is repeated with fewer frames while the kernel has no memory.\<close>

function ask_ring :: "(nat \<Rightarrow> nat \<Rightarrow> ring_answer) \<Rightarrow> nat \<Rightarrow> nat \<Rightarrow> (nat \<times> nat) option" where
  "ask_ring answer per_block nr =
    (let bn = nr div per_block; nr = bn * per_block in
     case answer bn nr of
       RingGranted \<Rightarrow> Some (bn, nr)
     | RingRefused \<Rightarrow> None
     | RingNoMemory \<Rightarrow> if 1 < bn then ask_ring answer per_block (if nr < 20 then nr - 1 else nr - nr div 20) else None)"
  by pat_completeness auto

termination
proof (relation "measure (\<lambda>(answer, per_block, nr). nr)")
  fix answer :: "nat \<Rightarrow> nat \<Rightarrow> ring_answer" and per_block nr x xa :: nat
  assume x: "x = nr div per_block" "xa = x * per_block" "1 < x"
  then have "0 < per_block" by (cases per_block) auto
  then have "0 < xa" "xa \<le> nr" using x by (simp_all add: div_times_less_eq_dividend)
  then have "(if xa < 20 then xa - 1 else xa - xa div 20) < nr" by auto
  then show "((answer, per_block, if xa < 20 then xa - 1 else xa - xa div 20), (answer, per_block, nr))
      \<in> measure (\<lambda>(answer, per_block, nr). nr)" by simp
qed simp

declare ask_ring.simps [simp del]

definition frame_offsets :: "nat \<Rightarrow> nat \<Rightarrow> nat \<Rightarrow> nat \<Rightarrow> nat list" where
  "frame_offsets bn bsize per_block sz =
    concat (map (\<lambda>i. map (\<lambda>j. i * bsize mod 2 ^ 32 + j * sz) [0..<per_block]) [0..<bn])"

text \<open>Time stamps by the hardware, if they are asked for; a warning if the device has none.\<close>

definition hardware_stamps :: "answers \<Rightarrow> handle \<Rightarrow> (int \<times> handle) + (int \<times> handle)" where
  "hardware_stamps s h =
    (if tstamp_type (opt h) = PCAP_TSTAMP_ADAPTER \<or> tstamp_type (opt h) = PCAP_TSTAMP_ADAPTER_UNSYNCED then
       (case hardware s of
         HwDenied \<Rightarrow> Inl (PCAP_ERROR_PERM_DENIED, message HardwareDenied h)
       | HwUnsupported \<Rightarrow> Inr (PCAP_WARNING_TSTAMP_TYPE_NOTSUP, h)
       | HwFails \<Rightarrow> Inl (PCAP_ERROR, message HardwareFailed h)
       | HwGranted set_on \<Rightarrow> bind_r (need set_on PacketTimestamp h) (\<lambda>h. Inr (0, h)))
     else Inr (0, h))"

definition frame_request :: "answers \<Rightarrow> handle \<Rightarrow> (int \<times> handle) + nat" where
  "frame_request s h =
    (if tp_version h = TPACKET_V2 then
       bind_r (need (link_of h = DLT_EN10MB \<longrightarrow> mtu s \<noteq> - 1) NoMtu h) (\<lambda>h.
       bind_r (need (link_of h = DLT_EN10MB \<longrightarrow> offload s \<noteq> - 1) NoOffload h) (\<lambda>h.
       case socket_type s of
         None \<Rightarrow> Inl (PCAP_ERROR, message NoSocketType h)
       | Some dgram \<Rightarrow> Inr (tp_frame_size_v2 s h dgram)))
     else Inr (unat MAXIMUM_SNAPLEN))"

definition destroy_ring :: "handle \<Rightarrow> handle" where
  "destroy_ring h = h\<lparr>mmapbuflen := 0\<rparr>"

text \<open>\<open>None\<close>: the loop over the sizes of a block does not end.\<close>

definition create_ring :: "answers \<Rightarrow> handle \<Rightarrow> ((int \<times> handle) + (int \<times> handle)) option" where
  "create_ring s h = (case need (reserve_set s) ReserveFailed h of
     Inl err \<Rightarrow> Some (Inl err)
   | Inr h \<Rightarrow> (case frame_request s h of
       Inl err \<Rightarrow> Some (Inl err)
     | Inr sz \<Rightarrow> Option.bind (block_size (page_size s) sz) (\<lambda>bsize. Some (
         bind_r (hardware_stamps s h) (\<lambda>(status, h).
         case ask_ring (rx_ring s bsize) (bsize div sz) (frame_nr h sz) of
           None \<Rightarrow> Inl (PCAP_ERROR, message NoRing h)
         | Some (bn, nr) \<Rightarrow>
             let h = h\<lparr>mmapbuflen := bn * bsize mod 2 ^ 32\<rparr> in
             if \<not> (mapped s \<and> mmapbuflen h \<noteq> 0) then Inl (PCAP_ERROR, destroy_ring (message NoMapping h))
             else if \<not> frames_memory s then Inl (PCAP_ERROR, destroy_ring (message NoFrameList h))
             else Inr (status, upd_live (\<lambda>l. l\<lparr>ring := replicate nr None, ring_offset := 0,
               lp := (lp l)\<lparr>bufsize := of_nat sz\<rparr>\<rparr>) (h\<lparr>ring_frames := frame_offsets bn bsize (bsize div sz) sz\<rparr>)))))))"

text \<open>The version of the ring: 0 if it is set, 1 if the kernel does not know it.\<close>

definition init_tpacket :: "answers \<Rightarrow> nat \<Rightarrow> handle \<Rightarrow> int \<times> handle" where
  "init_tpacket s version h = (case header_length s version of
     Inl (unknown, no_mmap) \<Rightarrow> if unknown then (1, h) else (- 1, message (if no_mmap then NoPacketMmap else HeaderLength) h)
   | Inr len \<Rightarrow>
       let h = upd_live (\<lambda>l. l\<lparr>tp_hdrlen := len\<rparr>) h in
       if \<not> version_set s version then (- 1, message NoVersion h) else (0, h\<lparr>tp_version := version\<rparr>))"

definition prepare_tpacket_socket :: "answers \<Rightarrow> handle \<Rightarrow> int \<times> handle" where
  "prepare_tpacket_socket s h =
    (let (ret, h) = (if \<not> immediate (opt h) then init_tpacket s TPACKET_V3 h else (1, h)) in
     if ret = 0 \<or> ret = - 1 then (ret, h)
     else (case init_tpacket s TPACKET_V2 h of (ret, h) \<Rightarrow>
       if ret = 0 then (0, h) else (- 1, if ret = 1 then message NoVersion2 h else h)))"

definition setup_mmapped :: "answers \<Rightarrow> handle \<Rightarrow> ((int \<times> handle) + (int \<times> handle)) option" where
  "setup_mmapped s h =
    (if \<not> oneshot_memory s then Some (Inl (PCAP_ERROR, message NoOneshot h))
     else
       let h = h\<lparr>oneshot := True, opt := (opt h)\<lparr>buffer_size := (if buffer_size (opt h) = 0 then 2 * 1024 * 1024 else buffer_size (opt h))\<rparr>\<rparr> in
       case prepare_tpacket_socket s h of (ret, h) \<Rightarrow>
         if ret = - 1 then Some (Inl (PCAP_ERROR, h\<lparr>oneshot := False\<rparr>))
         else Option.bind (create_ring s h) (\<lambda>r. Some (case r of
             Inl (status, h) \<Rightarrow> Inl (status, h\<lparr>oneshot := False\<rparr>)
           | Inr (status, h) \<Rightarrow> Inr (status, upd_live (set_poll_timeout (tp_version h = TPACKET_V3) (broken_v3 s)) h))))"

section \<open>Activation\<close>

definition pcap_set_datalink_linux :: "int \<Rightarrow> handle \<Rightarrow> int \<times> handle" where
  "pcap_set_datalink_linux dlt h = (0, upd_live set_vlan_offset (set_linktype dlt h))"

definition pcap_cleanup_linux :: "handle \<Rightarrow> handle" where
  "pcap_cleanup_linux h = upd_live (\<lambda>l. l\<lparr>breakloop_fd := False, lp := (lp l)\<lparr>fcode := None\<rparr>\<rparr>)
    ((if fd_open h then destroy_ring h else h)\<lparr>oneshot := False, ring_frames := [], dlt_list := [], tstamp_types := [],
       precisions := [], fd_open := False, opt := (opt h)\<lparr>device := None\<rparr>\<rparr>)"

definition limit_snapshot :: "handle \<Rightarrow> handle" where
  "limit_snapshot = upd_live (\<lambda>l. l\<lparr>lp := (lp l)\<lparr>snapshot :=
     (if sint (snapshot (lp l)) \<le> 0 \<or> sint MAXIMUM_SNAPLEN < sint (snapshot (lp l)) then MAXIMUM_SNAPLEN else snapshot (lp l))\<rparr>\<rparr>)"

text \<open>The steps up to the socket; the status that a warning sets here is the one that \<open>create_ring\<close> sets again.\<close>

definition activate_socket :: "answers \<Rightarrow> byte list \<Rightarrow> handle \<Rightarrow> (int \<times> handle) + (int \<times> handle)" where
  "activate_socket s dev h =
    (if 16 \<le> length dev then Inl (PCAP_ERROR_NO_SUCH_DEVICE, h\<lparr>open_message := None\<rparr>)
     else bind_r (need (device_memory s) NoDeviceName (limit_snapshot h)) (\<lambda>h.
       let any = dev = bytes_of ''any'';
           (status, h) = (if any \<and> promisc (opt h)
             then (PCAP_WARNING_PROMISC_NOTSUP, message PromiscOnAny (h\<lparr>opt := (opt h)\<lparr>promisc := False\<rparr>\<rparr>)) else (0, h));
           h = upd_live (\<lambda>l. l\<lparr>timeout := opt_timeout (opt h)\<rparr>) h;
           h = (if promisc (opt h) then h\<lparr>sysfs := if_drops s\<rparr> else h) in
       bind_r (setup_socket s dev any h) (\<lambda>(ret, h). Inr (status, h))))"

definition activate_device :: "answers \<Rightarrow> byte list \<Rightarrow> handle \<Rightarrow> (int \<times> handle) option" where
  "activate_device s dev h =
    Option.bind (case activate_socket s dev h of Inl err \<Rightarrow> Some (Inl err) | Inr (status, h) \<Rightarrow> setup_mmapped s h) (\<lambda>r. Some (
      case bind_r r (\<lambda>(status, h). bind_r (bound (bind_protocol s) h) (\<lambda>h. Inr (status, h))) of
        Inl (status, h) \<Rightarrow> (status, pcap_cleanup_linux h)
      | Inr (status, h) \<Rightarrow> (status, h)))"

text \<open>The name of the device is \<open>NULL\<close> after a failed activation.\<close>

definition pcap_activate_linux :: "answers \<Rightarrow> handle \<Rightarrow> (crash + int \<times> handle) option" where
  "pcap_activate_linux s h = (case device (opt h) of
     None \<Rightarrow> Some (Inl (MemoryFault NullDeref))
   | Some dev \<Rightarrow> Option.bind (activate_device s dev h) (\<lambda>r. Some (Inr r)))"

definition is_activated :: "handle \<Rightarrow> bool" where
  "is_activated h = activated (lp (hl h))"

definition pcap_check_activated :: "handle \<Rightarrow> bool \<times> handle" where
  "pcap_check_activated h = (is_activated h, if is_activated h then message AlreadyActivated h else h)"

definition pcap_activate :: "answers \<Rightarrow> handle \<Rightarrow> (crash + int \<times> handle) option" where
  "pcap_activate s h = (case pcap_check_activated h of (act, h) \<Rightarrow>
     if act then Some (Inr (PCAP_ERROR_ACTIVATED, h))
     else Option.bind (pcap_activate_linux s h) (\<lambda>r. Some (bind_r r (\<lambda>(status, h).
       if 0 \<le> status then
         (case (if nonblock (opt h)
             then (case pcap_setnonblock_linux True (event_fd_nonblock s) (tp_version h = TPACKET_V3) (broken_v3 s) True (hl h) of
               (r, l) \<Rightarrow> (r, h\<lparr>hl := l\<rparr>))
             else (status, h)) of (status, h) \<Rightarrow>
           if status < 0 then Inr (status, pcap_cleanup_linux h)
           else Inr (status, upd_live (\<lambda>l. l\<lparr>lp := (lp l)\<lparr>activated := True\<rparr>\<rparr>) h))
       else Inr (status, if open_message h = None then message (StatusText status) h else h)))))"

text \<open>The setters: each is refused once the handle is active.\<close>

definition set_option :: "(handle \<Rightarrow> handle) \<Rightarrow> handle \<Rightarrow> int \<times> handle" where
  "set_option f h = (case pcap_check_activated h of (act, h) \<Rightarrow> if act then (PCAP_ERROR_ACTIVATED, h) else (0, f h))"

definition pcap_set_snaplen :: "u32 \<Rightarrow> handle \<Rightarrow> int \<times> handle" where
  "pcap_set_snaplen n = set_option (upd_live (\<lambda>l. l\<lparr>lp := (lp l)\<lparr>snapshot := n\<rparr>\<rparr>))"

definition pcap_set_promisc :: "bool \<Rightarrow> handle \<Rightarrow> int \<times> handle" where
  "pcap_set_promisc b = set_option (\<lambda>h. h\<lparr>opt := (opt h)\<lparr>promisc := b\<rparr>\<rparr>)"

definition pcap_set_rfmon :: "bool \<Rightarrow> handle \<Rightarrow> int \<times> handle" where
  "pcap_set_rfmon b = set_option (\<lambda>h. h\<lparr>opt := (opt h)\<lparr>rfmon := b\<rparr>\<rparr>)"

definition pcap_set_timeout :: "int \<Rightarrow> handle \<Rightarrow> int \<times> handle" where
  "pcap_set_timeout t = set_option (\<lambda>h. h\<lparr>opt := (opt h)\<lparr>opt_timeout := t\<rparr>\<rparr>)"

definition pcap_set_immediate_mode :: "bool \<Rightarrow> handle \<Rightarrow> int \<times> handle" where
  "pcap_set_immediate_mode b = set_option (\<lambda>h. h\<lparr>opt := (opt h)\<lparr>immediate := b\<rparr>\<rparr>)"

definition pcap_set_buffer_size :: "int \<Rightarrow> handle \<Rightarrow> int \<times> handle" where
  "pcap_set_buffer_size n = set_option (\<lambda>h. if n \<le> 0 then h else h\<lparr>opt := (opt h)\<lparr>buffer_size := n\<rparr>\<rparr>)"

definition pcap_set_tstamp_type :: "int \<Rightarrow> handle \<Rightarrow> int \<times> handle" where
  "pcap_set_tstamp_type t h = (case pcap_check_activated h of (act, h) \<Rightarrow>
     if act then (PCAP_ERROR_ACTIVATED, h)
     else if t < 0 then (PCAP_WARNING_TSTAMP_TYPE_NOTSUP, h)
     else if (if tstamp_types h = [] then t = PCAP_TSTAMP_HOST else t \<in> set (tstamp_types h))
       then (0, h\<lparr>opt := (opt h)\<lparr>tstamp_type := t\<rparr>\<rparr>)
     else (PCAP_WARNING_TSTAMP_TYPE_NOTSUP, h))"

definition pcap_set_tstamp_precision :: "int \<Rightarrow> handle \<Rightarrow> int \<times> handle" where
  "pcap_set_tstamp_precision t h = (case pcap_check_activated h of (act, h) \<Rightarrow>
     if act then (PCAP_ERROR_ACTIVATED, h)
     else if t < 0 then (PCAP_ERROR_TSTAMP_PRECISION_NOTSUP, h)
     else if (if precisions h = [] then word_of_int t = PCAP_TSTAMP_PRECISION_MICRO else word_of_int t \<in> set (precisions h))
       then (0, upd_live (\<lambda>l. l\<lparr>lp := (lp l)\<lparr>tstamp_precision := word_of_int t\<rparr>\<rparr>) h)
     else (PCAP_ERROR_TSTAMP_PRECISION_NOTSUP, h))"

definition pcap_setnonblock_unactivated :: "bool \<Rightarrow> handle \<Rightarrow> int \<times> handle" where
  "pcap_setnonblock_unactivated b h = (0, h\<lparr>opt := (opt h)\<lparr>nonblock := b\<rparr>\<rparr>)"

section \<open>Creation\<close>

definition new_pcap :: pcap_t where
  "new_pcap = \<lparr>swapped = False, version_major = 0, version_minor = 0, linktype = 0, linktype_ext = 0, snapshot = 0,
     tstamp_precision = PCAP_TSTAMP_PRECISION_MICRO, hdrsize = 0, lengths_swapped = NOT_SWAPPED, scale_type = PASS_THROUGH,
     bufsize = 0, buffer = [], rfile = \<lparr>unread = [], broken = False\<rparr>, fcode = None, break_loop = False, activated = False,
     errbuf = None\<rparr>"

definition pcap_create_common :: "byte list \<Rightarrow> handle" where
  "pcap_create_common dev = \<lparr>hl = \<lparr>lp = new_pcap, direction = PCAP_D_INOUT, ring = [], ring_offset = 0, filter_in_userland = False,
       blocks_to_filter = 0, timeout = 0, poll_timeout = 0, breakloop_fd = True, cooked = False, ifindex = 0, lo_ifindex = 0,
       netdown = False, vlan_offset = 0, tp_hdrlen = 0, current_packet = None, attached = None, live_errbuf = None, now = 0\<rparr>,
     opt = \<lparr>device = Some dev, opt_timeout = 0, buffer_size = 0, promisc = False, rfmon = False, immediate = False,
       nonblock = False, tstamp_type = - 1\<rparr>,
     dlt_list = [], tstamp_types = [], precisions = [], tp_version = 0, oneshot = False, sysfs = 0, mmapbuflen = 0,
     ring_frames = [], open_message = None, fd_open = False\<rparr>"

text \<open>\<open>types\<close> are the types of time stamps that the device is found to have, or a failure.\<close>

definition pcap_create_interface :: "answers \<Rightarrow> int list option \<Rightarrow> byte list \<Rightarrow> handle option" where
  "pcap_create_interface s types dev =
    (if \<not> handle_memory s then None
     else (case types of
         None \<Rightarrow> None
       | Some ts \<Rightarrow>
           if \<not> precision_memory s then None
           else Some (upd_live (\<lambda>l. l\<lparr>breakloop_fd := event_fd s\<rparr>)
             ((pcap_create_common dev)\<lparr>tstamp_types := ts, precisions := [PCAP_TSTAMP_PRECISION_MICRO, PCAP_TSTAMP_PRECISION_NANO]\<rparr>))))"

section \<open>The geometry of the ring\<close>

lemma block_size_ends:
  assumes "0 < b" "b < 2 ^ 32" "n \<le> 2 ^ 31"
  shows "\<exists>c. block_size b n = Some c \<and> n \<le> c \<and> c < 2 ^ 32 \<and> b dvd c \<and> (c = b \<or> c < 2 * n)"
  using assms(1,2)
proof (induction "n - b" arbitrary: b rule: less_induct)
  case less
  show ?case
  proof (cases "b < n")
    case True
    then have m: "2 * b mod 4294967296 = 2 * b" using assms(3) by simp
    have "n - 2 * b < n - b" "0 < 2 * b" "2 * b < 2 ^ 32" using True less.prems(1) assms(3) by simp_all
    then obtain c where c: "block_size (2 * b) n = Some c" "n \<le> c" "c < 2 ^ 32" "2 * b dvd c" "c = 2 * b \<or> c < 2 * n"
      using less.hyps [of "2 * b"] by blast
    have "block_size b n = Some c" using c(1) True unfolding block_size_def by (subst while_option_unfold) (simp add: m)
    moreover have "b dvd c" using c(4) by (rule dvd_mult_right)
    ultimately show ?thesis using c True by auto
  next
    case False
    then have "block_size b n = Some b" unfolding block_size_def by (subst while_option_unfold) simp
    then show ?thesis using False less.prems by auto
  qed
qed

lemma ask_ring_granted:
  "ask_ring answer p nr = Some (b, n) \<Longrightarrow> n = b * p \<and> answer b n = RingGranted \<and> n \<le> nr"
proof (induction answer p nr rule: ask_ring.induct)
  case (1 answer p nr)
  let ?b = "nr div p" and ?n = "nr div p * p"
  have le: "?n \<le> nr" by (rule div_times_less_eq_dividend)
  show ?case
  proof (cases "answer ?b ?n")
    case RingGranted
    then show ?thesis using 1(2) le by (subst (asm) ask_ring.simps) (auto simp: Let_def)
  next
    case RingNoMemory
    let ?m = "if ?n < 20 then ?n - 1 else ?n - ?n div 20"
    have a: "1 < ?b" "ask_ring answer p ?m = Some (b, n)"
      using 1(2) RingNoMemory by (subst (asm) ask_ring.simps, simp add: Let_def split: if_splits)+
    have "?m \<le> ?n" by simp
    moreover note 1(1) [OF refl refl RingNoMemory a(1) a(2)]
    ultimately show ?thesis using le by (meson le_trans)
  next
    case RingRefused
    then show ?thesis using 1(2) by (subst (asm) ask_ring.simps) (simp add: Let_def)
  qed
qed

lemma frame_offsets_Suc:
  "frame_offsets (Suc b) bs p n = frame_offsets b bs p n @ map (\<lambda>j. b * bs mod 2 ^ 32 + j * n) [0..<p]"
  by (simp add: frame_offsets_def)

lemma length_frame_offsets: "length (frame_offsets b bs p n) = b * p"
  by (induction b) (simp_all add: frame_offsets_Suc, simp add: frame_offsets_def)

text \<open>The frames lie one after the other inside of the mapping.\<close>

lemma frame_offsets_apart:
  assumes "p * n \<le> bs" "b * bs < 2 ^ 32"
  shows "(\<forall>i < b * p. frame_offsets b bs p n ! i + n \<le> b * bs) \<and>
    (\<forall>j < b * p. \<forall>i < j. frame_offsets b bs p n ! i + n \<le> frame_offsets b bs p n ! j)"
  using assms(2)
proof (induction b)
  case (Suc b)
  let ?o = "frame_offsets b bs p n" and ?new = "\<lambda>i. b * bs + i * n"
  have lt: "b * bs < 2 ^ 32" using Suc.prems by simp
  note ih = Suc.IH [OF lt]
  have nth: "frame_offsets (Suc b) bs p n ! i = (if i < b * p then ?o ! i else ?new (i - b * p))" if "i < Suc b * p" for i
  proof (cases "i < b * p")
    case False
    then have "i - b * p < p" using that by simp
    then show ?thesis using False lt by (simp add: frame_offsets_Suc nth_append length_frame_offsets)
  qed (simp add: frame_offsets_Suc nth_append length_frame_offsets)
  have new: "?new k + n \<le> Suc b * bs" if "k < p" for k
  proof -
    have "Suc k * n \<le> p * n" using that by (intro mult_right_mono) simp_all
    then show ?thesis using assms(1) by simp
  qed
  have step: "?new k + n \<le> ?new m" if "k < m" for k m
  proof -
    have "Suc k * n \<le> m * n" using that by (intro mult_right_mono) simp_all
    then show ?thesis by simp
  qed
  show ?case
  proof (intro conjI allI impI)
    fix i assume i: "i < Suc b * p"
    show "frame_offsets (Suc b) bs p n ! i + n \<le> Suc b * bs"
    proof (cases "i < b * p")
      case True
      then have "?o ! i + n \<le> b * bs" using ih by blast
      then show ?thesis using True nth [OF i] by simp
    next
      case False
      then have "i - b * p < p" using i by simp
      from new [OF this] show ?thesis using False nth [OF i] by simp
    qed
  next
    fix j i assume j: "j < Suc b * p" and i: "i < j"
    note n = nth [OF j] nth [OF less_trans [OF i j]]
    consider "j < b * p" | "i < b * p" "b * p \<le> j" | "b * p \<le> i" by linarith
    then show "frame_offsets (Suc b) bs p n ! i + n \<le> frame_offsets (Suc b) bs p n ! j"
    proof cases
      case 1
      then show ?thesis using ih n i by simp
    next
      case 2
      then have "?o ! i + n \<le> b * bs" using ih by blast
      then show ?thesis using n 2 i j by simp
    next
      case 3
      then have "i - b * p < j - b * p" using i by simp
      from step [OF this] show ?thesis using n 3 i j by simp
    qed
  qed
qed simp

section \<open>Opening a device ends, with a ring or an error\<close>

text \<open>What is relied on: a page has a size, a header of a frame is short, and the kernel does not grant a ring of \<open>2 ^ 32\<close> bytes or more
  (\<open>packet_set_ring\<close> refuses it).\<close>

definition system_ok :: "answers \<Rightarrow> bool" where
  "system_ok s \<longleftrightarrow> 0 < page_size s \<and> page_size s < 2 ^ 32 \<and> (\<forall>v len. header_length s v = Inr len \<longrightarrow> len \<le> 65536) \<and>
     (\<forall>b n m. rx_ring s b n m = RingGranted \<longrightarrow> n * b < 2 ^ 32)"

text \<open>The frames of the ring are apart from each other and inside of the mapping, none is in use, and a frame has the size that the
  library checks the packets against.\<close>

definition ring_laid_out :: "handle \<Rightarrow> bool" where
  "ring_laid_out h \<longleftrightarrow> 0 < length (ring_frames h) \<and> ring (hl h) = replicate (length (ring_frames h)) None \<and> ring_offset (hl h) = 0 \<and>
     0 < bufsize (lp (hl h)) \<and> bufsize (lp (hl h)) \<le> INT_MAX \<and>
     (\<forall>i < length (ring_frames h). ring_frames h ! i + unat (bufsize (lp (hl h))) \<le> mmapbuflen h) \<and>
     (\<forall>j < length (ring_frames h). \<forall>i < j. ring_frames h ! i + unat (bufsize (lp (hl h))) \<le> ring_frames h ! j)"

text \<open>What holds of a handle with a socket.\<close>

definition socket_made :: "handle \<Rightarrow> bool" where
  "socket_made h \<longleftrightarrow> unat (snapshot (lp (hl h))) \<le> 262144 \<and> \<not> is_activated h \<and>
     vlan_offset (hl h) = (if link_of h = DLT_EN10MB then 12 else if link_of h = DLT_LINUX_SLL then 14 else - 1) \<and>
     (cooked (hl h) \<longrightarrow> link_of h \<in> {DLT_LINUX_SLL, DLT_LINUX_IRDA, DLT_LINUX_LAPD, DLT_NETLINK})"

text \<open>A step goes well if it fails with an error, and no active handle, or its result has a property.\<close>

definition goes_well :: "('a \<Rightarrow> bool) \<Rightarrow> (int \<times> handle) + 'a \<Rightarrow> bool" where
  "goes_well P r \<longleftrightarrow> (case r of Inl (status, h) \<Rightarrow> status < 0 \<and> \<not> is_activated h | Inr x \<Rightarrow> P x)"

lemma goes_well_simps [simp]: "goes_well P (Inl (status, h)) \<longleftrightarrow> status < 0 \<and> \<not> is_activated h" "goes_well P (Inr x) \<longleftrightarrow> P x"
  by (simp_all add: goes_well_def)

lemma is_activated_fold [simp]: "activated (lp (hl h)) = is_activated h" "is_activated (h\<lparr>hl := l\<rparr>) = activated (lp l)"
  by (simp_all add: is_activated_def)

lemma is_activated_simps [simp]:
  "is_activated (message err h) = is_activated h" "is_activated (h\<lparr>open_message := m\<rparr>) = is_activated h"
  "is_activated (destroy_ring h) = is_activated h" "is_activated (h\<lparr>oneshot := b\<rparr>) = is_activated h"
  "is_activated (h\<lparr>mmapbuflen := n\<rparr>) = is_activated h" "is_activated (h\<lparr>dlt_list := ts\<rparr>) = is_activated h"
  "is_activated (h\<lparr>opt := op\<rparr>) = is_activated h" "is_activated (h\<lparr>tp_version := n\<rparr>) = is_activated h"
  "is_activated (h\<lparr>ring_frames := fs\<rparr>) = is_activated h" "is_activated (h\<lparr>sysfs := n'\<rparr>) = is_activated h"
  "is_activated (h\<lparr>fd_open := b\<rparr>) = is_activated h" "is_activated (set_dlt_list_cooked s h) = is_activated h"
  by (simp_all add: is_activated_def message_def destroy_ring_def set_dlt_list_cooked_def del: is_activated_fold)

lemma goes_well_need: "\<not> is_activated h \<Longrightarrow> (ok \<Longrightarrow> P h) \<Longrightarrow> goes_well P (need ok err h)"
  by (simp add: need_def PCAP_ERROR_def)

lemma goes_well_bind: "goes_well P r \<Longrightarrow> (\<And>x. P x \<Longrightarrow> goes_well R (k x)) \<Longrightarrow> goes_well R (bind_r r k)"
  by (cases r) (auto split: prod.splits)

lemma goes_well_after_need: "\<not> is_activated h \<Longrightarrow> (ok \<Longrightarrow> goes_well R (k h)) \<Longrightarrow> goes_well R (bind_r (need ok err h) k)"
  by (rule goes_well_bind [of "\<lambda>h'. h' = h \<and> ok"]) (auto intro: goes_well_need)

lemmas negative = PCAP_ERROR_def PCAP_ERROR_PERM_DENIED_def PCAP_ERROR_RFMON_NOTSUP_def PCAP_ERROR_NO_SUCH_DEVICE_def
  PCAP_ERROR_IFACE_NOT_UP_def PCAP_ERROR_ACTIVATED_def

lemma goes_well_after_bound: "\<not> is_activated h \<Longrightarrow> goes_well R (k h) \<Longrightarrow> goes_well R (bind_r (bound b h) k)"
  by (simp add: bound_def iface_bind_def negative split: bind_answer.splits)

subsection \<open>The socket\<close>

abbreviation cooked_types :: "int set" where
  "cooked_types \<equiv> {DLT_LINUX_SLL, DLT_LINUX_IRDA, DLT_LINUX_LAPD, DLT_NETLINK}"

definition snap_within :: "handle \<Rightarrow> bool" where
  "snap_within h \<longleftrightarrow> unat (snapshot (lp (hl h))) \<le> 262144 \<and> \<not> is_activated h \<and> (cooked (hl h) \<longrightarrow> link_of h \<in> cooked_types)"

lemma reopen_cooked_well:
  "unat (snapshot (lp (hl h))) \<le> 262144 \<Longrightarrow> \<not> is_activated h \<Longrightarrow> goes_well (\<lambda>(status, h). snap_within h) (reopen_cooked s arp h)"
  unfolding reopen_cooked_def
  by (intro goes_well_after_need) (simp_all add: Let_def message_def set_dlt_list_cooked_def snap_within_def)

lemma map_arphrd_frame:
  "snapshot (lp (hl (map_arphrd_to_dlt s dev arp c h))) = snapshot (lp (hl h))"
  "cooked (hl (map_arphrd_to_dlt s dev arp c h)) = cooked (hl h)"
  "is_activated (map_arphrd_to_dlt s dev arp c h) = is_activated h"
  by (simp_all add: is_activated_def map_arphrd_to_dlt_def ethernet_type_def set_offset_def iface_dsa_get_proto_info_def message_def
      del: is_activated_fold split: option.splits prod.splits)

lemma raw_socket_well:
  assumes "unat (snapshot (lp (hl h))) \<le> 262144" "\<not> is_activated h"
  shows "goes_well (\<lambda>(status, h). snap_within h) (raw_socket s dev h)"
proof -
  let ?h = "\<lambda>arp. map_arphrd_to_dlt s dev arp True (upd_live (\<lambda>l. l\<lparr>cooked := False\<rparr>) h)"
  have "goes_well (\<lambda>(status, h). snap_within h)
      (if needs_cooked dev (link_of (?h arp)) then reopen_cooked s arp (?h arp) else Inr (0, ?h arp))" for arp
    using reopen_cooked_well [of "?h arp" s arp] assms by (simp add: map_arphrd_frame snap_within_def)
  then have "goes_well (\<lambda>(status, h). snap_within h)
      (bind_r (if needs_cooked dev (link_of (?h arp)) then reopen_cooked s arp (?h arp) else Inr (0, ?h arp)) (\<lambda>(status, h).
         let h = upd_live (\<lambda>l. l\<lparr>ifindex := if_index s\<rparr>) h in
         bind_r (need (if_index s \<noteq> - 1) NoIndex h) (\<lambda>h. bind_r (bound (bind_socket s) h) (\<lambda>h. Inr (status, h)))))" for arp
    by (rule goes_well_bind) (auto simp: snap_within_def Let_def intro!: goes_well_after_need goes_well_after_bound)
  then show ?thesis unfolding raw_socket_def Let_def by (simp add: assms(2) negative split: sum.split)
qed

lemma any_socket_well:
  "unat (snapshot (lp (hl h))) \<le> 262144 \<Longrightarrow> \<not> is_activated h \<Longrightarrow> goes_well (\<lambda>(status, h). snap_within h) (any_socket s h)"
  by (simp add: any_socket_def negative snap_within_def set_dlt_list_cooked_def)

lemma setup_socket_well:
  assumes "unat (snapshot (lp (hl h))) \<le> 262144" "\<not> is_activated h"
  shows "goes_well (\<lambda>(status, h). socket_made h) (setup_socket s dev any h)"
proof -
  let ?h = "upd_live (\<lambda>l. l\<lparr>lo_ifindex := lo_index s, ring_offset := 0\<rparr>) (if lo_index s = - 1 then message NoIndex h else h)"
  have "goes_well (\<lambda>(status, h). snap_within h) (if any then any_socket s ?h else raw_socket s dev ?h)"
    using assms any_socket_well [of ?h s] raw_socket_well [of ?h s dev] by (simp add: message_def)
  note step = goes_well_bind [OF this]
  have "goes_well (\<lambda>(status, h). socket_made h) (setup_socket s dev any h)" if "first_socket s = Opened"
    unfolding setup_socket_def Let_def that socket_answer.case
  proof (rule step, clarify, intro goes_well_after_need)
    fix status h assume "snap_within h"
    then show "goes_well (\<lambda>(status, h). socket_made h) (Inr (status, (upd_live set_vlan_offset (snapshot_for_cooked
        (upd_live (\<lambda>l. l\<lparr>ring_offset := ring_offset l + VLAN_TAG_LEN\<rparr>) h)))\<lparr>fd_open := True\<rparr>))"
      by (auto simp: socket_made_def snap_within_def set_vlan_offset_def snapshot_for_cooked_def Let_def live_consts)
  qed (auto simp: snap_within_def set_vlan_offset_def snapshot_for_cooked_def Let_def)
  then show ?thesis using assms(2) by (cases "first_socket s") (simp_all add: setup_socket_def negative)
qed

subsection \<open>The mapping\<close>

lemma align_bounds: "n \<le> TPACKET_ALIGN n" "TPACKET_ALIGN n \<le> n + 15"
proof -
  have "(n + 15) div 16 * 16 + (n + 15) mod 16 = n + 15" by (rule div_mult_mod_eq)
  moreover have "(n + 15) mod 16 \<le> 15" using mod_less_divisor [of 16 "n + 15"] by simp
  ultimately show "n \<le> TPACKET_ALIGN n" "TPACKET_ALIGN n \<le> n + 15" unfolding TPACKET_ALIGN_def by linarith+
qed

lemma mac_offset_bounds: "0 < mac_offset l dgram" "mac_offset l dgram \<le> tp_hdrlen l + 75"
proof -
  let ?m = "if dgram then 0 else MAX_LINKHEADER_SIZE" and ?h = "TPACKET_ALIGN (tp_hdrlen l) + 20"
  let ?n = "?h + (if ?m < 16 then 16 else ?m)"
  have "?n \<le> TPACKET_ALIGN ?n" "TPACKET_ALIGN ?n \<le> ?n + 15" by (rule align_bounds)+
  then show "0 < mac_offset l dgram" "mac_offset l dgram \<le> tp_hdrlen l + 75"
    using align_bounds(2) [of "tp_hdrlen l"]
    by (auto simp: mac_offset_def Let_def tp_reserve_def VLAN_TAG_LEN_def SLL2_HDR_LEN_def MAX_LINKHEADER_SIZE_def split: if_splits)
qed

lemma frame_request_well:
  assumes "tp_hdrlen (hl h) \<le> 65536" "unat (snapshot (lp (hl h))) \<le> 262144" "\<not> is_activated h"
  shows "goes_well (\<lambda>n. 0 < n \<and> n < 2 ^ 20) (frame_request s h)"
proof -
  have "0 < tp_frame_size_v2 s h dgram \<and> tp_frame_size_v2 s h dgram < 2 ^ 20" for dgram
    using mac_offset_bounds [of "hl h" dgram] assms
      align_bounds [of "mac_offset (hl h) dgram + (if link_of h = DLT_EN10MB \<and> max_frame_len s < unat (snapshot (lp (hl h)))
        then max_frame_len s else unat (snapshot (lp (hl h))))"]
    by (auto simp: tp_frame_size_v2_def Let_def split: if_splits)
  then show ?thesis unfolding frame_request_def
    using assms(3) by (auto simp: MAXIMUM_SNAPLEN_def negative split: option.split intro!: goes_well_after_need)
qed

lemma hardware_stamps_well: "\<not> is_activated h \<Longrightarrow> goes_well (\<lambda>(status, h'). 0 \<le> status \<and> h' = h) (hardware_stamps s h)"
  by (auto simp: hardware_stamps_def negative PCAP_WARNING_TSTAMP_TYPE_NOTSUP_def split: hardware_answer.split intro!: goes_well_after_need)

text \<open>What the ring leaves alone.\<close>

definition same_socket :: "handle \<Rightarrow> handle \<Rightarrow> bool" where
  "same_socket h h' \<longleftrightarrow> cooked (hl h') = cooked (hl h) \<and> link_of h' = link_of h \<and> vlan_offset (hl h') = vlan_offset (hl h) \<and>
     snapshot (lp (hl h')) = snapshot (lp (hl h)) \<and> is_activated h' = is_activated h"

lemma create_ring_well:
  assumes "system_ok s" "tp_hdrlen (hl h) \<le> 65536" "unat (snapshot (lp (hl h))) \<le> 262144" "\<not> is_activated h"
  shows "\<exists>r. create_ring s h = Some r \<and> goes_well (\<lambda>(status, h'). 0 \<le> status \<and> ring_laid_out h' \<and> same_socket h h') r"
proof (cases "reserve_set s")
  case True
  show ?thesis
  proof (cases "frame_request s h")
    case (Inl err)
    then show ?thesis using frame_request_well [OF assms(2-4), of s] True
      by (cases err) (simp add: create_ring_def need_def)
  next
    case (Inr n)
    then have n: "0 < n" "n < 2 ^ 20" using frame_request_well [OF assms(2-4), of s] by simp_all
    obtain c where c: "block_size (page_size s) n = Some c" "n \<le> c" "c < 2 ^ 32"
      using block_size_ends [of "page_size s" n] assms(1) n by (auto simp: system_ok_def)
    let ?p = "c div n"
    have p: "?p * n \<le> c" by (rule div_times_less_eq_dividend)
    let ?ring = "\<lambda>(status, h). case ask_ring (rx_ring s c) ?p (frame_nr h n) of
           None \<Rightarrow> Inl (PCAP_ERROR, message NoRing h)
         | Some (bn, nr) \<Rightarrow>
             let h = h\<lparr>mmapbuflen := bn * c mod 2 ^ 32\<rparr> in
             if \<not> (mapped s \<and> mmapbuflen h \<noteq> 0) then Inl (PCAP_ERROR, destroy_ring (message NoMapping h))
             else if \<not> frames_memory s then Inl (PCAP_ERROR, destroy_ring (message NoFrameList h))
             else Inr (status, upd_live (\<lambda>l. l\<lparr>ring := replicate nr None, ring_offset := 0,
               lp := (lp l)\<lparr>bufsize := of_nat n\<rparr>\<rparr>) (h\<lparr>ring_frames := frame_offsets bn c ?p n\<rparr>))"
    have "goes_well (\<lambda>(status, h'). 0 \<le> status \<and> ring_laid_out h' \<and> same_socket h h') (?ring (status, h))" if "0 \<le> status" for status
    proof (cases "ask_ring (rx_ring s c) ?p (frame_nr h n)")
      case None
      then show ?thesis using assms(4) by (simp add: negative)
    next
      case (Some br)
      obtain bn nr where br: "br = (bn, nr)" by (cases br)
      from ask_ring_granted [OF Some [unfolded br]] have g: "nr = bn * ?p" "bn * c < 2 ^ 32"
        using assms(1) unfolding system_ok_def by blast+
      have u: "unat (of_nat n :: u32) = n" using n(2) by (simp add: unat_of_nat)
      have pos: "0 < ?p" using n(1) c(2) by (simp add: div_greater_zero_iff)
      have m: "bn * c mod 4294967296 = bn * c" using g(2) by simp
      have "(of_nat n :: u32) \<le> INT_MAX" "0 < (of_nat n :: u32)"
        using n u unfolding INT_MAX_def by (simp_all add: word_le_nat_alt word_less_nat_alt del: unat_of_nat)
      then show ?thesis using that frame_offsets_apart [OF p g(2)] pos assms(4)
        by (simp add: Some br Let_def negative m g(1) ring_laid_out_def length_frame_offsets u same_socket_def
              del: length_greater_0_conv)
    qed
    then have "goes_well (\<lambda>(status, h'). 0 \<le> status \<and> ring_laid_out h' \<and> same_socket h h') (bind_r (hardware_stamps s h) ?ring)"
      by (intro goes_well_bind [OF hardware_stamps_well [OF assms(4)]]) auto
    then show ?thesis using True Inr c(1) unfolding create_ring_def need_def by simp
  qed
qed (use assms(4) in \<open>simp add: create_ring_def need_def negative\<close>)

lemma init_tpacket_well:
  assumes "system_ok s" "init_tpacket s v h = (ret, h')"
  shows "same_socket h h'" "ret \<in> {0, 1, - 1}" "ret = 0 \<Longrightarrow> tp_hdrlen (hl h') \<le> 65536"
  using assms by (auto simp: init_tpacket_def system_ok_def same_socket_def message_def Let_def split: sum.splits if_splits prod.splits)

lemma same_socket_trans: "same_socket h h' \<Longrightarrow> same_socket h' h'' \<Longrightarrow> same_socket h h''"
  by (simp add: same_socket_def)

lemma same_socket_fields:
  "same_socket h h" "same_socket h (message err h') = same_socket h h'" "same_socket h (h'\<lparr>oneshot := b\<rparr>) = same_socket h h'"
  "same_socket (h\<lparr>oneshot := b\<rparr>) h' = same_socket h h'" "same_socket (h\<lparr>opt := op\<rparr>) h' = same_socket h h'"
  "same_socket h (h'\<lparr>opt := op\<rparr>) = same_socket h h'"
  by (simp_all add: same_socket_def message_def)

lemma prepare_tpacket_well:
  assumes "system_ok s" "prepare_tpacket_socket s h = (ret, h')"
  shows "same_socket h h' \<and> (ret = - 1 \<or> ret = 0 \<and> tp_hdrlen (hl h') \<le> 65536)"
proof -
  obtain r1 h1 where 1: "(if \<not> immediate (opt h) then init_tpacket s TPACKET_V3 h else (1, h)) = (r1, h1)" by fastforce
  have s1: "same_socket h h1" "r1 = 0 \<Longrightarrow> tp_hdrlen (hl h1) \<le> 65536"
    using 1 init_tpacket_well [OF assms(1), of TPACKET_V3 h r1 h1] by (auto simp: same_socket_fields split: if_splits)
  obtain r2 h2 where 2: "init_tpacket s TPACKET_V2 h1 = (r2, h2)" by fastforce
  note s2 = init_tpacket_well [OF assms(1) 2]
  have "same_socket h h2" using s1(1) s2(1) by (rule same_socket_trans)
  then show ?thesis using assms(2) s1 s2 unfolding prepare_tpacket_socket_def 1
    by (auto simp: 2 same_socket_fields split: if_splits)
qed

text \<open>What holds of a handle that is open.\<close>

definition opened :: "handle \<Rightarrow> bool" where
  "opened h \<longleftrightarrow> ring_laid_out h \<and> socket_made h"

lemma setup_mmapped_well:
  assumes "system_ok s" "socket_made h"
  shows "\<exists>r. setup_mmapped s h = Some r \<and> goes_well (\<lambda>(status, h'). 0 \<le> status \<and> opened h') r"
proof (cases "oneshot_memory s")
  case True
  define h1 where "h1 = h\<lparr>oneshot := True, opt := (opt h)\<lparr>buffer_size := (if buffer_size (opt h) = 0 then 2 * 1024 * 1024 else buffer_size (opt h))\<rparr>\<rparr>"
  have h1: "same_socket h h1" by (simp add: h1_def same_socket_def)
  obtain ret h2 where p: "prepare_tpacket_socket s h1 = (ret, h2)" by fastforce
  note w = prepare_tpacket_well [OF assms(1) p]
  then have s2: "same_socket h h2" using h1 same_socket_trans by blast
  have a: "\<not> is_activated h2" "unat (snapshot (lp (hl h2))) \<le> 262144" using s2 assms(2) by (simp_all add: socket_made_def same_socket_def)
  show ?thesis
  proof (cases "ret = - 1")
    case True
    then show ?thesis using \<open>oneshot_memory s\<close> p a(1) by (simp add: setup_mmapped_def Let_def h1_def [symmetric] negative)
  next
    case False
    then obtain r where r: "create_ring s h2 = Some r" "goes_well (\<lambda>(status, h'). 0 \<le> status \<and> ring_laid_out h' \<and> same_socket h2 h') r"
      using create_ring_well [OF assms(1) _ a(2,1)] w by blast
    show ?thesis
    proof (cases r)
      case (Inl err)
      then show ?thesis using r False \<open>oneshot_memory s\<close> p
        by (cases err) (simp add: setup_mmapped_def Let_def h1_def [symmetric])
    next
      case (Inr ok)
      obtain status h3 where ok: "ok = (status, h3)" by (cases ok)
      then have "0 \<le> status" "ring_laid_out h3" "same_socket h2 h3" using r(2) Inr by simp_all
      moreover from this have "same_socket h h3" using s2 same_socket_trans by blast
      ultimately show ?thesis using r(1) Inr ok False \<open>oneshot_memory s\<close> p assms(2)
        by (simp add: setup_mmapped_def Let_def h1_def [symmetric] opened_def ring_laid_out_def socket_made_def same_socket_def set_poll_timeout_def)
    qed
  qed
qed (use assms(2) in \<open>simp add: setup_mmapped_def negative socket_made_def\<close>)

lemma limit_snapshot_bound: "unat (snapshot (lp (hl (limit_snapshot h)))) \<le> 262144" "is_activated (limit_snapshot h) = is_activated h"
proof -
  have "unat w \<le> 262144" if "0 < sint w" "sint w \<le> 262144" for w :: u32
  proof -
    have "take_bit 32 (uint w) = uint w" using uint_lt2p [of w] by (simp add: take_bit_int_eq_self_iff)
    then have "sint w = uint w - 2 ^ 32 * of_bool (bit (uint w) 31)"
      by (simp add: sint_uint signed_take_bit_eq_take_bit_minus)
    then have "sint w = uint w" using that(1) uint_lt2p [of w] by (cases "bit (uint w) 31") simp_all
    then have "int (unat w) \<le> 262144" using that by simp
    then show ?thesis by linarith
  qed
  then show "unat (snapshot (lp (hl (limit_snapshot h)))) \<le> 262144" by (simp add: limit_snapshot_def MAXIMUM_SNAPLEN_def not_le)
  show "is_activated (limit_snapshot h) = is_activated h" by (simp add: limit_snapshot_def)
qed

lemma activate_socket_well:
  assumes "\<not> is_activated h"
  shows "goes_well (\<lambda>(status, h). socket_made h) (activate_socket s dev h)"
proof -
  have "goes_well (\<lambda>(status, h). socket_made h) (bind_r (setup_socket s name any h') (\<lambda>(ret, h). Inr (status, h)))"
    if "unat (snapshot (lp (hl h'))) \<le> 262144" "\<not> is_activated h'" for name any h' status
    by (rule goes_well_bind [OF setup_socket_well [OF that]]) auto
  note step = this
  show ?thesis using limit_snapshot_bound [of h] assms unfolding activate_socket_def
    by (auto simp: negative Let_def message_def intro!: goes_well_after_need step)
qed

subsection \<open>Activation\<close>

lemma activate_device_well:
  assumes "system_ok s" "\<not> is_activated h"
  shows "\<exists>status h'. activate_device s dev h = Some (status, h') \<and> \<not> is_activated h' \<and>
    (if status < 0 then device (opt h') = None else opened h')"
proof -
  have cleaned: "\<not> is_activated (pcap_cleanup_linux h) \<and> device (opt (pcap_cleanup_linux h)) = None" if "\<not> is_activated h" for h
    using that by (simp add: pcap_cleanup_linux_def)
  have r: "\<exists>r. (case activate_socket s dev h of Inl err \<Rightarrow> Some (Inl err) | Inr (status, h) \<Rightarrow> setup_mmapped s h) = Some r \<and>
      goes_well (\<lambda>(status, h'). 0 \<le> status \<and> opened h') r"
  proof (cases "activate_socket s dev h")
    case (Inl err)
    then show ?thesis using activate_socket_well [OF assms(2), of s dev] by (cases err) simp
  next
    case (Inr ok)
    then have "socket_made (snd ok)" using activate_socket_well [OF assms(2), of s dev] by (simp add: case_prod_beta)
    from setup_mmapped_well [OF assms(1) this] show ?thesis using Inr by (simp add: case_prod_beta)
  qed
  then obtain r where r: "(case activate_socket s dev h of Inl err \<Rightarrow> Some (Inl err) | Inr (status, h) \<Rightarrow> setup_mmapped s h) = Some r"
      "goes_well (\<lambda>(status, h'). 0 \<le> status \<and> opened h') r" by blast
  let ?b = "bind_r r (\<lambda>(status, h). bind_r (bound (bind_protocol s) h) (\<lambda>h. Inr (status, h)))"
  have b: "goes_well (\<lambda>(status, h'). 0 \<le> status \<and> opened h') ?b"
    by (rule goes_well_bind [OF r(2)]) (auto simp: opened_def socket_made_def intro!: goes_well_after_bound)
  show ?thesis
  proof (cases ?b)
    case (Inl err)
    then show ?thesis using b unfolding activate_device_def r(1) by (cases err) (simp add: cleaned)
  next
    case (Inr ok)
    then show ?thesis using b unfolding activate_device_def r(1) by (cases ok) (simp add: opened_def socket_made_def)
  qed
qed

lemma setnonblock_keeps:
  assumes "pcap_setnonblock_linux fd ev v3 bad b l = (r, l')"
  shows "r \<in> {0, - 1} \<and> ring l' = ring l \<and> ring_offset l' = ring_offset l \<and> lp l' = lp l \<and> vlan_offset l' = vlan_offset l \<and> cooked l' = cooked l"
  using assms by (auto simp: pcap_setnonblock_linux_def set_poll_timeout_def Let_def split: if_splits)

lemma pcap_activate_well:
  assumes "system_ok s" "\<not> is_activated h" "device (opt h) = Some dev"
  shows "\<exists>status h'. pcap_activate s h = Some (Inr (status, h')) \<and> (is_activated h' \<longleftrightarrow> 0 \<le> status) \<and>
    (if status < 0 then device (opt h') = None else ring_laid_out h' \<and>
      vlan_offset (hl h') = (if link_of h' = DLT_EN10MB then 12 else if link_of h' = DLT_LINUX_SLL then 14 else - 1) \<and>
      (cooked (hl h') \<longrightarrow> link_of h' \<in> cooked_types))"
proof -
  obtain status h1 where a: "activate_device s dev h = Some (status, h1)" "\<not> is_activated h1"
      "if status < 0 then device (opt h1) = None else opened h1"
    using activate_device_well [OF assms(1,2)] by blast
  have p: "pcap_activate_linux s h = Some (Inr (status, h1))" using a(1) assms(3) by (simp add: pcap_activate_linux_def)
  show ?thesis
  proof (cases "status < 0")
    case True
    then show ?thesis using a(2,3) assms(2) by (simp add: pcap_activate_def pcap_check_activated_def p message_def)
  next
    case False
    then have o: "opened h1" using a(3) by simp
    obtain r l where n: "pcap_setnonblock_linux True (event_fd_nonblock s) (tp_version h1 = TPACKET_V3) (broken_v3 s) True (hl h1) = (r, l)"
      by fastforce
    note k = setnonblock_keeps [OF n]
    show ?thesis
    proof (cases "nonblock (opt h1)")
      case True
      then show ?thesis using False assms(2) a(2) o k
        by (auto simp: pcap_activate_def pcap_check_activated_def p n pcap_cleanup_linux_def opened_def ring_laid_out_def socket_made_def)
    next
      case nb: False
      then show ?thesis using False assms(2) a(2) o
        by (auto simp: pcap_activate_def pcap_check_activated_def p opened_def ring_laid_out_def socket_made_def)
    qed
  qed
qed

lemma laid_out_ring:
  assumes "ring_laid_out h"
  shows "ring_ok (hl h)" "view (hl h) = []"
proof -
  have "rotated (hl h) = map Some [] @ replicate (length (ring (hl h)) - length []) None"
    using assms by (simp add: ring_laid_out_def rotated_def)
  from viewI [OF this] assms show "ring_ok (hl h)" "view (hl h) = []" by (auto simp: ring_laid_out_def)
qed

text \<open>C28: opening a device is safe. Whatever the system answers, the activation of a handle that was not active returns, and it
  leaves the handle active exactly when its status is not an error. Then the ring has at least one frame, every frame is inside
  of the memory that was mapped and no two overlap, they have the size that packets are checked against, no block is filled,
  and the handle is as the reading functions rely on it, except for three types of link that are captured cooked with a header
  of their own.\<close>

theorem activation_opens:
  assumes "system_ok s" "\<not> is_activated h" "device (opt h) = Some dev"
  shows "\<exists>status h'. pcap_activate s h = Some (Inr (status, h')) \<and> (is_activated h' \<longleftrightarrow> 0 \<le> status) \<and>
    (0 \<le> status \<longrightarrow> ring_laid_out h' \<and> ring_ok (hl h') \<and> view (hl h') = [] \<and>
      (linktype (lp (hl h')) \<notin> {DLT_LINUX_IRDA, DLT_LINUX_LAPD, DLT_NETLINK} \<longrightarrow> live_ok (hl h')))"
proof -
  obtain status h' where p: "pcap_activate s h = Some (Inr (status, h'))" "is_activated h' \<longleftrightarrow> 0 \<le> status"
    and w: "if status < 0 then device (opt h') = None else ring_laid_out h' \<and>
      vlan_offset (hl h') = (if link_of h' = DLT_EN10MB then 12 else if link_of h' = DLT_LINUX_SLL then 14 else - 1) \<and>
      (cooked (hl h') \<longrightarrow> link_of h' \<in> cooked_types)"
    using pcap_activate_well [OF assms] by blast
  have "live_ok (hl h')" if "0 \<le> status" "link_of h' \<notin> {DLT_LINUX_IRDA, DLT_LINUX_LAPD, DLT_NETLINK}"
    using w that by (auto simp: live_ok_def ring_laid_out_def)
  then show ?thesis using p w laid_out_ring [of h'] by (auto split: if_splits)
qed

text \<open>C38: a second activation. An activation that fails has released the name of the device, so another activation of the same
  handle, which nothing refuses because the handle is not active, reads through a null pointer.\<close>

theorem failed_activation_is_final:
  assumes "system_ok s" "\<not> is_activated h" "device (opt h) = Some dev"
    and "pcap_activate s h = Some (Inr (status, h'))" "status < 0"
  shows "pcap_activate s' h' = Some (Inl (MemoryFault NullDeref))"
proof -
  have "\<not> is_activated h'" "device (opt h') = None" using pcap_activate_well [OF assms(1-3)] assms(4,5) by auto
  then show ?thesis by (simp add: pcap_activate_def pcap_check_activated_def pcap_activate_linux_def)
qed

section \<open>A concrete system\<close>

definition answers_example :: "socket_answer \<Rightarrow> answers" where
  "answers_example so = \<lparr>handle_memory = True, precision_memory = True, event_fd = True, device_memory = True, if_drops = 0,
     first_socket = so, lo_index = 1, arptype = Inr 1, is_wifi = False, dsa_tagging = None, dlt_memory = True, closed = True,
     second_socket = True, if_index = 2, bind_socket = Pending False 0, promisc_set = True, auxdata_set = True,
     timestamps_set = True, oneshot_memory = True, header_length = (\<lambda>v. Inr 32), version_set = (\<lambda>v. True), reserve_set = True,
     mtu = 1500, offload = 0, socket_type = Some False, page_size = 4096, hardware = HwUnsupported,
     rx_ring = (\<lambda>b n m. if n * b < 2 ^ 32 then RingGranted else RingRefused), mapped = True, frames_memory = True,
     broken_v3 = False, bind_protocol = Pending False 0, event_fd_nonblock = True\<rparr>"

lemma answers_example_ok: "system_ok (answers_example so)"
  by (auto simp: system_ok_def answers_example_def split: if_splits)

lemma created_example: "\<not> is_activated (pcap_create_common dev)" "device (opt (pcap_create_common dev)) = Some dev"
  by (simp_all add: pcap_create_common_def new_pcap_def is_activated_def del: is_activated_fold)

theorem activation_opens_witness:
  "\<exists>status h. pcap_activate (answers_example Opened) (pcap_create_common (bytes_of ''eth0'')) = Some (Inr (status, h)) \<and>
    (is_activated h \<longleftrightarrow> 0 \<le> status)"
  using activation_opens [OF answers_example_ok created_example] by blast

theorem failed_activation_is_final_witness:
  "\<exists>h. pcap_activate (answers_example Denied) (pcap_create_common (bytes_of ''eth0'')) = Some (Inr (PCAP_ERROR_PERM_DENIED, h)) \<and>
    pcap_activate (answers_example Opened) h = Some (Inl (MemoryFault NullDeref))"
proof -
  let ?h = "pcap_create_common (bytes_of ''eth0'')"
  have c: "first_socket (answers_example Denied) = Denied" "device_memory (answers_example Denied)" "length (bytes_of ''eth0'') < 16"
    by (simp_all add: answers_example_def bytes_of_def)
  have "\<exists>h1. activate_socket (answers_example Denied) (bytes_of ''eth0'') ?h = Inl (PCAP_ERROR_PERM_DENIED, h1)"
    using c by (simp add: activate_socket_def need_def setup_socket_def Let_def)
  then obtain h1 where "activate_device (answers_example Denied) (bytes_of ''eth0'') ?h = Some (PCAP_ERROR_PERM_DENIED, h1)"
    by (auto simp: activate_device_def)
  then obtain h where h: "pcap_activate (answers_example Denied) ?h = Some (Inr (PCAP_ERROR_PERM_DENIED, h))"
    using created_example [of "bytes_of ''eth0''"]
    by (simp add: pcap_activate_def pcap_check_activated_def pcap_activate_linux_def PCAP_ERROR_PERM_DENIED_def)
  from failed_activation_is_final [OF answers_example_ok created_example this] have
    "pcap_activate (answers_example Opened) h = Some (Inl (MemoryFault NullDeref))" by (simp add: PCAP_ERROR_PERM_DENIED_def)
  with h show ?thesis by blast
qed

end
