(* ===== verification/Live_Programs.thy ===== *)
theory Live_Programs
  imports Live_Open Protocol
begin

text \<open>
  The programs of the repository over the capture library: a handler as it is called by \<open>pcap_loop\<close> of a device, the
  service of a device that gets its packets through the filter, and the opening of a device as the programs do it.
\<close>

section \<open>A handler as a callback\<close>

text \<open>The handlers of the programs look at the captured bytes and do not break the loop; what stops the program stays.\<close>

definition as_callback :: "(byte list \<Rightarrow> 's \<Rightarrow> stop + 's) \<Rightarrow> (stop + 's) callback" where
  "as_callback handler = (\<lambda>h d s. (bind_r s (handler (take (unat (caplen h)) d)), False))"

lemma as_callback_ok: "looks_captured (as_callback handler)" "never_breaks (as_callback handler)"
  by (simp_all add: looks_captured_def never_breaks_def as_callback_def)

lemma feed_handler:
  assumes "\<forall>(h, d) \<in> set ps. length d \<le> unat (caplen h)"
  shows "feed (as_callback handler) ps s = bind_r s (pcap_loop handler (map snd ps))"
  using assms
proof (induction ps arbitrary: s)
  case Nil
  then show ?case by (cases s) simp_all
next
  case (Cons p ps)
  obtain h d where p: "p = (h, d)" by (cases p)
  then have t: "take (unat (caplen h)) d = d" using Cons.prems by simp
  show ?case
  proof (cases s)
    case (Inl err)
    then show ?thesis using Cons.IH [of "Inl err"] Cons.prems by (simp add: p as_callback_def)
  next
    case (Inr st)
    then show ?thesis using Cons.IH [of "handler d st"] Cons.prems by (simp add: p as_callback_def t)
  qed
qed

lemma delivered_length:
  assumes "frame_ok l fr" "live_ok l"
  shows "length (snd (delivered l fr)) \<le> unat (caplen (fst (delivered l fr)))"
proof -
  let ?l = "l\<lparr>filter_in_userland := False\<rparr>"
  have s: "static_part ?l = static_part l" by (simp add: static_part_def)
  have "frame_ok ?l fr" "live_ok ?l" using assms by (simp_all add: static_frame [OF s] live_ok_def)
  from judge_ok [OF this, of undefined "\<lambda>_. True"] obtain data where
    "take (unat (caplen (handed_header l fr))) data = snd (delivered l fr)"
    by (auto simp: static_frame [OF s] delivered_def)
  then show ?thesis by (metis delivered_def fst_conv length_take min.cobounded2)
qed

lemma deliveries_plain:
  assumes "\<forall>fr \<in> set frs. \<not> tagged l fr \<and> length (seen l fr) \<le> unat (snapshot (lp l))"
  shows "map snd (deliveries l P frs) = filter P (map (seen l) (filter (wanted l) frs))"
  using assms by (induction frs) (auto simp: deliveries_def delivered_def with_tag_def)

text \<open>A packet of the programs passes their filter.\<close>

lemma custom_packet_matches: "length d = 6 \<Longrightarrow> length s = 6 \<Longrightarrow> ether_proto_matches 0x1234 (create_custom_packet d s hdr)"
  by (simp add: ether_proto_matches_def field_def be_word_def LLCSAP_ISONS_def LLCSAP_IP_def LLCSAP_NETBEUI_def
      LLCSAP_IPX_def ETHERTYPE_ATALK_def ETHERTYPE_AARP_def ETHERMTU_def create_custom_packet_def ether_bytes_def ETHERTYPE_CUSTOM_def)

section \<open>The loop over the packets of a capture\<close>

text \<open>The models of the programs run their handler over the list of the captured packets. The library refines this.\<close>

lemma capture_runs_handler:
  assumes "compile_ether_proto (snapshot (lp l)) v = Some prog" "22 \<le> snapshot (lp l)"
    and "live_ok l" "ring_ok l" "\<not> cooked l" "blocks_to_filter l = 0" "\<forall>b \<in> set (view l). block_ok l b" "kernel_ok k l"
    and "pcap_setfilter_linux e k c l (Some prog) = (0, l1)"
    and "attached l1 \<noteq> None \<Longrightarrow> filters_from k (length (view l1) = length (ring l1)) (now l1) (accepted_by e prog l)"
    and "ends_at k T" "quiet_until k T" "\<not> break_loop (lp l)" "\<not> netdown l" "cnt \<le> 0"
    and "length (view l1) + length (handed_in k (now l1) T) \<le> length (ring l1)"
    and "frs = map hd (view l1 @ handed_in k (now l1) T)"
      "\<forall>fr \<in> set frs. \<not> tagged l fr \<and> length (seen l fr) \<le> unat (snapshot (lp l))"
  shows "\<exists>q. pcap_loop_live False e k l1 cnt (as_callback handler) (Inr st) = Some (Inr (PCAP_ERROR_BREAK, q,
    pcap_loop handler (filter (ether_proto_matches v) (map (seen l) (filter (wanted l) frs))) st))"
proof -
  obtain r q bs fs where r:
    "pcap_loop_live False e k l1 cnt (as_callback handler) (Inr st) =
      Some (Inr (r, q, feed (as_callback handler) (deliveries l (ether_proto_matches v) fs) (Inr st)))"
    "r = PCAP_ERROR_BREAK" "fs = map hd (view l1 @ bs)" "bs = handed_in k (now l1) T"
    using live_capture [OF assms(1-11) as_callback_ok(1) [of handler], of cnt "Inr st"] assms(12-16) as_callback_ok(2) by blast
  have blocks: "\<forall>b \<in> set (view l1 @ handed_in k (now l1) T). block_ok l b"
  proof -
    have n: "snapshot (lp l) \<noteq> 0" using assms(2) by (auto simp: word_le_nat_alt)
    have "correct_for (snapshot (lp l)) v prog" using compile_correct [OF n, of v] assms(1) by auto
    from filter_installed [OF this assms(2-11)] have s: "ring_shared l1 l1" and st: "static_part l1 = static_part l"
      unfolding capturing_def by blast+
    have "block_ok l1 = block_ok l" by (simp add: block_ok_def static_frame(1) [OF st] fun_eq_iff)
    then have "\<forall>b \<in> set (view l1). block_ok l b" using s by (simp add: ring_shared_def)
    then show ?thesis using assms(8) by (auto simp: kernel_ok_def handed_in_def)
  qed
  have "frame_ok l (hd b)" if "block_ok l b" for b using that hd_in_set [of b] by (simp add: block_ok_def)
  then have "\<forall>fr \<in> set frs. frame_ok l fr" using blocks by (auto simp: assms(17))
  then have "\<forall>(h, d) \<in> set (deliveries l (ether_proto_matches v) frs). length d \<le> unat (caplen h)"
    using delivered_length [OF _ assms(3)] by (simp add: deliveries_def split_beta)
  from feed_handler [OF this, of handler "Inr st"] deliveries_plain [OF assms(18), of "ether_proto_matches v"] r
  show ?thesis by (simp add: assms(17))
qed

text \<open>C26: the loop of the models is what the library does. The models of the programs run their handler over the list of
  the packets that a capture delivers. The live capture of the library, with the handler as its callback, with the compiled
  filter and with a kernel whose packets all find room in the ring, runs it over the packets that match and have the direction
  that is asked for, in the order in which the kernel handed them over; a handler that stops the program stops it there.\<close>

theorem capture_refines_loop:
  assumes "compile_ether_proto (snapshot (lp l)) v = Some prog" "22 \<le> snapshot (lp l)"
    and "live_ok l" "ring_ok l" "\<not> cooked l" "blocks_to_filter l = 0" "\<forall>b \<in> set (view l). block_ok l b" "kernel_ok k l"
    and "pcap_setfilter_linux e k c l (Some prog) = (0, l1)"
    and "attached l1 \<noteq> None \<Longrightarrow> filters_from k (length (view l1) = length (ring l1)) (now l1) (accepted_by e prog l)"
    and "ends_at k T" "quiet_until k T" "\<not> break_loop (lp l)" "\<not> netdown l" "cnt \<le> 0"
    and "length (view l1) + length (handed_in k (now l1) T) \<le> length (ring l1)"
    and "frs = map hd (view l1 @ handed_in k (now l1) T)"
      "\<forall>fr \<in> set frs. \<not> tagged l fr \<and> length (seen l fr) \<le> unat (snapshot (lp l))"
  shows "\<exists>q. pcap_loop_live False e k l1 cnt (as_callback handler) (Inr st) = Some (Inr (PCAP_ERROR_BREAK, q,
    pcap_loop handler (filter (ether_proto_matches v) (map (seen l) (filter (wanted l) frs))) st))"
  by (rule capture_runs_handler) (rule assms | assumption)+

text \<open>C5: a device over its capture library. The service of a device has the filter of the protocol installed and reads
  from its network interface. Among whatever other traffic the kernel hands over, before and after the installation, are a
  set-up packet and a request for it. The run of the library, with the service as the callback, the client and the
  trusted application behind it, ends when it is broken off, and the device has sent one packet, which bears the new
  identifier. The service does not wait for the command that stores the new key: if it has ended when the request is
  handled, the reply carries the proof expected of the new key, and if not, that of the key which the device had before. (The
  commands do not overlap in the trusted application, which takes one session at a time.)\<close>

theorem device_over_capture:
  assumes "compile_ether_proto (snapshot (lp l)) 0x1234 = Some prog" "22 \<le> snapshot (lp l)"
    and "live_ok l" "ring_ok l" "\<not> cooked l" "blocks_to_filter l = 0" "\<forall>b \<in> set (view l). block_ok l b" "kernel_ok k l"
    and "pcap_setfilter_linux e k c l (Some prog) = (0, l1)"
    and "attached l1 \<noteq> None \<Longrightarrow> filters_from k (length (view l1) = length (ring l1)) (now l1) (accepted_by e prog l)"
    and "ends_at k T" "quiet_until k T" "\<not> break_loop (lp l)" "\<not> netdown l"
    and "length (view l1) + length (handed_in k (now l1) T) \<le> length (ring l1)"
    and "frs = map hd (view l1 @ handed_in k (now l1) T)"
      "\<forall>fr \<in> set frs. \<not> tagged l fr \<and> length (seen l fr) \<le> unat (snapshot (lp l))"
    and "filter (ether_proto_matches 0x1234) (map (seen l) (filter (wanted l) frs)) =
      [setup_packet d s r0 (wire_put key) (wire_put idd), request_packet d s r]"
    and "ta_works api v old tail tc" "device_credentials key idd" "stack_ok stk"
    and "length d = 6" "length s = 6" "length r0 = 16" "length r = 16" "sent (pproc st) = []"
    and "background (pw (pproc st)) = []"
    and "device_credentials ckey cid" "if in_time ends (pw (pproc st)) then ckey = key \<and> cid = idd
      else objs v (world (system (pw (pproc st)))) [51] = Some (ckey @ cid)"
  shows "\<exists>q st'. pcap_loop_live False e k l1 0 (as_callback (packet_handler (device_os tc stk env ends))) (Inr st) =
      Some (Inr (PCAP_ERROR_BREAK, q, Inr st')) \<and>
    sent (pproc st') = [(d, reply_packet s d r (wire_put idd) (expected_proof ckey cid r))]"
proof -
  obtain q where q: "pcap_loop_live False e k l1 0 (as_callback (packet_handler (device_os tc stk env ends))) (Inr st) =
      Some (Inr (PCAP_ERROR_BREAK, q, pcap_loop (packet_handler (device_os tc stk env ends))
        [setup_packet d s r0 (wire_put key) (wire_put idd), request_packet d s r] st))"
    using capture_runs_handler [OF assms(1-14) order_refl assms(15-17), of "packet_handler (device_os tc stk env ends)" st]
    unfolding assms(18) by blast
  from device_replies [OF assms(19-29), of env] q show ?thesis by auto
qed

section \<open>A concrete device\<close>

lemma seen_example:
  assumes "length a \<in> {8..176}" "length b \<in> {8..176}" "frs = map hd ([[frame_live [8, 0]]] @ [[frame_of a], [frame_of b]])"
  shows "map (seen live_example) (filter (wanted live_example) frs) = [snd (frame_example [8, 0]), a, b]"
    "\<forall>fr \<in> set frs. \<not> tagged live_example fr \<and> length (seen live_example fr) \<le> unat (snapshot (lp live_example))"
  using assms by (simp_all add: frame_of_wanted frame_of_seen frame_of_tagged length_example live_example_calm)

theorem capture_refines_loop_witness:
  "\<exists>prog l1 q. compile_ether_proto 176 0x1234 = Some prog \<and>
    pcap_setfilter_linux env_example (kernel_example (snd (frame_example [8, 6])) (snd (frame_example [0x12, 0x34])))
      (calls_example True) live_example (Some prog) = (0, l1) \<and>
    pcap_loop_live False env_example (kernel_example (snd (frame_example [8, 6])) (snd (frame_example [0x12, 0x34]))) l1 0
      (as_callback (\<lambda>p ps. Inr (ps @ [p]))) (Inr []) =
      Some (Inr (PCAP_ERROR_BREAK, q, Inr [snd (frame_example [0x12, 0x34])]))"
proof -
  let ?a = "snd (frame_example [8, 6])" and ?b = "snd (frame_example [0x12, 0x34])"
  let ?k = "kernel_example ?a ?b" and ?frs = "map hd ([[frame_live [8, 0]]] @ [[frame_of ?a], [frame_of ?b]])"
  note c = live_example_calm
  obtain prog where p: "compile_ether_proto 176 0x1234 = Some prog" "correct_for 176 0x1234 prog"
    using compile_correct [of 176 "0x1234"] by auto
  obtain l1 where l1: "pcap_setfilter_linux env_example ?k (calls_example True) live_example (Some prog) = (0, l1)"
    using setfilter_example [OF p(2)] by blast
  note i = installed_example [OF l1]
  have f: "filters_from ?k (length (view l1) = length (ring l1)) (now l1) (accepted_by env_example prog live_example)"
    by (rule filters_example [OF p(2)]) (use i frame_matches_example(1) in \<open>simp_all add: length_example\<close>)
  have k: "kernel_ok ?k live_example" by (rule kernel_ok_example) (simp_all add: length_example)
  have h: "view l1 @ handed_in ?k (now l1) 4 = [[frame_live [8, 0]]] @ [[frame_of ?a], [frame_of ?b]]"
    using i handed_example by simp
  then have "length (view l1 @ handed_in ?k (now l1) 4) \<le> length (ring l1)" using i by simp
  then have room: "length (view l1) + length (handed_in ?k (now l1) 4) \<le> length (ring l1)" by simp
  have "\<not> ether_proto_matches 0x1234 ?a"
    by (simp add: frame_example_def ether_proto_matches_def field_def be_word_def LLCSAP_ISONS_def LLCSAP_IP_def LLCSAP_NETBEUI_def
        LLCSAP_IPX_def ETHERTYPE_ATALK_def ETHERTYPE_AARP_def ETHERMTU_def)
  then have "filter (ether_proto_matches 0x1234) (map (seen live_example) (filter (wanted live_example) ?frs)) = [?b]"
    using frame_matches_example seen_example(1) [OF _ _ refl, of ?a ?b] by (simp add: length_example)
  then show ?thesis
    using capture_refines_loop [OF p(1) [folded c(5)] _ live_ok_example ring_example(2) c(1,2,6) k l1 f kernel_example_run c(3,4)
        order_refl room refl, unfolded h, OF _ seen_example(2) [OF _ _ refl], of "\<lambda>p ps. Inr (ps @ [p])" "[]"] p(1) l1
    by (auto simp: length_example c(5))
qed

theorem device_over_capture_witness:
  "\<forall>late. \<exists>prog l1 q st'. compile_ether_proto 176 0x1234 = Some prog \<and>
    pcap_setfilter_linux env_example (kernel_example
        (setup_packet (replicate 6 1) (replicate 6 2) (replicate 16 0) (wire_put (replicate 64 49)) (wire_put (replicate 32 49)))
        (request_packet (replicate 6 1) (replicate 6 2) (replicate 16 3))) (calls_example True) live_example (Some prog) = (0, l1) \<and>
    pcap_loop_live False env_example (kernel_example
        (setup_packet (replicate 6 1) (replicate 6 2) (replicate 16 0) (wire_put (replicate 64 49)) (wire_put (replicate 32 49)))
        (request_packet (replicate 6 1) (replicate 6 2) (replicate 16 3))) l1 0
      (as_callback (packet_handler (device_os mem_teec stack_example [] (\<lambda>_. if late then [] else [0]))))
      (Inr \<lparr>pproc = \<lparr>pw = machine_example (replicate 64 52 @ replicate 32 53), sent = [], ran = []\<rparr>, id_dispositivo_hex = None\<rparr>) =
      Some (Inr (PCAP_ERROR_BREAK, q, Inr st')) \<and>
    sent (pproc st') = [(replicate 6 1, reply_packet (replicate 6 2) (replicate 6 1) (replicate 16 3) (wire_put (replicate 32 49))
      (expected_proof (if late then replicate 64 52 else replicate 64 49)
        (if late then replicate 32 53 else replicate 32 49) (replicate 16 3)))]"
proof
  fix late :: bool
  let ?d = "replicate 6 1 :: byte list" and ?s = "replicate 6 2 :: byte list"
  let ?a = "setup_packet ?d ?s (replicate 16 0) (wire_put (replicate 64 49)) (wire_put (replicate 32 49))"
    and ?b = "request_packet ?d ?s (replicate 16 3)"
  let ?k = "kernel_example ?a ?b" and ?frs = "map hd ([[frame_live [8, 0]]] @ [[frame_of ?a], [frame_of ?b]])"
  note c = live_example_calm
  have m: "ether_proto_matches 0x1234 ?a" "ether_proto_matches 0x1234 ?b"
    unfolding setup_packet_def request_packet_def by (simp_all only: custom_packet_matches length_replicate)
  have len: "length ?a \<in> {8..176}" "length ?b \<in> {8..176}"
    by (simp_all add: setup_packet_def request_packet_def width oper_bytes_def setup_bytes_def)
  obtain prog where p: "compile_ether_proto 176 0x1234 = Some prog" "correct_for 176 0x1234 prog"
    using compile_correct [of 176 "0x1234"] by auto
  obtain l1 where l1: "pcap_setfilter_linux env_example ?k (calls_example True) live_example (Some prog) = (0, l1)"
    using setfilter_example [OF p(2)] by blast
  note i = installed_example [OF l1]
  have f: "filters_from ?k (length (view l1) = length (ring l1)) (now l1) (accepted_by env_example prog live_example)"
    by (rule filters_example [OF p(2) len(2) m(2)]) (use i in simp_all)
  have k: "kernel_ok ?k live_example" by (rule kernel_ok_example [OF len])
  have h: "view l1 @ handed_in ?k (now l1) 4 = [[frame_live [8, 0]]] @ [[frame_of ?a], [frame_of ?b]]"
    using i handed_example by simp
  then have "length (view l1 @ handed_in ?k (now l1) 4) \<le> length (ring l1)" using i by simp
  then have room: "length (view l1) + length (handed_in ?k (now l1) 4) \<le> length (ring l1)" by simp
  have t: "filter (ether_proto_matches 0x1234) (map (seen live_example) (filter (wanted live_example) ?frs)) = [?a, ?b]"
    unfolding seen_example(1) [OF len refl] using m frame_matches_example(2) by simp
  let ?m = "machine_example (replicate 64 52 @ replicate 32 53)" and ?ends = "\<lambda>_::nat. if late then [] else [0::nat]"
    and ?ckey = "if late then replicate 64 52 else replicate 64 49 :: byte list"
    and ?cid = "if late then replicate 32 53 else replicate 32 49 :: byte list"
  have dc: "device_credentials (replicate 64 49) (replicate 32 49)" "device_credentials ?ckey ?cid"
    by (simp_all add: device_credentials_def list_all_iff lower_hex_def)
  have held: "if in_time ?ends ?m then ?ckey = replicate 64 49 \<and> ?cid = replicate 32 49
      else objs mem_view (world (system ?m)) [51] = Some (?ckey @ ?cid)"
    by (simp add: in_time_def machine_example_def mem_view_def mem_state_def)
  show "\<exists>prog l1 q st'. compile_ether_proto 176 0x1234 = Some prog \<and>
    pcap_setfilter_linux env_example (kernel_example
        (setup_packet (replicate 6 1) (replicate 6 2) (replicate 16 0) (wire_put (replicate 64 49)) (wire_put (replicate 32 49)))
        (request_packet (replicate 6 1) (replicate 6 2) (replicate 16 3))) (calls_example True) live_example (Some prog) = (0, l1) \<and>
    pcap_loop_live False env_example (kernel_example
        (setup_packet (replicate 6 1) (replicate 6 2) (replicate 16 0) (wire_put (replicate 64 49)) (wire_put (replicate 32 49)))
        (request_packet (replicate 6 1) (replicate 6 2) (replicate 16 3))) l1 0
      (as_callback (packet_handler (device_os mem_teec stack_example [] (\<lambda>_. if late then [] else [0]))))
      (Inr \<lparr>pproc = \<lparr>pw = machine_example (replicate 64 52 @ replicate 32 53), sent = [], ran = []\<rparr>, id_dispositivo_hex = None\<rparr>) =
      Some (Inr (PCAP_ERROR_BREAK, q, Inr st')) \<and>
    sent (pproc st') = [(replicate 6 1, reply_packet (replicate 6 2) (replicate 6 1) (replicate 16 3) (wire_put (replicate 32 49))
      (expected_proof (if late then replicate 64 52 else replicate 64 49)
        (if late then replicate 32 53 else replicate 32 49) (replicate 16 3)))]"
    using device_over_capture [OF p(1) [folded c(5)] _ live_ok_example ring_example(2) c(1,2,6) k l1 f kernel_example_run c(3,4)
        room refl, unfolded h, OF _ seen_example(2) [OF len refl] t mem_ta_works dc(1) _ _ _ _ _ _ _ dc(2), of stack_example
        "\<lparr>pproc = \<lparr>pw = ?m, sent = [], ran = []\<rparr>, id_dispositivo_hex = None\<rparr>" ?ends "[]"] held p(1) l1
    by (auto simp: c(5) stack_ok_def stack_example_def machine_example_idle)
qed

section \<open>The capture of the programs\<close>

text \<open>How \<open>optee_dra/dra_service/host/main.c\<close> and the readers open their device: \<open>Inr None\<close> is the message and the exit.\<close>

definition abrir_captura :: "answers \<Rightarrow> int list option \<Rightarrow> byte list \<Rightarrow> (crash + handle option) option" where
  "abrir_captura s types iface = (case pcap_create_interface s types iface of
     None \<Rightarrow> Some (Inr None)
   | Some handle \<Rightarrow>
       let (_, handle) = pcap_set_buffer_size (200 * 1024 * 1024) handle;
           (_, handle) = pcap_set_snaplen (of_nat SNAP_LEN) handle;
           (_, handle) = pcap_set_immediate_mode True handle;
           (_, handle) = pcap_set_promisc True handle;
           (_, handle) = pcap_set_timeout 0 handle in
       Option.bind (pcap_activate s handle) (\<lambda>r. Some (bind_r r (\<lambda>(status, handle).
         Inr (if status \<noteq> 0 then None else Some handle)))))"

text \<open>The answers for a plain Ethernet device, a kernel with rings of the second version, and pages of 4096 bytes.\<close>

definition ethernet_device :: "answers \<Rightarrow> bool" where
  "ethernet_device s \<longleftrightarrow> handle_memory s \<and> precision_memory s \<and> device_memory s \<and> first_socket s = Opened \<and> arptype s = Inr 1 \<and>
     \<not> is_wifi s \<and> dsa_tagging s = None \<and> if_index s \<noteq> - 1 \<and> bind_socket s = Pending False 0 \<and> promisc_set s \<and> auxdata_set s \<and>
     oneshot_memory s \<and> header_length s TPACKET_V2 = Inr 32 \<and> version_set s TPACKET_V2 \<and> reserve_set s \<and> 176 \<le> mtu s \<and>
     offload s \<noteq> - 1 \<and> socket_type s = Some False \<and> page_size s = 4096 \<and> rx_ring s 4096 51200 819200 = RingGranted \<and> mapped s \<and>
     frames_memory s \<and> bind_protocol s = Pending False 0"

definition program_handle :: "answers \<Rightarrow> int list \<Rightarrow> byte list \<Rightarrow> handle" where
  "program_handle s ts dev = (pcap_create_common dev)\<lparr>
     hl := (hl (pcap_create_common dev))\<lparr>lp := (lp (hl (pcap_create_common dev)))\<lparr>snapshot := of_nat SNAP_LEN\<rparr>, breakloop_fd := event_fd s\<rparr>,
     opt := (opt (pcap_create_common dev))\<lparr>buffer_size := 200 * 1024 * 1024, immediate := True, promisc := True\<rparr>,
     tstamp_types := ts, precisions := [PCAP_TSTAMP_PRECISION_MICRO, PCAP_TSTAMP_PRECISION_NANO]\<rparr>"

lemma abrir_captura_steps:
  assumes "handle_memory s" "precision_memory s"
  shows "abrir_captura s (Some ts) dev = Option.bind (pcap_activate s (program_handle s ts dev)) (\<lambda>r. Some (bind_r r (\<lambda>(status, h).
         Inr (if status \<noteq> 0 then None else Some h))))"
proof -
  have a: "\<not> is_activated (pcap_create_common dev)" by (simp add: is_activated_def pcap_create_common_def new_pcap_def)
  show ?thesis using assms
    by (simp add: abrir_captura_def pcap_create_interface_def pcap_set_buffer_size_def pcap_set_snaplen_def pcap_set_immediate_mode_def
        pcap_set_promisc_def pcap_set_timeout_def set_option_def pcap_check_activated_def program_handle_def)
     (simp add: pcap_create_common_def new_pcap_def is_activated_def del: is_activated_fold)
qed


text \<open>What the steps leave behind.\<close>

definition socket_of_program :: "answers \<Rightarrow> handle \<Rightarrow> bool" where
  "socket_of_program s h \<longleftrightarrow> link_of h = DLT_EN10MB \<and> \<not> cooked (hl h) \<and> snapshot (lp (hl h)) = 176 \<and> vlan_offset (hl h) = 12 \<and>
     timeout (hl h) = 0 \<and> immediate (opt h) \<and> \<not> nonblock (opt h) \<and> buffer_size (opt h) = 209715200 \<and> tstamp_type (opt h) = - 1 \<and>
     fcode (lp (hl h)) = None \<and> blocks_to_filter (hl h) = 0 \<and> \<not> filter_in_userland (hl h) \<and> \<not> break_loop (lp (hl h)) \<and>
     \<not> netdown (hl h) \<and> attached (hl h) = None \<and> ifindex (hl h) = if_index s \<and> now (hl h) = 0 \<and> direction (hl h) = PCAP_D_INOUT \<and>
     tstamp_precision (lp (hl h)) = PCAP_TSTAMP_PRECISION_MICRO \<and> \<not> is_activated h"

lemma program_socket:
  assumes "ethernet_device s" "length dev < 16" "dev \<noteq> bytes_of ''any''" "take 10 dev \<noteq> bytes_of ''cdma_rmnet''"
    "take 4 dev \<noteq> bytes_of ''isdn''" "take 4 dev \<noteq> bytes_of ''isdY''"
  shows "\<exists>h. activate_socket s dev (program_handle s ts dev) = Inr (0, h) \<and> socket_of_program s h"
proof -
  have d: "DLT_EN10MB \<notin> {- 1, DLT_LINUX_SLL, DLT_LINUX_IRDA, DLT_LINUX_LAPD, DLT_NETLINK}"
    by (simp add: DLT_EN10MB_def DLT_LINUX_SLL_def DLT_LINUX_IRDA_def DLT_LINUX_LAPD_def DLT_NETLINK_def)
  have sn: "sint (176 :: u32) = 176" "sint (262144 :: u32) = 262144" by simp_all
  have e: "\<not> is_activated (pcap_create_common dev)" "\<not> rfmon (opt (pcap_create_common dev))" "\<not> nonblock (opt (pcap_create_common dev))"
    "fcode (lp (hl (pcap_create_common dev))) = None" "blocks_to_filter (hl (pcap_create_common dev)) = 0"
    "\<not> filter_in_userland (hl (pcap_create_common dev))" "\<not> break_loop (lp (hl (pcap_create_common dev)))"
    "\<not> netdown (hl (pcap_create_common dev))" "attached (hl (pcap_create_common dev)) = None" "opt_timeout (opt (pcap_create_common dev)) = 0"
    "now (hl (pcap_create_common dev)) = 0" "direction (hl (pcap_create_common dev)) = PCAP_D_INOUT"
    "tstamp_precision (lp (hl (pcap_create_common dev))) = PCAP_TSTAMP_PRECISION_MICRO" "tstamp_type (opt (pcap_create_common dev)) = - 1"
    by (simp_all add: pcap_create_common_def new_pcap_def is_activated_def del: is_activated_fold)
  have n: "PCAP_TSTAMP_PRECISION_MICRO \<noteq> PCAP_TSTAMP_PRECISION_NANO"
    by (simp add: PCAP_TSTAMP_PRECISION_MICRO_def PCAP_TSTAMP_PRECISION_NANO_def)
  show ?thesis using assms d e n
    by (cases "lo_index s = - 1") (simp_all add: ethernet_device_def activate_socket_def need_def Let_def program_handle_def limit_snapshot_def SNAP_LEN_def sn
        MAXIMUM_SNAPLEN_def setup_socket_def raw_socket_def map_arphrd_to_dlt_def iface_dsa_get_proto_info_def ethernet_type_def
        set_offset_def needs_cooked_def bound_def iface_bind_def snapshot_for_cooked_def set_vlan_offset_def
        socket_of_program_def message_def)
qed


lemma program_ring:
  assumes "ethernet_device s" "socket_of_program s h" "tp_version h = TPACKET_V2" "tp_hdrlen (hl h) = 32"
  shows "create_ring s h = Some (Inr (0, upd_live (\<lambda>l. l\<lparr>ring := replicate 819200 None, ring_offset := 0, lp := (lp l)\<lparr>bufsize := 256\<rparr>\<rparr>)
    (h\<lparr>mmapbuflen := 209715200, ring_frames := frame_offsets 51200 4096 16 256\<rparr>)))"
proof -
  have mf: "\<not> max_frame_len s < 176" using assms(1) by (auto simp: max_frame_len_def ethernet_device_def)
  have sz: "tp_frame_size_v2 s h False = 256" using assms(2,4) mf
    by (simp add: tp_frame_size_v2_def socket_of_program_def Let_def mac_offset_def tp_reserve_def MAX_LINKHEADER_SIZE_def VLAN_TAG_LEN_def
        TPACKET_ALIGN_def)
  have f: "frame_request s h = Inr 256" using assms(1-3) sz
    by (auto simp: frame_request_def need_def ethernet_device_def)
  have b: "block_size 4096 256 = Some 4096" unfolding block_size_def by (subst while_option_unfold) simp
  have a: "ask_ring (rx_ring s 4096) 16 819200 = Some (51200, 819200)" using assms(1)
    by (subst ask_ring.simps) (simp add: Let_def ethernet_device_def)
  have n: "frame_nr h 256 = 819200" using assms(2) by (simp add: frame_nr_def socket_of_program_def)
  have hs: "hardware_stamps s h = Inr (0, h)" using assms(2)
    by (simp add: hardware_stamps_def socket_of_program_def PCAP_TSTAMP_ADAPTER_def PCAP_TSTAMP_ADAPTER_UNSYNCED_def)
  have g: "reserve_set s" "page_size s = 4096" "mapped s" "frames_memory s" using assms(1) by (simp_all add: ethernet_device_def)
  show ?thesis by (simp add: create_ring_def need_def f b hs a n g Let_def)
qed


definition ready_for_program :: "handle \<Rightarrow> bool" where
  "ready_for_program h \<longleftrightarrow> is_activated h \<and> ring_laid_out h \<and> length (ring_frames h) = 819200 \<and> bufsize (lp (hl h)) = 256 \<and>
     mmapbuflen h = 209715200 \<and> tp_version h = TPACKET_V2 \<and> tp_hdrlen (hl h) = 32 \<and> poll_timeout (hl h) = - 1 \<and>
     link_of h = DLT_EN10MB \<and> \<not> cooked (hl h) \<and> snapshot (lp (hl h)) = 176 \<and> vlan_offset (hl h) = 12 \<and>
     blocks_to_filter (hl h) = 0 \<and> \<not> break_loop (lp (hl h)) \<and> \<not> netdown (hl h) \<and> direction (hl h) = PCAP_D_INOUT \<and> now (hl h) = 0"

lemma program_opens:
  assumes "ethernet_device s" "length dev < 16" "dev \<noteq> bytes_of ''any''" "take 10 dev \<noteq> bytes_of ''cdma_rmnet''"
    "take 4 dev \<noteq> bytes_of ''isdn''" "take 4 dev \<noteq> bytes_of ''isdY''"
  shows "\<exists>h. abrir_captura s (Some ts) dev = Some (Inr (Some h)) \<and> ready_for_program h"
proof -
  obtain h where h: "activate_socket s dev (program_handle s ts dev) = Inr (0, h)" "socket_of_program s h"
    using program_socket [OF assms] by blast
  let ?h1 = "h\<lparr>oneshot := True, opt := (opt h)\<lparr>buffer_size := 209715200\<rparr>\<rparr>"
  let ?h2 = "upd_live (\<lambda>l. l\<lparr>tp_hdrlen := 32\<rparr>) ?h1\<lparr>tp_version := TPACKET_V2\<rparr>"
  let ?h3 = "upd_live (\<lambda>l. l\<lparr>ring := replicate 819200 None, ring_offset := 0, lp := (lp l)\<lparr>bufsize := 256\<rparr>\<rparr>)
    (?h2\<lparr>mmapbuflen := 209715200, ring_frames := frame_offsets 51200 4096 16 256\<rparr>)"
  let ?h4 = "upd_live (set_poll_timeout (tp_version ?h3 = TPACKET_V3) (broken_v3 s)) ?h3"
  have p: "prepare_tpacket_socket s ?h1 = (0, ?h2)" using assms(1) h(2)
    by (simp add: prepare_tpacket_socket_def init_tpacket_def socket_of_program_def ethernet_device_def)
  have s2: "socket_of_program s ?h2" using h(2) by (simp add: socket_of_program_def)
  have r: "create_ring s ?h2 = Some (Inr (0, ?h3))" by (rule program_ring [OF assms(1) s2]) simp_all
  have m: "setup_mmapped s h = Some (Inr (0, ?h4))" using assms(1) h(2) p r
    by (simp add: setup_mmapped_def Let_def ethernet_device_def socket_of_program_def)
  have d: "device (opt (program_handle s ts dev)) = Some dev" by (simp add: program_handle_def pcap_create_common_def)
  have na: "\<not> is_activated (program_handle s ts dev)"
    by (simp add: program_handle_def pcap_create_common_def new_pcap_def is_activated_def del: is_activated_fold)
  have a: "pcap_activate s (program_handle s ts dev) = Some (Inr (0, upd_live (\<lambda>l. l\<lparr>lp := (lp l)\<lparr>activated := True\<rparr>\<rparr>) ?h4))"
    using h m d na assms(1)
    by (simp add: pcap_activate_def pcap_check_activated_def pcap_activate_linux_def activate_device_def bound_def iface_bind_def
        ethernet_device_def socket_of_program_def set_poll_timeout_def)
  have geometry: "length (frame_offsets 51200 4096 16 256) = 819200"
    "\<forall>i < 819200. frame_offsets 51200 4096 16 256 ! i + 256 \<le> 209715200"
    "\<forall>j < 819200. \<forall>i < j. frame_offsets 51200 4096 16 256 ! i + 256 \<le> frame_offsets 51200 4096 16 256 ! j"
    using frame_offsets_apart [of 16 256 4096 51200] by (simp_all add: length_frame_offsets)
  have "ready_for_program (upd_live (\<lambda>l. l\<lparr>lp := (lp l)\<lparr>activated := True\<rparr>\<rparr>) ?h4)"
    using h(2) geometry
    by (simp add: ready_for_program_def ring_laid_out_def socket_of_program_def set_poll_timeout_def INT_MAX_def TPACKET_V2_def TPACKET_V3_def
        del: length_greater_0_conv)
  then show ?thesis using abrir_captura_steps a assms(1) by (auto simp: ethernet_device_def)
qed


text \<open>C29: the programs get the capture that they ask for. On an Ethernet device, with the packets of 176 bytes and the buffer of 200
  MiB that they set, their opening succeeds without a warning: the library makes frames of 256 bytes, 819200 of them, one after
  the other in a mapping of exactly 200 MiB, waits for packets without a limit, and hands out raw Ethernet packets.\<close>

theorem programs_open_device:
  assumes "ethernet_device s" "length dev < 16" "dev \<noteq> bytes_of ''any''" "take 10 dev \<noteq> bytes_of ''cdma_rmnet''"
    "take 4 dev \<noteq> bytes_of ''isdn''" "take 4 dev \<noteq> bytes_of ''isdY''"
  shows "\<exists>h. abrir_captura s (Some ts) dev = Some (Inr (Some h)) \<and> is_activated h \<and>
    linktype (lp (hl h)) = DLT_EN10MB \<and> \<not> cooked (hl h) \<and> snapshot (lp (hl h)) = 176 \<and> poll_timeout (hl h) = - 1 \<and>
    length (ring (hl h)) = 819200 \<and> view (hl h) = [] \<and> bufsize (lp (hl h)) = 256 \<and> mmapbuflen h = 200 * 1024 * 1024 \<and>
    ring_laid_out h"
proof -
  obtain h where "abrir_captura s (Some ts) dev = Some (Inr (Some h))" "ready_for_program h" using program_opens [OF assms] by blast
  then show ?thesis using laid_out_ring(2) [of h] by (auto simp: ready_for_program_def ring_laid_out_def)
qed

text \<open>Where the kernel puts a packet of an Ethernet device: behind its header, the address, the room reserved for a tag, aligned so that
  what follows the Ethernet header is; cut to what the filter returns, here at most 176 bytes.\<close>

definition placed :: "tpacket \<Rightarrow> bool" where
  "placed fr \<longleftrightarrow> unat (tp_mac fr) = TPACKET_ALIGN (TPACKET_ALIGN 32 + 20 + 16) + VLAN_TAG_LEN - 14 \<and> unat (tp_snaplen fr) \<le> 176 \<and>
     256 \<le> length (fr_mem fr)"

lemma placed_ok: "ready_for_program h \<Longrightarrow> placed fr \<Longrightarrow> frame_ok (hl h) fr"
  by (simp add: placed_def frame_ok_def ready_for_program_def TPACKET_ALIGN_def VLAN_TAG_LEN_def added_room_def)

lemma ready_live: "ready_for_program h \<Longrightarrow> live_ok (hl h)" "ready_for_program h \<Longrightarrow> ring_ok (hl h)" "ready_for_program h \<Longrightarrow> view (hl h) = []"
  using laid_out_ring [of h] by (auto simp: ready_for_program_def live_ok_def ring_laid_out_def)

text \<open>C27: from the opening of the device to the handler. A program opens its Ethernet device, installs its filter and runs its
  handler over the capture. If the kernel puts the packets where it does on such a device, and they all find room, then the
  handler is run over the packets of the protocol, in the order in which they came and uncut, until the capture is broken off:
  nothing more has to be assumed of the library.\<close>

theorem opened_program_runs:
  assumes "ethernet_device s" "length dev < 16" "dev \<noteq> bytes_of ''any''" "take 10 dev \<noteq> bytes_of ''cdma_rmnet''"
    "take 4 dev \<noteq> bytes_of ''isdn''" "take 4 dev \<noteq> bytes_of ''isdY''"
    and "abrir_captura s (Some ts) dev = Some (Inr (Some h))" "compile_ether_proto 176 0x1234 = Some prog"
    and "pcap_setfilter_linux e k c (hl h) (Some prog) = (0, l1)" "\<forall>t. \<forall>b \<in> set (hands k t). b \<noteq> [] \<and> (\<forall>fr \<in> set b. placed fr)"
    and "attached l1 \<noteq> None \<Longrightarrow> filters_from k (length (view l1) = length (ring l1)) (now l1) (accepted_by e prog (hl h))"
    and "ends_at k T" "quiet_until k T" "length (view l1) + length (handed_in k (now l1) T) \<le> length (ring l1)"
    and "frs = map hd (view l1 @ handed_in k (now l1) T)"
      "\<forall>fr \<in> set frs. \<not> tagged (hl h) fr \<and> length (seen (hl h) fr) \<le> 176"
  shows "\<exists>q. pcap_loop_live False e k l1 0 (as_callback handler) (Inr st) = Some (Inr (PCAP_ERROR_BREAK, q,
    pcap_loop handler (filter (ether_proto_matches 0x1234) (map (seen (hl h)) (filter (wanted (hl h)) frs))) st))"
proof -
  have r: "ready_for_program h" using program_opens [OF assms(1-6), of ts] assms(7) by auto
  then have f: "snapshot (lp (hl h)) = 176" "\<not> cooked (hl h)" "blocks_to_filter (hl h) = 0" "\<not> break_loop (lp (hl h))" "\<not> netdown (hl h)"
    by (simp_all add: ready_for_program_def)
  have k: "kernel_ok k (hl h)" using assms(10) placed_ok [OF r] by (auto simp: kernel_ok_def block_ok_def)
  have v: "\<forall>b \<in> set (view (hl h)). block_ok (hl h) b" by (simp add: ready_live(3) [OF r])
  show ?thesis
    by (rule capture_runs_handler [OF assms(8) [folded f(1)] _ ready_live(1,2) [OF r] f(2,3) v k assms(9,11-13) f(4,5) order_refl assms(14,15)])
      (use assms(16) f(1) in simp_all)
qed


subsection \<open>A concrete program\<close>

definition placed_example :: tpacket where
  "placed_example = \<lparr>tp_status = 1, tp_len = 16, tp_snaplen = 16, tp_mac = 70, tp_sec = 5, tp_nsec = 7000, tp_vlan_tci = 0,
     tp_vlan_tpid = 0, fr_mem = replicate 70 0 @ snd (frame_example [0x12, 0x34]) @ replicate 200 0\<rparr>"

definition arrival_example :: kernel where
  "arrival_example = \<lparr>hands = (\<lambda>t. if t = 1 then [[placed_example]] else []), polls = (\<lambda>t. report_example (4 \<le> t))\<rparr>"

lemma eth0: "length (bytes_of ''eth0'') < 16" "bytes_of ''eth0'' \<noteq> bytes_of ''any''" "take 10 (bytes_of ''eth0'') \<noteq> bytes_of ''cdma_rmnet''"
    "take 4 (bytes_of ''eth0'') \<noteq> bytes_of ''isdn''" "take 4 (bytes_of ''eth0'') \<noteq> bytes_of ''isdY''"
  by (simp_all add: bytes_of_def)

lemma ethernet_example: "ethernet_device (answers_example Opened)"
  by (simp add: ethernet_device_def answers_example_def)

lemma placed_example_seen:
  assumes "ready_for_program h"
  shows "seen (hl h) placed_example = snd (frame_example [0x12, 0x34])" "wanted (hl h) placed_example" "\<not> tagged (hl h) placed_example"
    "placed placed_example"
proof -
  have p: "placed placed_example" by (simp add: placed_def placed_example_def TPACKET_ALIGN_def VLAN_TAG_LEN_def frame_example_def)
  have h: "tp_hdrlen (hl h) = 32" "\<not> cooked (hl h)" "direction (hl h) = PCAP_D_INOUT" using assms by (simp_all add: ready_for_program_def)
  have m: "take 20 (drop 32 (fr_mem placed_example)) = replicate 20 0" "52 \<le> length (fr_mem placed_example)"
    by (simp_all add: placed_example_def)
  have "peek 32 20 (fr_mem placed_example) = Inr (replicate 20 0)" using peek_ok [of 32 20] m by simp
  then have a: "read_sll (hl h) (fr_mem placed_example) = Inr \<lparr>sll_protocol = 0, sll_ifindex = 0, sll_hatype = 0, sll_pkttype = 0, sll_halen = 0,
      sll_addr = replicate 8 0\<rparr>"
    by (simp add: read_sll_def h TPACKET_ALIGN_def get_def le_word_zeros)
  from seen_raw [OF placed_ok [OF assms p] h(2) a] show "seen (hl h) placed_example = snd (frame_example [0x12, 0x34])"
    by (simp add: ARPHRD_CAN_def placed_example_def frame_example_def)
  show "wanted (hl h) placed_example" by (simp add: wanted_def a linux_check_direction_def PACKET_OUTGOING_def h)
  show "\<not> tagged (hl h) placed_example" by (simp add: tagged_def VLAN_VALID_def TP_STATUS_VLAN_VALID_def placed_example_def)
qed (simp add: placed_def placed_example_def TPACKET_ALIGN_def VLAN_TAG_LEN_def frame_example_def)

theorem programs_open_device_witness:
  "\<exists>h. abrir_captura (answers_example Opened) (Some []) (bytes_of ''eth0'') = Some (Inr (Some h)) \<and> length (ring (hl h)) = 819200"
  using programs_open_device [OF ethernet_example eth0] by blast

lemma library_filters:
  assumes "correct_for (snapshot (lp l)) v prog" "\<not> cooked l"
  shows "\<exists>l1. pcap_setfilter_linux env_example k (calls_example False) l (Some prog) = (0, l1) \<and> attached l1 = None \<and>
    ring l1 = ring l \<and> ring_offset l1 = ring_offset l \<and> now l1 = now l"
proof -
  have i: "install_bpf_program env_example (lp l) prog = (0, (lp l)\<lparr>fcode := Some prog\<rparr>)"
    using assms by (simp add: install_bpf_program_def correct_for_def env_example_def)
  have f: "fix_program (l\<lparr>lp := p, filter_in_userland := True\<rparr>) prog = Some prog" for p
    by (rule fix_program_raw) (simp add: assms(2))
  show ?thesis
    by (cases "length prog \<le> USHRT_MAX")
      (simp_all add: pcap_setfilter_linux_def i f Let_def set_kernel_filter_def attach_new_def reset_kernel_filter_def calls_example_def)
qed

theorem opened_program_runs_witness:
  "\<exists>h prog l1 q. abrir_captura (answers_example Opened) (Some []) (bytes_of ''eth0'') = Some (Inr (Some h)) \<and>
    pcap_setfilter_linux env_example arrival_example (calls_example False) (hl h) (Some prog) = (0, l1) \<and>
    pcap_loop_live False env_example arrival_example l1 0 (as_callback (\<lambda>p ps. Inr (ps @ [p]))) (Inr []) =
      Some (Inr (PCAP_ERROR_BREAK, q, Inr [snd (frame_example [0x12, 0x34])]))"
proof -
  obtain h where h: "abrir_captura (answers_example Opened) (Some []) (bytes_of ''eth0'') = Some (Inr (Some h))" "ready_for_program h"
    using program_opens [OF ethernet_example eth0] by blast
  obtain prog where p: "compile_ether_proto 176 0x1234 = Some prog" "correct_for 176 0x1234 prog"
    using compile_correct [of 176 "0x1234"] by auto
  have f: "snapshot (lp (hl h)) = 176" "\<not> cooked (hl h)" "now (hl h) = 0" "ring (hl h) = replicate 819200 None"
    using h(2) by (simp_all add: ready_for_program_def ring_laid_out_def)
  obtain l1 where l1: "pcap_setfilter_linux env_example arrival_example (calls_example False) (hl h) (Some prog) = (0, l1)"
      "attached l1 = None" "ring l1 = ring (hl h)" "ring_offset l1 = ring_offset (hl h)" "now l1 = 0"
    using library_filters [OF p(2) [folded f(1)] f(2)] f(3) by metis
  have v: "view l1 = []" "length (ring l1) = 819200"
    using ring_view_cong [OF l1(3,4)] ready_live(3) [OF h(2)] l1(3) f(4) by simp_all
  note e = placed_example_seen [OF h(2)]
  have hd: "handed_in arrival_example 0 4 = [[placed_example]]" by (simp add: handed_in_def arrival_example_def upt_rec)
  have run: "ends_at arrival_example 4" "quiet_until arrival_example 4"
    by (simp_all add: ends_at_def quiet_until_def arrival_example_def report_example_def)
  have k: "\<forall>t. \<forall>b \<in> set (hands arrival_example t). b \<noteq> [] \<and> (\<forall>fr \<in> set b. placed fr)"
    by (simp add: arrival_example_def e(4))
  obtain q where "pcap_loop_live False env_example arrival_example l1 0 (as_callback (\<lambda>p ps. Inr (ps @ [p]))) (Inr []) =
      Some (Inr (PCAP_ERROR_BREAK, q, pcap_loop (\<lambda>p ps. Inr (ps @ [p]))
        (filter (ether_proto_matches 0x1234) (map (seen (hl h)) (filter (wanted (hl h)) [placed_example]))) []))"
    using opened_program_runs [OF ethernet_example eth0 h(1) p(1) l1(1) k _ run _ refl, unfolded l1(5) v(1) hd, of "\<lambda>p ps. Inr (ps @ [p])" "[]"]
      l1(2) v(2) e by (auto simp: frame_example_def)
  then show ?thesis using h(1) l1(1) e frame_matches_example by auto
qed

end
