(* ===== verification/Spec2Isabelle.thy ===== *)
theory Spec2Isabelle
  imports Forro_TA Forro_Debug Provas Protocol Switch_Protocol Capture Live_Programs
begin

text \<open>
  P4DRA: remote attestation of devices behind a programmable switch. This library models the C programs of
  the repository and proves what each computes, and what they compute together.

  The programs and how they interact. A controller loads a text file of devices (identifier, key, proof) and
  sends every device a set-up packet and then one request per round (\<open>tools/src/envia_*.c\<close>). The service on
  the device (\<open>optee_dra/dra_service/host/main.c\<close>) passes both to the command \<open>optee_dra\<close>
  (\<open>optee_dra/dra/host/main.c\<close>), a client of the trusted application (\<open>optee_dra/dra/ta/dra_ta.c\<close>), which
  keeps key and identifier in secure storage and computes the proof with the Forro stream cipher
  (\<open>optee_dra/dra/ta/forro.c\<close>, a copy of \<open>forro_cipher/src/forro/ref/forro.c\<close>). The reply goes to a verifier
  (\<open>tools/src/verifica_p4dra_rede.c\<close>), which runs the command \<open>forro-args-dra2\<close>
  (\<open>forro_cipher/src/forro/forro-args-dra.c\<close>) and sends a packet with both proofs. Or the reply
  goes through a programmable switch (\<open>TNA/p4src\<close>), which computes the proof itself while the packet goes
  round in it, with the keys that a script has put into its tables (\<open>TNA/bfrt_python/setup.py\<close>), and
  forwards only replies with the right proof. A reader
  (\<open>tools/src/le_p4dra_rede.c\<close>) logs all packets; \<open>le_provas_rede.c\<close>, \<open>le_provas_arquivo.c\<close> and
  \<open>envia_pacotes_pcap.c\<close> check recorded proofs and repeat recorded packets. All of them send and receive through the
  capture library that the repository carries, \<open>libpcap\<close> 1.10.4 under \<open>optee_dra/dra_service/host/include\<close>: they install
  the filter \<open>ether proto 0x1234\<close> on a device or open a capture file and hand their handler to \<open>pcap_loop\<close>.

  Theories.

  Prelude: faults of C as values, byte and list lemmas, the collections \<open>width\<close> and \<open>c_mem\<close>. CLib: the C
  library functions that the sources call (NUL-terminated strings, \<open>atoi\<close>, \<open>strtoul\<close>, the conversions of
  \<open>printf\<close> and \<open>sscanf\<close>).

  Forro: \<open>ref/forro.c\<close>; the context is a record of sixteen 32-bit words, blocks are byte lists. Round trip,
  resumption, block counter, and that the rounds permute the states; the locale \<open>block_stream\<close> holds what a
  block cipher in counter mode gives, interpreted on this build and on the traced one. Forro_Debug: \<open>ref/forro-debug.c\<close> and
  \<open>forro-args.c\<close>; the traced build computes the same. Forro_TA: \<open>ta/forro.c\<close>, with the loops over arrays that
  the file writes; it refines the functions of Forro.

  Hexcodec: the conversions between hexadecimal text and bytes and \<open>swapEndian\<close>, copied into nearly every
  program; the locale \<open>wire_codec\<close> is the contract of a text field of a packet, interpreted on
  \<open>wire_put\<close> and \<open>wire_get\<close>. Wire: the packed structures of the packets, the locale \<open>header\<close> of an encoder
  with its decoder, interpreted on all five headers, the operating system as the programs use it (record
  \<open>os\<close>) and the set-up of \<open>libpcap\<close> (record \<open>pcap\<close>).

  Attest: \<open>forro-args-dra.c\<close>, and \<open>dra_proof\<close>, the specification of an attestation proof on which calculator,
  trusted application, service and verifier meet. Dra_TA: \<open>dra_ta.c\<close> over the internal core interface of the
  trusted operating system (record \<open>tee_api\<close>), whose documented behaviour on stored objects is \<open>tee_spec\<close>; the
  state keeps the heap blocks that are not freed, and partial and total correctness rules (\<open>wp\<close>, \<open>tot\<close>) carry
  the proofs. Dra_Host: the client \<open>dra/host/main.c\<close> over the client interface (record \<open>teec\<close>).

  Prover: the service of the device. Database: loading and searching the file of devices; the locale
  \<open>device_search\<close> is the contract of a search, interpreted on the table in memory and on the file. Verifier: the
  verifier. Senders: the programs that send; the locale \<open>sending_loop\<close> holds what their loops share and is
  interpreted on three of them. Reader and Provas: the programs that log, check and repeat. Protocol: the two
  machines of a round, with the commands that the services start as functions of the model. The service on a device starts
  the command of a set-up with \<open>popen\<close> and neither reads from it nor closes it, so it runs in the background (field
  \<open>background\<close> of a \<open>machine\<close>) while the service goes on; \<open>ends\<close> says which commands of the background end before which call of the
  service, and \<open>in_time\<close> that the command of a set-up ends before the next call. The theorems about attestations rest on
  \<open>in_time\<close>; \<open>device_over_capture\<close> says what happens without it. Each command takes effect as a whole: the trusted
  application has one instance with one session at a time. A command that finds it busy fails; such runs are not modelled.

  Network_Order: fields of P4 headers as words, in network order, and their relation to the little-endian
  words of the cipher and to the integers of Python. Switch_Forro: a quarter round as twelve tables, and the
  rules of the script. Switch: headers, parsers, tables, controls, deparsers, one pass of a packet
  (\<open>travessia\<close>), the step relation \<open>sw_step\<close>, and the entries for the devices. Switch_Pass: the result of a pass
  for every kind of packet. Switch_Run: passes in sequence; they compute the cipher, every packet leaves, and
  packets keep their form. Switch_Protocol: the entry of a device and the verdict of the switch on a reply.

  The capture library, in the order in which a packet meets it. Host_Order: integers in the memory of the host and the macros
  that turn them. Bpf: the machine of \<open>bpf_filter.c\<close>, its step as a function and its run as \<open>while_option\<close>, and the check of
  a program; Bpf_Valid: a program that was checked stays inside itself, its memory and the packet, and returns.
  Filter_Gen and Filter_Code: the compiler of \<open>gencode.c\<close> for the expression of the programs, and the layout of the
  program in \<open>optimize.c\<close>, for a handle whose link type is Ethernet; Filter_Correct: it is right for every number of a
  protocol, and where its tests differ from what the manual of the expression says. Linktype and Pseudo_Header: the map
  of link types (\<open>pcap-common.c\<close>) and the turning of pseudo-headers (\<open>pcap-util.c\<close>). Savefile: capture files
  (\<open>sf-pcap.c\<close>, \<open>savefile.c\<close>); Savefile_Safe: the reader stays inside its buffer; Savefile_Roundtrip: what is written is
  read back, in either byte order, whole or cut off, and the loop ends; Capture: files through the compiled filter.
  Live_Open: how a device is opened (\<open>pcap_create\<close>, the setters and \<open>pcap_activate\<close> of \<open>pcap.c\<close>, link type, socket and ring of
  \<open>pcap-linux.c\<close>); whatever the system answers, the result is an error or a ring whose frames are apart and inside of the
  mapping, proved step by step with the predicate \<open>goes_well\<close>.
  Live_Frame: one packet of the ring that the library shares with the kernel (\<open>pcap_handle_packet_mmap\<close> of \<open>pcap-linux.c\<close>:
  cooked headers, CAN frames, vlan tags, filter, direction). Live_Ring: waiting, the reading loops of both versions of the ring,
  \<open>pcap_loop\<close> of a device, the installation of a filter and the other operations of a handle. Live_Queue: the ring is a
  bounded queue of blocks, as the locale \<open>block_queue\<close> states, which is interpreted on it, and what the library counts when it
  installs a filter. Live_Filter: a capture while the kernel fills the ring delivers exactly the packets that match; its invariant
  \<open>capturing\<close> says which blocks are filtered by whom and what became of each frame. Live_Programs: handlers of the programs as
  callbacks, a device over the library, and the opening of a device as the programs do it, up to their handler.

  This theory: whole attestations, with the verifier and with the switch, their verdicts, and a whole run of the
  verifier over many replies.

  Correspondence. A C function is a definition of the same name; \<open>main\<close> is \<open><program>_main\<close>; a C global is a
  field of the record of its program; a block of memory is a byte list of the size of the block, a
  function that may read or write outside a block returns \<open>Inl\<close> with the reason, so a result \<open>Inr\<close> says that
  the run stays inside. Uninitialised memory is a parameter. Command-line arguments are the bytes from the
  argument to the end of the memory behind it. Words keep their width.

  Bounds and fuel. No definition uses fuel. The loops of the programs run over lists or counters and are structural; in their
  models \<open>pcap_loop\<close> is a fold over the packets that arrive, which \<open>capture_runs_handler\<close> relates to the library. The
  passes of the switch are a relation; a packet needs at most 230 of them, a reply 30. The loops of the library that may run
  forever are \<open>partial_function (option)\<close>, and a run of a filter is \<open>while_option\<close>: not to return is the value \<open>None\<close>, and
  the theorems that say what a run gives also say that it returns. For a live capture this needs that it is broken off at some
  time (\<open>ends_at\<close>), which may be any; until then the kernel and \<open>poll\<close> are free.

  What the sources rely on and do not contain is a parameter: the operating system (\<open>os\<close>), in the models of the programs
  the packets that arrive (\<open>pcap\<close>), the trusted operating system (\<open>tee_api\<close>) and the channel to it (\<open>teec\<close>), of the
  chip of the switch which ports lead back and what a header reads as that was not extracted (\<open>asic\<close>), and for the
  library allocation and uninitialised memory (\<open>env\<close>), files as byte lists with a flag for a failing device, the
  reader of the other file format, and the kernel (\<open>kernel\<close>: the blocks it hands over whenever the library looks, and what
  \<open>poll\<close> reports; \<open>filter_calls\<close> and \<open>answers\<close>: the answers of the system calls of an installation and of an opening).
  Theorems that need documented behaviour name it (\<open>roomy\<close>, \<open>sends_all\<close>, \<open>ta_works\<close> with \<open>tee_available\<close> and \<open>tee_writable\<close>, \<open>in_time\<close>, \<open>calculator_ok\<close>, \<open>asic_ok\<close>, \<open>ample\<close>, \<open>plain_link\<close>,
  \<open>packet_ok\<close>, \<open>frame_ok\<close>, \<open>kernel_ok\<close>, \<open>filters_from\<close>, \<open>quiet_until\<close>, \<open>system_ok\<close>, \<open>ethernet_device\<close>, \<open>placed\<close>), and their witnesses give concrete functions for which
  it holds.

  Not modelled: the Python programs that send test packets, the build files, container files and recorded data, the entry
  points of the trusted application that only return success, and of the library: the grammar of filters, the
  primitives other than \<open>ether proto\<close> and the optimizer; monitor mode, lists of devices and their types of time stamps, which are
  sequences of system calls; other operating systems, the second file format, names of hosts and services, and the remote
  daemon, which nothing in the repository uses. Of the third version of the ring, which the programs turn off by asking for
  immediate delivery, the reading loops are modelled and nothing is proved.
\<close>

section \<open>The protocol\<close>

text \<open>C1: the whole of an attestation. The controller loads its file and sends a set-up packet and a request to
  each of \<open>n\<close> devices; each device, with the service, the client and the trusted application, handles its two
  packets and answers with one reply, if the command that its set-up started has ended when the request comes
  (\<open>in_time\<close>; the service does not wait for it); the verifier, with the same file and the replies in the order of
  the devices, sends one packet for each, running the calculator on zeroed memory; and the log of the reader
  on these packets has one line for each device, in order, which names it and shows equal proofs.\<close>

theorem attestation_all_devices:
  fixes q :: "'q proc"
  assumes "sends_all osc" "socket_ok osc (pw q)" "sent q = []"
    and "3 \<le> length argv1" "abrir (cstr (argv1 ! 1)) = Some (arquivo_de es)" "list_all wf_texto es"
      "length es \<le> 1000000" "n = quantidade 3 200 1000000 argv1" "n \<le> length es"
    and "3 \<le> length argv2" "length (argv2 ! 2) = 32" "quantidade 3 200 1000000 argv2 = n"
    and "0 < n" "n \<le> 20000" "\<forall>e\<in>set (take n es). device_credentials (chave e) (id_dispositivo e)"
    and "\<forall>i<n. ta_works api v (old i) (tail i) (tc i) \<and> stack_ok (stk i) \<and> sent (pproc (st i)) = [] \<and>
      background (pw (pproc (st i))) = [] \<and> in_time (ends i) (pw (pproc (st i)))"
    and "calculator_ok e env'" "sent p = []" "length argv3 = 4" "abrir (cstr (argv3 ! 1)) = Some (arquivo_de es)"
      "ucast (strtoul 10 (argv3 ! 3)) = (of_nat n :: u32)" "roomy hp"
  shows "\<exists>sp sr sts reply. envia_setup_main osc abrir argv1 q = Inr sp \<and> envia_pedidos_host_main osc argv2 q = Inr sr \<and>
    (\<forall>i<n. pcap_loop (packet_handler (device_os (tc i) (stk i) (env i) (ends i)))
        [snd (sent (sproc sp) ! i), snd (sent sr ! i)] (st i) = Inr (sts i) \<and>
      sent (pproc (sts i)) = [(device_mac i, reply i)]) \<and>
    (\<forall>cap rest. pcap_setup cap \<and> captured cap SNAP_LEN filter_exp = map reply [0..<n] @ rest \<longrightarrow>
      (\<exists>vt lt linhas. verifica_main (calculator_os e env') cap abrir argv3 p = Inr (0, vt) \<and>
        pcap_loop (packet_handler_le relogio hp) (map snd (sent (vproc vt))) leitor = Inr lt \<and>
        saida lt = saida leitor @ concat linhas \<and> length linhas = n \<and>
        (\<forall>i<n. campos (linhas ! i) ! 5 = hex_text (wire_put (id_dispositivo (es ! i))) \<and>
          campos (linhas ! i) ! 6 = campos (linhas ! i) ! 7)))"
proof -
  let ?r = "wire_put (argv2 ! 2)" and ?keys = "take n (map chave es)"
  let ?rs = "map (\<lambda>i. honest i ?r (es ! i)) [0..<n]"
  have r: "length ?r = 16" using assms(11) by (simp add: width)
  have c: "device_credentials (chave (es ! i)) (id_dispositivo (es ! i))" if "i < n" for i
    using assms(9,15) that by (force simp: in_set_conv_nth)
  obtain sp sr where 1: "envia_setup_main osc abrir argv1 q = Inr sp" "envia_pedidos_host_main osc argv2 q = Inr sr"
    "\<forall>i<n. [snd (sent (sproc sp) ! i), snd (sent sr ! i)] =
      [setup_packet (device_mac i) mac_controlador (replicate 16 0) (wire_put (chave (es ! i)))
        (wire_put (id_dispositivo (es ! i))), request_packet (device_mac i) mac_controlador ?r]"
    using controller_packets [where es = es and abrir = abrir and ?argv1.0 = argv1, OF assms(1-12)] by blast
  have "\<exists>st'. pcap_loop (packet_handler (device_os (tc i) (stk i) (env i) (ends i)))
        [snd (sent (sproc sp) ! i), snd (sent sr ! i)] (st i) = Inr st' \<and>
      sent (pproc st') = [(device_mac i, reply_of (honest i ?r (es ! i)))]" if "i < n" for i
    using device_answers [of api v "old i" "tail i" "tc i" "stk i" "st i" ?r "es ! i" "ends i"] assms(16) r c [OF that] that 1(3)
    by simp
  then obtain sts where 2: "\<forall>i<n. pcap_loop (packet_handler (device_os (tc i) (stk i) (env i) (ends i)))
        [snd (sent (sproc sp) ! i), snd (sent sr ! i)] (st i) = Inr (sts i) \<and>
      sent (pproc (sts i)) = [(device_mac i, reply_of (honest i ?r (es ! i)))]" by metis
  have l: "length ?keys = n" "length ?rs = n" using assms(9) by simp_all
  have at: "\<forall>i<n. ?keys ! i = chave (es ! i) \<and> ?rs ! i = honest i ?r (es ! i)" using assms(9) by simp
  have w: "list_all2 wf_arrival ?keys ?rs"
    using l at c wf_honest [OF _ r] by (simp add: list_all2_conv_all_nth)
  have 3: "\<exists>vt lt linhas. verifica_main (calculator_os e env') cap abrir argv3 p = Inr (0, vt) \<and>
        pcap_loop (packet_handler_le relogio hp) (map snd (sent (vproc vt))) leitor = Inr lt \<and>
        saida lt = saida leitor @ concat linhas \<and> length linhas = n \<and>
        (\<forall>i<n. campos (linhas ! i) ! 5 = hex_text (wire_put (id_dispositivo (es ! i))) \<and>
          campos (linhas ! i) ! 6 = campos (linhas ! i) ! 7)"
    if cap: "pcap_setup cap" "captured cap SNAP_LEN filter_exp = map reply_of ?rs @ rest" for cap rest
    using verifica_run_logged [where es = es and abrir = abrir and argv = argv3, OF assms(17,18) cap(1) assms(19,20,6,7,21,13,14,9)
        cap(2) l(2) refl w assms(22), of relogio leitor] honest_lines [OF _ l at] by blast
  show ?thesis
    using 1(1,2) 2 3 by (intro exI [of _ sp] exI [of _ sr] exI [of _ sts]
      exI [of _ "\<lambda>i. reply_of (honest i ?r (es ! i))"]) (simp add: comp_def)
qed

text \<open>One device at a time, with a verifier that has any state in which it is this device's turn.\<close>

lemma attestation_round:
  fixes q :: "'q proc"
  assumes "sends_all osc" "socket_ok osc (pw q)" "sent q = []"
    and "3 \<le> length argv1" "abrir (cstr (argv1 ! 1)) = Some (arquivo_de es)" "list_all wf_texto es"
      "length es \<le> 1000000" "n = quantidade 3 200 1000000 argv1" "n \<le> length es"
    and "3 \<le> length argv2" "length (argv2 ! 2) = 32" "quantidade 3 200 1000000 argv2 = n"
    and "i < n" "i < 20000" "key = chave (es ! i)" "idd = id_dispositivo (es ! i)"
      "device_credentials key idd"
    and "ta_works api v old tail tc" "stack_ok stk" "sent (pproc st) = []" "background (pw (pproc st)) = []"
      "in_time ends (pw (pproc st))"
    and "calculator_ok e env'" "dados vt = es @ replicate (1000000 - length es) zero_entry"
      "contador_pacotes vt = of_nat i"
  shows "\<exists>sp sr st' reply vt' prv. envia_setup_main osc abrir argv1 q = Inr sp \<and>
    envia_pedidos_host_main osc argv2 q = Inr sr \<and>
    pcap_loop (packet_handler (device_os tc stk env ends))
      [snd (sent (sproc sp) ! i), snd (sent sr ! i)] st = Inr st' \<and>
    sent (pproc st') = [(device_mac i, reply)] \<and>
    packet_handler_verifica (calculator_os e env') reply vt = Inr vt' \<and>
    sent (vproc vt') = sent (vproc vt) @ [(mac_controlador,
      verif_packet (device_mac i) mac_controlador (wire_put (argv2 ! 2)) (wire_put idd) prv prv)]"
proof -
  let ?r = "wire_put (argv2 ! 2)"
  obtain sp sr where 1: "envia_setup_main osc abrir argv1 q = Inr sp" "envia_pedidos_host_main osc argv2 q = Inr sr"
    "\<forall>i<n. [snd (sent (sproc sp) ! i), snd (sent sr ! i)] =
      [setup_packet (device_mac i) mac_controlador (replicate 16 0) (wire_put (chave (es ! i)))
        (wire_put (id_dispositivo (es ! i))), request_packet (device_mac i) mac_controlador ?r]"
    using controller_packets [where es = es and abrir = abrir and ?argv1.0 = argv1, OF assms(1-12)] by blast
  have c: "device_credentials (chave (es ! i)) (id_dispositivo (es ! i))" using assms(15-17) by simp
  have r: "length ?r = 16" using assms(11) by (simp add: width)
  obtain st' where st': "pcap_loop (packet_handler (device_os tc stk env ends))
      [snd (sent (sproc sp) ! i), snd (sent sr ! i)] st = Inr st'"
    "sent (pproc st') = [(device_mac i, reply_of (honest i ?r (es ! i)))]"
    using device_answers [OF assms(18-20) r c assms(21,22), of env i] 1(3) assms(13) by auto
  have "unat (contador_pacotes vt) mod 20000 = i"
    using assms(14) by (simp add: assms(25) unat_of_nat)
  then have k: "chave (dados vt ! (unat (contador_pacotes vt) mod 20000)) = key"
    using assms(9,13) by (simp add: assms(15,24) nth_append)
  have l: "length mac_controlador = 6" "length (device_mac i) = 6" "length (expected_proof key idd ?r) = 64"
    by (simp_all add: expected_proof_def width proof_text device_mac_def mac_host_def mac_controlador_def)
  from verifier_checks [OF assms(23,17) l(1,2) r l(3) k]
  show ?thesis using 1(1,2) st' assms(15,16) by (auto simp: honest_def)
qed

text \<open>C2: the verdict. Whatever proof a reply carries, and with a calculator that starts on zeroed memory, the packet that the
  verifier sends leads to a line in
  the log of the reader in which calculated and received proof are equal exactly when the reply carries
  the proof of the key at the verifier's position in the table for this device and this round.\<close>

theorem verdict_is_expected_proof:
  assumes "calculator_ok e env" "device_credentials key idd"
    and "length d = 6" "length s = 6" "length r = 16" "length prv = 64"
    and "chave (dados vt ! (unat (contador_pacotes vt) mod 20000)) = key" "roomy hp"
  shows "\<exists>vt' packet st' linha. packet_handler_verifica (calculator_os e env)
      (reply_packet d s r (wire_put idd) prv) vt = Inr vt' \<and>
    sent (vproc vt') = sent (vproc vt) @ [(d, packet)] \<and>
    packet_handler_le relogio hp packet st = Inr st' \<and> saida st' = saida st @ linha \<and>
    (campos linha ! 6 = campos linha ! 7 \<longleftrightarrow> prv = expected_proof key idd r)"
proof -
  let ?pk = "verif_packet s d r (wire_put idd) (expected_proof key idd r) prv"
  obtain vt' where vt': "packet_handler_verifica (calculator_os e env)
      (reply_packet d s r (wire_put idd) prv) vt = Inr vt'" "sent (vproc vt') = sent (vproc vt) @ [(d, ?pk)]"
    using verifier_checks [OF assms(1-7)] by blast
  have l: "length (wire_put idd) = 16" "length (expected_proof key idd r) = 64"
    using assms(2) by (simp_all add: device_credentials_def expected_proof_def width proof_text)
  obtain st' where st': "packet_handler_le relogio hp ?pk st = Inr st'"
    using logs_verificacao [OF assms(8,4,3,5) l(1) assms(6) l(2)] by blast
  from verdict_line [OF assms(8,4,3,5) l(1) assms(6) l(2) this] show ?thesis
    using vt' st' by auto
qed

text \<open>C4: one round with the switch as the verifier. The host of a device, with the client and the trusted
  application behind it, handles a set-up packet and, when the command of the set-up has ended, a request and answers with
  one reply; the switch, with
  the tables for a file of devices that holds the key and the identifier of the set-up packet, sends this
  reply to the controller as a packet whose calculated and received proofs are the same.\<close>

theorem attestation_by_switch:
  assumes "ta_works api v old tail tc" "stack_ok stk" "sent (pproc st) = []"
    and "background (pw (pproc st)) = []" "in_time ends (pw (pproc st))"
    and "length d = 6" "length s = 6" "length r0 = 16" "length r = 16"
    and "asic_ok a" "\<forall>e\<in>set es. device_credentials (chave e) (id_dispositivo e)"
      "distinct (map id_dispositivo es)" "length es \<le> 20000" "e \<in> set es"
      "setup_switch (map linha_de es) = Some tb"
  shows "\<exists>st' reply prv. pcap_loop (packet_handler (device_os tc stk env ends))
      [setup_packet d s r0 (wire_put (chave e)) (wire_put (id_dispositivo e)), request_packet d s r] st = Inr st' \<and>
    sent (pproc st') = [(d, reply)] \<and>
    (\<forall>t. sw_ends a tb reply t \<longleftrightarrow> t = Saiu 1 (verif_packet s d r (wire_put (id_dispositivo e)) prv prv))"
proof -
  let ?p = "expected_proof (chave e) (id_dispositivo e) r"
  have c: "device_credentials (chave e) (id_dispositivo e)" using assms(11,14) by blast
  have "length ?p = 64" by (simp add: expected_proof_def width proof_text)
  then have "sw_ends a tb (reply_packet s d r (wire_put (id_dispositivo e)) ?p) t \<longleftrightarrow>
      t = Saiu 1 (verif_packet s d r (wire_put (id_dispositivo e)) ?p ?p)" for t
    using switch_decides [OF assms(10-14,7,6,9) _ assms(15)] by simp
  then show ?thesis using device_replies [OF assms(1) c assms(2,6,7,8,9,3,4) c, of ends env] assms(5) by simp blast
qed


section \<open>A concrete round\<close>

definition calculator_example :: cli_env where
  "calculator_example = cli_env_example\<lparr>old_configuracao := replicate 32 0\<rparr>"

lemma calculator_example_ok: "calculator_ok calculator_example (replicate 62 0)"
  using cli_example(1,2)
  by (simp add: calculator_ok_def calculator_example_def cli_env_example_def wf_cli_env_def cli_stack_ok_def)

lemma credentials_example: "device_credentials (replicate 64 49) (replicate 32 49)"
  by (simp add: device_credentials_def list_all_iff lower_hex_def)


definition vt_example :: "unit verifier" where
  "vt_example = \<lparr>vproc = proc_example, contador_pacotes = 0, total_pacotes = 1,
     dados = entry_example 49 # replicate 999999 zero_entry, broke = False\<rparr>"

theorem attestation_all_devices_witness:
  "\<exists>sp sr st' reply vt lt linhas. envia_setup_main (os_example []) (\<lambda>_. Some (arquivo_de [entry_example 49]))
      [[], [0], [], [49, 0]] proc_example = Inr sp \<and>
    envia_pedidos_host_main (os_example []) [[], [], replicate 32 50, [49, 0]] proc_example = Inr sr \<and>
    pcap_loop (packet_handler (device_os mem_teec stack_example [] (\<lambda>_. [0])))
      [snd (sent (sproc sp) ! 0), snd (sent sr ! 0)]
      \<lparr>pproc = \<lparr>pw = machine_example [], sent = [], ran = []\<rparr>, id_dispositivo_hex = None\<rparr> = Inr st' \<and>
    sent (pproc st') = [(device_mac 0, reply)] \<and>
    verifica_main (calculator_os calculator_example (replicate 62 0))
      (pcap_example\<lparr>captured := \<lambda>_ _. [reply]\<rparr>) (\<lambda>_. Some (arquivo_de [entry_example 49]))
      [[], [0], [], [49, 0]] proc_example = Inr (0, vt) \<and>
    pcap_loop (packet_handler_le (\<lambda>_. 7) (malloc (os_example []))) (map snd (sent (vproc vt)))
      \<lparr>saida = [], chave_lida = None, id_lido = None, leituras = 0\<rparr> = Inr lt \<and>
    saida lt = concat linhas \<and> length linhas = 1 \<and> campos (linhas ! 0) ! 5 = hex_text (wire_put (replicate 32 49)) \<and>
    campos (linhas ! 0) ! 6 = campos (linhas ! 0) ! 7"
proof -
  let ?abrir = "\<lambda>_. Some (arquivo_de [entry_example 49])" and ?argv = "[[], [0], [], [49, 0]]"
    and ?ler = "packet_handler_le (\<lambda>_. 7) (malloc (os_example []))" and ?os = "calculator_os calculator_example (replicate 62 0)"
  let ?st = "\<lparr>pproc = \<lparr>pw = machine_example [], sent = [], ran = []\<rparr>, id_dispositivo_hex = None\<rparr>"
    and ?leitor = "\<lparr>saida = [], chave_lida = None, id_lido = None, leituras = 0\<rparr>"
  have "\<exists>sp sr sts reply. envia_setup_main (os_example []) ?abrir ?argv proc_example = Inr sp \<and>
    envia_pedidos_host_main (os_example []) [[], [], replicate 32 50, [49, 0]] proc_example = Inr sr \<and>
    (\<forall>i<1. pcap_loop (packet_handler (device_os mem_teec stack_example [] (\<lambda>_. [0])))
        [snd (sent (sproc sp) ! i), snd (sent sr ! i)] ?st = Inr (sts i) \<and>
      sent (pproc (sts i)) = [(device_mac i, reply i)]) \<and>
    (\<forall>cap rest. pcap_setup cap \<and> captured cap SNAP_LEN filter_exp = map reply [0..<1] @ rest \<longrightarrow>
      (\<exists>vt lt linhas. verifica_main ?os cap ?abrir ?argv proc_example = Inr (0, vt) \<and>
        pcap_loop ?ler (map snd (sent (vproc vt))) ?leitor = Inr lt \<and>
        saida lt = saida ?leitor @ concat linhas \<and> length linhas = 1 \<and>
        (\<forall>i<1. campos (linhas ! i) ! 5 = hex_text (wire_put (id_dispositivo ([entry_example 49] ! i))) \<and>
          campos (linhas ! i) ! 6 = campos (linhas ! i) ! 7)))"
  proof (rule attestation_all_devices [OF sends_all_example])
    show "\<forall>i<1. ta_works mem_tee mem_view (replicate 16 0) [0] mem_teec \<and> stack_ok stack_example \<and> sent (pproc ?st) = [] \<and>
        background (pw (pproc ?st)) = [] \<and> in_time (\<lambda>_. [0]) (pw (pproc ?st))"
      by (simp add: mem_ta_works stack_ok_def stack_example_def machine_example_idle)
    show "\<forall>e\<in>set (take 1 [entry_example 49]). device_credentials (chave e) (id_dispositivo e)"
      by (simp add: entry_example_def credentials_example)
    show "list_all wf_texto [entry_example 49]" by (simp add: wf_texto_example)
    show "calculator_ok calculator_example (replicate 62 0)" by (rule calculator_example_ok)
    show "roomy (malloc (os_example []))" by (rule roomy_example)
  qed (simp_all add: os_example_def proc_example_def quantidade_def strtoul_example)
  then obtain sp sr sts reply where 1: "envia_setup_main (os_example []) ?abrir ?argv proc_example = Inr sp"
    "envia_pedidos_host_main (os_example []) [[], [], replicate 32 50, [49, 0]] proc_example = Inr sr"
    "\<forall>i<1. pcap_loop (packet_handler (device_os mem_teec stack_example [] (\<lambda>_. [0])))
        [snd (sent (sproc sp) ! i), snd (sent sr ! i)] ?st = Inr (sts i) \<and>
      sent (pproc (sts i)) = [(device_mac i, reply (i::nat))]"
    and 2: "\<forall>cap rest. pcap_setup cap \<and> captured cap SNAP_LEN filter_exp = map reply [0..<1] @ rest \<longrightarrow>
      (\<exists>vt lt linhas. verifica_main ?os cap ?abrir ?argv proc_example = Inr (0, vt) \<and>
        pcap_loop ?ler (map snd (sent (vproc vt))) ?leitor = Inr lt \<and>
        saida lt = saida ?leitor @ concat linhas \<and> length linhas = 1 \<and>
        (\<forall>i<1. campos (linhas ! i) ! 5 = hex_text (wire_put (id_dispositivo ([entry_example 49] ! i))) \<and>
          campos (linhas ! i) ! 6 = campos (linhas ! i) ! 7))"
    by (elim exE conjE) (rule that)
  have "pcap_setup (pcap_example\<lparr>captured := \<lambda>_ _. [reply 0]\<rparr>)" by (simp add: pcap_setup_def pcap_example_def)
  then obtain vt lt linhas where "verifica_main ?os (pcap_example\<lparr>captured := \<lambda>_ _. [reply 0]\<rparr>) ?abrir ?argv proc_example = Inr (0, vt)"
    "pcap_loop ?ler (map snd (sent (vproc vt))) ?leitor = Inr lt" "saida lt = saida ?leitor @ concat linhas" "length linhas = 1"
    "\<forall>i<1. campos (linhas ! i) ! 5 = hex_text (wire_put (id_dispositivo ([entry_example 49] ! i))) \<and>
      campos (linhas ! i) ! 6 = campos (linhas ! i) ! 7"
    using 2 [rule_format, of "pcap_example\<lparr>captured := \<lambda>_ _. [reply 0]\<rparr>" "[]"] by auto
  then show ?thesis using 1 by (intro exI conjI) (assumption | simp add: entry_example_def)+
qed

theorem verdict_is_expected_proof_witness:
  "\<exists>vt' packet st' linha. packet_handler_verifica (calculator_os calculator_example (replicate 62 0))
      (reply_packet (replicate 6 1) (replicate 6 2) (replicate 16 3) (wire_put (replicate 32 49))
        (replicate 64 7)) vt_example = Inr vt' \<and>
    sent (vproc vt') = sent (vproc vt_example) @ [(replicate 6 1, packet)] \<and>
    packet_handler_le (\<lambda>_. 7) (malloc (os_example [])) packet
      \<lparr>saida = [], chave_lida = None, id_lido = None, leituras = 0\<rparr> = Inr st' \<and> saida st' = [] @ linha \<and>
    (campos linha ! 6 = campos linha ! 7 \<longleftrightarrow>
      replicate 64 7 = expected_proof (replicate 64 49) (replicate 32 49) (replicate 16 3))"
  using verdict_is_expected_proof [OF calculator_example_ok credentials_example, where vt = vt_example and
      d = "replicate 6 1" and s = "replicate 6 2" and r = "replicate 16 3" and prv = "replicate 64 7" and
      hp = "malloc (os_example [])" and relogio = "\<lambda>_. 7" and
      st = "\<lparr>saida = [], chave_lida = None, id_lido = None, leituras = 0\<rparr>"]
  by (simp add: vt_example_def entry_example_def roomy_example)

theorem attestation_by_switch_witness:
  "\<exists>st' reply prv. pcap_loop (packet_handler (device_os mem_teec stack_example [] (\<lambda>_. [0])))
      [setup_packet (replicate 6 1) (replicate 6 2) (replicate 16 0) (wire_put (chave (entry_example 49)))
        (wire_put (id_dispositivo (entry_example 49))), request_packet (replicate 6 1) (replicate 6 2) (replicate 16 3)]
      \<lparr>pproc = \<lparr>pw = machine_example [], sent = [], ran = []\<rparr>, id_dispositivo_hex = None\<rparr> = Inr st' \<and>
    sent (pproc st') = [(replicate 6 1, reply)] \<and>
    (\<forall>t. sw_ends asic_example (install (map (\<lambda>e. entry_for (chave e) (id_dispositivo e)) [entry_example 49])) reply t \<longleftrightarrow>
      t = Saiu 1 (verif_packet (replicate 6 2) (replicate 6 1) (replicate 16 3)
        (wire_put (id_dispositivo (entry_example 49))) prv prv))"
  by (rule attestation_by_switch [OF mem_ta_works _ _ _ _ _ _ _ _ asic_example_ok file_example])
    (simp_all add: machine_example_idle stack_ok_def stack_example_def setup_switch_file [OF file_example, simplified])


end
